(* ===== verification/Nevr_Prelude.thy ===== *)
theory Nevr_Prelude
  imports Main "HOL-Library.Word"
begin

section \<open>Prelude: types, byte strings, searches, results and step systems\<close>

text \<open>
  What every component shares: the machine types, byte strings, the little-endian readers, the
  two searches of \<^verbatim>\<open>std::string_view\<close> the parsers use, the result type of a step that
  can refuse, and step systems with their reachable states.

  A \<^verbatim>\<open>std::string\<close>, a \<^verbatim>\<open>std::string_view\<close> and a \<^verbatim>\<open>std::vector<uint8_t>\<close> are byte lists;
  a literal of the source is \<open>bytes_of ''...''\<close>.
\<close>

unbundle bit_operations_syntax

type_synonym u8 = "8 word"
type_synonym u16 = "16 word"
type_synonym u32 = "32 word"
type_synonym u64 = "64 word"
type_synonym bytes = "8 word list"

named_theorems byte_simps \<open>reading bytes and joining them into integers\<close>
named_theorems find_rules \<open>facts about the substring and character searches\<close>

definition bytes_of :: "string \<Rightarrow> bytes" where
  "bytes_of s = map of_char s"

lemma length_bytes_of [simp]: "length (bytes_of s) = length s"
  by (simp add: bytes_of_def)

subsection \<open>Results of a step that can refuse\<close>

text \<open>
  \<^verbatim>\<open>struct Status\<close>: a refusal carries a stable code. The free-text \<^verbatim>\<open>detail\<close>, which is for the
  reader of a log, is not modelled.
\<close>

datatype failure = Fail (code: string)

type_synonym 'a res = "failure + 'a"

definition res_bind :: "'a res \<Rightarrow> ('a \<Rightarrow> 'b res) \<Rightarrow> 'b res" where
  "res_bind m f = (case m of Inl e \<Rightarrow> Inl e | Inr v \<Rightarrow> f v)"

lemma res_bind_simps [simp]:
  "res_bind (Inl e) f = Inl e"
  "res_bind (Inr v) f = f v"
  by (simp_all add: res_bind_def)

lemma res_bind_Inr_iff: "res_bind m f = Inr w \<longleftrightarrow> (\<exists>v. m = Inr v \<and> f v = Inr w)"
  by (cases m) simp_all

lemma res_bind_cong [fundef_cong]:
  "m = m' \<Longrightarrow> (\<And>v. m' = Inr v \<Longrightarrow> f v = g v) \<Longrightarrow> res_bind m f = res_bind m' g"
  by (cases m') simp_all

subsection \<open>Joining bytes\<close>

lemma or_push_add:
  fixes a b :: "'a::len word"
  assumes "\<And>i. bit b i \<Longrightarrow> i < n"
  shows "b OR push_bit n a = b + push_bit n a"
proof -
  have "b AND push_bit n a = 0"
  proof (rule bit_eqI)
    fix i
    show "bit (b AND push_bit n a) i \<longleftrightarrow> bit 0 i"
      using assms [of i] by (auto simp: bit_and_iff bit_push_bit_iff)
  qed
  then show ?thesis
    by (simp add: disjunctive_add_eq_or)
qed

lemma bit_ucast_u8: "bit (ucast (b :: u8) :: 'a::len word) i \<Longrightarrow> i < 8"
  by (auto simp: bit_ucast_iff dest: bit_imp_le_length)

definition le16 :: "bytes \<Rightarrow> nat \<Rightarrow> u32" where
  "le16 p i = ucast (p ! i) OR push_bit 8 (ucast (p ! (i + 1)))"

definition le32 :: "bytes \<Rightarrow> nat \<Rightarrow> u32" where
  "le32 p i = le16 p i OR push_bit 16 (le16 p (i + 2))"

lemma unat_u8_less: "unat (b :: u8) < 256"
  using unsigned_less [of b] by simp

lemma unat_u8_le: "unat (b :: u8) \<le> 255"
  using unat_u8_less [of b] by linarith

lemma unat_ucast_u8_u32 [byte_simps]: "unat (ucast (b :: u8) :: u32) = unat b"
  using unat_u8_le [of b] by (simp add: unsigned_ucast_eq take_bit_eq_mod)

lemma unat_le16 [byte_simps]: "unat (le16 p i) = unat (p ! i) + 256 * unat (p ! (i + 1))"
proof -
  have "le16 p i = ucast (p ! i) + 256 * ucast (p ! (i + 1))"
    unfolding le16_def by (subst or_push_add) (auto simp: push_bit_eq_mult dest: bit_ucast_u8)
  then show ?thesis
    using unat_u8_le [of "p ! i"] unat_u8_le [of "p ! (i + 1)"]
    by (simp only: unat_word_ariths unat_ucast_u8_u32) simp
qed

lemma unat_le16_less: "unat (le16 p i) < 65536"
proof -
  have "unat (p ! i) \<le> 255" "unat (p ! (i + 1)) \<le> 255"
    by (rule unat_u8_le)+
  then show ?thesis
    unfolding unat_le16 by linarith
qed

lemma bit_le16: "bit (le16 p i) j \<Longrightarrow> j < 16"
  by (auto simp: le16_def bit_or_iff bit_push_bit_iff dest!: bit_ucast_u8)

lemma unat_le32 [byte_simps]:
  "unat (le32 p i) = unat (p ! i) + 256 * unat (p ! (i + 1))
     + 65536 * unat (p ! (i + 2)) + 16777216 * unat (p ! (i + 3))"
proof -
  have "le32 p i = le16 p i + 65536 * le16 p (i + 2)"
    unfolding le32_def by (subst or_push_add) (auto simp: push_bit_eq_mult dest: bit_le16)
  then have "unat (le32 p i) = unat (le16 p i) + 65536 * unat (le16 p (i + 2))"
    using unat_le16_less [of p i] unat_le16_less [of p "i + 2"]
    by (simp only: unat_word_ariths) simp
  then show ?thesis
    by (simp add: unat_le16 algebra_simps numeral_3_eq_3)
qed

lemma unat_le32_less: "unat (le32 p i) < 4294967296"
  using unsigned_less [of "le32 p i"] by simp

subsection \<open>The searches of a string view\<close>

text \<open>
  \<^verbatim>\<open>s.find(c)\<close> and \<^verbatim>\<open>s.find(pattern)\<close>: the first index, \<open>None\<close> for \<^verbatim>\<open>npos\<close>.
\<close>

fun find_ch :: "'a \<Rightarrow> 'a list \<Rightarrow> nat option" where
  "find_ch c [] = None"
| "find_ch c (x # xs) = (if x = c then Some 0 else map_option Suc (find_ch c xs))"

fun find_sub :: "'a list \<Rightarrow> 'a list \<Rightarrow> nat option" where
  "find_sub p [] = (if p = [] then Some 0 else None)"
| "find_sub p (x # xs) =
     (if take (length p) (x # xs) = p then Some 0 else map_option Suc (find_sub p xs))"

lemma find_ch_None [find_rules]: "find_ch c xs = None \<longleftrightarrow> c \<notin> set xs"
  by (induction xs) auto

lemma find_ch_Some [find_rules]:
  "find_ch c xs = Some i \<Longrightarrow> i < length xs \<and> xs ! i = c \<and> c \<notin> set (take i xs)"
  by (induction xs arbitrary: i) (auto split: if_splits)

lemma find_ch_append: "c \<notin> set xs \<Longrightarrow> find_ch c (xs @ c # ys) = Some (length xs)"
  by (induction xs) auto

lemma find_sub_Some [find_rules]:
  "find_sub p xs = Some i \<Longrightarrow> take (length p) (drop i xs) = p \<and> i + length p \<le> length xs"
proof (induction xs arbitrary: i)
  case Nil
  then show ?case by (auto split: if_splits)
next
  case (Cons x xs)
  show ?case
  proof (cases "take (length p) (x # xs) = p")
    case True
    with Cons.prems have "i = 0" by simp
    moreover have "length p \<le> length (x # xs)"
      using True by (metis length_take min.cobounded1)
    ultimately show ?thesis using True by simp
  next
    case False
    with Cons.prems obtain j where "i = Suc j" "find_sub p xs = Some j"
      by (auto split: if_splits)
    with Cons.IH [of j] show ?thesis by simp
  qed
qed

lemma find_sub_le: "find_sub p xs = Some i \<Longrightarrow> i + length p \<le> length xs"
  by (drule find_sub_Some) simp

lemma find_sub_append: "find_sub p xs = Some i \<Longrightarrow> find_sub p (xs @ ys) = Some i"
proof (induction xs arbitrary: i)
  case Nil
  then show ?case by (cases ys) (auto split: if_splits)
next
  case (Cons x xs)
  show ?case
  proof (cases "take (length p) (x # xs) = p")
    case True
    then have "length p \<le> length (x # xs)" by (metis length_take min.cobounded1)
    then have "take (length p) (x # xs @ ys) = take (length p) (x # xs)"
      by (metis append_Cons append.right_neutral diff_is_0_eq take_0 take_append)
    with True Cons.prems show ?thesis by simp
  next
    case False
    with Cons.prems obtain j where j: "i = Suc j" "find_sub p xs = Some j"
      by (auto split: if_splits)
    have "\<not> take (length p) (x # xs @ ys) = p"
    proof
      assume hit: "take (length p) (x # xs @ ys) = p"
      have "length p \<le> length (x # xs)"
        using find_sub_le [OF j(2)] by simp
      then have "take (length p) (x # xs @ ys) = take (length p) (x # xs)"
        by (metis append_Cons append.right_neutral diff_is_0_eq take_0 take_append)
      with hit False show False by simp
    qed
    with j Cons.IH show ?thesis by simp
  qed
qed

text \<open>Two ways to split at the same separator, the first part of one free of it.\<close>

lemma split_at_first:
  assumes "as @ c # bs = xs @ c # ys" and "c \<notin> set xs"
  shows "(as = xs \<and> bs = ys) \<or> (\<exists>zs. as = xs @ c # zs \<and> ys = zs @ c # bs)"
proof -
  from assms(1) obtain us where "(as @ us = xs \<and> c # bs = us @ c # ys) \<or> (as = xs @ us \<and> us @ c # bs = c # ys)"
    by (auto simp: append_eq_append_conv2)
  with assms(2) show ?thesis
    by (cases us) auto
qed

subsection \<open>Letters\<close>

text \<open>\<^verbatim>\<open>std::tolower\<close> on a byte, in the C locale.\<close>

definition to_lower :: "u8 \<Rightarrow> u8" where
  "to_lower c = (if 0x41 \<le> c \<and> c \<le> 0x5A then c + 0x20 else c)"

subsection \<open>Decimal text\<close>

text \<open>\<^verbatim>\<open>std::to_string\<close> of an unsigned number, and the value of a text of digits.\<close>

fun decimal :: "nat \<Rightarrow> bytes" where
  "decimal n = (if n < 10 then [0x30 + word_of_nat n] else decimal (n div 10) @ [0x30 + word_of_nat (n mod 10)])"

declare decimal.simps [simp del]

definition decimal_value :: "bytes \<Rightarrow> nat" where
  "decimal_value s = foldl (\<lambda>v c. v * 10 + (unat c - 48)) 0 s"

lemma unat_digit: "d < 10 \<Longrightarrow> unat (0x30 + word_of_nat d :: u8) = 48 + d"
  by (simp add: unat_word_ariths unat_of_nat)

lemma decimal_value_decimal: "decimal_value (decimal n) = n"
proof (induction n rule: decimal.induct)
  case (1 n)
  show ?case
  proof (cases "n < 10")
    case True
    then show ?thesis by (subst decimal.simps) (simp add: decimal_value_def unat_digit)
  next
    case False
    have "unat (0x30 + word_of_nat (n mod 10) :: u8) = 48 + n mod 10" by (rule unat_digit) simp
    with 1 False show ?thesis
      by (subst decimal.simps) (simp add: decimal_value_def)
  qed
qed

lemma decimal_inject: "decimal m = decimal n \<longleftrightarrow> m = n"
  by (metis decimal_value_decimal)

subsection \<open>Step systems\<close>

text \<open>
  The states a step relation reaches, and the principle every invariant of a component with
  several threads or events rests on. Components interpret \<open>step_system\<close> with their own
  step relation and their own invariant.
\<close>

inductive reach :: "('s \<Rightarrow> bool) \<Rightarrow> ('s \<Rightarrow> 's \<Rightarrow> bool) \<Rightarrow> 's \<Rightarrow> bool"
  for ini :: "'s \<Rightarrow> bool" and step :: "'s \<Rightarrow> 's \<Rightarrow> bool" where
  reach_init: "ini s \<Longrightarrow> reach ini step s"
| reach_step: "reach ini step s \<Longrightarrow> step s t \<Longrightarrow> reach ini step t"

locale step_system =
  fixes ini :: "'s \<Rightarrow> bool"
    and step :: "'s \<Rightarrow> 's \<Rightarrow> bool"
    and inv :: "'s \<Rightarrow> bool"
  assumes ini_inv: "ini s \<Longrightarrow> inv s"
    and step_inv: "inv s \<Longrightarrow> step s t \<Longrightarrow> inv t"
begin

lemma reach_inv: "reach ini step s \<Longrightarrow> inv s"
  by (induction rule: reach.induct) (auto intro: ini_inv step_inv)

lemma steps_inv: "step\<^sup>*\<^sup>* s t \<Longrightarrow> inv s \<Longrightarrow> inv t"
  by (induction rule: rtranclp_induct) (auto intro: step_inv)

end

text \<open>
  A component driven by one caller at a time is a function on its state; a run folds it over the
  calls. The same principle, for runs.
\<close>

locale fold_system =
  fixes step :: "'e \<Rightarrow> 's \<Rightarrow> 's"
    and inv :: "'s \<Rightarrow> bool"
  assumes fold_step_inv: "inv s \<Longrightarrow> inv (step e s)"
begin

lemma fold_inv: "inv s \<Longrightarrow> inv (fold step es s)"
  by (induction es arbitrary: s) (auto intro: fold_step_inv)

end

text \<open>The same for a caller bound to a contract: \<open>ok e s\<close> says call \<open>e\<close> may be made in state \<open>s\<close>.\<close>

fun admissible :: "('e \<Rightarrow> 's \<Rightarrow> 's) \<Rightarrow> ('e \<Rightarrow> 's \<Rightarrow> bool) \<Rightarrow> 'e list \<Rightarrow> 's \<Rightarrow> bool" where
  "admissible step ok [] s \<longleftrightarrow> True"
| "admissible step ok (e # es) s \<longleftrightarrow> ok e s \<and> admissible step ok es (step e s)"

locale contract_system =
  fixes step :: "'e \<Rightarrow> 's \<Rightarrow> 's"
    and ok :: "'e \<Rightarrow> 's \<Rightarrow> bool"
    and inv :: "'s \<Rightarrow> bool"
  assumes ok_step_inv: "inv s \<Longrightarrow> ok e s \<Longrightarrow> inv (step e s)"
begin

lemma admissible_inv: "inv s \<Longrightarrow> admissible step ok es s \<Longrightarrow> inv (fold step es s)"
  by (induction es arbitrary: s) (auto intro: ok_step_inv)

end

end
