(* ===== verification/Obb_Source.thy ===== *)
theory Obb_Source
  imports Nevr_Prelude
begin

section \<open>Where the extractor reads from\<close>

text \<open>
  \<^verbatim>\<open>src/quest/obb\<close>: the exact reads of \<^verbatim>\<open>byte_source\<close>, the footer of the store OBB
  (\<^verbatim>\<open>obb_footer\<close>), and the decrypting view of the encrypted image (\<^verbatim>\<open>obb_cipher\<close>).

  \<^verbatim>\<open>ByteSource\<close> is an abstract class: here a record of its two operations. Offsets and lengths
  are natural numbers: \<^verbatim>\<open>Inside\<close> is written so that no 64-bit sum is formed, and every other
  sum below is bounded by the size of the source. Twofish-CBC is nettle's, outside the repository:
  it is the parameter \<open>cbc\<close> (initial vector, sector) of the definitions that use it.
\<close>

unbundle bit_operations_syntax

record byte_source =
  src_size :: nat
  src_read :: "nat \<Rightarrow> nat \<Rightarrow> bytes res"

definition short_read :: failure where
  "short_read = Fail ''source_short_read''"

definition inside :: "nat \<Rightarrow> nat \<Rightarrow> nat \<Rightarrow> bool" where
  "inside offset len extent = (offset \<le> extent \<and> len \<le> extent - offset)"

lemma inside_iff: "inside offset len extent \<longleftrightarrow> offset + len \<le> extent"
  by (auto simp: inside_def)

definition memory_source :: "bytes \<Rightarrow> byte_source" where
  "memory_source bs =
     \<lparr>src_size = length bs,
      src_read = (\<lambda>offset len.
        if \<not> inside offset len (length bs) then Inl short_read
        else Inr (take len (drop offset bs)))\<rparr>"

subsection \<open>The contract of a byte source\<close>

text \<open>
  A source over an image: a read inside it is the bytes of that range, any other read is refused.
  The volume reader and the footer parser are verified against this contract, whatever the source.
\<close>

locale exact_source =
  fixes src :: byte_source and image :: bytes
  assumes size_image: "src_size src = length image"
    and read_image: "src_read src offset len =
      (if offset + len \<le> length image then Inr (take len (drop offset image)) else Inl short_read)"
begin

lemma read_Inr: "src_read src offset len = Inr bs \<Longrightarrow>
    bs = take len (drop offset image) \<and> length bs = len \<and> offset + len \<le> length image"
  by (auto simp: read_image split: if_splits)

lemma read_ok: "offset + len \<le> length image \<Longrightarrow> src_read src offset len = Inr (take len (drop offset image))"
  by (simp add: read_image)

lemma read_Inl: "src_read src offset len = Inl e \<Longrightarrow> e = short_read \<and> length image < offset + len"
  by (auto simp: read_image split: if_splits)

end

interpretation memory: exact_source "memory_source bs" bs for bs
  by unfold_locales (simp_all add: memory_source_def inside_iff)

subsection \<open>The decrypting view\<close>

text \<open>
  dm-crypt \<^verbatim>\<open>plain\<close>: the initial vector of a sector is its number as a 32-bit little-endian
  integer, zero-padded to the cipher's block.
\<close>

definition sector_iv :: "u32 \<Rightarrow> bytes" where
  "sector_iv sector =
     [ucast sector, ucast (drop_bit 8 sector), ucast (drop_bit 16 sector), ucast (drop_bit 24 sector)]
     @ replicate 12 0"

definition decrypt_sector :: "(bytes \<Rightarrow> bytes \<Rightarrow> bytes) \<Rightarrow> u32 \<Rightarrow> bytes \<Rightarrow> bytes" where
  "decrypt_sector cbc sector inp = cbc (sector_iv sector) inp"

definition obb_sector :: nat where "obb_sector = 512"
definition sectors_per_chunk :: nat where "sectors_per_chunk = 256"

definition sector_at :: "bytes \<Rightarrow> nat \<Rightarrow> bytes" where
  "sector_at bs i = take 512 (drop (512 * i) bs)"

text \<open>The inner \<^verbatim>\<open>for\<close> loop: the sectors of one chunk, each under its own number.\<close>

definition decrypt_chunk :: "(bytes \<Rightarrow> bytes \<Rightarrow> bytes) \<Rightarrow> nat \<Rightarrow> nat \<Rightarrow> bytes \<Rightarrow> bytes" where
  "decrypt_chunk cbc sector sectors enc =
     concat (map (\<lambda>i. decrypt_sector cbc (word_of_nat (sector + i)) (sector_at enc i)) [0..<sectors])"

function decrypt_read :: "(bytes \<Rightarrow> bytes \<Rightarrow> bytes) \<Rightarrow> byte_source \<Rightarrow> nat \<Rightarrow> nat \<Rightarrow> bytes res" where
  "decrypt_read cbc enc position remaining =
     (if remaining = 0 then Inr []
      else let sector = position div obb_sector;
               within = position mod obb_sector;
               wanted = (within + remaining + obb_sector - 1) div obb_sector;
               sectors = min wanted sectors_per_chunk;
               got = min remaining (sectors * obb_sector - within)
           in res_bind (src_read enc (sector * obb_sector) (sectors * obb_sector))
                (\<lambda>encrypted. res_bind (decrypt_read cbc enc (position + got) (remaining - got))
                  (\<lambda>rest. Inr (take got (drop within (decrypt_chunk cbc sector sectors encrypted)) @ rest))))"
  by pat_completeness auto

lemma got_positive:
  fixes position remaining :: nat
  assumes "remaining \<noteq> 0"
  shows "0 < min remaining (min ((position mod 512 + remaining + 512 - 1) div 512) 256 * 512 - position mod 512)"
proof -
  have w: "position mod 512 < 512" by simp
  have "1 \<le> (position mod 512 + remaining + 512 - 1) div 512"
    using assms by simp
  then have "512 \<le> min ((position mod 512 + remaining + 512 - 1) div 512) 256 * 512"
    by simp
  with w assms show ?thesis by simp
qed

termination decrypt_read
proof (relation "measure (\<lambda>(cbc, enc, position, remaining). remaining)", goal_cases)
  case 1
  show ?case by simp
next
  case (2 cbc enc position remaining sector within wanted sectors got encrypted)
  from got_positive [OF "2"(1), of position] have pos: "0 < got"
    unfolding "2"(2-6) obb_sector_def sectors_per_chunk_def .
  have "remaining - got < remaining"
    by (rule diff_less [OF pos]) (simp only: "2"(1) neq0_conv [symmetric] not_False_eq_True)
  then show ?case
    by (simp only: in_measure prod.case)
qed

declare decrypt_read.simps [simp del]

definition decrypting_source :: "(bytes \<Rightarrow> bytes \<Rightarrow> bytes) \<Rightarrow> byte_source \<Rightarrow> nat \<Rightarrow> byte_source" where
  "decrypting_source cbc enc image_bytes =
     \<lparr>src_size = image_bytes,
      src_read = (\<lambda>offset len.
        if offset > image_bytes \<or> len > image_bytes - offset then Inl short_read
        else if len = 0 then Inr []
        else if image_bytes div obb_sector > 2 ^ 32 then Inl (Fail ''obb_image_too_large'')
        else decrypt_read cbc enc offset len)\<rparr>"

text \<open>
  Random access and chunking do not show: the view is an exact source whose image is the whole
  ciphertext decrypted sector by sector.
\<close>

lemma concat_blocks_take:
  assumes len: "\<And>i. i < k \<Longrightarrow> length (f i) = L" and "s + n \<le> k"
  shows "take (n * L) (drop (s * L) (concat (map f [0..<k]))) = concat (map f [s..<s + n])"
proof -
  have len_seg: "b \<le> k \<Longrightarrow> length (concat (map f [a..<b])) = (b - a) * L" for a b
    by (induction b) (auto simp: len Suc_diff_le)
  have "[0..<k] = [0..<s] @ [s..<s + n] @ [s + n..<k]"
    using assms(2) by (metis append.assoc le_add1 le_trans upt_add_eq_append zero_le le_add_diff_inverse)
  then have split: "concat (map f [0..<k])
      = concat (map f [0..<s]) @ concat (map f [s..<s + n]) @ concat (map f [s + n..<k])"
    by simp
  show ?thesis
    unfolding split using len_seg [of s 0] len_seg [of "s + n" s] assms(2) by simp
qed

definition plain_image :: "(bytes \<Rightarrow> bytes \<Rightarrow> bytes) \<Rightarrow> bytes \<Rightarrow> nat \<Rightarrow> bytes" where
  "plain_image cbc enc k =
     concat (map (\<lambda>i. decrypt_sector cbc (word_of_nat i) (sector_at enc i)) [0..<k])"

text \<open>What the view relies on of nettle: a sector decrypts to a sector.\<close>

definition sector_cipher :: "(bytes \<Rightarrow> bytes \<Rightarrow> bytes) \<Rightarrow> bool" where
  "sector_cipher cbc \<longleftrightarrow> (\<forall>iv s. length s = 512 \<longrightarrow> length (cbc iv s) = 512)"

lemma length_sector: "sector_cipher cbc \<Longrightarrow> 512 * i + 512 \<le> length enc \<Longrightarrow>
    length (decrypt_sector cbc w (sector_at enc i)) = 512"
  by (simp add: decrypt_sector_def sector_cipher_def sector_at_def)

lemma length_plain: "sector_cipher cbc \<Longrightarrow> 512 * k \<le> length enc \<Longrightarrow>
    length (plain_image cbc enc k) = 512 * k"
proof (induction k)
  case 0
  then show ?case by (simp add: plain_image_def)
next
  case (Suc k)
  then show ?case
    using length_sector [of cbc k enc "word_of_nat k"] by (simp add: plain_image_def)
qed

lemma decrypt_chunk_plain:
  assumes "sector_cipher cbc" and "512 * k \<le> length enc" and "s + n \<le> k"
  shows "decrypt_chunk cbc s n (take (n * 512) (drop (s * 512) enc))
       = take (n * 512) (drop (s * 512) (plain_image cbc enc k))"
proof -
  have sec: "sector_at (take (n * 512) (drop (s * 512) enc)) i = sector_at enc (s + i)" if "i < n" for i
  proof -
    have "512 + 512 * i \<le> n * 512" using that by simp
    then show ?thesis
      by (simp add: sector_at_def drop_take min_def algebra_simps)
  qed
  have "decrypt_chunk cbc s n (take (n * 512) (drop (s * 512) enc))
      = concat (map (\<lambda>i. decrypt_sector cbc (word_of_nat (s + i)) (sector_at enc (s + i))) [0..<n])"
    unfolding decrypt_chunk_def
    by (intro arg_cong [where f = concat] map_cong refl) (simp add: sec)
  also have "\<dots> = concat (map (\<lambda>i. decrypt_sector cbc (word_of_nat i) (sector_at enc i)) (map (\<lambda>i. i + s) [0..<n]))"
    by (simp add: comp_def add.commute)
  also have "\<dots> = take (n * 512) (drop (s * 512) (plain_image cbc enc k))"
    unfolding map_add_upt plain_image_def
    by (subst concat_blocks_take) (use assms in \<open>auto intro!: length_sector simp: add.commute\<close>)
  finally show ?thesis .
qed

lemma sectors_in_image:
  fixes position remaining k :: nat
  assumes "position + remaining \<le> 512 * k"
  shows "position div 512 + (position mod 512 + remaining + 512 - 1) div 512 \<le> k"
proof -
  have "position = 512 * (position div 512) + position mod 512" by simp
  with assms have "position mod 512 + remaining \<le> 512 * k - 512 * (position div 512)"
    by linarith
  then have "position mod 512 + remaining \<le> 512 * (k - position div 512)"
    by (simp add: diff_mult_distrib2)
  then have "(position mod 512 + remaining + 511) div 512 \<le> (512 * (k - position div 512) + 511) div 512"
    by (intro div_le_mono) simp
  also have "\<dots> = k - position div 512" by simp
  finally have "(position mod 512 + remaining + 511) div 512 \<le> k - position div 512" .
  moreover have "position div 512 \<le> k" using assms by (simp add: less_eq_div_iff_mult_less_eq div_le_mono2)
  ultimately show ?thesis by simp
qed

lemma decrypt_read_plain:
  assumes src: "exact_source src enc" and cbc: "sector_cipher cbc" and len: "512 * k \<le> length enc"
  shows "position + remaining \<le> 512 * k \<Longrightarrow>
    decrypt_read cbc src position remaining = Inr (take remaining (drop position (plain_image cbc enc k)))"
proof (induction remaining arbitrary: position rule: less_induct)
  case (less remaining)
  show ?case
  proof (cases "remaining = 0")
    case True
    then show ?thesis by (simp add: decrypt_read.simps)
  next
    case False
    define sector within sectors where "sector = position div 512" and "within = position mod 512"
      and "sectors = min ((within + remaining + 512 - 1) div 512) 256"
    define got where "got = min remaining (sectors * 512 - within)"
    define plain where "plain = plain_image cbc enc k"
    have pos: "0 < got"
      using got_positive [OF False, of position]
      by (simp only: got_def sectors_def within_def)
    have le: "got \<le> remaining" and fit: "got \<le> sectors * 512 - within"
      by (simp_all add: got_def)
    have in_k: "sector + sectors \<le> k"
      using sectors_in_image [OF less.prems] by (simp add: sector_def sectors_def within_def)
    then have "(sector + sectors) * 512 \<le> 512 * k" by simp
    with len have inside_enc: "sector * 512 + sectors * 512 \<le> length enc" by simp
    have at: "sector * 512 + within = position"
      by (simp add: sector_def within_def)
    have "decrypt_read cbc src (position + got) (remaining - got)
        = Inr (take (remaining - got) (drop (position + got) plain))"
      unfolding plain_def using less.prems pos le by (intro less.IH) linarith+
    moreover have "src_read src (sector * 512) (sectors * 512)
        = Inr (take (sectors * 512) (drop (sector * 512) enc))"
      using inside_enc by (rule exact_source.read_ok [OF src])
    moreover have "take got (drop within (decrypt_chunk cbc sector sectors
          (take (sectors * 512) (drop (sector * 512) enc)))) = take got (drop position plain)"
      using fit unfolding decrypt_chunk_plain [OF cbc len in_k] plain_def [symmetric]
      by (simp add: drop_take min_absorb1 at [symmetric] add.commute)
    ultimately have "decrypt_read cbc src position remaining
        = Inr (take got (drop position plain) @ take (remaining - got) (drop (position + got) plain))"
      using False
      by (subst decrypt_read.simps)
        (simp only: Let_def obb_sector_def sectors_per_chunk_def if_False res_bind_simps
          sector_def [symmetric] within_def [symmetric] sectors_def [symmetric] got_def [symmetric])
    also have "\<dots> = Inr (take remaining (drop position plain))"
      using take_add [of got "remaining - got" "drop position plain"] le by (simp add: add.commute)
    finally show ?thesis by (simp add: plain_def)
  qed
qed

lemma decrypting_exact:
  assumes "exact_source src enc" and "sector_cipher cbc"
    and "512 * k \<le> length enc" and "k \<le> 2 ^ 32"
  shows "exact_source (decrypting_source cbc src (512 * k)) (plain_image cbc enc k)"
proof
  show "src_size (decrypting_source cbc src (512 * k)) = length (plain_image cbc enc k)"
    using assms by (simp add: decrypting_source_def length_plain)
next
  fix offset len
  show "src_read (decrypting_source cbc src (512 * k)) offset len =
      (if offset + len \<le> length (plain_image cbc enc k)
       then Inr (take len (drop offset (plain_image cbc enc k))) else Inl short_read)"
    using assms
    by (auto simp: decrypting_source_def length_plain obb_sector_def decrypt_read_plain [OF assms(1,2,3)])
qed


subsection \<open>Properties\<close>

text \<open>C22: random access to the encrypted image is access to the decrypted image. A read of any range of
  the view returns the bytes of that range of the whole ciphertext decrypted sector by sector, each under its
  own number, whatever the alignment and however many chunks the range spans; a range outside is refused.\<close>

theorem decrypting_view_exact:
  assumes "exact_source src enc" and "sector_cipher cbc" and "512 * k \<le> length enc" and "k \<le> 2 ^ 32"
  shows "src_read (decrypting_source cbc src (512 * k)) offset len =
    (if offset + len \<le> 512 * k then Inr (take len (drop offset (plain_image cbc enc k))) else Inl short_read)"
  using exact_source.read_image [OF decrypting_exact [OF assms], of offset len] length_plain [OF assms(2,3)]
  by simp

text \<open>A cipher for the witness: every byte is flipped with the sector number's low byte.\<close>

definition toy_cbc :: "bytes \<Rightarrow> bytes \<Rightarrow> bytes" where
  "toy_cbc iv s = map (\<lambda>b. b XOR (iv ! 0)) s"

lemma decrypting_view_exact_witness:
  "src_read (decrypting_source toy_cbc (memory_source (replicate 1024 7)) 1024) 500 100 =
    Inr (take 100 (drop 500 (plain_image toy_cbc (replicate 1024 7) 2)))"
proof -
  have "sector_cipher toy_cbc" by (simp add: sector_cipher_def toy_cbc_def)
  from decrypting_view_exact [OF memory.exact_source_axioms [of "replicate 1024 7"] this, of 2 500 100]
  show ?thesis by simp
qed


end
