(* ===== verification/Obb_Footer.thy ===== *)
theory Obb_Footer
  imports Obb_Source
begin

section \<open>The footer of the store OBB\<close>

text \<open>
  \<^verbatim>\<open>src/quest/obb/obb_footer.cpp\<close>. The file ends with the footer
  \<^verbatim>\<open>[version 4][package version 4][flags 4][salt 8][name length 4][name]\<close> and the trailer
  \<^verbatim>\<open>[footer size 4][tag 4]\<close>, little-endian; everything before is the encrypted img.
\<close>

unbundle bit_operations_syntax

record obb_footer =
  footer_version :: u32
  package_version :: u32
  obb_flags :: u32
  salt :: bytes
  package_name :: bytes
  footer_bytes :: nat
  image_bytes :: nat

definition obb_footer_tag :: u32 where "obb_footer_tag = 0x01059983"
definition obb_flag_salted :: u32 where "obb_flag_salted = 0x2"
definition obb_footer_max_bytes :: nat where "obb_footer_max_bytes = 32768"
definition unsalted_fixed_bytes :: nat where "unsalted_fixed_bytes = 16"
definition salted_fixed_bytes :: nat where "salted_fixed_bytes = 24"
definition trailer_bytes :: nat where "trailer_bytes = 8"

lemmas obb_consts = obb_footer_max_bytes_def unsalted_fixed_bytes_def salted_fixed_bytes_def
  trailer_bytes_def obb_sector_def

definition obb_le32 :: "bytes \<Rightarrow> nat \<Rightarrow> u32" where
  "obb_le32 p i = ucast (p ! i) OR push_bit 8 (ucast (p ! (i + 1))) OR push_bit 16 (ucast (p ! (i + 2)))
     OR push_bit 24 (ucast (p ! (i + 3)))"

lemma obb_le32_eq: "obb_le32 p i = le32 p i"
proof -
  have "i + 2 + 1 = i + 3" by simp
  then show ?thesis
    by (simp only: obb_le32_def le32_def le16_def push_bit_or push_bit_push_bit) (simp add: or.assoc)
qed

definition parse_footer_body :: "nat \<Rightarrow> nat \<Rightarrow> bytes \<Rightarrow> obb_footer res" where
  "parse_footer_body extent fbytes footer =
     (let version = obb_le32 footer 0; flags = obb_le32 footer 8;
          name_length = unat (obb_le32 footer 20);
          img = extent - trailer_bytes - fbytes
      in if version \<noteq> 1 then Inl (Fail ''obb_bad_footer_version'')
         else if flags AND obb_flag_salted = 0 then Inl (Fail ''obb_unsalted'')
         else if fbytes < salted_fixed_bytes then Inl (Fail ''obb_bad_footer_size'')
         else if salted_fixed_bytes + name_length \<noteq> fbytes then Inl (Fail ''obb_bad_name_length'')
         else if img = 0 \<or> img mod obb_sector \<noteq> 0 then Inl (Fail ''obb_image_not_sector_aligned'')
         else Inr \<lparr>footer_version = version, package_version = obb_le32 footer 4, obb_flags = flags,
                   salt = take 8 (drop 12 footer), package_name = take name_length (drop 24 footer),
                   footer_bytes = fbytes, image_bytes = img\<rparr>)"

definition parse_obb_footer :: "byte_source \<Rightarrow> obb_footer res" where
  "parse_obb_footer obb =
     (let extent = src_size obb
      in if extent < trailer_bytes then Inl (Fail ''obb_too_short'')
         else res_bind (src_read obb (extent - trailer_bytes) trailer_bytes) (\<lambda>trailer.
           let fbytes = unat (obb_le32 trailer 0)
           in if obb_le32 trailer 4 \<noteq> obb_footer_tag then Inl (Fail ''obb_bad_tag'')
              else if fbytes < unsalted_fixed_bytes \<or> fbytes > obb_footer_max_bytes
                      \<or> fbytes > extent - trailer_bytes
                   then Inl (Fail ''obb_bad_footer_size'')
              else res_bind (src_read obb (extent - trailer_bytes - fbytes) fbytes)
                     (parse_footer_body extent fbytes)))"

subsection \<open>What a parsed footer says\<close>

definition footer_wf :: "nat \<Rightarrow> obb_footer \<Rightarrow> bool" where
  "footer_wf extent f \<longleftrightarrow>
     footer_version f = 1 \<and> obb_flags f AND obb_flag_salted \<noteq> 0 \<and> length (salt f) = 8
     \<and> 24 + length (package_name f) = footer_bytes f \<and> footer_bytes f \<le> 32768
     \<and> image_bytes f + footer_bytes f + 8 = extent \<and> 0 < image_bytes f \<and> image_bytes f mod 512 = 0"

lemma parse_footer_body_wf:
  assumes "parse_footer_body extent fbytes footer = Inr f"
    and "length footer = fbytes" and "fbytes \<le> 32768" and "fbytes + 8 \<le> extent"
  shows "footer_wf extent f"
  using assms by (auto simp: parse_footer_body_def Let_def footer_wf_def obb_consts split: if_splits)

lemma parse_obb_footer_wf:
  assumes src: "exact_source obb img" and f: "parse_obb_footer obb = Inr f"
  shows "footer_wf (length img) f"
proof -
  from f obtain trailer footer where
    read: "src_read obb (src_size obb - 8 - unat (obb_le32 trailer 0)) (unat (obb_le32 trailer 0)) = Inr footer"
    and body: "parse_footer_body (src_size obb) (unat (obb_le32 trailer 0)) footer = Inr f"
    and size: "\<not> src_size obb < 8" "\<not> 32768 < unat (obb_le32 trailer 0)"
      "\<not> src_size obb - 8 < unat (obb_le32 trailer 0)"
    by (auto simp: parse_obb_footer_def Let_def res_bind_Inr_iff obb_consts split: if_splits)
  from exact_source.read_Inr [OF src read] have "length footer = unat (obb_le32 trailer 0)" by blast
  with body size have "footer_wf (src_size obb) f"
    by (intro parse_footer_body_wf [of _ _ footer]) auto
  then show ?thesis by (simp add: exact_source.size_image [OF src])
qed

subsection \<open>Writing a footer, and reading it back\<close>

definition le32_bytes :: "u32 \<Rightarrow> bytes" where
  "le32_bytes w = [ucast w, ucast (drop_bit 8 w), ucast (drop_bit 16 w), ucast (drop_bit 24 w)]"

lemma length_le32_bytes [simp]: "length (le32_bytes w) = 4"
  by (simp add: le32_bytes_def)

lemma obb_le32_at:
  assumes "take 4 (drop n p) = le32_bytes w"
  shows "obb_le32 p n = w"
proof (rule bit_word_eqI)
  have "4 \<le> length p - n"
    using arg_cong [OF assms, of length] by simp
  then have nths: "p ! n = le32_bytes w ! 0" "p ! (n + 1) = le32_bytes w ! 1"
      "p ! (n + 2) = le32_bytes w ! 2" "p ! (n + 3) = le32_bytes w ! 3"
    unfolding assms [symmetric] by simp_all
  fix i assume "i < LENGTH(32)"
  then show "bit (obb_le32 p n) i = bit w i"
    unfolding obb_le32_def nths
    by (cases "i < 8"; cases "i < 16"; cases "i < 24") (auto simp: le32_bytes_def bit_simps)
qed

text \<open>The file a packager writes: the img, the footer and the trailer.\<close>

definition footer_block :: "obb_footer \<Rightarrow> bytes" where
  "footer_block f = le32_bytes (footer_version f) @ le32_bytes (package_version f) @ le32_bytes (obb_flags f)
     @ salt f @ le32_bytes (word_of_nat (length (package_name f))) @ package_name f"

definition obb_file :: "bytes \<Rightarrow> obb_footer \<Rightarrow> bytes" where
  "obb_file img f = img @ footer_block f
     @ le32_bytes (word_of_nat (footer_bytes f)) @ le32_bytes obb_footer_tag"

lemma length_footer_block: "length (salt f) = 8 \<Longrightarrow> length (footer_block f) = 24 + length (package_name f)"
  by (simp add: footer_block_def)

lemma take_4_le32_bytes [simp]: "take 4 (le32_bytes w) = le32_bytes w"
  by simp

lemma parse_footer_body_block:
  assumes wf: "footer_wf extent f"
  shows "parse_footer_body extent (footer_bytes f) (footer_block f) = Inr f"
proof -
  from wf have salt: "length (salt f) = 8" and name: "24 + length (package_name f) = footer_bytes f"
    and ext: "image_bytes f + footer_bytes f + 8 = extent" and max: "footer_bytes f \<le> 32768"
    and rest: "footer_version f = 1" "obb_flags f AND obb_flag_salted \<noteq> 0"
      "0 < image_bytes f" "image_bytes f mod 512 = 0"
    by (auto simp: footer_wf_def)
  have reads: "obb_le32 (footer_block f) 0 = footer_version f"
      "obb_le32 (footer_block f) 4 = package_version f"
      "obb_le32 (footer_block f) 8 = obb_flags f"
      "obb_le32 (footer_block f) 20 = word_of_nat (length (package_name f))"
    by (rule obb_le32_at, simp add: footer_block_def salt)+
  have "unat (word_of_nat (length (package_name f)) :: u32) = length (package_name f)"
    using name max by (simp add: unat_of_nat)
  moreover have "take 8 (drop 12 (footer_block f)) = salt f"
      "drop 24 (footer_block f) = package_name f"
    by (simp_all add: footer_block_def salt)
  ultimately show ?thesis
    using rest name unfolding parse_footer_body_def Let_def reads
    by (simp add: obb_consts flip: ext)
qed

lemma parse_obb_file:
  assumes wf: "footer_wf (length (obb_file img f)) f"
  shows "parse_obb_footer (memory_source (obb_file img f)) = Inr f"
proof -
  from wf have salt: "length (salt f) = 8" and name: "24 + length (package_name f) = footer_bytes f"
    and max: "footer_bytes f \<le> 32768"
    by (auto simp: footer_wf_def)
  have block: "length (footer_block f) = footer_bytes f"
    using length_footer_block [OF salt] name by simp
  define obb where "obb = obb_file img f"
  have len: "length obb = length img + footer_bytes f + 8"
    by (simp add: obb_def obb_file_def block)
  have trailer: "take 8 (drop (length obb - 8) obb)
      = le32_bytes (word_of_nat (footer_bytes f)) @ le32_bytes obb_footer_tag"
    unfolding len by (simp add: obb_def obb_file_def block)
  have footer: "take (footer_bytes f) (drop (length obb - 8 - footer_bytes f) obb) = footer_block f"
    unfolding len by (simp add: obb_def obb_file_def block)
  let ?trailer = "le32_bytes (word_of_nat (footer_bytes f)) @ le32_bytes obb_footer_tag"
  have fb: "unat (obb_le32 ?trailer 0) = footer_bytes f"
    using max by (subst obb_le32_at [of 0 _ "word_of_nat (footer_bytes f)"]) (simp_all add: unat_of_nat)
  have tag: "obb_le32 ?trailer 4 = obb_footer_tag"
    by (rule obb_le32_at) simp
  have sz: "src_size (memory_source obb) = length obb"
    by (rule memory.size_image)
  have "src_read (memory_source obb) (length obb - 8) 8 = Inr ?trailer"
    using memory.read_ok [of "length obb - 8" 8 obb] trailer len by simp
  moreover have "src_read (memory_source obb) (length obb - 8 - footer_bytes f) (footer_bytes f)
      = Inr (footer_block f)"
    using memory.read_ok [of "length obb - 8 - footer_bytes f" "footer_bytes f" obb] footer len by simp
  ultimately show ?thesis
    using parse_footer_body_block [OF wf] name max len
    unfolding parse_obb_footer_def obb_def [symmetric] sz Let_def
    by (simp add: obb_consts fb tag)
qed


subsection \<open>Properties\<close>

text \<open>A footer that parses accounts for every byte of the file. The image, the footer and the trailer
  add up to the file's size, the image is a positive number of whole sectors, the salt has 8 bytes and the
  name is exactly what is left of the footer.\<close>

theorem footer_accounts:
  assumes "exact_source obb img" and "parse_obb_footer obb = Inr f"
  shows "footer_wf (length img) f"
  by (rule parse_obb_footer_wf [OF assms])

text \<open>What a packager writes is read back. A well-formed footer written after any image parses to itself.\<close>

theorem footer_round_trip:
  assumes "footer_wf (length (obb_file img f)) f"
  shows "parse_obb_footer (memory_source (obb_file img f)) = Inr f"
  by (rule parse_obb_file [OF assms])

definition sample_footer :: obb_footer where
  "sample_footer = \<lparr>footer_version = 1, package_version = 5, obb_flags = 2, salt = [1, 2, 3, 4, 5, 6, 7, 8],
     package_name = bytes_of ''com.x'', footer_bytes = 29, image_bytes = 512\<rparr>"

lemma sample_footer_wf: "footer_wf (length (obb_file (replicate 512 0) sample_footer)) sample_footer"
  by (simp add: footer_wf_def obb_file_def footer_block_def sample_footer_def obb_flag_salted_def)

lemma footer_round_trip_witness:
  "parse_obb_footer (memory_source (obb_file (replicate 512 0) sample_footer)) = Inr sample_footer"
  by (rule footer_round_trip [OF sample_footer_wf])

lemma footer_accounts_witness:
  "\<exists>f. parse_obb_footer (memory_source (obb_file (replicate 512 0) sample_footer)) = Inr f
    \<and> footer_wf (length (obb_file (replicate 512 0) sample_footer)) f"
  using footer_accounts [OF memory.exact_source_axioms parse_obb_file [OF sample_footer_wf]] parse_obb_file [OF sample_footer_wf]
  by blast

end
