(* ===== verification/Fat16_Volume.thy ===== *)
theory Fat16_Volume
  imports Obb_Source
begin

section \<open>The FAT16 volume: boot sector, allocation table, cluster chains\<close>

text \<open>
  \<^verbatim>\<open>src/quest/obb/fat16.cpp\<close>, the part that turns a file's first cluster into the byte ranges of
  the image. Every quantity of the boot sector is at most 32 bits wide and every product of
  \<open>fat_open\<close> is formed in 64 bits by the code; \<open>fat_open_no_wrap\<close> shows that none reaches \<open>2 ^ 64\<close>,
  so natural numbers stand for them here.
\<close>

unbundle bit_operations_syntax

record fat_volume =
  sectors_per_cluster :: nat
  cluster_count :: nat
  root_entries :: nat
  root_offset :: nat
  data_offset :: nat
  fat_table :: "u16 list"

abbreviation cluster_bytes :: "fat_volume \<Rightarrow> nat" where
  "cluster_bytes v \<equiv> sectors_per_cluster v * 512"

definition bad_boot :: failure where
  "bad_boot = Fail ''fat_bad_boot_sector''"

text \<open>The counts the boot sector gives, after its own checks.\<close>

record fat_geometry =
  g_spc :: nat
  g_reserved :: nat
  g_fats :: nat
  g_root_entries :: nat
  g_fat_sectors :: nat
  g_sectors :: nat

definition check_boot :: "nat \<Rightarrow> bytes \<Rightarrow> fat_geometry res" where
  "check_boot image_size boot =
    (let spc = ucast (boot ! 13) :: u32;
         reserved = unat (le16 boot 14);
         fats = unat (boot ! 16);
         roots = unat (le16 boot 17);
         fat_sectors = unat (le16 boot 22);
         sectors = (if le16 boot 19 \<noteq> 0 then unat (le16 boot 19) else unat (le32 boot 32))
     in if boot ! 510 \<noteq> 0x55 \<or> boot ! 511 \<noteq> 0xAA then Inl bad_boot
        else if le16 boot 11 \<noteq> 512 then Inl (Fail ''fat_unsupported_sector_size'')
        else if spc = 0 \<or> spc AND (spc - 1) \<noteq> 0 \<or> spc > 128 then Inl bad_boot
        else if reserved = 0 then Inl bad_boot
        else if fats = 0 then Inl bad_boot
        else if roots = 0 \<or> fat_sectors = 0 then Inl (Fail ''fat_unsupported_fat32'')
        else if sectors = 0 then Inl bad_boot
        else if sectors * 512 > image_size then Inl bad_boot
        else Inr \<lparr>g_spc = unat spc, g_reserved = reserved, g_fats = fats, g_root_entries = roots,
                  g_fat_sectors = fat_sectors, g_sectors = sectors\<rparr>)"

definition root_sectors :: "fat_geometry \<Rightarrow> nat" where
  "root_sectors g = (g_root_entries g * 32 + 512 - 1) div 512"

definition metadata_sectors :: "fat_geometry \<Rightarrow> nat" where
  "metadata_sectors g = g_reserved g + g_fats g * g_fat_sectors g + root_sectors g"

definition data_clusters :: "fat_geometry \<Rightarrow> nat" where
  "data_clusters g = (g_sectors g - metadata_sectors g) div g_spc g"

definition fat_open :: "byte_source \<Rightarrow> fat_volume res" where
  "fat_open img =
     res_bind (src_read img 0 512) (\<lambda>boot.
     res_bind (check_boot (src_size img) boot) (\<lambda>g.
       let clusters = data_clusters g;
           root = (g_reserved g + g_fats g * g_fat_sectors g) * 512
       in if metadata_sectors g \<ge> g_sectors g then Inl bad_boot
          else if clusters < 4085 then Inl (Fail ''fat_unsupported_fat12'')
          else if clusters \<ge> 65525 then Inl (Fail ''fat_unsupported_fat32'')
          else if g_fat_sectors g * 256 < clusters + 2 then Inl bad_boot
          else res_bind (src_read img (g_reserved g * 512) ((clusters + 2) * 2)) (\<lambda>raw.
            Inr \<lparr>sectors_per_cluster = g_spc g, cluster_count = clusters,
                 root_entries = g_root_entries g, root_offset = root,
                 data_offset = root + root_sectors g * 512,
                 fat_table = map (\<lambda>i. ucast (le16 raw (i * 2))) [0..<clusters + 2]\<rparr>)))"

definition cluster_offset :: "fat_volume \<Rightarrow> nat \<Rightarrow> nat" where
  "cluster_offset v c = data_offset v + (c - 2) * sectors_per_cluster v * 512"

text \<open>The next cluster of a chain; \<open>None\<close> at its end mark.\<close>

definition next_cluster :: "fat_volume \<Rightarrow> nat \<Rightarrow> nat option res" where
  "next_cluster v c =
    (let l = unat (fat_table v ! c)
     in if l = 0 then Inl (Fail ''fat_free_cluster_in_chain'')
        else if l = 0xFFF7 then Inl (Fail ''fat_bad_cluster'')
        else if l \<ge> 0xFFF8 then Inr None
        else if l < 2 \<or> l > cluster_count v + 1 then Inl (Fail ''fat_chain_out_of_range'')
        else Inr (Some l))"

text \<open>Consecutive clusters are one run: \<open>(first, count)\<close>.\<close>

definition push_run :: "(nat \<times> nat) list \<Rightarrow> nat \<Rightarrow> (nat \<times> nat) list" where
  "push_run runs c =
     (if runs \<noteq> [] \<and> fst (last runs) + snd (last runs) = c
      then butlast runs @ [(fst (last runs), snd (last runs) + 1)]
      else runs @ [(c, 1)])"

text \<open>
  The loop of \<^verbatim>\<open>ChainRuns\<close>. \<open>seen\<close> lists the clusters the code's bit vector has marked; the loop
  ends because each turn marks one more of the finitely many data clusters.
\<close>

function chain_loop :: "fat_volume \<Rightarrow> nat \<Rightarrow> bool \<Rightarrow> nat list \<Rightarrow> nat \<Rightarrow> nat \<Rightarrow> (nat \<times> nat) list
    \<Rightarrow> (nat \<times> nat) list res" where
  "chain_loop v needed until_end seen c collected runs =
     (if c < 2 \<or> c > cluster_count v + 1 then Inl (Fail ''fat_chain_out_of_range'')
      else if c \<in> set seen then Inl (Fail ''fat_chain_loop'')
      else let runs' = push_run runs c; collected' = collected + 1
           in if \<not> until_end \<and> collected' = needed then Inr runs'
              else res_bind (next_cluster v c) (\<lambda>link. case link of
                None \<Rightarrow> if until_end then Inr runs' else Inl (Fail ''fat_chain_too_short'')
              | Some d \<Rightarrow> chain_loop v needed until_end (c # seen) d collected' runs'))"
  by pat_completeness auto

lemma seen_decreases:
  fixes c n :: nat
  assumes "\<not> (c < 2 \<or> c > n + 1)" and "c \<notin> set seen"
  shows "card ({2..n + 1} - set (c # seen)) < card ({2..n + 1} - set seen)"
proof -
  have "{2..n + 1} - set (c # seen) = {2..n + 1} - set seen - {c}" by auto
  moreover have "c \<in> {2..n + 1} - set seen" using assms by auto
  ultimately show ?thesis by (simp only: card_Diff1_less finite_Diff finite_atLeastAtMost)
qed

termination chain_loop
proof (relation "measure (\<lambda>(v, needed, until_end, seen, c, collected, runs). card ({2..cluster_count v + 1} - set seen))",
    goal_cases)
  case 1
  show ?case by simp
next
  case (2 v needed until_end seen c)
  show ?case
    unfolding in_measure prod.case by (rule seen_decreases [OF "2"(1,2)])
qed

declare chain_loop.simps [simp del]

definition chain_runs :: "fat_volume \<Rightarrow> nat \<Rightarrow> nat \<Rightarrow> bool \<Rightarrow> (nat \<times> nat) list res" where
  "chain_runs v first needed until_end =
     (if \<not> until_end \<and> needed = 0 then Inr []
      else chain_loop v needed until_end [] first 0 [])"

subsection \<open>The volume's invariant\<close>

definition volume_wf :: "nat \<Rightarrow> fat_volume \<Rightarrow> bool" where
  "volume_wf image_size v \<longleftrightarrow>
     0 < sectors_per_cluster v \<and> sectors_per_cluster v \<le> 128
     \<and> 4085 \<le> cluster_count v \<and> cluster_count v < 65525
     \<and> length (fat_table v) = cluster_count v + 2
     \<and> root_offset v + root_entries v * 32 \<le> data_offset v
     \<and> data_offset v + cluster_count v * cluster_bytes v \<le> image_size"

lemma check_boot_facts:
  assumes "check_boot n boot = Inr g"
  shows "0 < g_spc g \<and> g_spc g \<le> 128 \<and> g_sectors g * 512 \<le> n \<and> g_sectors g < 2 ^ 32
    \<and> g_reserved g < 2 ^ 16 \<and> g_fats g < 2 ^ 8 \<and> g_root_entries g < 2 ^ 16 \<and> g_fat_sectors g < 2 ^ 16"
proof -
  have "unat w \<le> 128" if "\<not> 128 < w" for w :: u32
    using that by (simp add: word_less_nat_alt)
  moreover have "0 < unat w" if "w \<noteq> 0" for w :: u32
    using that by (simp add: unat_gt_0)
  moreover have "unat (le16 boot i) < 2 ^ 16" "unat (le16 boot i) < 2 ^ 32" "unat (le32 boot i) < 2 ^ 32"
    "unat (boot ! i) < 2 ^ 8" for i
    using unat_le16_less [of boot i] unat_le32_less [of boot i] unat_u8_less [of "boot ! i"] by simp_all
  ultimately show ?thesis
    using assms by (auto simp: check_boot_def Let_def split: if_splits)
qed

lemma root_fits: "g_root_entries g * 32 \<le> root_sectors g * 512"
proof -
  let ?a = "g_root_entries g * 32 + 512 - 1"
  have "?a div 512 * 512 + ?a mod 512 = ?a" by (rule div_mult_mod_eq)
  moreover have "?a mod 512 < 512" by (rule mod_less_divisor) simp
  ultimately show ?thesis unfolding root_sectors_def by linarith
qed

lemma fat_open_wf:
  assumes "fat_open img = Inr v"
  shows "volume_wf (src_size img) v"
proof -
  from assms obtain boot g where g: "check_boot (src_size img) boot = Inr g"
    and meta: "metadata_sectors g < g_sectors g"
    and fat16: "4085 \<le> data_clusters g" "data_clusters g < 65525"
    and v: "sectors_per_cluster v = g_spc g" "cluster_count v = data_clusters g"
      "root_entries v = g_root_entries g"
      "root_offset v = (g_reserved g + g_fats g * g_fat_sectors g) * 512"
      "data_offset v = (g_reserved g + g_fats g * g_fat_sectors g) * 512 + root_sectors g * 512"
      "length (fat_table v) = data_clusters g + 2"
    by (auto simp: fat_open_def res_bind_Inr_iff Let_def not_le not_less split: if_splits)
  have "data_clusters g * g_spc g \<le> g_sectors g - metadata_sectors g"
    by (simp add: data_clusters_def)
  with meta have "data_clusters g * g_spc g + metadata_sectors g \<le> g_sectors g" by linarith
  then have "(data_clusters g * g_spc g + metadata_sectors g) * 512 \<le> g_sectors g * 512" by simp
  also have "\<dots> \<le> src_size img" using check_boot_facts [OF g] by simp
  finally have "data_offset v + cluster_count v * (g_spc g * 512) \<le> src_size img"
    by (simp add: v metadata_sectors_def algebra_simps)
  with fat16 check_boot_facts [OF g] root_fits [of g] show ?thesis
    by (simp add: volume_wf_def v)
qed

text \<open>
  No 64-bit quantity of \<^verbatim>\<open>Open\<close> wraps: the byte size of the volume and of its FATs, and the sector
  count of its metadata, stay below \<open>2 ^ 64\<close> for every boot sector that passes the checks.
\<close>

lemma check_boot_no_wrap:
  assumes "check_boot n boot = Inr g"
  shows "g_sectors g * 512 < 2 ^ 64 \<and> g_root_entries g * 32 + 512 - 1 < 2 ^ 64
    \<and> metadata_sectors g * 512 < 2 ^ 64 \<and> g_fat_sectors g * 256 < 2 ^ 64"
proof -
  note b = check_boot_facts [OF assms]
  then have "g_fats g * g_fat_sectors g \<le> 2 ^ 8 * 2 ^ 16"
    by (intro mult_le_mono) simp_all
  moreover have "root_sectors g \<le> g_root_entries g * 32 + 512 - 1"
    by (simp add: root_sectors_def)
  ultimately show ?thesis using b by (simp add: metadata_sectors_def)
qed


subsection \<open>Properties\<close>

text \<open>An opened volume lies inside its image. Whatever the boot sector says, a volume that opens has
  FAT16's number of clusters, an allocation table entry for each of them, and its root directory and every
  cluster within the image, so no later offset is outside it.\<close>

theorem opened_volume_inside_image:
  assumes "fat_open img = Inr v"
  shows "volume_wf (src_size img) v"
  by (rule fat_open_wf [OF assms])

definition sample_boot_byte :: "nat \<Rightarrow> u8" where
  "sample_boot_byte i = (if i = 12 then 2 else if i = 13 then 1 else if i = 14 then 1 else if i = 16 then 1
     else if i = 17 then 16 else if i = 19 then 8 else if i = 20 then 16 else if i = 22 then 17
     else if i = 510 then 0x55 else if i = 511 then 0xAA else 0)"

definition sample_image :: byte_source where
  "sample_image = \<lparr>src_size = 4104 * 512,
     src_read = (\<lambda>offset len. Inr (if offset = 0 then map sample_boot_byte [0..<len] else replicate len 0))\<rparr>"

lemma sample_check_boot:
  "check_boot (4104 * 512) (map sample_boot_byte [0..<512]) = Inr \<lparr>g_spc = 1, g_reserved = 1, g_fats = 1,
     g_root_entries = 16, g_fat_sectors = 17, g_sectors = 4104\<rparr>"
proof -
  let ?b = "map sample_boot_byte [0..<512]"
  have n: "i < 512 \<Longrightarrow> ?b ! i = sample_boot_byte i" for i by simp
  have l: "unat (le16 ?b 14) = 1" "unat (le16 ?b 17) = 16" "unat (le16 ?b 22) = 17" "unat (le16 ?b 19) = 4104"
    "unat (le16 ?b 11) = 512"
    unfolding unat_le16 by (simp_all add: n sample_boot_byte_def del: upt_rec_numeral)
  have z: "le16 ?b 19 \<noteq> 0" "le16 ?b 11 = 512" using l(4,5) by (auto simp: word_unat_eq_iff)
  have b: "?b ! 510 = 0x55" "?b ! 511 = 0xAA" "?b ! 13 = 1" "?b ! 16 = 1"
    by (simp_all add: n sample_boot_byte_def del: upt_rec_numeral)
  show ?thesis
    unfolding check_boot_def Let_def b l using z by simp
qed

lemma opened_volume_inside_image_witness:
  "\<exists>v. fat_open sample_image = Inr v \<and> volume_wf (4104 * 512) v \<and> cluster_count v = 4085"
proof -
  define raw where "raw = replicate 8174 (0 :: u8)"
  define v where "v = \<lparr>sectors_per_cluster = 1, cluster_count = 4085, root_entries = 16, root_offset = 9216,
    data_offset = 9728, fat_table = map (\<lambda>i. ucast (le16 raw (i * 2)) :: u16) [0..<4087]\<rparr>"
  have "src_read sample_image 0 512 = Inr (map sample_boot_byte [0..<512])"
    by (simp add: sample_image_def del: upt_rec_numeral)
  moreover have "src_read sample_image 512 8174 = Inr raw" by (simp add: sample_image_def raw_def)
  moreover have "src_size sample_image = 4104 * 512" by (simp add: sample_image_def)
  ultimately have "fat_open sample_image = Inr v"
    unfolding fat_open_def
    by (simp only: res_bind_simps sample_check_boot)
      (simp add: Let_def metadata_sectors_def root_sectors_def data_clusters_def v_def del: upt_rec_numeral)
  from opened_volume_inside_image [OF this] this show ?thesis
    by (auto simp: v_def sample_image_def simp del: upt_rec_numeral)
qed

end
