(* ===== verification/Fat16_Chains.thy ===== *)
theory Fat16_Chains
  imports Fat16_Volume
begin

section \<open>Cluster chains\<close>

text \<open>
  What \<^verbatim>\<open>ChainRuns\<close> promises, without runs and without marks: a chain is a list of data clusters,
  each linked to the next by the allocation table. A run list is read back as the clusters it covers.
\<close>

definition data_cluster :: "fat_volume \<Rightarrow> nat \<Rightarrow> bool" where
  "data_cluster v c \<longleftrightarrow> 2 \<le> c \<and> c \<le> cluster_count v + 1"

fun fat_chain :: "fat_volume \<Rightarrow> nat list \<Rightarrow> bool" where
  "fat_chain v [] = True"
| "fat_chain v [c] = data_cluster v c"
| "fat_chain v (c # d # cs) =
     (data_cluster v c \<and> next_cluster v c = Inr (Some d) \<and> fat_chain v (d # cs))"

definition expand_runs :: "(nat \<times> nat) list \<Rightarrow> nat list" where
  "expand_runs runs = concat (map (\<lambda>(s, n). [s..<s + n]) runs)"

lemma expand_runs_simps [simp]:
  "expand_runs [] = []"
  "expand_runs (r # rs) = [fst r..<fst r + snd r] @ expand_runs rs"
  "expand_runs (rs @ rs') = expand_runs rs @ expand_runs rs'"
  by (simp_all add: expand_runs_def case_prod_unfold)

lemma expand_push_run: "expand_runs (push_run runs c) = expand_runs runs @ [c]"
proof (cases runs rule: rev_cases)
  case Nil
  then show ?thesis by (simp add: push_run_def)
next
  case (snoc rs r)
  then show ?thesis by (auto simp: push_run_def)
qed

lemma fat_chain_Cons:
  "cs \<noteq> [] \<Longrightarrow> fat_chain v (c # cs) \<longleftrightarrow>
     data_cluster v c \<and> next_cluster v c = Inr (Some (hd cs)) \<and> fat_chain v cs"
  by (cases cs) simp_all

lemma fat_chain_data: "fat_chain v cs \<Longrightarrow> c \<in> set cs \<Longrightarrow> data_cluster v c"
  by (induction v cs rule: fat_chain.induct) auto

lemma next_cluster_data: "next_cluster v c = Inr (Some d) \<Longrightarrow> data_cluster v d"
  by (auto simp: next_cluster_def data_cluster_def Let_def split: if_splits)

text \<open>The loop succeeds exactly on the chains that start at its cluster and avoid its marks.\<close>

definition loop_result :: "fat_volume \<Rightarrow> nat \<Rightarrow> bool \<Rightarrow> nat list \<Rightarrow> nat \<Rightarrow> nat \<Rightarrow> nat list \<Rightarrow> bool" where
  "loop_result v needed until_end seen c collected cs \<longleftrightarrow>
     cs \<noteq> [] \<and> hd cs = c \<and> fat_chain v cs \<and> distinct cs \<and> set cs \<inter> set seen = {}
     \<and> (if until_end then next_cluster v (last cs) = Inr None else collected + length cs = needed)"

lemma loop_result_one:
  "loop_result v needed until_end seen c collected [c] \<longleftrightarrow>
     data_cluster v c \<and> c \<notin> set seen
     \<and> (if until_end then next_cluster v c = Inr None else collected + 1 = needed)"
  by (auto simp: loop_result_def)

lemma loop_result_Cons:
  assumes "next_cluster v c = Inr (Some d)" and "data_cluster v c" and "c \<notin> set seen"
    and "cs \<noteq> []"
  shows "loop_result v needed until_end seen c collected (c # cs) \<longleftrightarrow>
     loop_result v needed until_end (c # seen) d (collected + 1) cs"
  using assms by (auto simp: loop_result_def fat_chain_Cons)

lemma chain_loop_sound:
  "chain_loop v needed until_end seen c collected runs = Inr runs' \<Longrightarrow>
   until_end \<or> collected < needed \<Longrightarrow>
   \<exists>cs. expand_runs runs' = expand_runs runs @ cs \<and> loop_result v needed until_end seen c collected cs"
proof (induction v needed until_end seen c collected runs rule: chain_loop.induct)
  case (1 v needed until_end seen c collected runs)
  from "1.prems" have ok: "data_cluster v c" "c \<notin> set seen"
    by (subst (asm) chain_loop.simps; auto simp: data_cluster_def split: if_splits)+
  show ?case
  proof (cases "(\<not> until_end \<and> collected + 1 = needed) \<or> (until_end \<and> next_cluster v c = Inr None)")
    case True
    with "1.prems"(1) ok have "runs' = push_run runs c"
      by (subst (asm) chain_loop.simps) (auto simp: data_cluster_def Let_def split: if_splits)
    with True ok have "expand_runs runs' = expand_runs runs @ [c]
        \<and> loop_result v needed until_end seen c collected [c]"
      by (auto simp: expand_push_run loop_result_one)
    then show ?thesis by blast
  next
    case False
    with "1.prems"(1) ok obtain d where d: "next_cluster v c = Inr (Some d)"
      and rec: "chain_loop v needed until_end (c # seen) d (collected + 1) (push_run runs c) = Inr runs'"
      by (subst (asm) chain_loop.simps)
        (auto simp: data_cluster_def Let_def res_bind_Inr_iff split: if_splits option.splits)
    have "until_end \<or> collected + 1 < needed" using "1.prems"(2) False by auto
    moreover have "\<not> (c < 2 \<or> cluster_count v + 1 < c)" using ok by (auto simp: data_cluster_def)
    moreover have "\<not> (\<not> until_end \<and> collected + 1 = needed)" using False by blast
    ultimately obtain cs where cs: "expand_runs runs' = expand_runs (push_run runs c) @ cs"
        "loop_result v needed until_end (c # seen) d (collected + 1) cs"
      using "1.IH" [OF _ ok(2) refl refl _ d refl rec] by blast
    moreover from cs(2) have "cs \<noteq> []" by (simp add: loop_result_def)
    ultimately have "expand_runs runs' = expand_runs runs @ (c # cs)
        \<and> loop_result v needed until_end seen c collected (c # cs)"
      using loop_result_Cons [OF d ok] by (simp add: expand_push_run)
    then show ?thesis by blast
  qed
qed

lemma chain_loop_complete:
  "loop_result v needed until_end seen c collected cs \<Longrightarrow>
   \<exists>runs'. chain_loop v needed until_end seen c collected runs = Inr runs'
     \<and> expand_runs runs' = expand_runs runs @ cs"
proof (induction cs arbitrary: seen c collected runs)
  case Nil
  then show ?case by (simp add: loop_result_def)
next
  case (Cons b cs)
  then have c: "b = c" and dat: "data_cluster v c" and "c \<notin> set seen"
    by (auto simp: loop_result_def dest: fat_chain_data)
  then have ok: "\<not> (c < 2 \<or> cluster_count v + 1 < c)" "c \<notin> set seen"
    by (auto simp: data_cluster_def)
  show ?case
  proof (cases "cs = []")
    case True
    with Cons.prems c have "if until_end then next_cluster v c = Inr None else collected + 1 = needed"
      by (cases until_end) (simp_all add: loop_result_one)
    then have "chain_loop v needed until_end seen c collected runs = Inr (push_run runs c)"
      using ok by (subst chain_loop.simps) (auto simp: Let_def split: if_splits)
    then show ?thesis by (simp add: expand_push_run True c)
  next
    case False
    with Cons.prems c have d: "next_cluster v c = Inr (Some (hd cs))"
      by (auto simp: loop_result_def fat_chain_Cons)
    have sub: "loop_result v needed until_end (c # seen) (hd cs) (collected + 1) cs"
      using Cons.prems loop_result_Cons [OF d dat ok(2) False] by (simp add: c)
    have "\<not> (\<not> until_end \<and> collected + 1 = needed)"
      using Cons.prems False by (auto simp: loop_result_def)
    then have "chain_loop v needed until_end seen c collected runs
        = chain_loop v needed until_end (c # seen) (hd cs) (collected + 1) (push_run runs c)"
      using ok d by (subst chain_loop.simps) (auto simp: Let_def)
    with Cons.IH [OF sub, of "push_run runs c"] show ?thesis
      by (simp add: expand_push_run c)
  qed
qed

lemma chain_loop_iff:
  assumes "until_end \<or> 0 < needed"
  shows "(\<exists>runs. chain_loop v needed until_end [] first 0 [] = Inr runs \<and> expand_runs runs = cs)
    \<longleftrightarrow> loop_result v needed until_end [] first 0 cs"
proof
  assume "\<exists>runs. chain_loop v needed until_end [] first 0 [] = Inr runs \<and> expand_runs runs = cs"
  then obtain runs where r: "chain_loop v needed until_end [] first 0 [] = Inr runs"
    and cs: "expand_runs runs = cs" by blast
  from chain_loop_sound [OF r assms] cs show "loop_result v needed until_end [] first 0 cs" by auto
next
  assume "loop_result v needed until_end [] first 0 cs"
  from chain_loop_complete [OF this, of "[]"]
  show "\<exists>runs. chain_loop v needed until_end [] first 0 [] = Inr runs \<and> expand_runs runs = cs" by simp
qed

text \<open>The two uses: exactly as many clusters as a file needs, and a directory's chain to its end mark.\<close>

lemma chain_runs_file_iff:
  "(\<exists>runs. chain_runs v first needed False = Inr runs \<and> expand_runs runs = cs) \<longleftrightarrow>
     fat_chain v cs \<and> distinct cs \<and> length cs = needed \<and> (cs \<noteq> [] \<longrightarrow> hd cs = first)"
proof (cases "needed = 0")
  case True
  then show ?thesis by (auto simp: chain_runs_def)
next
  case False
  then have "chain_runs v first needed False = chain_loop v needed False [] first 0 []"
    by (simp add: chain_runs_def)
  moreover have "loop_result v needed False [] first 0 cs \<longleftrightarrow>
      fat_chain v cs \<and> distinct cs \<and> length cs = needed \<and> (cs \<noteq> [] \<longrightarrow> hd cs = first)"
    using False by (auto simp: loop_result_def)
  ultimately show ?thesis
    using chain_loop_iff [of False needed v first cs] False by simp
qed

lemma chain_runs_directory_iff:
  "(\<exists>runs. chain_runs v first needed True = Inr runs \<and> expand_runs runs = cs) \<longleftrightarrow>
     cs \<noteq> [] \<and> hd cs = first \<and> fat_chain v cs \<and> distinct cs \<and> next_cluster v (last cs) = Inr None"
proof -
  have "loop_result v needed True [] first 0 cs \<longleftrightarrow>
      cs \<noteq> [] \<and> hd cs = first \<and> fat_chain v cs \<and> distinct cs \<and> next_cluster v (last cs) = Inr None"
    by (auto simp: loop_result_def)
  then show ?thesis
    using chain_loop_iff [of True needed v first cs] by (simp add: chain_runs_def)
qed


subsection \<open>Properties\<close>

text \<open>The runs of a file are its chain. Following a file's chain succeeds exactly when the allocation
  table links the needed number of distinct data clusters from the first one, and then the runs, read in
  order, are those clusters.\<close>

theorem file_runs_are_the_chain:
  "(\<exists>runs. chain_runs v first needed False = Inr runs \<and> expand_runs runs = cs) \<longleftrightarrow>
     fat_chain v cs \<and> distinct cs \<and> length cs = needed \<and> (cs = [] \<or> hd cs = first)"
  using chain_runs_file_iff [of v first needed cs] by auto

text \<open>A directory's runs are its whole chain, to the end mark. A chain that loops, leaves the data
  area, or meets a free or bad cluster is refused, and the walk of the chain always ends.\<close>

theorem directory_runs_are_the_chain:
  "(\<exists>runs. chain_runs v first needed True = Inr runs \<and> expand_runs runs = cs) \<longleftrightarrow>
     cs \<noteq> [] \<and> hd cs = first \<and> fat_chain v cs \<and> distinct cs \<and> next_cluster v (last cs) = Inr None"
  by (rule chain_runs_directory_iff)

end
