(* ===== verification/Fat16_Files.thy ===== *)
theory Fat16_Files
  imports Fat16_Chains
begin

section \<open>Reading files and directory bytes\<close>

text \<open>
  \<^verbatim>\<open>ReadFile\<close> and \<^verbatim>\<open>ReadDirectoryBytes\<close> of \<^verbatim>\<open>src/quest/obb/fat16.cpp\<close>. The sink a file is
  streamed to is a function on the receiver's state that can refuse.
\<close>

record fat_entry =
  entry_name :: bytes
  is_directory :: bool
  first_cluster :: nat
  entry_size :: nat

definition run_limit :: nat where "run_limit = 2 ^ 20"

function read_pieces :: "byte_source \<Rightarrow> ('s \<Rightarrow> bytes \<Rightarrow> 's res) \<Rightarrow> nat \<Rightarrow> nat \<Rightarrow> nat \<Rightarrow> 's
    \<Rightarrow> ('s \<times> nat) res" where
  "read_pieces img sink offset run_bytes remaining st =
     (if \<not> (run_bytes > 0 \<and> remaining > 0) then Inr (st, remaining)
      else let piece = min (min run_bytes run_limit) remaining
           in res_bind (src_read img offset piece) (\<lambda>bs.
              res_bind (sink st bs) (\<lambda>st'.
                read_pieces img sink (offset + piece) (run_bytes - piece) (remaining - piece) st')))"
  by pat_completeness auto
termination
  by (relation "measure (\<lambda>(img, sink, offset, run_bytes, remaining, st). remaining)")
    (auto simp: run_limit_def)

declare read_pieces.simps [simp del]

fun read_runs :: "byte_source \<Rightarrow> fat_volume \<Rightarrow> ('s \<Rightarrow> bytes \<Rightarrow> 's res) \<Rightarrow> (nat \<times> nat) list \<Rightarrow> nat \<Rightarrow> 's
    \<Rightarrow> 's res" where
  "read_runs img v sink [] remaining st = Inr st"
| "read_runs img v sink ((s, n) # runs) remaining st =
     res_bind (read_pieces img sink (cluster_offset v s) (n * cluster_bytes v) remaining st)
       (\<lambda>(st', remaining'). read_runs img v sink runs remaining' st')"

definition clusters_needed :: "fat_volume \<Rightarrow> fat_entry \<Rightarrow> nat" where
  "clusters_needed v f = (entry_size f + cluster_bytes v - 1) div cluster_bytes v"

definition read_file :: "byte_source \<Rightarrow> fat_volume \<Rightarrow> fat_entry \<Rightarrow> ('s \<Rightarrow> bytes \<Rightarrow> 's res) \<Rightarrow> 's \<Rightarrow> 's res" where
  "read_file img v f sink st =
     (if entry_size f = 0 then Inr st
      else res_bind (chain_runs v (first_cluster f) (clusters_needed v f) False)
             (\<lambda>runs. read_runs img v sink runs (entry_size f) st))"

fun read_run_bytes :: "byte_source \<Rightarrow> fat_volume \<Rightarrow> (nat \<times> nat) list \<Rightarrow> bytes res" where
  "read_run_bytes img v [] = Inr []"
| "read_run_bytes img v ((s, n) # runs) =
     res_bind (src_read img (cluster_offset v s) (n * cluster_bytes v)) (\<lambda>bs.
     res_bind (read_run_bytes img v runs) (\<lambda>rest. Inr (bs @ rest)))"

text \<open>\<open>None\<close> is the root directory.\<close>

definition read_directory_bytes :: "byte_source \<Rightarrow> fat_volume \<Rightarrow> fat_entry option \<Rightarrow> bytes res" where
  "read_directory_bytes img v dir =
     (case dir of
        None \<Rightarrow> src_read img (root_offset v) (root_entries v * 32)
      | Some d \<Rightarrow> res_bind (chain_runs v (first_cluster d) 0 True) (read_run_bytes img v))"

subsection \<open>The bytes of clusters and of runs\<close>

definition cluster_data :: "fat_volume \<Rightarrow> bytes \<Rightarrow> nat \<Rightarrow> bytes" where
  "cluster_data v disk c = take (cluster_bytes v) (drop (cluster_offset v c) disk)"

lemma cluster_offset_add: "2 \<le> c \<Longrightarrow> cluster_offset v (c + n) = cluster_offset v c + n * cluster_bytes v"
  by (auto simp: cluster_offset_def add_mult_distrib dest!: le_Suc_ex)

lemma cluster_end:
  assumes "volume_wf n v" and "2 \<le> c" and "c + k \<le> cluster_count v + 2"
  shows "cluster_offset v c + k * cluster_bytes v \<le> n"
proof -
  have "(c - 2) + k \<le> cluster_count v" using assms by simp
  then have "((c - 2) + k) * cluster_bytes v \<le> cluster_count v * cluster_bytes v" by (rule mult_le_mono1)
  with assms(1) show ?thesis
    by (simp add: cluster_offset_def volume_wf_def add_mult_distrib algebra_simps)
qed

lemma run_data:
  assumes "2 \<le> s"
  shows "take (n * cluster_bytes v) (drop (cluster_offset v s) disk)
       = concat (map (cluster_data v disk) [s..<s + n])"
proof (induction n)
  case 0
  then show ?case by simp
next
  case (Suc n)
  have "take (Suc n * cluster_bytes v) (drop (cluster_offset v s) disk)
      = take (n * cluster_bytes v) (drop (cluster_offset v s) disk)
        @ take (cluster_bytes v) (drop (n * cluster_bytes v) (drop (cluster_offset v s) disk))"
    by (metis add.commute mult_Suc take_add)
  then show ?case
    using Suc cluster_offset_add [OF assms, of v n] by (simp add: cluster_data_def add.commute)
qed

text \<open>The runs of a chain are non-empty and inside the data area.\<close>

definition runs_ok :: "fat_volume \<Rightarrow> (nat \<times> nat) list \<Rightarrow> bool" where
  "runs_ok v runs \<longleftrightarrow> (\<forall>(s, n) \<in> set runs. 0 < n \<and> 2 \<le> s \<and> s + n \<le> cluster_count v + 2)"

lemma runs_ok_push:
  assumes "runs_ok v runs" and "data_cluster v c"
  shows "runs_ok v (push_run runs c)"
proof (cases runs rule: rev_cases)
  case Nil
  with assms show ?thesis by (simp add: push_run_def runs_ok_def data_cluster_def)
next
  case (snoc rs r)
  with assms show ?thesis
    by (cases r) (auto simp: push_run_def runs_ok_def data_cluster_def)
qed

lemma chain_loop_runs_ok:
  "chain_loop v needed until_end seen c collected runs = Inr runs' \<Longrightarrow> runs_ok v runs \<Longrightarrow> runs_ok v runs'"
proof (induction v needed until_end seen c collected runs rule: chain_loop.induct)
  case (1 v needed until_end seen c collected runs)
  then have c: "\<not> (c < 2 \<or> c > cluster_count v + 1)" "c \<notin> set seen"
    by (subst (asm) chain_loop.simps; auto split: if_splits)+
  then have push: "runs_ok v (push_run runs c)"
    using "1.prems"(2) by (intro runs_ok_push) (auto simp: data_cluster_def)
  from "1.prems"(1) c consider "runs' = push_run runs c"
    | d where "next_cluster v c = Inr (Some d)" "\<not> (\<not> until_end \<and> collected + 1 = needed)"
        "chain_loop v needed until_end (c # seen) d (collected + 1) (push_run runs c) = Inr runs'"
    by (subst (asm) chain_loop.simps) (auto simp: Let_def res_bind_Inr_iff split: if_splits option.splits)
  then show ?case
  proof cases
    case 1
    with push show ?thesis by simp
  next
    case (2 d)
    with "1.IH" [OF c refl refl 2(2) 2(1) refl 2(3) push] show ?thesis by simp
  qed
qed

lemma chain_runs_ok: "chain_runs v first needed until_end = Inr runs \<Longrightarrow> runs_ok v runs"
  by (auto simp: chain_runs_def runs_ok_def split: if_splits dest!: chain_loop_runs_ok)

subsection \<open>What is streamed\<close>

definition append_sink :: "bytes \<Rightarrow> bytes \<Rightarrow> bytes res" where
  "append_sink st bs = Inr (st @ bs)"

context exact_source
begin

lemma read_pieces_append:
  "offset + run_bytes \<le> length image \<Longrightarrow>
   read_pieces src append_sink offset run_bytes remaining st =
     Inr (st @ take (min run_bytes remaining) (drop offset image), remaining - run_bytes)"
proof (induction "run_bytes" arbitrary: offset remaining st rule: less_induct)
  case (less run_bytes)
  show ?case
  proof (cases "run_bytes > 0 \<and> remaining > 0")
    case False
    then show ?thesis by (subst read_pieces.simps) auto
  next
    case True
    define piece where "piece = min (min run_bytes run_limit) remaining"
    have piece: "0 < piece" "piece \<le> run_bytes" "piece \<le> remaining"
      using True by (auto simp: piece_def run_limit_def)
    have "read_pieces src append_sink offset run_bytes remaining st
        = read_pieces src append_sink (offset + piece) (run_bytes - piece) (remaining - piece)
            (st @ take piece (drop offset image))"
      using True read_ok [of offset piece] piece less.prems
      by (subst read_pieces.simps) (simp add: piece_def [symmetric] append_sink_def Let_def)
    also have "\<dots> = Inr ((st @ take piece (drop offset image))
        @ take (min (run_bytes - piece) (remaining - piece)) (drop (offset + piece) image),
        remaining - piece - (run_bytes - piece))"
      using piece less.prems by (intro less.IH) auto
    also have "\<dots> = Inr (st @ take (min run_bytes remaining) (drop offset image), remaining - run_bytes)"
      using piece take_add [of piece "min run_bytes remaining - piece" "drop offset image"]
      by (simp add: min_diff add.commute)
    finally show ?thesis .
  qed
qed

lemma read_runs_append:
  "volume_wf (length image) v \<Longrightarrow> runs_ok v runs \<Longrightarrow>
   read_runs src v append_sink runs remaining st =
     Inr (st @ take remaining (concat (map (cluster_data v image) (expand_runs runs))))"
proof (induction runs arbitrary: remaining st)
  case Nil
  then show ?case by simp
next
  case (Cons r runs)
  obtain s n where r: "r = (s, n)" by (cases r)
  from Cons.prems r have run: "2 \<le> s" "s + n \<le> cluster_count v + 2" and rest: "runs_ok v runs"
    by (auto simp: runs_ok_def)
  let ?run = "concat (map (cluster_data v image) [s..<s + n])"
  note fit = cluster_end [OF Cons.prems(1) run]
  have len: "length ?run = n * cluster_bytes v"
    using fit unfolding run_data [OF run(1), symmetric] by simp
  have "read_pieces src append_sink (cluster_offset v s) (n * cluster_bytes v) remaining st
      = Inr (st @ take remaining ?run, remaining - n * cluster_bytes v)"
    using read_pieces_append [OF fit] unfolding run_data [OF run(1), symmetric]
    by (simp add: min.commute)
  then show ?case
    using Cons.IH [OF Cons.prems(1) rest] len by (simp add: r)
qed

lemma read_file_append:
  assumes "volume_wf (length image) v"
  shows "read_file src v f append_sink st =
    res_bind (chain_runs v (first_cluster f) (clusters_needed v f) False) (\<lambda>runs.
      Inr (st @ take (entry_size f) (concat (map (cluster_data v image) (expand_runs runs)))))"
proof (cases "entry_size f = 0")
  case True
  then have "clusters_needed v f = 0"
    using assms by (simp add: clusters_needed_def volume_wf_def)
  with True show ?thesis by (simp add: read_file_def chain_runs_def)
next
  case False
  then show ?thesis
    by (auto simp: read_file_def res_bind_def read_runs_append [OF assms] chain_runs_ok split: sum.splits)
qed

lemma read_run_bytes_eq:
  "volume_wf (length image) v \<Longrightarrow> runs_ok v runs \<Longrightarrow>
   read_run_bytes src v runs = Inr (concat (map (cluster_data v image) (expand_runs runs)))"
proof (induction runs)
  case Nil
  then show ?case by simp
next
  case (Cons r runs)
  obtain s n where r: "r = (s, n)" by (cases r)
  from Cons.prems r have run: "2 \<le> s" "s + n \<le> cluster_count v + 2" and rest: "runs_ok v runs"
    by (auto simp: runs_ok_def)
  from read_ok [OF cluster_end [OF Cons.prems(1) run]] Cons.IH [OF Cons.prems(1) rest]
  show ?case by (simp add: r run_data [OF run(1)])
qed

lemma read_directory_bytes_eq:
  assumes "volume_wf (length image) v"
  shows "read_directory_bytes src v dir = (case dir of
      None \<Rightarrow> Inr (take (root_entries v * 32) (drop (root_offset v) image))
    | Some d \<Rightarrow> res_bind (chain_runs v (first_cluster d) 0 True)
        (\<lambda>runs. Inr (concat (map (cluster_data v image) (expand_runs runs)))))"
proof (cases dir)
  case None
  have "root_offset v + root_entries v * 32 \<le> length image"
    using assms by (auto simp: volume_wf_def)
  with None show ?thesis by (simp add: read_directory_bytes_def read_ok)
next
  case (Some d)
  then show ?thesis
    by (auto simp: read_directory_bytes_def res_bind_def read_run_bytes_eq [OF assms] chain_runs_ok
        split: sum.splits)
qed

end

text \<open>A cluster inside the volume holds its full size of bytes, so a file has exactly its size.\<close>

lemma length_cluster_data:
  assumes "volume_wf (length disk) v" and "data_cluster v c"
  shows "length (cluster_data v disk c) = cluster_bytes v"
  using cluster_end [OF assms(1), of c 1] assms(2) by (simp add: cluster_data_def data_cluster_def)

lemma length_chain_data:
  assumes "volume_wf (length disk) v" and "fat_chain v cs"
  shows "length (concat (map (cluster_data v disk) cs)) = length cs * cluster_bytes v"
proof -
  have "\<forall>c \<in> set cs. length (cluster_data v disk c) = cluster_bytes v"
    using length_cluster_data [OF assms(1)] fat_chain_data [OF assms(2)] by blast
  then show ?thesis by (induction cs) simp_all
qed

lemma clusters_needed_enough:
  assumes "0 < sectors_per_cluster v"
  shows "entry_size f \<le> clusters_needed v f * cluster_bytes v"
proof -
  let ?b = "cluster_bytes v"
  have "(entry_size f + ?b - 1) div ?b * ?b + (entry_size f + ?b - 1) mod ?b = entry_size f + ?b - 1"
    by (rule div_mult_mod_eq)
  moreover have "(entry_size f + ?b - 1) mod ?b < ?b"
    using assms by (intro mod_less_divisor) simp
  ultimately show ?thesis unfolding clusters_needed_def by linarith
qed


subsection \<open>Properties\<close>

text \<open>C20: a file's bytes are its clusters' bytes, cut at its size. On an image that holds the volume, reading a
  file succeeds exactly when its chain is whole; the sink then has received, in order, the
  first \<open>entry_size\<close> bytes of the chain's clusters, and no byte less.\<close>

theorem read_file_contents:
  assumes "exact_source src disk" and "volume_wf (length disk) v"
  shows "read_file src v f append_sink [] = Inr bs \<longleftrightarrow>
    (\<exists>cs. fat_chain v cs \<and> distinct cs \<and> length cs = clusters_needed v f \<and> (cs = [] \<or> hd cs = first_cluster f)
       \<and> bs = take (entry_size f) (concat (map (cluster_data v disk) cs)) \<and> length bs = entry_size f)"
proof -
  have len: "length (take (entry_size f) (concat (map (cluster_data v disk) cs))) = entry_size f"
    if "fat_chain v cs" "length cs = clusters_needed v f" for cs
    using length_chain_data [OF assms(2) that(1)] that(2) clusters_needed_enough [of v f] assms(2)
    by (simp add: volume_wf_def)
  have "read_file src v f append_sink [] = Inr bs \<longleftrightarrow>
      (\<exists>runs. chain_runs v (first_cluster f) (clusters_needed v f) False = Inr runs
         \<and> bs = take (entry_size f) (concat (map (cluster_data v disk) (expand_runs runs))))"
    unfolding exact_source.read_file_append [OF assms] by (auto simp: res_bind_Inr_iff)
  also have "\<dots> \<longleftrightarrow> (\<exists>cs. (\<exists>runs. chain_runs v (first_cluster f) (clusters_needed v f) False = Inr runs \<and> expand_runs runs = cs)
         \<and> bs = take (entry_size f) (concat (map (cluster_data v disk) cs)))" by auto
  finally show ?thesis unfolding chain_runs_file_iff using len by auto
qed

definition sample_volume :: fat_volume where
  "sample_volume = \<lparr>sectors_per_cluster = 1, cluster_count = 4085, root_entries = 16, root_offset = 0, data_offset = 512,
     fat_table = replicate 4087 0xFFFF\<rparr>"

definition sample_disk :: bytes where
  "sample_disk = replicate (512 + 4085 * 512) 7"

lemma sample_volume_wf: "volume_wf (length sample_disk) sample_volume"
  unfolding volume_wf_def sample_volume_def sample_disk_def by simp

lemma read_file_contents_witness:
  "read_file (memory_source sample_disk) sample_volume
     \<lparr>entry_name = [], is_directory = False, first_cluster = 2, entry_size = 3\<rparr> append_sink [] = Inr [7, 7, 7]"
proof -
  let ?f = "\<lparr>entry_name = [], is_directory = False, first_cluster = 2, entry_size = 3\<rparr>"
  have "clusters_needed sample_volume ?f = 1" by (simp add: clusters_needed_def sample_volume_def)
  moreover have "fat_chain sample_volume [2]" by (simp add: data_cluster_def sample_volume_def)
  moreover have "take 3 (cluster_data sample_volume sample_disk 2) = [7, 7, 7]"
    by (simp add: cluster_data_def sample_disk_def sample_volume_def cluster_offset_def numeral_3_eq_3)
  ultimately show ?thesis
    unfolding read_file_contents [OF memory.exact_source_axioms sample_volume_wf]
    by (intro exI [of _ "[2]"]) simp
qed

end
