(* ===== verification/Fat16_Directory.thy ===== *)
theory Fat16_Directory
  imports Fat16_Files
begin

section \<open>Directories: long names, short names, the walk\<close>

text \<open>
  \<^verbatim>\<open>ReadDirectory\<close>, \<^verbatim>\<open>WalkDirectory\<close> and their helpers in \<^verbatim>\<open>src/quest/obb/fat16.cpp\<close>. The names
  become paths the extractor writes to disk, so the point of the theory is \<open>safe_name\<close>: every name
  that leaves \<open>read_directory\<close> is one path component.
\<close>

unbundle bit_operations_syntax

definition short_name_checksum :: "bytes \<Rightarrow> u8" where
  "short_name_checksum name11 =
     foldl (\<lambda>s b. (if s AND 1 \<noteq> 0 then 0x80 else 0) + drop_bit 1 s + b) 0 (take 11 name11)"

subsection \<open>UTF-16 to UTF-8\<close>

definition utf8_bytes :: "u32 \<Rightarrow> bytes" where
  "utf8_bytes c =
     (if c < 0x80 then [ucast c]
      else if c < 0x800 then [ucast (0xC0 OR drop_bit 6 c), ucast (0x80 OR (c AND 0x3F))]
      else if c < 0x10000 then
        [ucast (0xE0 OR drop_bit 12 c), ucast (0x80 OR (drop_bit 6 c AND 0x3F)), ucast (0x80 OR (c AND 0x3F))]
      else [ucast (0xF0 OR drop_bit 18 c), ucast (0x80 OR (drop_bit 12 c AND 0x3F)),
            ucast (0x80 OR (drop_bit 6 c AND 0x3F)), ucast (0x80 OR (c AND 0x3F))])"

definition high_surrogate :: "u16 \<Rightarrow> bool" where
  "high_surrogate c \<longleftrightarrow> c \<ge> 0xD800 \<and> c \<le> 0xDBFF"

definition low_surrogate :: "u16 \<Rightarrow> bool" where
  "low_surrogate c \<longleftrightarrow> c \<ge> 0xDC00 \<and> c \<le> 0xDFFF"

fun append_utf8 :: "u16 list \<Rightarrow> bytes option" where
  "append_utf8 [] = Some []"
| "append_utf8 (c # cs) =
     (if high_surrogate c then
        (case cs of
           [] \<Rightarrow> None
         | d # ds \<Rightarrow>
             if \<not> low_surrogate d then None
             else map_option ((@) (utf8_bytes (0x10000 + push_bit 10 (ucast c - 0xD800) + (ucast d - 0xDC00))))
                    (append_utf8 ds))
      else if low_surrogate c then None
      else map_option ((@) (utf8_bytes (ucast c))) (append_utf8 cs))"

subsection \<open>Names\<close>

definition slash :: u8 where "slash = 0x2F"
definition backslash :: u8 where "backslash = 0x5C"
definition dot :: u8 where "dot = 0x2E"
definition space :: u8 where "space = 0x20"

definition safe_name :: "bytes \<Rightarrow> bool" where
  "safe_name name \<longleftrightarrow> name \<noteq> [] \<and> name \<noteq> [dot] \<and> name \<noteq> [dot, dot]
     \<and> slash \<notin> set name \<and> backslash \<notin> set name \<and> 0 \<notin> set name"

definition trim_trailing :: "bytes \<Rightarrow> bytes" where
  "trim_trailing s = rev (dropWhile (\<lambda>c. c = space) (rev s))"

definition short_name :: "bytes \<Rightarrow> bytes res" where
  "short_name e =
     (let base0 = take 8 e;
          base1 = (if base0 ! 0 = 0x05 then base0[0 := 0xE5] else base0);
          base = trim_trailing base1;
          ext = trim_trailing (take 3 (drop 8 e));
          base' = (if e ! 12 AND 0x08 \<noteq> 0 then map to_lower base else base);
          ext' = (if e ! 12 AND 0x10 \<noteq> 0 then map to_lower ext else ext)
      in if \<exists>c \<in> set (base @ ext). c \<ge> 0x80 then Inl (Fail ''fat_bad_short_name'')
         else Inr (if ext' = [] then base' else base' @ [dot] @ ext'))"

record long_name =
  lfn_active :: bool
  expected_ordinal :: nat
  lfn_checksum :: u8
  lfn_parts :: nat
  chunks :: "nat \<Rightarrow> u16 list"

definition no_long_name :: long_name where
  "no_long_name = \<lparr>lfn_active = False, expected_ordinal = 0, lfn_checksum = 0, lfn_parts = 0,
                   chunks = (\<lambda>_. [])\<rparr>"

definition lfn_reset :: "long_name \<Rightarrow> long_name" where
  "lfn_reset l = l\<lparr>lfn_active := False\<rparr>"

definition max_long_parts :: nat where "max_long_parts = 20"

definition lfn_offsets :: "nat list" where
  "lfn_offsets = [1, 3, 5, 7, 9, 14, 16, 18, 20, 22, 24, 28, 30]"

definition lfn_chunk :: "bytes \<Rightarrow> u16 list" where
  "lfn_chunk e = map (\<lambda>offset. ucast (le16 e offset)) lfn_offsets"

definition lfn_store :: "bytes \<Rightarrow> nat \<Rightarrow> long_name \<Rightarrow> long_name" where
  "lfn_store e ordinal l = l\<lparr>chunks := (chunks l)(ordinal := lfn_chunk e), expected_ordinal := ordinal\<rparr>"

text \<open>A long-name entry: the last one opens a name, the others must count down under one checksum.\<close>

definition lfn_entry :: "long_name \<Rightarrow> bytes \<Rightarrow> long_name" where
  "lfn_entry l e =
     (let ordinal = unat (e ! 0 AND 0x1F)
      in if e ! 0 AND 0x40 \<noteq> 0 then
           (if ordinal < 1 \<or> ordinal > max_long_parts then lfn_reset l
            else lfn_store e ordinal (l\<lparr>lfn_active := True, lfn_parts := ordinal, lfn_checksum := e ! 13\<rparr>))
         else if \<not> lfn_active l \<or> ordinal + 1 \<noteq> expected_ordinal l \<or> e ! 13 \<noteq> lfn_checksum l then lfn_reset l
         else lfn_store e ordinal l)"

definition long_name_bytes :: "long_name \<Rightarrow> bytes res" where
  "long_name_bytes l =
     (let joined = concat (map (chunks l) [1..<lfn_parts l + 1])
      in case append_utf8 (takeWhile (\<lambda>c. c \<noteq> 0) joined) of
           None \<Rightarrow> Inl (Fail ''fat_bad_long_name'')
         | Some name \<Rightarrow> Inr name)"

subsection \<open>One directory entry, and the directory\<close>

datatype dir_step = Stop | Skip long_name | Entry fat_entry long_name

definition make_entry :: "bytes \<Rightarrow> bytes \<Rightarrow> fat_entry" where
  "make_entry e name =
     (let is_dir = e ! 11 AND 0x10 \<noteq> 0
      in \<lparr>entry_name = name, is_directory = is_dir, first_cluster = unat (le16 e 26),
          entry_size = (if is_dir then 0 else unat (le32 e 28))\<rparr>)"

definition use_long_name :: "long_name \<Rightarrow> bytes \<Rightarrow> bool" where
  "use_long_name l e \<longleftrightarrow>
     lfn_active l \<and> expected_ordinal l = 1 \<and> lfn_checksum l = short_name_checksum e"

definition dir_entry :: "long_name \<Rightarrow> bytes \<Rightarrow> dir_step res" where
  "dir_entry l e =
     (if e ! 0 = 0 then Inr Stop
      else if e ! 0 = 0xE5 then Inr (Skip (lfn_reset l))
      else if e ! 11 AND 0x3F = 0x0F then Inr (Skip (lfn_entry l e))
      else if e ! 11 AND 0x08 \<noteq> 0 then Inr (Skip (lfn_reset l))
      else res_bind (if use_long_name l e then long_name_bytes l else short_name e) (\<lambda>name.
        if \<not> use_long_name l e \<and> (name = [dot] \<or> name = [dot, dot]) then Inr (Skip (lfn_reset l))
        else if \<not> safe_name name then Inl (Fail ''fat_unsafe_name'')
        else Inr (Entry (make_entry e name) (lfn_reset l))))"

function read_entries :: "long_name \<Rightarrow> bytes \<Rightarrow> fat_entry list res" where
  "read_entries l bs =
     (if length bs < 32 then Inr []
      else res_bind (dir_entry l (take 32 bs)) (\<lambda>s. case s of
          Stop \<Rightarrow> Inr []
        | Skip l' \<Rightarrow> read_entries l' (drop 32 bs)
        | Entry e l' \<Rightarrow> res_bind (read_entries l' (drop 32 bs)) (\<lambda>es. Inr (e # es))))"
  by pat_completeness auto
termination
  by (relation "measure (\<lambda>(l, bs). length bs)") auto

declare read_entries.simps [simp del]

definition read_directory :: "byte_source \<Rightarrow> fat_volume \<Rightarrow> fat_entry option \<Rightarrow> fat_entry list res" where
  "read_directory img v dir = res_bind (read_directory_bytes img v dir) (read_entries no_long_name)"

subsection \<open>The walk\<close>

definition max_depth :: nat where "max_depth = 16"

definition join_path :: "bytes \<Rightarrow> bytes \<Rightarrow> bytes" where
  "join_path prefix name = (if prefix = [] then name else prefix @ [slash] @ name)"

type_synonym 'v visitor = "'v \<Rightarrow> bytes \<Rightarrow> fat_entry \<Rightarrow> 'v res"

definition walk_rank :: "nat \<Rightarrow> nat" where
  "walk_rank depth = max_depth + 1 - depth"

function walk_directory :: "byte_source \<Rightarrow> fat_volume \<Rightarrow> 'v visitor \<Rightarrow> fat_entry option \<Rightarrow> bytes \<Rightarrow> nat \<Rightarrow> 'v \<Rightarrow> 'v res"
  and walk_entries :: "byte_source \<Rightarrow> fat_volume \<Rightarrow> 'v visitor \<Rightarrow> fat_entry list \<Rightarrow> bytes \<Rightarrow> nat \<Rightarrow> 'v \<Rightarrow> 'v res" where
  "walk_directory img v visit dir prefix depth st =
     (if depth > max_depth then Inl (Fail ''fat_directory_too_deep'')
      else res_bind (read_directory img v dir) (\<lambda>es. walk_entries img v visit es prefix depth st))"
| "walk_entries img v visit [] prefix depth st = Inr st"
| "walk_entries img v visit (e # es) prefix depth st =
     res_bind (visit st (join_path prefix (entry_name e)) e) (\<lambda>st'.
     res_bind (if is_directory e
               then walk_directory img v visit (Some e) (join_path prefix (entry_name e)) (depth + 1) st'
               else Inr st') (\<lambda>st''.
       walk_entries img v visit es prefix depth st''))"
  by pat_completeness auto

termination
  by (relation "measures [\<lambda>x. case x of
        Inl (img, v, visit, dir, prefix, depth, st) \<Rightarrow> 2 * walk_rank depth
      | Inr (img, v, visit, es, prefix, depth, st) \<Rightarrow> (if depth > max_depth then 1 else 2 * walk_rank depth - 1),
      \<lambda>x. case x of Inl _ \<Rightarrow> 0 | Inr (img, v, visit, es, prefix, depth, st) \<Rightarrow> length es]")
    (auto simp: walk_rank_def)

declare walk_directory.simps [simp del]

definition walk :: "byte_source \<Rightarrow> fat_volume \<Rightarrow> 'v visitor \<Rightarrow> 'v \<Rightarrow> 'v res" where
  "walk img v visit st = walk_directory img v visit None [] 0 st"

subsection \<open>Every name is one path component\<close>

lemma dir_entry_safe:
  "dir_entry l e = Inr (Entry x l') \<Longrightarrow> safe_name (entry_name x) \<and> \<not> lfn_active l'"
  by (auto simp: dir_entry_def make_entry_def Let_def lfn_reset_def res_bind_Inr_iff split: if_splits)

lemma read_entries_safe:
  "read_entries l bs = Inr es \<Longrightarrow> \<forall>e \<in> set es. safe_name (entry_name e)"
proof (induction l bs arbitrary: es rule: read_entries.induct)
  case (1 l bs)
  show ?case
  proof (cases "length bs < 32")
    case True
    with "1.prems" show ?thesis by (simp add: read_entries.simps)
  next
    case False
    with "1.prems" obtain s where s: "dir_entry l (take 32 bs) = Inr s"
      and es: "(case s of Stop \<Rightarrow> Inr [] | Skip l' \<Rightarrow> read_entries l' (drop 32 bs)
        | Entry e l' \<Rightarrow> res_bind (read_entries l' (drop 32 bs)) (\<lambda>es. Inr (e # es))) = Inr es"
      by (subst (asm) read_entries.simps) (auto simp: res_bind_Inr_iff)
    show ?thesis
    proof (cases s)
      case Stop
      with es show ?thesis by simp
    next
      case (Skip l')
      with es "1.IH"(1) [OF False s Skip] show ?thesis by simp
    next
      case (Entry e l')
      with es obtain es' where "read_entries l' (drop 32 bs) = Inr es'" "es = e # es'"
        by (auto simp: res_bind_Inr_iff)
      with "1.IH"(2) [OF False s Entry] dir_entry_safe [of l "take 32 bs" e l'] s Entry
      show ?thesis by simp
    qed
  qed
qed

lemma read_directory_safe:
  "read_directory img v dir = Inr es \<Longrightarrow> \<forall>e \<in> set es. safe_name (entry_name e)"
  by (auto simp: read_directory_def res_bind_Inr_iff dest: read_entries_safe)

text \<open>What a name must be for a file system, and a path of at most \<open>n\<close> such components.\<close>

definition component :: "bytes \<Rightarrow> bool" where
  "component c \<longleftrightarrow> c \<notin> {[], bytes_of ''.'', bytes_of ''..''} \<and> set c \<inter> {0x2F, 0x5C, 0} = {}"

lemma safe_name_component: "safe_name c \<Longrightarrow> component c"
  by (auto simp: safe_name_def component_def bytes_of_def dot_def slash_def backslash_def)

definition safe_path :: "nat \<Rightarrow> bytes \<Rightarrow> bool" where
  "safe_path n p \<longleftrightarrow> (\<exists>names. names \<noteq> [] \<and> length names \<le> n \<and> (\<forall>c \<in> set names. component c)
     \<and> p = foldl join_path [] names)"

definition safe_prefix :: "nat \<Rightarrow> bytes \<Rightarrow> bool" where
  "safe_prefix n p \<longleftrightarrow> (\<exists>names. length names \<le> n \<and> (\<forall>c \<in> set names. component c)
     \<and> p = foldl join_path [] names)"

lemma safe_prefix_join:
  assumes "safe_prefix n p" and "component c" and "n < m"
  shows "safe_path m (join_path p c) \<and> safe_prefix (n + 1) (join_path p c)"
proof -
  from assms(1) obtain names where n: "length names \<le> n" "\<forall>c \<in> set names. component c"
      "p = foldl join_path [] names"
    by (auto simp: safe_prefix_def)
  let ?names = "names @ [c]"
  have "safe_path m (join_path p c)"
    unfolding safe_path_def using n assms(2,3) by (intro exI [of _ ?names]) auto
  moreover have "safe_prefix (n + 1) (join_path p c)"
    unfolding safe_prefix_def using n assms(2) by (intro exI [of _ ?names]) auto
  ultimately show ?thesis by blast
qed

text \<open>
  What a walk preserves: anything the visitor keeps when it is called on a safe path of at most
  seventeen components with a safe entry name.
\<close>

definition visitor_keeps :: "'v visitor \<Rightarrow> ('v \<Rightarrow> bool) \<Rightarrow> bool" where
  "visitor_keeps visit P \<longleftrightarrow> (\<forall>st p e st'. P st \<longrightarrow> safe_path (max_depth + 1) p \<longrightarrow>
     safe_name (entry_name e) \<longrightarrow> visit st p e = Inr st' \<longrightarrow> P st')"

lemma walk_keeps_aux:
  "walk_directory img v visit dir prefix depth st = Inr st' \<Longrightarrow>
     visitor_keeps visit P \<Longrightarrow> safe_prefix depth prefix \<Longrightarrow> P st \<Longrightarrow> P st'"
  "walk_entries img v visit es prefix depth st = Inr st' \<Longrightarrow>
     visitor_keeps visit P \<Longrightarrow> safe_prefix depth prefix \<Longrightarrow> depth \<le> max_depth \<Longrightarrow>
     \<forall>e \<in> set es. safe_name (entry_name e) \<Longrightarrow> P st \<Longrightarrow> P st'"
proof (induction img v visit dir prefix depth st and img v visit es prefix depth st arbitrary: st' and st'
    rule: walk_directory_walk_entries.induct)
  case (1 img v visit dir prefix depth st)
  then have depth: "\<not> depth > max_depth"
    by (subst (asm) walk_directory.simps) (auto split: if_splits)
  with "1.prems"(1) obtain es where es: "read_directory img v dir = Inr es"
      "walk_entries img v visit es prefix depth st = Inr st'"
    by (subst (asm) walk_directory.simps) (auto simp: res_bind_Inr_iff)
  with "1.IH" [OF depth es(1) es(2) "1.prems"(2,3)] depth "1.prems"(4) show ?case
    using read_directory_safe [OF es(1)] by simp
next
  case (2 img v visit prefix depth st)
  then show ?case by simp
next
  case (3 img v visit e es prefix depth st)
  let ?path = "join_path prefix (entry_name e)"
  from "3.prems"(1) obtain st1 st2 where v: "visit st ?path e = Inr st1"
    and sub: "(if is_directory e then walk_directory img v visit (Some e) ?path (depth + 1) st1
               else Inr st1) = Inr st2"
    and rest: "walk_entries img v visit es prefix depth st2 = Inr st'"
    by (auto simp: res_bind_Inr_iff)
  have safe: "safe_path (max_depth + 1) ?path" "safe_prefix (depth + 1) ?path"
    using safe_prefix_join [OF "3.prems"(3), of "entry_name e" "max_depth + 1"] "3.prems"(4,5) safe_name_component by auto
  have "P st1"
    using "3.prems"(2,5,6) v safe(1) unfolding visitor_keeps_def by force
  then have "P st2"
    using sub "3.IH"(1) [OF v _ _ "3.prems"(2) safe(2)] by (auto split: if_splits)
  then show ?case
    using "3.IH"(2) [OF v sub rest "3.prems"(2,3,4)] "3.prems"(5) by simp
qed

lemma walk_keeps:
  assumes "walk img v visit st = Inr st'" and "visitor_keeps visit P" and "P st"
  shows "P st'"
proof -
  have root: "safe_prefix 0 []" by (simp add: safe_prefix_def)
  from assms(1) [unfolded walk_def] assms(2) root assms(3) show ?thesis
    by (rule walk_keeps_aux(1))
qed

text \<open>The visitor that lists what it is shown.\<close>

definition collect :: "(bytes \<times> fat_entry) list visitor" where
  "collect st p e = Inr (st @ [(p, e)])"


subsection \<open>Properties\<close>


definition sample_root :: bytes where
  "sample_root = bytes_of ''A       TXT'' @ [0, 0, 0, 0, 0, 0, 0, 0, 0, 0, 0, 0, 0, 0, 0, 0, 0, 0, 0, 0, 0]"

definition sample_entry :: fat_entry where
  "sample_entry = \<lparr>entry_name = bytes_of ''A.TXT'', is_directory = False, first_cluster = 0, entry_size = 0\<rparr>"

lemma sample_dir_entry: "dir_entry no_long_name sample_root = Inr (Entry sample_entry no_long_name)"
  by (simp add: sample_root_def sample_entry_def bytes_of_def dir_entry_def use_long_name_def
      no_long_name_def short_name_def trim_trailing_def space_def dot_def safe_name_def slash_def backslash_def
      make_entry_def lfn_reset_def le16_def le32_def Let_def)

lemma sample_read_entries: "read_entries no_long_name sample_root = Inr [sample_entry]"
proof -
  have len: "length sample_root = 32" by (simp add: sample_root_def)
  then have "take 32 sample_root = sample_root" "drop 32 sample_root = []" by simp_all
  moreover have "read_entries no_long_name [] = Inr []" by (simp add: read_entries.simps)
  ultimately show ?thesis
    using len sample_dir_entry by (simp add: read_entries.simps [of no_long_name sample_root])
qed


text \<open>A name is one component whatever the bytes of the directory: reading any directory bytes either
  refuses or yields entries with safe names, and never loses the count of entries: each 32-byte record gives at
  most one.\<close>

theorem read_entries_safe_and_bounded:
  assumes "read_entries l bs = Inr es"
  shows "(\<forall>e\<in>set es. component (entry_name e)) \<and> 32 * length es \<le> length bs"
proof -
  have "read_entries l bs = Inr es \<Longrightarrow> 32 * length es \<le> length bs" for es
  proof (induction l bs arbitrary: es rule: read_entries.induct)
    case (1 l bs)
    show ?case
    proof (cases "length bs < 32")
      case True
      with "1.prems" show ?thesis by (simp add: read_entries.simps)
    next
      case False
      with "1.prems" obtain s where s: "dir_entry l (take 32 bs) = Inr s"
        and es: "(case s of Stop \<Rightarrow> Inr [] | Skip l' \<Rightarrow> read_entries l' (drop 32 bs)
          | Entry e l' \<Rightarrow> res_bind (read_entries l' (drop 32 bs)) (\<lambda>es. Inr (e # es))) = Inr es"
        by (subst (asm) read_entries.simps) (auto simp: res_bind_Inr_iff)
      show ?thesis
      proof (cases s)
        case Stop
        with es show ?thesis by simp
      next
        case (Skip l')
        with es "1.IH"(1) [OF False s Skip] show ?thesis by simp
      next
        case (Entry e l')
        with es obtain es' where "read_entries l' (drop 32 bs) = Inr es'" "es = e # es'"
          by (auto simp: res_bind_Inr_iff)
        with "1.IH"(2) [OF False s Entry] False show ?thesis by simp
      qed
    qed
  qed
  with read_entries_safe [OF assms] safe_name_component assms show ?thesis by blast
qed

lemma read_entries_safe_and_bounded_witness:
  "\<exists>es. read_entries no_long_name sample_root = Inr es \<and> (\<forall>e\<in>set es. component (entry_name e)) \<and> length es = 1"
  using read_entries_safe_and_bounded [OF sample_read_entries] sample_read_entries by auto

end
