(* ===== verification/Block_Hash.thy ===== *)
theory Block_Hash
  imports Nevr_Prelude
begin

section \<open>Streaming block hashes\<close>

text \<open>
  The interface the two digests of the program share (SHA-1 of the loopback handshake, SHA-256 of
  the data packs): a chaining value over 64-byte blocks, fed in pieces of any length. What a digest
  has to promise is that its chaining value and its pending bytes are those of the whole input cut
  into blocks; then how the input was cut into pieces cannot show.
\<close>

unbundle bit_operations_syntax

function md_blocks :: "('h \<Rightarrow> bytes \<Rightarrow> 'h) \<Rightarrow> 'h \<Rightarrow> bytes \<Rightarrow> 'h \<times> bytes" where
  "md_blocks compress h bs =
     (if length bs < 64 then (h, bs) else md_blocks compress (compress h (take 64 bs)) (drop 64 bs))"
  by pat_completeness auto
termination
  by (relation "measure (\<lambda>(compress, h, bs). length bs)") auto

declare md_blocks.simps [simp del]

lemma md_blocks_short [simp]: "length bs < 64 \<Longrightarrow> md_blocks compress h bs = (h, bs)"
  by (simp add: md_blocks.simps)

lemma md_blocks_block: "length b = 64 \<Longrightarrow> md_blocks compress h (b @ bs) = md_blocks compress (compress h b) bs"
  by (subst md_blocks.simps) simp

lemma md_blocks_pending: "length (snd (md_blocks compress h bs)) < 64"
proof (induction compress h bs rule: md_blocks.induct)
  case (1 compress h bs)
  then show ?case by (subst md_blocks.simps) auto
qed

lemma md_blocks_pending_length: "length (snd (md_blocks compress h bs)) = length bs mod 64"
proof (induction compress h bs rule: md_blocks.induct)
  case (1 compress h bs)
  show ?case
  proof (cases "length bs < 64")
    case False
    with 1 show ?thesis by (subst md_blocks.simps) (simp add: le_mod_geq)
  qed simp
qed

lemma md_blocks_append:
  "md_blocks compress h (as @ bs) =
     md_blocks compress (fst (md_blocks compress h as)) (snd (md_blocks compress h as) @ bs)"
proof (induction compress h as rule: md_blocks.induct)
  case (1 compress h as)
  show ?case
  proof (cases "length as < 64")
    case True
    then show ?thesis by simp
  next
    case False
    then have "as @ bs = take 64 as @ (drop 64 as @ bs)" and len: "length (take 64 as) = 64" by auto
    then have "md_blocks compress h (as @ bs) = md_blocks compress (compress h (take 64 as)) (drop 64 as @ bs)"
      by (metis md_blocks_block)
    with "1.IH" [OF False] False show ?thesis
      by (simp add: md_blocks.simps [of compress h as])
  qed
qed

locale block_hash =
  fixes compress :: "'h \<Rightarrow> bytes \<Rightarrow> 'h"
    and update :: "'s \<Rightarrow> bytes \<Rightarrow> 's"
    and chain :: "'s \<Rightarrow> 'h"
    and pending :: "'s \<Rightarrow> bytes"
    and ok :: "'s \<Rightarrow> bool"
  assumes update_ok: "ok s \<Longrightarrow> ok (update s bs)"
    and update_blocks: "ok s \<Longrightarrow>
      (chain (update s bs), pending (update s bs)) = md_blocks compress (chain s) (pending s @ bs)"
    and pending_short: "ok s \<Longrightarrow> length (pending s) < 64"
begin

lemma chain_update: "ok s \<Longrightarrow> chain (update s bs) = fst (md_blocks compress (chain s) (pending s @ bs))"
  by (metis fst_conv update_blocks)

lemma pending_update: "ok s \<Longrightarrow> pending (update s bs) = snd (md_blocks compress (chain s) (pending s @ bs))"
  by (metis snd_conv update_blocks)

lemma update_append:
  assumes "ok s"
  shows "chain (update (update s as) bs) = chain (update s (as @ bs))"
    and "pending (update (update s as) bs) = pending (update s (as @ bs))"
  using assms
  by (simp_all add: chain_update pending_update update_ok md_blocks_append [of _ _ "_ @ _" bs, simplified])

lemma fold_update:
  assumes "ok s"
  shows "ok (foldl update s pieces)
    \<and> (chain (foldl update s pieces), pending (foldl update s pieces))
        = md_blocks compress (chain s) (pending s @ concat pieces)"
  using assms
proof (induction pieces arbitrary: s)
  case Nil
  then show ?case by (simp add: pending_short)
next
  case (Cons p pieces)
  then have "ok (update s p)" by (simp add: update_ok)
  from Cons.IH [OF this] Cons.prems show ?case
    by (simp add: chain_update pending_update md_blocks_append [of _ _ "_ @ _", simplified])
qed

end

text \<open>The padding both digests use: the mark byte, zeros to 56 modulo 64, the bit length in 8 bytes.\<close>

definition pad_zeros :: "nat \<Rightarrow> nat" where
  "pad_zeros n = (if n mod 64 < 56 then 55 - n mod 64 else 119 - n mod 64)"

definition be64_bytes :: "u64 \<Rightarrow> bytes" where
  "be64_bytes w = map (\<lambda>i. ucast (drop_bit (8 * i) w)) (rev [0..<8])"

definition md_pad :: "bytes \<Rightarrow> bytes" where
  "md_pad m = m @ 0x80 # replicate (pad_zeros (length m)) 0 @ be64_bytes (8 * word_of_nat (length m))"

lemma length_be64_bytes [simp]: "length (be64_bytes w) = 8"
  by (simp add: be64_bytes_def)

lemma md_pad_aligned: "64 dvd length (md_pad m)"
proof -
  define q r where "q = length m div 64" and "r = length m mod 64"
  have m: "length m = 64 * q + r" and r: "r < 64"
    by (simp_all add: q_def r_def)
  have "length (md_pad m) = 64 * (q + (if r < 56 then 1 else 2))"
    using m r by (simp add: md_pad_def pad_zeros_def r_def [symmetric])
  then show ?thesis by simp
qed

text \<open>The digest's reference: the padded message, block by block.\<close>

definition md_digest :: "('h \<Rightarrow> bytes \<Rightarrow> 'h) \<Rightarrow> 'h \<Rightarrow> bytes \<Rightarrow> 'h" where
  "md_digest compress iv m = fst (md_blocks compress iv (md_pad m))"

lemma md_digest_pending:
  assumes "(h, p) = md_blocks compress iv m"
  shows "md_digest compress iv m = fst (md_blocks compress h
    (p @ 0x80 # replicate (pad_zeros (length p)) 0 @ be64_bytes (8 * word_of_nat (length m))))"
proof -
  have "length p = length m mod 64"
    using md_blocks_pending_length [of compress iv m] by (simp flip: assms)
  then have "pad_zeros (length p) = pad_zeros (length m)"
    by (simp add: pad_zeros_def)
  then show ?thesis
    using assms by (simp add: md_digest_def md_pad_def md_blocks_append [of _ _ m] flip: assms)
qed

end
