(* ===== verification/Ws_Accept.thy ===== *)
theory Ws_Accept
  imports Block_Hash
begin

section \<open>The accept key of the loopback handshake\<close>

text \<open>
  \<^verbatim>\<open>src/quest/net/ws_wire.cpp\<close>: SHA-1 as the streaming \<^verbatim>\<open>struct Sha1\<close> computes it, Base64,
  \<^verbatim>\<open>ComputeAcceptKey\<close> and \<^verbatim>\<open>HexEncode\<close>. The block buffer keeps the code's 64 bytes, stale tail
  included; \<open>fill\<close> says how many of them are pending.
\<close>

unbundle bit_operations_syntax

subsection \<open>SHA-1\<close>

type_synonym sha1_hash = "u32 \<times> u32 \<times> u32 \<times> u32 \<times> u32"

record sha1 =
  sha1_h :: sha1_hash
  block :: bytes
  fill :: nat
  total_bits :: u64

definition sha1_new :: sha1 where
  "sha1_new = \<lparr>sha1_h = (0x67452301, 0xEFCDAB89, 0x98BADCFE, 0x10325476, 0xC3D2E1F0),
               block = replicate 64 0, fill = 0, total_bits = 0\<rparr>"

definition rol :: "u32 \<Rightarrow> nat \<Rightarrow> u32" where
  "rol v n = push_bit n v OR drop_bit (32 - n) v"

definition be32 :: "bytes \<Rightarrow> nat \<Rightarrow> u32" where
  "be32 p i = push_bit 24 (ucast (p ! i)) OR push_bit 16 (ucast (p ! (i + 1)))
     OR push_bit 8 (ucast (p ! (i + 2))) OR ucast (p ! (i + 3))"

definition sha1_schedule :: "bytes \<Rightarrow> u32 list" where
  "sha1_schedule b =
     foldl (\<lambda>w i. w @ [rol (w ! (i - 3) XOR w ! (i - 8) XOR w ! (i - 14) XOR w ! (i - 16)) 1])
       (map (\<lambda>i. be32 b (i * 4)) [0..<16]) [16..<80]"

definition sha1_round :: "u32 list \<Rightarrow> sha1_hash \<Rightarrow> nat \<Rightarrow> sha1_hash" where
  "sha1_round w s i =
     (case s of (a, b, c, d, e) \<Rightarrow>
       let (f, k) =
         (if i < 20 then ((b AND c) OR (NOT b AND d), 0x5A827999)
          else if i < 40 then (b XOR c XOR d, 0x6ED9EBA1)
          else if i < 60 then ((b AND c) OR (b AND d) OR (c AND d), 0x8F1BBCDC)
          else (b XOR c XOR d, 0xCA62C1D6));
         temp = rol a 5 + f + e + k + w ! i
       in (temp, a, rol b 30, c, d))"

definition sha1_compress :: "sha1_hash \<Rightarrow> bytes \<Rightarrow> sha1_hash" where
  "sha1_compress h b =
     (case (h, foldl (sha1_round (sha1_schedule b)) h [0..<80]) of
       ((h0, h1, h2, h3, h4), (a, b, c, d, e)) \<Rightarrow> (h0 + a, h1 + b, h2 + c, h3 + d, h4 + e))"

definition sha1_process :: "sha1 \<Rightarrow> sha1" where
  "sha1_process s = s\<lparr>sha1_h := sha1_compress (sha1_h s) (block s)\<rparr>"

definition sha1_byte :: "sha1 \<Rightarrow> u8 \<Rightarrow> sha1" where
  "sha1_byte s b =
     (let s1 = s\<lparr>block := (block s)[fill s := b], fill := fill s + 1, total_bits := total_bits s + 8\<rparr>
      in if fill s1 = 64 then (sha1_process s1)\<lparr>fill := 0\<rparr> else s1)"

definition sha1_update :: "sha1 \<Rightarrow> bytes \<Rightarrow> sha1" where
  "sha1_update s data = foldl sha1_byte s data"

text \<open>\<^verbatim>\<open>block[fill++] = b\<close>, once and for a run of bytes.\<close>

definition put_byte :: "sha1 \<Rightarrow> u8 \<Rightarrow> sha1" where
  "put_byte s b = s\<lparr>block := (block s)[fill s := b], fill := fill s + 1\<rparr>"

definition put_bytes :: "sha1 \<Rightarrow> bytes \<Rightarrow> sha1" where
  "put_bytes s bs = foldl put_byte s bs"

definition sha1_bytes :: "sha1_hash \<Rightarrow> bytes" where
  "sha1_bytes h =
     (case h of (a, b, c, d, e) \<Rightarrow>
       concat (map (\<lambda>w. [ucast (drop_bit 24 w), ucast (drop_bit 16 w), ucast (drop_bit 8 w), ucast w])
         [a, b, c, d, e]))"

definition sha1_finish :: "sha1 \<Rightarrow> bytes" where
  "sha1_finish s =
     (let bits = total_bits s;
          s1 = put_byte s 0x80;
          s2 = (if fill s1 > 56
                then (sha1_process (put_bytes s1 (replicate (64 - fill s1) 0)))\<lparr>fill := 0\<rparr> else s1);
          s3 = put_bytes s2 (replicate (56 - fill s2) 0);
          s4 = put_bytes s3 (map (\<lambda>i. ucast (drop_bit (i * 8) bits)) (rev [0..<8]))
      in sha1_bytes (sha1_h (sha1_process s4)))"

subsection \<open>Base64 and hex\<close>

definition base64_table :: bytes where
  "base64_table = bytes_of ''ABCDEFGHIJKLMNOPQRSTUVWXYZabcdefghijklmnopqrstuvwxyz0123456789+/''"

definition b64_char :: "u32 \<Rightarrow> nat \<Rightarrow> u8" where
  "b64_char v shift = base64_table ! unat (drop_bit shift v AND 0x3F)"

fun base64 :: "bytes \<Rightarrow> bytes" where
  "base64 (a # b # c # rest) =
     (let v = push_bit 16 (ucast a) OR push_bit 8 (ucast b) OR ucast c
      in [b64_char v 18, b64_char v 12, b64_char v 6, b64_char v 0] @ base64 rest)"
| "base64 [a] =
     (let v = push_bit 16 (ucast a)
      in [b64_char v 18, b64_char v 12] @ bytes_of ''=='')"
| "base64 [a, b] =
     (let v = push_bit 16 (ucast a) OR push_bit 8 (ucast b)
      in [b64_char v 18, b64_char v 12, b64_char v 6] @ bytes_of ''='')"
| "base64 [] = []"

definition hex_digits :: bytes where
  "hex_digits = bytes_of ''0123456789abcdef''"

definition hex_encode :: "bytes \<Rightarrow> bytes" where
  "hex_encode bs = concat (map (\<lambda>b. [hex_digits ! unat (drop_bit 4 b), hex_digits ! unat (b AND 0x0F)]) bs)"

definition compute_accept_key :: "bytes \<Rightarrow> bytes" where
  "compute_accept_key client_key =
     base64 (sha1_finish (sha1_update (sha1_update sha1_new client_key)
       (bytes_of ''258EAFA5-E914-47DA-95CA-C5AB0DC85B11'')))"

subsection \<open>SHA-1 is a streaming block hash\<close>

definition sha1_pending :: "sha1 \<Rightarrow> bytes" where
  "sha1_pending s = take (fill s) (block s)"

definition sha1_ok :: "sha1 \<Rightarrow> bool" where
  "sha1_ok s \<longleftrightarrow> length (block s) = 64 \<and> fill s < 64"

lemma take_Suc_update: "i < length xs \<Longrightarrow> take (Suc i) (xs[i := x]) = take i xs @ [x]"
  by (simp add: take_Suc_conv_app_nth)

lemma sha1_byte_step:
  assumes "sha1_ok s"
  shows "sha1_ok (sha1_byte s b)
    \<and> (sha1_h (sha1_byte s b), sha1_pending (sha1_byte s b))
        = md_blocks sha1_compress (sha1_h s) (sha1_pending s @ [b])"
proof (cases "fill s = 63")
  case True
  have "take (Suc 63) ((block s)[63 := b]) = take 63 (block s) @ [b]"
    using assms by (intro take_Suc_update) (simp add: sha1_ok_def)
  then have full: "(block s)[63 := b] = take 63 (block s) @ [b]"
    using assms by (simp add: sha1_ok_def)
  have "md_blocks sha1_compress (sha1_h s) ((take 63 (block s) @ [b]) @ [])
      = md_blocks sha1_compress (sha1_compress (sha1_h s) (take 63 (block s) @ [b])) []"
    using assms by (intro md_blocks_block) (simp add: sha1_ok_def)
  with assms True full show ?thesis
    by (simp add: sha1_ok_def sha1_byte_def sha1_pending_def sha1_process_def Let_def)
next
  case False
  with assms show ?thesis
    by (simp add: sha1_ok_def sha1_byte_def sha1_pending_def Let_def take_Suc_update)
qed

lemma sha1_update_step:
  "sha1_ok s \<Longrightarrow> sha1_ok (sha1_update s bs)
    \<and> (sha1_h (sha1_update s bs), sha1_pending (sha1_update s bs))
        = md_blocks sha1_compress (sha1_h s) (sha1_pending s @ bs)"
proof (induction bs arbitrary: s)
  case Nil
  then show ?case by (simp add: sha1_update_def sha1_ok_def sha1_pending_def)
next
  case (Cons b bs)
  note step = sha1_byte_step [OF Cons.prems, of b]
  have "sha1_update s (b # bs) = sha1_update (sha1_byte s b) bs"
    by (simp add: sha1_update_def)
  with Cons.IH [of "sha1_byte s b"] step show ?case
    using md_blocks_append [of sha1_compress "sha1_h s" "sha1_pending s @ [b]" bs]
    by (metis append.assoc append_Cons append_Nil fst_conv snd_conv)
qed

interpretation sha1: block_hash sha1_compress sha1_update sha1_h sha1_pending sha1_ok
  by unfold_locales (simp_all add: sha1_update_step, simp add: sha1_pending_def sha1_ok_def)

lemma total_bits_update: "total_bits (sha1_update s bs) = total_bits s + 8 * word_of_nat (length bs)"
proof (induction bs arbitrary: s)
  case Nil
  then show ?case by (simp add: sha1_update_def)
next
  case (Cons b bs)
  have "total_bits (sha1_byte s b) = total_bits s + 8"
    by (simp add: sha1_byte_def sha1_process_def Let_def)
  with Cons show ?case by (simp add: sha1_update_def algebra_simps)
qed

lemma put_bytes_pending:
  "length (block s) = 64 \<Longrightarrow> fill s + length bs \<le> 64 \<Longrightarrow>
    length (block (put_bytes s bs)) = 64 \<and> fill (put_bytes s bs) = fill s + length bs
    \<and> sha1_pending (put_bytes s bs) = sha1_pending s @ bs \<and> sha1_h (put_bytes s bs) = sha1_h s"
proof (induction bs arbitrary: s)
  case Nil
  then show ?case by (simp add: put_bytes_def)
next
  case (Cons b bs)
  have "sha1_pending (put_byte s b) = sha1_pending s @ [b]"
    using Cons.prems by (simp add: put_byte_def sha1_pending_def take_Suc_update)
  with Cons show ?case by (simp add: put_bytes_def put_byte_def)
qed

lemma sha1_process_full:
  assumes "fill s = 64" and "length (block s) = 64"
  shows "sha1_h (sha1_process s) = sha1_compress (sha1_h s) (sha1_pending s)"
  using assms by (simp add: sha1_process_def sha1_pending_def)

text \<open>Finishing pads the pending bytes into one block, or two when the length no longer fits.\<close>

lemma sha1_finish_blocks:
  assumes ok: "sha1_ok s"
  shows "sha1_finish s = sha1_bytes (fst (md_blocks sha1_compress (sha1_h s)
    (sha1_pending s @ 0x80 # replicate (pad_zeros (fill s)) 0 @ be64_bytes (total_bits s))))"
proof -
  from ok have s: "length (block s) = 64" "fill s < 64" by (auto simp: sha1_ok_def)
  have be: "map (\<lambda>i. ucast (drop_bit (i * 8) (total_bits s))) (rev [0..<8]) = be64_bytes (total_bits s)"
    by (simp add: be64_bytes_def mult.commute)
  have put1: "put_byte s 0x80 = put_bytes s [0x80]" by (simp add: put_bytes_def)
  note s1 = put_bytes_pending [of s "[0x80]"]
  show ?thesis
  proof (cases "fill s < 56")
    case True
    let ?tail = "0x80 # replicate (55 - fill s) 0 @ be64_bytes (total_bits s)"
    have app: "put_bytes (put_bytes (put_bytes s [0x80]) (replicate (55 - fill s) 0)) (be64_bytes (total_bits s))
        = put_bytes s ?tail"
      by (simp add: put_bytes_def)
    have "sha1_finish s = sha1_bytes (sha1_h (sha1_process (put_bytes s ?tail)))"
      using True s s1 unfolding sha1_finish_def Let_def be put1 app [symmetric] by simp
    moreover note put_bytes_pending [of s ?tail]
    moreover have "length (sha1_pending s @ ?tail) = 64"
      using True s by (simp add: sha1_pending_def)
    ultimately show ?thesis
      using True s md_blocks_block [of "sha1_pending s @ ?tail" sha1_compress "sha1_h s" "[]"]
      by (simp add: pad_zeros_def sha1_process_full)
  next
    case False
    let ?one = "0x80 # replicate (63 - fill s) 0" and ?two = "replicate 56 0 @ be64_bytes (total_bits s)"
    define t where "t = (sha1_process (put_bytes s ?one))\<lparr>fill := 0\<rparr>"
    have one: "put_bytes (put_bytes s [0x80]) (replicate (63 - fill s) 0) = put_bytes s ?one"
      by (simp add: put_bytes_def)
    have two: "put_bytes (put_bytes t (replicate 56 0)) (be64_bytes (total_bits s)) = put_bytes t ?two"
      by (simp add: put_bytes_def)
    note p1 = put_bytes_pending [of s ?one]
    have "sha1_h t = sha1_h (sha1_process (put_bytes s ?one))" by (simp add: t_def)
    also have "\<dots> = sha1_compress (sha1_h s) (sha1_pending s @ ?one)"
      using p1 s False by (simp add: sha1_process_full)
    finally have t: "length (block t) = 64" "fill t = 0" "sha1_pending t = []"
        "sha1_h t = sha1_compress (sha1_h s) (sha1_pending s @ ?one)"
      using p1 s False by (simp_all add: t_def sha1_process_def sha1_pending_def)
    have "sha1_finish s = sha1_bytes (sha1_h (sha1_process (put_bytes t ?two)))"
      using False s s1 unfolding sha1_finish_def Let_def be put1
      by (simp add: one two [unfolded t_def] t_def)
    moreover note put_bytes_pending [of t ?two]
    moreover have "length (sha1_pending s @ ?one) = 64" "length ?two = 64"
      using False s by (simp_all add: sha1_pending_def)
    moreover have "replicate (119 - fill s) (0 :: u8) = replicate (63 - fill s) 0 @ replicate 56 0"
      using s by (simp flip: replicate_add)
    ultimately show ?thesis
      using False s t md_blocks_block [of "sha1_pending s @ ?one" sha1_compress "sha1_h s" ?two]
        md_blocks_block [of ?two sha1_compress "sha1_h t" "[]"]
      by (simp add: pad_zeros_def sha1_process_full)
  qed
qed

lemma sha1_new_ok: "sha1_ok sha1_new" and sha1_new_pending: "sha1_pending sha1_new = []"
  by (simp_all add: sha1_ok_def sha1_pending_def sha1_new_def)

lemma sha1_finish_update:
  "sha1_finish (sha1_update sha1_new m) = sha1_bytes (md_digest sha1_compress (sha1_h sha1_new) m)"
proof -
  let ?s = "sha1_update sha1_new m"
  have ok: "sha1_ok ?s" using sha1_new_ok by (rule sha1.update_ok)
  have blocks: "(sha1_h ?s, sha1_pending ?s) = md_blocks sha1_compress (sha1_h sha1_new) m"
    using sha1.update_blocks [OF sha1_new_ok, of m] by (simp add: sha1_new_pending)
  have "length (sha1_pending ?s) = fill ?s"
    using ok by (simp add: sha1_ok_def sha1_pending_def)
  moreover have "total_bits ?s = 8 * word_of_nat (length m)"
    by (simp add: total_bits_update) (simp add: sha1_new_def)
  ultimately show ?thesis
    using sha1_finish_blocks [OF ok] md_digest_pending [OF blocks] by simp
qed

lemma sha1_update_twice: "sha1_update (sha1_update s a) b = sha1_update s (a @ b)"
  by (simp add: sha1_update_def)

subsection \<open>The shape of Base64 and hex\<close>

lemma div3_step: "(5 + n) div 3 = Suc (Suc (Suc n) div 3)" for n :: nat
  by presburger

lemma length_base64: "length (base64 bs) = 4 * ((length bs + 2) div 3)"
  by (induction bs rule: base64.induct) (simp_all add: Let_def div3_step)

lemma base64_table_length: "length base64_table = 64"
  by (simp add: base64_table_def)

lemma length_hex_encode: "length (hex_encode bs) = 2 * length bs"
  by (induction bs) (simp_all add: hex_encode_def)

lemma length_sha1_bytes: "length (sha1_bytes h) = 20"
  by (cases h) (simp add: sha1_bytes_def)


subsection \<open>Properties\<close>

text \<open>The streaming SHA-1 is SHA-1 of the whole message. Whatever the pieces a message is given in, the
  digest the object finishes with is the chaining value of the padded message, compressed block by block.\<close>

theorem sha1_streams:
  "sha1_finish (foldl sha1_update sha1_new pieces) = sha1_bytes (md_digest sha1_compress (sha1_h sha1_new) (concat pieces))"
proof -
  have "foldl sha1_update s pieces = sha1_update s (concat pieces)" for s
    by (induction pieces arbitrary: s) (simp_all add: sha1_update_twice, simp add: sha1_update_def)
  then show ?thesis by (simp add: sha1_finish_update)
qed

end
