(* ===== verification/Ws_Handshake.thy ===== *)
theory Ws_Handshake
  imports Ws_Accept
begin

section \<open>The upgrade request and the access token\<close>

text \<open>
  \<^verbatim>\<open>src/quest/net/ws_wire.cpp\<close>: \<^verbatim>\<open>ParseUpgradeRequest\<close>, the responses, and the token the
  loopback listener asks for, because every local app can reach it.
\<close>

unbundle bit_operations_syntax

definition crlf :: bytes where "crlf = [13, 10]"

lemma length_crlf [simp]: "length crlf = 2"
  by (simp add: crlf_def)

definition i_equals :: "bytes \<Rightarrow> bytes \<Rightarrow> bool" where
  "i_equals a b = (if length a \<noteq> length b then False
     else list_all2 (\<lambda>x y. to_lower x = to_lower y) a b)"

definition blank :: "u8 \<Rightarrow> bool" where
  "blank c \<longleftrightarrow> c = 0x20 \<or> c = 9"

definition trim :: "bytes \<Rightarrow> bytes" where
  "trim s = rev (dropWhile blank (rev (dropWhile blank s)))"

definition comma :: u8 where "comma = 0x2C"

function has_token :: "bytes \<Rightarrow> bytes \<Rightarrow> bool" where
  "has_token value token =
     (if value = [] then False
      else case find_ch comma value of
        None \<Rightarrow> i_equals (trim value) token
      | Some c \<Rightarrow> if i_equals (trim (take c value)) token then True
                   else has_token (drop (c + 1) value) token)"
  by pat_completeness auto
termination
  by (relation "measure (\<lambda>(value, token). length value)") auto

declare has_token.simps [simp del]

subsection \<open>The request\<close>

record upgrade_request =
  req_key :: bytes
  req_target :: bytes
  req_has_origin :: bool
  req_consumed :: nat

datatype handshake = NeedMore | Ok upgrade_request | Bad | TooLarge

definition max_handshake_bytes :: nat where "max_handshake_bytes = 8192"

record headers =
  h_upgrade :: bool
  h_connection :: bool
  h_version13 :: bool
  h_key :: bytes
  h_origin :: bool

definition no_headers :: headers where
  "no_headers = \<lparr>h_upgrade = False, h_connection = False, h_version13 = False, h_key = [], h_origin = False\<rparr>"

definition header_line :: "bytes \<Rightarrow> headers \<Rightarrow> headers option" where
  "header_line line h =
     (case find_ch 0x3A line of
        None \<Rightarrow> None
      | Some c \<Rightarrow>
          let name = take c line; value = trim (drop (c + 1) line)
          in Some (
            if i_equals name (bytes_of ''Upgrade'') then h\<lparr>h_upgrade := has_token value (bytes_of ''websocket'')\<rparr>
            else if i_equals name (bytes_of ''Connection'')
              then h\<lparr>h_connection := h_connection h \<or> has_token value (bytes_of ''Upgrade'')\<rparr>
            else if i_equals name (bytes_of ''Sec-WebSocket-Version'')
              then h\<lparr>h_version13 := has_token value (bytes_of ''13'')\<rparr>
            else if i_equals name (bytes_of ''Sec-WebSocket-Key'') then h\<lparr>h_key := value\<rparr>
            else if i_equals name (bytes_of ''Origin'') then h\<lparr>h_origin := True\<rparr>
            else h))"

function header_lines :: "bytes \<Rightarrow> headers \<Rightarrow> headers option" where
  "header_lines rest h =
     (if rest = [] then Some h
      else case find_sub crlf rest of
        None \<Rightarrow> header_line rest h
      | Some n \<Rightarrow> (case header_line (take n rest) h of
            None \<Rightarrow> None
          | Some h' \<Rightarrow> header_lines (drop (n + 2) rest) h'))"
  by pat_completeness auto
termination
  by (relation "measure (\<lambda>(rest, h). length rest)") auto

declare header_lines.simps [simp del]

text \<open>\<^verbatim>\<open>"GET <target> HTTP/1.1"\<close>: the target, verbatim.\<close>

definition request_target :: "bytes \<Rightarrow> bytes option" where
  "request_target line =
     (if take 4 line \<noteq> bytes_of ''GET '' \<or> length line < 14
         \<or> drop (length line - 9) line \<noteq> bytes_of '' HTTP/1.1'' then None
      else let target = take (length line - 4 - 9) (drop 4 line)
           in if target = [] \<or> 0x20 \<in> set target then None else Some target)"

definition parse_head :: "bytes \<Rightarrow> nat \<Rightarrow> handshake" where
  "parse_head head consumed =
     (let line_end = find_sub crlf head;
          request_line = (case line_end of None \<Rightarrow> head | Some n \<Rightarrow> take n head);
          rest = (case line_end of None \<Rightarrow> [] | Some n \<Rightarrow> drop (n + 2) head)
      in case request_target request_line of
           None \<Rightarrow> Bad
         | Some target \<Rightarrow> (case header_lines rest no_headers of
              None \<Rightarrow> Bad
            | Some h \<Rightarrow>
                if \<not> h_upgrade h \<or> \<not> h_connection h \<or> \<not> h_version13 h \<or> length (h_key h) \<noteq> 24 then Bad
                else Ok \<lparr>req_key = h_key h, req_target = target, req_has_origin = h_origin h,
                         req_consumed = consumed\<rparr>))"

definition parse_upgrade_request :: "bytes \<Rightarrow> handshake" where
  "parse_upgrade_request buffer =
     (case find_sub (crlf @ crlf) buffer of
        None \<Rightarrow> if length buffer \<ge> max_handshake_bytes then TooLarge else NeedMore
      | Some e \<Rightarrow> if e + 4 > max_handshake_bytes then TooLarge
                   else parse_head (take e buffer) (e + 4))"

definition build_upgrade_response :: "bytes \<Rightarrow> bytes" where
  "build_upgrade_response client_key =
     bytes_of ''HTTP/1.1 101 Switching Protocols'' @ crlf @ bytes_of ''Upgrade: websocket'' @ crlf
     @ bytes_of ''Connection: Upgrade'' @ crlf @ bytes_of ''Sec-WebSocket-Accept: ''
     @ compute_accept_key client_key @ crlf @ crlf"

definition empty_response :: "string \<Rightarrow> bytes" where
  "empty_response status =
     bytes_of ''HTTP/1.1 '' @ bytes_of status @ crlf @ bytes_of ''Connection: close'' @ crlf
     @ bytes_of ''Content-Length: 0'' @ crlf @ crlf"

definition build_bad_request_response :: bytes where
  "build_bad_request_response = empty_response ''400 Bad Request''"

definition build_forbidden_response :: bytes where
  "build_forbidden_response = empty_response ''403 Forbidden''"

subsection \<open>The access token\<close>

definition constant_time_equals :: "bytes \<Rightarrow> bytes \<Rightarrow> bool" where
  "constant_time_equals a b =
     (if length a \<noteq> length b then False
      else foldl (\<lambda>diff i. diff OR (a ! i XOR b ! i)) 0 [0..<length a] = (0 :: u8))"

definition token_hex_length :: nat where "token_hex_length = 32"
definition token_query_name :: bytes where "token_query_name = bytes_of ''nevr_token''"

definition padded :: "nat \<Rightarrow> bytes \<Rightarrow> bytes" where
  "padded n s = take n s @ replicate (n - length s) 0"

definition path_token_ok :: "bytes \<Rightarrow> bytes \<Rightarrow> bool" where
  "path_token_ok path token =
     (let candidate = (if length path > 1 \<and> path ! 0 = 0x2F then drop 1 path else []);
          shape_ok = (length candidate \<ge> length token \<and>
            (length candidate = length token \<or> candidate ! length token = 0x2F))
      in constant_time_equals (padded (length token) (take (length token) candidate)) token \<and> shape_ok)"

definition pair_token_ok :: "bytes \<Rightarrow> bytes \<Rightarrow> bool" where
  "pair_token_ok pair token =
     (length pair > length token_query_name
      \<and> take (length token_query_name) pair = token_query_name
      \<and> pair ! length token_query_name = 0x3D
      \<and> constant_time_equals (drop (length token_query_name + 1) pair) token)"

function query_token_ok :: "bytes \<Rightarrow> bytes \<Rightarrow> bool \<Rightarrow> bool" where
  "query_token_ok rest token acc =
     (if rest = [] then acc
      else case find_ch 0x26 rest of
        None \<Rightarrow> acc \<or> pair_token_ok rest token
      | Some a \<Rightarrow> query_token_ok (drop (a + 1) rest) token (acc \<or> pair_token_ok (take a rest) token))"
  by pat_completeness auto
termination
  by (relation "measure (\<lambda>(rest, token, acc). length rest)") auto

declare query_token_ok.simps [simp del]

definition target_carries_token :: "bytes \<Rightarrow> bytes \<Rightarrow> bool" where
  "target_carries_token target token =
     (if length token \<noteq> token_hex_length then False
      else let q = find_ch 0x3F target;
               path = (case q of None \<Rightarrow> target | Some n \<Rightarrow> take n target);
               query = (case q of None \<Rightarrow> [] | Some n \<Rightarrow> drop (n + 1) target)
           in path_token_ok path token \<or> query_token_ok query token False)"

subsection \<open>The comparison and the two places of the token\<close>

lemma or_zero_iff: "a OR b = 0 \<longleftrightarrow> a = 0 \<and> b = 0" for a b :: "'a::len word"
  by (auto simp: bit_eq_iff bit_or_iff)

lemma xor_zero_iff: "a XOR b = 0 \<longleftrightarrow> a = b" for a b :: "'a::len word"
  by (auto simp: bit_eq_iff bit_xor_iff)

lemma foldl_or_zero:
  "foldl (\<lambda>diff i. diff OR f i) d is = (0 :: 'a::len word) \<longleftrightarrow> d = 0 \<and> (\<forall>i \<in> set is. f i = 0)"
  by (induction "is" arbitrary: d) (auto simp: or_zero_iff)

lemma constant_time_equals_iff: "constant_time_equals a b \<longleftrightarrow> a = b"
proof (cases "length a = length b")
  case True
  then have "constant_time_equals a b \<longleftrightarrow> (\<forall>i < length a. a ! i = b ! i)"
    by (simp only: constant_time_equals_def foldl_or_zero xor_zero_iff if_True not_True_eq_False
        if_False set_upt atLeastLessThan_iff Ball_def) simp
  with True show ?thesis by (simp add: list_eq_iff_nth_eq)
next
  case False
  then show ?thesis by (auto simp: constant_time_equals_def)
qed

lemma pair_token_ok_iff: "pair_token_ok pair token \<longleftrightarrow> pair = token_query_name @ 0x3D # token"
proof -
  have "pair = token_query_name @ 0x3D # token"
    if len: "length token_query_name < length pair"
      and name: "take (length token_query_name) pair = token_query_name"
      and eq: "pair ! length token_query_name = 0x3D"
      and tok: "drop (length token_query_name + 1) pair = token"
    using id_take_nth_drop [OF len] name eq tok by simp
  then show ?thesis
    by (auto simp: pair_token_ok_def constant_time_equals_iff)
qed

lemma path_token_ok_iff:
  assumes "token \<noteq> []" and "0 \<notin> set token"
  shows "path_token_ok path token \<longleftrightarrow> (\<exists>r. path = 0x2F # token @ r \<and> (r = [] \<or> hd r = 0x2F))"
proof
  assume ok: "path_token_ok path token"
  then have len: "length path > 1" "path ! 0 = 0x2F"
    using assms by (auto simp: path_token_ok_def Let_def split: if_splits)
  then obtain cand where path: "path = 0x2F # cand" by (cases path) auto
  with ok len have "length token \<le> length cand" "take (length token) cand = token"
      "length cand = length token \<or> cand ! length token = 0x2F"
    by (auto simp: path_token_ok_def constant_time_equals_iff padded_def)
  then have "cand = token @ drop (length token) cand"
      "drop (length token) cand = [] \<or> hd (drop (length token) cand) = 0x2F"
    by (metis append_take_drop_id, metis drop_all hd_drop_conv_nth le_neq_implies_less order_refl)
  with path show "\<exists>r. path = 0x2F # token @ r \<and> (r = [] \<or> hd r = 0x2F)" by metis
next
  assume "\<exists>r. path = 0x2F # token @ r \<and> (r = [] \<or> hd r = 0x2F)"
  then obtain r where r: "path = 0x2F # token @ r" "r = [] \<or> hd r = 0x2F" by blast
  with assms(1) show "path_token_ok path token"
    by (cases r) (auto simp: path_token_ok_def constant_time_equals_iff padded_def)
qed

definition query_carries :: "bytes \<Rightarrow> bytes \<Rightarrow> bool" where
  "query_carries query pair \<longleftrightarrow>
     (\<exists>l r. query = l @ pair @ r \<and> (l = [] \<or> last l = 0x26) \<and> (r = [] \<or> hd r = 0x26))"

lemma query_carries_whole:
  assumes "0x26 \<notin> set query" and "pair \<noteq> []"
  shows "query_carries query pair \<longleftrightarrow> query = pair"
proof -
  have "l = [] \<and> r = []" if "query = l @ pair @ r" "l = [] \<or> last l = 0x26" "r = [] \<or> hd r = 0x26" for l r
    using that assms(1) by (metis UnI1 UnI2 hd_in_set last_in_set set_append)
  then show ?thesis unfolding query_carries_def by (metis append.right_neutral append_Nil)
qed

lemma query_carries_split:
  assumes x: "0x26 \<notin> set x" and pair: "0x26 \<notin> set pair"
  shows "query_carries (x @ 0x26 # y) pair \<longleftrightarrow> x = pair \<or> query_carries y pair"
proof
  assume "query_carries (x @ 0x26 # y) pair"
  then obtain l r where eq: "x @ 0x26 # y = l @ pair @ r"
    and l: "l = [] \<or> last l = 0x26" and r: "r = [] \<or> hd r = 0x26"
    by (auto simp: query_carries_def)
  show "x = pair \<or> query_carries y pair"
  proof (cases l rule: rev_cases)
    case Nil
    with eq pair have "r \<noteq> []" by (metis append.right_neutral append_Nil in_set_conv_decomp)
    with r obtain r' where "r = 0x26 # r'" by (cases r) auto
    with eq Nil split_at_first [of pair "0x26" r' x y] x pair show ?thesis by auto
  next
    case (snoc l' b)
    with l have "x @ 0x26 # y = l' @ 0x26 # (pair @ r)" using eq by simp
    with split_at_first [of l' "0x26" "pair @ r" x y] x
    consider "pair @ r = y" | z where "y = z @ 0x26 # pair @ r" by metis
    then show ?thesis
    proof cases
      case 1
      with r show ?thesis by (auto simp: query_carries_def)
    next
      case 2
      then have "y = (z @ [0x26]) @ pair @ r" by simp
      with r show ?thesis unfolding query_carries_def by (metis last_snoc)
    qed
  qed
next
  assume "x = pair \<or> query_carries y pair"
  then show "query_carries (x @ 0x26 # y) pair"
  proof
    assume "x = pair"
    then show ?thesis
      unfolding query_carries_def by (intro exI [of _ "[]"] exI [of _ "0x26 # y"]) simp
  next
    assume "query_carries y pair"
    then obtain l r where "y = l @ pair @ r" "l = [] \<or> last l = 0x26" "r = [] \<or> hd r = 0x26"
      by (auto simp: query_carries_def)
    then show ?thesis
      unfolding query_carries_def by (intro exI [of _ "x @ 0x26 # l"] exI [of _ r]) auto
  qed
qed

lemma query_token_ok_iff:
  shows "0x26 \<notin> set token \<Longrightarrow> query_token_ok query token acc \<longleftrightarrow> acc \<or> query_carries query (token_query_name @ 0x3D # token)"
proof (induction query token acc rule: query_token_ok.induct)
  case (1 rest token acc)
  let ?pair = "token_query_name @ 0x3D # token"
  show ?case
  proof (cases "rest = []")
    case True
    then show ?thesis by (simp add: query_token_ok.simps query_carries_def)
  next
    case False
    show ?thesis
    proof (cases "find_ch 0x26 rest")
      case None
      then have "0x26 \<notin> set rest" by (simp add: find_ch_None)
      with None False show ?thesis
        by (simp add: query_token_ok.simps [of rest] pair_token_ok_iff query_carries_whole)
    next
      case (Some a)
      note at = find_ch_Some [OF Some]
      then have rest: "rest = take a rest @ 0x26 # drop (Suc a) rest"
        by (metis id_take_nth_drop)
      have pair: "0x26 \<notin> set ?pair"
        using "1.prems" by (simp add: token_query_name_def bytes_of_def)
      show ?thesis
        using "1.IH" [OF False Some "1.prems"] Some False at query_carries_split [of "take a rest" ?pair "drop (Suc a) rest"]
          pair rest
        by (simp add: query_token_ok.simps [of rest] pair_token_ok_iff)
    qed
  qed
qed

text \<open>The two places, read off the whole target. A configured token is 32 characters, none of them a separator.\<close>

definition token_ok :: "bytes \<Rightarrow> bool" where
  "token_ok token \<longleftrightarrow> length token = 32 \<and> 0 \<notin> set token \<and> 0x26 \<notin> set token \<and> 0x3F \<notin> set token"

definition carries_in_path :: "bytes \<Rightarrow> bytes \<Rightarrow> bool" where
  "carries_in_path target token \<longleftrightarrow>
     (\<exists>r. takeWhile (\<lambda>c. c \<noteq> 0x3F) target = 0x2F # token @ r \<and> (r = [] \<or> hd r = 0x2F))"

definition carries_in_query :: "bytes \<Rightarrow> bytes \<Rightarrow> bool" where
  "carries_in_query target token \<longleftrightarrow>
     query_carries (drop 1 (dropWhile (\<lambda>c. c \<noteq> 0x3F) target)) (token_query_name @ 0x3D # token)"

lemma takeWhile_find: "find_ch c xs = Some n \<Longrightarrow> takeWhile (\<lambda>x. x \<noteq> c) xs = take n xs \<and> dropWhile (\<lambda>x. x \<noteq> c) xs = drop n xs"
  by (induction xs arbitrary: n) (auto split: if_splits)

lemma takeWhile_find_None: "find_ch c xs = None \<Longrightarrow> takeWhile (\<lambda>x. x \<noteq> c) xs = xs \<and> dropWhile (\<lambda>x. x \<noteq> c) xs = []"
  by (induction xs) (auto split: if_splits)

lemma target_carries_token_iff:
  assumes "token_ok token"
  shows "target_carries_token target token \<longleftrightarrow> carries_in_path target token \<or> carries_in_query target token"
proof -
  from assms have t: "length token = 32" "token \<noteq> []" "0 \<notin> set token" "0x26 \<notin> set token"
    by (auto simp: token_ok_def)
  show ?thesis
  proof (cases "find_ch 0x3F target")
    case None
    have tw: "takeWhile (\<lambda>c. c \<noteq> 0x3F) target = target" and dw: "dropWhile (\<lambda>c. c \<noteq> 0x3F) target = []"
      by (rule conjunct1 [OF takeWhile_find_None [OF None]], rule conjunct2 [OF takeWhile_find_None [OF None]])
    show ?thesis
      unfolding target_carries_token_def carries_in_path_def carries_in_query_def tw dw None
      using t by (simp add: token_hex_length_def path_token_ok_iff query_token_ok_iff)
  next
    case (Some n)
    have tw: "takeWhile (\<lambda>c. c \<noteq> 0x3F) target = take n target"
      and dw: "dropWhile (\<lambda>c. c \<noteq> 0x3F) target = drop n target"
      by (rule conjunct1 [OF takeWhile_find [OF Some]], rule conjunct2 [OF takeWhile_find [OF Some]])
    show ?thesis
      unfolding target_carries_token_def carries_in_path_def carries_in_query_def tw dw Some
      using t by (simp add: token_hex_length_def path_token_ok_iff query_token_ok_iff)
  qed
qed

text \<open>No token configured: nothing is let in.\<close>

lemma no_token_no_entry: "length token \<noteq> 32 \<Longrightarrow> \<not> target_carries_token target token"
  by (simp add: target_carries_token_def token_hex_length_def)

subsection \<open>What an accepted request is\<close>

lemma request_target_Some:
  "request_target line = Some t \<Longrightarrow>
     line = bytes_of ''GET '' @ t @ bytes_of '' HTTP/1.1'' \<and> t \<noteq> [] \<and> 0x20 \<notin> set t"
proof -
  assume "request_target line = Some t"
  then have get: "take 4 line = bytes_of ''GET ''" and len: "14 \<le> length line"
    and tail: "drop (length line - 9) line = bytes_of '' HTTP/1.1''"
    and t: "t = take (length line - 4 - 9) (drop 4 line)" "t \<noteq> []" "0x20 \<notin> set t"
    by (auto simp: request_target_def Let_def not_less split: if_splits)
  have "drop 4 line = t @ drop (length line - 4 - 9) (drop 4 line)"
    using append_take_drop_id [of "length line - 4 - 9" "drop 4 line"] by (simp only: t(1))
  also have "drop (length line - 4 - 9) (drop 4 line) = drop (length line - 9) line"
    using len by simp
  finally have "line = take 4 line @ t @ drop (length line - 9) line"
    by (metis append_take_drop_id)
  with get tail t show ?thesis by simp
qed

lemma parse_head_Ok:
  assumes "parse_head head n = Ok r"
  shows "length (req_key r) = 24 \<and> req_target r \<noteq> [] \<and> 0x20 \<notin> set (req_target r) \<and> req_consumed r = n
    \<and> (\<exists>rest. head = bytes_of ''GET '' @ req_target r @ bytes_of '' HTTP/1.1'' @ rest)"
proof -
  define line where "line = (case find_sub crlf head of None \<Rightarrow> head | Some k \<Rightarrow> take k head)"
  define rest where "rest = (case find_sub crlf head of None \<Rightarrow> [] | Some k \<Rightarrow> drop (k + 2) head)"
  have head: "parse_head head n = (case request_target line of
      None \<Rightarrow> Bad
    | Some target \<Rightarrow> (case header_lines rest no_headers of
        None \<Rightarrow> Bad
      | Some h \<Rightarrow> if \<not> h_upgrade h \<or> \<not> h_connection h \<or> \<not> h_version13 h \<or> length (h_key h) \<noteq> 24 then Bad
          else Ok \<lparr>req_key = h_key h, req_target = target, req_has_origin = h_origin h, req_consumed = n\<rparr>))"
    by (simp only: parse_head_def Let_def line_def rest_def)
  from assms obtain t where t: "request_target line = Some t"
    by (cases "request_target line") (simp_all add: head)
  from assms t obtain h where h: "header_lines rest no_headers = Some h"
    by (cases "header_lines rest no_headers") (simp_all add: head)
  from assms t h have key: "length (h_key h) = 24"
    and r: "r = \<lparr>req_key = h_key h, req_target = t, req_has_origin = h_origin h, req_consumed = n\<rparr>"
    by (simp_all add: head split: if_splits)
  have "line = head \<or> (\<exists>k. line = take k head)"
    by (auto simp: line_def split: option.split)
  then have "\<exists>xs. head = line @ xs"
    by (metis append.right_neutral append_take_drop_id)
  with request_target_Some [OF t] key r show ?thesis by auto
qed

lemma parse_upgrade_request_Ok:
  assumes "parse_upgrade_request buffer = Ok r"
  shows "req_consumed r \<le> max_handshake_bytes \<and> req_consumed r \<le> length buffer
    \<and> take 4 (drop (req_consumed r - 4) buffer) = crlf @ crlf \<and> length (req_key r) = 24
    \<and> req_target r \<noteq> [] \<and> 0x20 \<notin> set (req_target r)"
proof -
  from assms obtain e where e: "find_sub (crlf @ crlf) buffer = Some e"
    and le: "e + 4 \<le> max_handshake_bytes" and h: "parse_head (take e buffer) (e + 4) = Ok r"
    by (auto simp: parse_upgrade_request_def not_less split: option.splits if_splits)
  with parse_head_Ok [OF h] find_sub_Some [OF e] show ?thesis
    by simp
qed

text \<open>Bytes that follow a request do not change its reading: they are the connection's first frames.\<close>

lemma parse_upgrade_request_more:
  "parse_upgrade_request buffer = Ok r \<Longrightarrow> parse_upgrade_request (buffer @ ys) = Ok r"
proof -
  assume ok: "parse_upgrade_request buffer = Ok r"
  then obtain e where e: "find_sub (crlf @ crlf) buffer = Some e"
    by (auto simp: parse_upgrade_request_def split: option.splits if_splits)
  from find_sub_append [OF e] find_sub_le [OF e] ok e show ?thesis
    by (simp add: parse_upgrade_request_def split: if_splits)
qed

lemma parse_upgrade_request_refuses_more:
  "parse_upgrade_request buffer = Bad \<Longrightarrow> parse_upgrade_request (buffer @ ys) = Bad"
proof -
  assume bad: "parse_upgrade_request buffer = Bad"
  then obtain e where e: "find_sub (crlf @ crlf) buffer = Some e"
    by (auto simp: parse_upgrade_request_def split: option.splits if_splits)
  from find_sub_append [OF e] find_sub_le [OF e] bad e show ?thesis
    by (simp add: parse_upgrade_request_def split: if_splits)
qed


subsection \<open>Properties\<close>

text \<open>C7: only the token opens the listener. With a well-formed token, a request target is let in exactly
  when its path is \<^verbatim>\<open>/<token>\<close>, alone or followed by a slash, or one of the pairs of its query is
  \<^verbatim>\<open>nevr_token=<token>\<close>; and with no token of the right length nothing is let in.\<close>

theorem only_token_opens:
  assumes "length token = 32 \<longrightarrow> token_ok token"
  shows "target_carries_token target token \<longleftrightarrow> length token = 32
    \<and> (carries_in_path target token \<or> carries_in_query target token)"
  using target_carries_token_iff [of token target] no_token_no_entry [of token target] assms by auto

lemma only_token_opens_witness:
  "target_carries_token (0x2F # replicate 32 0x61 @ [0x2F, 0x78]) (replicate 32 0x61)"
proof -
  have "length (replicate 32 (0x61 :: u8)) = 32 \<longrightarrow> token_ok (replicate 32 0x61)" by (simp add: token_ok_def)
  moreover have "carries_in_path (0x2F # replicate 32 0x61 @ [0x2F, 0x78]) (replicate 32 0x61)"
    unfolding carries_in_path_def by (intro exI [of _ "[0x2F, 0x78]"]) (simp add: takeWhile_append)
  ultimately show ?thesis
    using only_token_opens [of "replicate 32 0x61" "0x2F # replicate 32 0x61 @ [0x2F, 0x78]"] by simp
qed

text \<open>An accepted upgrade request is whole and final. It is a GET of a non-empty target without
  spaces and a 24-character key, it ends at the first blank line, within the limit, and neither it
  nor a refusal changes when more bytes have arrived behind it: they are the connection's first frames.\<close>

theorem accepted_request:
  assumes "parse_upgrade_request buffer = Ok r"
  shows "req_consumed r \<le> max_handshake_bytes \<and> req_consumed r \<le> length buffer
    \<and> take 4 (drop (req_consumed r - 4) buffer) = crlf @ crlf \<and> length (req_key r) = 24
    \<and> req_target r \<noteq> [] \<and> 0x20 \<notin> set (req_target r) \<and> parse_upgrade_request (buffer @ ys) = Ok r"
  using parse_upgrade_request_Ok [OF assms] parse_upgrade_request_more [OF assms] by blast

definition sample_request :: bytes where
  "sample_request = bytes_of ''GET /x HTTP/1.1'' @ crlf @ bytes_of ''upgrade:websocket'' @ crlf @ bytes_of ''connection:upgrade'' @ crlf
     @ bytes_of ''sec-websocket-version:13'' @ crlf @ bytes_of ''sec-websocket-key:dGhlIHNhbXBsZSBub25jZQ=='' @ crlf @ crlf"

lemma sample_request_ok: "\<exists>r. parse_upgrade_request sample_request = Ok r \<and> req_target r = bytes_of ''/x''"
  by (simp add: sample_request_def parse_upgrade_request_def parse_head_def bytes_of_def crlf_def Let_def
      max_handshake_bytes_def request_target_def header_lines.simps header_line_def i_equals_def has_token.simps trim_def
      blank_def comma_def to_lower_def no_headers_def)

lemma accepted_request_witness:
  "\<exists>r. parse_upgrade_request (sample_request @ [0x81, 0x00]) = Ok r \<and> length (req_key r) = 24"
  using sample_request_ok accepted_request by blast

end
