(* ===== verification/Ws_Frames.thy ===== *)
theory Ws_Frames
  imports Nevr_Prelude
begin

section \<open>WebSocket frames: the incremental decoder and the encoders\<close>

text \<open>
  \<^verbatim>\<open>src/quest/net/ws_wire.h\<close> and \<^verbatim>\<open>ws_wire.cpp\<close>: \<^verbatim>\<open>FrameDecoder\<close> and the frame builders.
  The decoder keeps the code's buffer with a consumed prefix (\<open>offset\<close>); \<open>pending_bytes\<close> is what
  it has not consumed. Lengths are natural numbers: a declared length is refused above the message
  limit before it is added to anything, and the limit of the callers is far below \<open>2 ^ 63\<close>.
\<close>

unbundle bit_operations_syntax

datatype opcode = Continuation | Text | Binary | Close | Ping | Pong

fun opcode_code :: "opcode \<Rightarrow> u8" where
  "opcode_code Continuation = 0x0"
| "opcode_code Text = 0x1"
| "opcode_code Binary = 0x2"
| "opcode_code Close = 0x8"
| "opcode_code Ping = 0x9"
| "opcode_code Pong = 0xA"

text \<open>The cast \<^verbatim>\<open>static_cast<Opcode>(op)\<close>, behind the check that \<^verbatim>\<open>op\<close> is one of the six.\<close>

definition opcode_of :: "u8 \<Rightarrow> opcode option" where
  "opcode_of op =
     (if op = 0x0 then Some Continuation else if op = 0x1 then Some Text
      else if op = 0x2 then Some Binary else if op = 0x8 then Some Close
      else if op = 0x9 then Some Ping else if op = 0xA then Some Pong else None)"

lemma opcode_of_code [simp]: "opcode_of (opcode_code k) = Some k"
  by (cases k) (simp_all add: opcode_of_def)

record message =
  msg_opcode :: opcode
  msg_payload :: bytes
  close_code :: u16

datatype decode_status = NeedMore | Got message | ProtocolError | TooBig

record decoder =
  max_message :: nat
  buffer :: bytes
  offset :: nat
  failed :: bool
  in_fragment :: bool
  fragment_opcode :: opcode
  fragment :: bytes
  unmasked :: u64

definition new_decoder :: "nat \<Rightarrow> decoder" where
  "new_decoder n = \<lparr>max_message = n, buffer = [], offset = 0, failed = False, in_fragment = False,
     fragment_opcode = Binary, fragment = [], unmasked = 0\<rparr>"

definition pending_bytes :: "decoder \<Rightarrow> bytes" where
  "pending_bytes d = drop (offset d) (buffer d)"

text \<open>\<^verbatim>\<open>Feed\<close>: the consumed prefix is reclaimed before the buffer grows.\<close>

definition feed :: "decoder \<Rightarrow> bytes \<Rightarrow> decoder" where
  "feed d data =
     (if failed d \<or> data = [] then d
      else let d1 = (if offset d > 0 \<and> (offset d \<ge> length (buffer d) \<or> offset d > 4096)
                     then d\<lparr>buffer := drop (offset d) (buffer d), offset := 0\<rparr> else d)
           in d1\<lparr>buffer := buffer d1 @ data\<rparr>)"

subsection \<open>The header of a frame\<close>

record frame_header =
  fin :: bool
  op :: opcode
  masked :: bool
  payload_len :: nat
  header_len :: nat

datatype header_read = HeaderMore | HeaderError | Header frame_header

definition control :: "opcode \<Rightarrow> bool" where
  "control k \<longleftrightarrow> opcode_code k AND 0x8 \<noteq> 0"

definition be_len :: "bytes \<Rightarrow> u64" where
  "be_len bs = foldl (\<lambda>len b. push_bit 8 len OR ucast b) 0 bs"

definition read_length :: "bytes \<Rightarrow> bool \<Rightarrow> opcode \<Rightarrow> bool \<Rightarrow> nat \<Rightarrow> header_read" where
  "read_length p f k m len =
     (if len = 126 then
        (if length p < 4 then HeaderMore
         else Header \<lparr>fin = f, op = k, masked = m, payload_len = unat (be_len (take 2 (drop 2 p))), header_len = 4\<rparr>)
      else if len = 127 then
        (if length p < 10 then HeaderMore
         else let l = be_len (take 8 (drop 2 p))
         in if drop_bit 63 l \<noteq> 0 then HeaderError
            else Header \<lparr>fin = f, op = k, masked = m, payload_len = unat l, header_len = 10\<rparr>)
      else Header \<lparr>fin = f, op = k, masked = m, payload_len = len, header_len = 2\<rparr>)"

definition read_header :: "bytes \<Rightarrow> header_read" where
  "read_header p =
     (if length p < 2 then HeaderMore
      else let f = (p ! 0 AND 0x80 \<noteq> 0); m = (p ! 1 AND 0x80 \<noteq> 0); len = unat (p ! 1 AND 0x7F)
      in if p ! 0 AND 0x70 \<noteq> 0 then HeaderError
         else case opcode_of (p ! 0 AND 0x0F) of
           None \<Rightarrow> HeaderError
         | Some k \<Rightarrow> if control k \<and> (\<not> f \<or> len > 125) then HeaderError else read_length p f k m len)"

text \<open>\<^verbatim>\<open>maskKey[i & 3]\<close> is \<open>key ! (i mod 4)\<close>.\<close>

definition apply_mask :: "bytes \<Rightarrow> bytes \<Rightarrow> bytes" where
  "apply_mask key data = map (\<lambda>i. data ! i XOR key ! (i mod 4)) [0..<length data]"

definition mask_bytes :: "frame_header \<Rightarrow> nat" where
  "mask_bytes h = (if masked h then 4 else 0)"

definition frame_len :: "frame_header \<Rightarrow> nat" where
  "frame_len h = header_len h + mask_bytes h + payload_len h"

definition frame_data :: "frame_header \<Rightarrow> bytes \<Rightarrow> bytes" where
  "frame_data h p =
     (let data = take (payload_len h) (drop (header_len h + mask_bytes h) p)
      in if masked h then apply_mask (take 4 (drop (header_len h) p)) data else data)"

subsection \<open>Next\<close>

definition fail_with :: "decode_status \<Rightarrow> decoder \<Rightarrow> decode_status \<times> decoder" where
  "fail_with s d = (s, d\<lparr>failed := True\<rparr>)"

definition consume :: "frame_header \<Rightarrow> decoder \<Rightarrow> decoder" where
  "consume h d = d\<lparr>offset := offset d + frame_len h,
     unmasked := (if masked h then unmasked d else unmasked d + 1)\<rparr>"

definition close_code_of :: "bytes \<Rightarrow> u16" where
  "close_code_of data =
     (if length data \<ge> 2 then push_bit 8 (ucast (data ! 0)) OR ucast (data ! 1) else 1005)"

definition control_frame :: "frame_header \<Rightarrow> bytes \<Rightarrow> decoder \<Rightarrow> decode_status \<times> decoder" where
  "control_frame h data d =
     (if op h = Close \<and> length data = 1 then fail_with ProtocolError d
      else (Got \<lparr>msg_opcode = op h, msg_payload = data,
                 close_code = (if op h = Close then close_code_of data else 0)\<rparr>, d))"

text \<open>A data frame joins the open message; \<open>None\<close> is the protocol error of a frame out of order.\<close>

definition add_fragment :: "frame_header \<Rightarrow> bytes \<Rightarrow> decoder \<Rightarrow> decoder option" where
  "add_fragment h data d =
     (if op h = Continuation then
        (if \<not> in_fragment d then None else Some (d\<lparr>fragment := fragment d @ data\<rparr>))
      else if in_fragment d then None
      else Some (d\<lparr>fragment_opcode := op h, fragment := data, in_fragment := True\<rparr>))"

definition finish_message :: "decoder \<Rightarrow> decode_status \<times> decoder" where
  "finish_message d =
     (Got \<lparr>msg_opcode = fragment_opcode d, msg_payload = fragment d, close_code = 0\<rparr>,
      d\<lparr>fragment := [], in_fragment := False\<rparr>)"

definition too_big :: "frame_header \<Rightarrow> decoder \<Rightarrow> bool" where
  "too_big h d \<longleftrightarrow> payload_len h > max_message d
     \<or> (\<not> control (op h) \<and> length (fragment d) + payload_len h > max_message d)"

lemma header_len_ge: "read_header p = Header h \<Longrightarrow> header_len h \<ge> 2 \<and> header_len h \<le> length p"
  by (auto simp: read_header_def read_length_def Let_def split: if_splits option.splits)

function next_loop :: "decoder \<Rightarrow> decode_status \<times> decoder" where
  "next_loop d =
     (case read_header (pending_bytes d) of
        HeaderMore \<Rightarrow> (NeedMore, d)
      | HeaderError \<Rightarrow> fail_with ProtocolError d
      | Header h \<Rightarrow>
          if too_big h d then fail_with TooBig d
          else if length (pending_bytes d) < frame_len h then (NeedMore, d)
          else let data = frame_data h (pending_bytes d); d1 = consume h d
               in if control (op h) then control_frame h data d1
                  else case add_fragment h data d1 of
                         None \<Rightarrow> fail_with ProtocolError d1
                       | Some d2 \<Rightarrow> if fin h then finish_message d2 else next_loop d2)"
  by pat_completeness auto

lemma pending_consume:
  "pending_bytes (consume h d) = drop (frame_len h) (pending_bytes d)"
  by (simp add: pending_bytes_def consume_def add.commute)

lemma pending_add_fragment: "add_fragment h data d = Some d' \<Longrightarrow> pending_bytes d' = pending_bytes d"
  by (auto simp: add_fragment_def pending_bytes_def split: if_splits)

lemma consume_shrinks:
  assumes "read_header (pending_bytes d) = Header h" and "\<not> length (pending_bytes d) < frame_len h"
  shows "length (pending_bytes (consume h d)) < length (pending_bytes d)"
  using header_len_ge [OF assms(1)] assms(2) by (simp add: pending_consume frame_len_def)

termination next_loop
  by (relation "measure (\<lambda>d. length (pending_bytes d))")
    (use pending_add_fragment consume_shrinks in fastforce)+

declare next_loop.simps [simp del]

definition decode_next :: "decoder \<Rightarrow> decode_status \<times> decoder" where
  "decode_next d = (if failed d then (ProtocolError, d) else next_loop d)"

subsection \<open>The builders\<close>

definition be_bytes :: "nat \<Rightarrow> u64 \<Rightarrow> bytes" where
  "be_bytes n w = map (\<lambda>i. ucast (drop_bit (i * 8) w)) (rev [0..<n])"

definition length_field :: "u8 \<Rightarrow> nat \<Rightarrow> bytes" where
  "length_field mask_bit n =
     (if n < 126 then [mask_bit OR word_of_nat n]
      else if n \<le> 0xFFFF then (mask_bit OR 126) # be_bytes 2 (word_of_nat n)
      else (mask_bit OR 127) # be_bytes 8 (word_of_nat n))"

definition build_frame :: "opcode \<Rightarrow> bytes \<Rightarrow> bytes" where
  "build_frame k payload = (0x80 OR opcode_code k) # length_field 0 (length payload) @ payload"

definition build_close_frame :: "u16 \<Rightarrow> bytes \<Rightarrow> bytes" where
  "build_close_frame c reason =
     build_frame Close ([ucast (drop_bit 8 c), ucast (c AND 0xFF)] @ take 123 reason)"

definition build_masked_frame :: "opcode \<Rightarrow> bytes \<Rightarrow> bytes \<Rightarrow> bool \<Rightarrow> bytes" where
  "build_masked_frame k payload key f =
     ((if f then 0x80 else 0) OR opcode_code k) # length_field 0x80 (length payload)
       @ take 4 key @ apply_mask key payload"

end
