(* ===== verification/Ws_Stream.thy ===== *)
theory Ws_Stream
  imports Ws_Frames
begin

section \<open>How a stream is cut into chunks does not show\<close>

text \<open>
  The listener feeds what a read returns and calls \<^verbatim>\<open>Next\<close> until it wants more. This theory shows
  that the messages it gets are those of the whole stream, whatever the reads returned, that a
  refusal is final, and that the buffer stays within one frame of the limit.
\<close>

unbundle bit_operations_syntax

definition append_bytes :: "decoder \<Rightarrow> bytes \<Rightarrow> decoder" where
  "append_bytes d q = d\<lparr>buffer := buffer d @ q\<rparr>"

definition offset_ok :: "decoder \<Rightarrow> bool" where
  "offset_ok d \<longleftrightarrow> offset d \<le> length (buffer d)"

lemma pending_append: "offset_ok d \<Longrightarrow> pending_bytes (append_bytes d q) = pending_bytes d @ q"
  by (simp add: pending_bytes_def append_bytes_def offset_ok_def)

lemma append_bytes_simps [simp]:
  "max_message (append_bytes d q) = max_message d" "failed (append_bytes d q) = failed d"
  "in_fragment (append_bytes d q) = in_fragment d" "fragment (append_bytes d q) = fragment d"
  "append_bytes d q\<lparr>failed := b\<rparr> = append_bytes (d\<lparr>failed := b\<rparr>) q"
  "too_big h (append_bytes d q) = too_big h d"
  "fragment_opcode (append_bytes d q) = fragment_opcode d"
  "append_bytes d q\<lparr>fragment := [], in_fragment := False\<rparr> = append_bytes (d\<lparr>fragment := [], in_fragment := False\<rparr>) q"
  by (simp_all add: append_bytes_def too_big_def)

text \<open>What is read of a header or a frame does not depend on the bytes after it.\<close>

lemma read_length_append:
  "read_length p f k m len \<noteq> HeaderMore \<Longrightarrow> read_length (p @ q) f k m len = read_length p f k m len"
  by (simp add: read_length_def Let_def split: if_splits)

lemma read_header_append:
  assumes "read_header p \<noteq> HeaderMore"
  shows "read_header (p @ q) = read_header p"
proof -
  have len: "\<not> length p < 2" using assms by (cases "length p < 2") (simp_all add: read_header_def)
  then have "0 < length p" "1 < length p" by linarith+
  then have nths: "(p @ q) ! 0 = p ! 0" "(p @ q) ! 1 = p ! 1" by (simp_all only: nth_append if_True)
  show ?thesis
    using len assms unfolding read_header_def Let_def nths
    by (auto simp: read_length_append split: option.split)
qed

lemma frame_data_append:
  assumes "frame_len h \<le> length p"
  shows "frame_data h (p @ q) = frame_data h p"
proof -
  have "payload_len h \<le> length p - (header_len h + mask_bytes h)" "header_len h + mask_bytes h \<le> length p"
    using assms by (simp_all add: frame_len_def)
  then show ?thesis
    by (auto simp: frame_data_def Let_def mask_bytes_def)
qed

lemma consume_append: "consume h (append_bytes d q) = append_bytes (consume h d) q"
  by (simp add: consume_def append_bytes_def)

lemma fail_append: "fail_with s (append_bytes d q) = (s, append_bytes (snd (fail_with s d)) q)"
  by (simp add: fail_with_def append_bytes_def)

lemma control_append:
  "control_frame h data (append_bytes d q) =
     (fst (control_frame h data d), append_bytes (snd (control_frame h data d)) q)"
  by (simp add: control_frame_def fail_with_def append_bytes_def)

lemma add_fragment_append:
  "add_fragment h data (append_bytes d q) = map_option (\<lambda>d. append_bytes d q) (add_fragment h data d)"
  by (simp add: add_fragment_def append_bytes_def)

lemma finish_append:
  "finish_message (append_bytes d q) = (fst (finish_message d), append_bytes (snd (finish_message d)) q)"
  by (simp add: finish_message_def append_bytes_def)

lemma offset_ok_consume: "frame_len h \<le> length (pending_bytes d) \<Longrightarrow> offset_ok d \<Longrightarrow> offset_ok (consume h d)"
  by (auto simp: offset_ok_def consume_def pending_bytes_def)

lemma offset_ok_add: "add_fragment h data d = Some d' \<Longrightarrow> offset_ok d' = offset_ok d"
  by (auto simp: add_fragment_def offset_ok_def split: if_splits)

lemmas frame_append = consume_append fail_append control_append add_fragment_append finish_append

lemma control_frame_status: "fst (control_frame h data d) \<noteq> NeedMore"
  by (simp add: control_frame_def fail_with_def)

lemma finish_status: "fst (finish_message d) \<noteq> NeedMore"
  by (simp add: finish_message_def)

text \<open>
  The key fact: a call that decided something decides the same with more bytes behind, and a call
  that wanted more continues, with more bytes, from where it stopped.
\<close>

lemma next_loop_append:
  "offset_ok d \<Longrightarrow> next_loop d = (s, d') \<Longrightarrow>
     (if s = NeedMore then next_loop (append_bytes d q) = next_loop (append_bytes d' q)
      else next_loop (append_bytes d q) = (s, append_bytes d' q)) \<and> offset_ok d'"
proof (induction d arbitrary: s d' rule: next_loop.induct)
  case (1 d)
  note pend = pending_append [OF "1.prems"(1), of q]
  show ?case
  proof (cases "read_header (pending_bytes d)")
    case HeaderMore
    with "1.prems" show ?thesis by (simp add: next_loop.simps [of d])
  next
    case HeaderError
    with "1.prems" read_header_append [of "pending_bytes d" q] show ?thesis
      by (auto simp: next_loop.simps [of d] next_loop.simps [of "append_bytes d q"] pend frame_append
          fail_with_def offset_ok_def)
  next
    case (Header h)
    note hd = read_header_append [of "pending_bytes d" q, unfolded Header, simplified]
    consider (big) "too_big h d" | (more) "\<not> too_big h d" "length (pending_bytes d) < frame_len h"
      | (whole) "\<not> too_big h d" "\<not> length (pending_bytes d) < frame_len h" by blast
    then show ?thesis
    proof cases
      case big
      with "1.prems" Header hd show ?thesis
        by (auto simp: next_loop.simps [of d] next_loop.simps [of "append_bytes d q"] pend frame_append
            fail_with_def offset_ok_def)
    next
      case more
      with "1.prems" Header show ?thesis by (simp add: next_loop.simps [of d])
    next
      case whole
      let ?data = "frame_data h (pending_bytes d)" and ?d1 = "consume h d"
      have ok1: "offset_ok ?d1" using whole "1.prems"(1) by (intro offset_ok_consume) auto
      have d: "next_loop d = (if control (op h) then control_frame h ?data ?d1
          else case add_fragment h ?data ?d1 of None \<Rightarrow> fail_with ProtocolError ?d1
            | Some d2 \<Rightarrow> if fin h then finish_message d2 else next_loop d2)"
        using Header whole by (simp add: next_loop.simps [of d] Let_def)
      have dq: "next_loop (append_bytes d q) = (if control (op h) then control_frame h ?data (append_bytes ?d1 q)
          else case add_fragment h ?data (append_bytes ?d1 q) of
              None \<Rightarrow> fail_with ProtocolError (append_bytes ?d1 q)
            | Some d2 \<Rightarrow> if fin h then finish_message d2 else next_loop d2)"
        using hd whole by (simp add: next_loop.simps [of "append_bytes d q"] Let_def pend frame_append
            frame_data_append)
      show ?thesis
      proof (cases "control (op h)")
        case True
        with d dq "1.prems"(2) ok1 control_frame_status [of h ?data ?d1] show ?thesis
          by (auto simp: frame_append offset_ok_def control_frame_def fail_with_def split: if_splits)
      next
        case False
        show ?thesis
        proof (cases "add_fragment h ?data ?d1")
          case None
          with d dq "1.prems"(2) ok1 False show ?thesis
            by (auto simp: frame_append offset_ok_def fail_with_def)
        next
          case (Some d2)
          have ok2: "offset_ok d2" using offset_ok_add [OF Some] ok1 by simp
          show ?thesis
          proof (cases "fin h")
            case True
            with d dq "1.prems"(2) ok2 False Some finish_status [of d2] show ?thesis
              by (auto simp: frame_append offset_ok_def finish_message_def)
          next
            case fin: False
            with d dq "1.prems"(2) False Some have "next_loop d2 = (s, d')"
                "next_loop (append_bytes d q) = next_loop (append_bytes d2 q)"
              by (simp_all add: frame_append)
            with "1.IH" [OF Header whole refl refl False Some fin ok2] show ?thesis by simp
          qed
        qed
      qed
    qed
  qed
qed

subsection \<open>Draining the buffer\<close>

text \<open>
  The listener's loop: \<^verbatim>\<open>Next\<close> is called until it returns something else than a message. The
  result is the messages and the status that ended the loop.
\<close>

lemma pending_finish: "pending_bytes (snd (finish_message d)) = pending_bytes d"
  by (simp add: finish_message_def pending_bytes_def)

lemma next_loop_shrinks:
  "next_loop d = (Got m, d') \<Longrightarrow> length (pending_bytes d') < length (pending_bytes d)"
proof (induction d arbitrary: rule: next_loop.induct)
  case (1 d)
  then obtain h where h: "read_header (pending_bytes d) = Header h" "\<not> too_big h d"
      "\<not> length (pending_bytes d) < frame_len h"
    by (auto simp: next_loop.simps [of d] fail_with_def split: header_read.splits if_splits)
  let ?data = "frame_data h (pending_bytes d)" and ?d1 = "consume h d"
  note less = consume_shrinks [OF h(1,3)]
  have d: "next_loop d = (if control (op h) then control_frame h ?data ?d1
      else case add_fragment h ?data ?d1 of None \<Rightarrow> fail_with ProtocolError ?d1
        | Some d2 \<Rightarrow> if fin h then finish_message d2 else next_loop d2)"
    using h by (simp add: next_loop.simps [of d] Let_def)
  show ?case
  proof (cases "control (op h)")
    case True
    with d "1.prems" less show ?thesis by (auto simp: control_frame_def fail_with_def split: if_splits)
  next
    case False
    with d "1.prems" obtain d2 where d2: "add_fragment h ?data ?d1 = Some d2"
      by (auto simp: fail_with_def split: option.splits)
    note pd2 = pending_add_fragment [OF d2]
    show ?thesis
    proof (cases "fin h")
      case True
      with d "1.prems" False d2 have "finish_message d2 = (Got m, d')" by simp
      with less pd2 pending_finish [of d2] show ?thesis by simp
    next
      case fin: False
      with d "1.prems" False d2 have "next_loop d2 = (Got m, d')" by simp
      from "1.IH" [OF h(1,2,3) refl refl False d2 fin this] less pd2 show ?thesis by simp
    qed
  qed
qed

function drain :: "decoder \<Rightarrow> message list \<times> decode_status \<times> decoder" where
  "drain d = (case decode_next d of
      (Got m, d') \<Rightarrow> (let (ms, r) = drain d' in (m # ms, r))
    | (s, d') \<Rightarrow> ([], s, d'))"
  by pat_completeness auto

termination drain
  by (relation "measure (\<lambda>d. length (pending_bytes d))")
    (auto simp: decode_next_def split: if_splits dest: next_loop_shrinks [OF sym])

declare drain.simps [simp del]

lemma drain_failed: "failed d \<Longrightarrow> drain d = ([], ProtocolError, d)"
  by (simp add: drain.simps [of d] decode_next_def)

lemma drain_stop: "\<not> failed d \<Longrightarrow> next_loop d = (s, d') \<Longrightarrow> \<forall>m. s \<noteq> Got m \<Longrightarrow> drain d = ([], s, d')"
  by (cases s) (simp_all add: drain.simps [of d] decode_next_def)

lemma drain_got: "\<not> failed d \<Longrightarrow> next_loop d = (Got m, d') \<Longrightarrow>
    drain d = (m # fst (drain d'), snd (drain d'))"
  by (simp add: drain.simps [of d] decode_next_def split: prod.split)

text \<open>A refusal sets \<^verbatim>\<open>failed_\<close>; a message or a wait does not touch it.\<close>

lemma next_loop_failed:
  "\<not> failed d \<Longrightarrow> next_loop d = (s, d') \<Longrightarrow> failed d' \<longleftrightarrow> s = ProtocolError \<or> s = TooBig"
proof (induction d arbitrary: s d' rule: next_loop.induct)
  case (1 d)
  show ?case
  proof (cases "\<exists>h. read_header (pending_bytes d) = Header h \<and> \<not> too_big h d
      \<and> \<not> length (pending_bytes d) < frame_len h")
    case False
    with "1.prems" show ?thesis
      by (auto simp: next_loop.simps [of d] fail_with_def split: header_read.splits if_splits)
  next
    case True
    then obtain h where h: "read_header (pending_bytes d) = Header h" "\<not> too_big h d"
      "\<not> length (pending_bytes d) < frame_len h" by blast
    let ?data = "frame_data h (pending_bytes d)" and ?d1 = "consume h d"
    have d: "next_loop d = (if control (op h) then control_frame h ?data ?d1
        else case add_fragment h ?data ?d1 of None \<Rightarrow> fail_with ProtocolError ?d1
          | Some d2 \<Rightarrow> if fin h then finish_message d2 else next_loop d2)"
      using h by (simp add: next_loop.simps [of d] Let_def)
    have nf1: "\<not> failed ?d1" using "1.prems" by (simp add: consume_def)
    show ?thesis
    proof (cases "\<not> control (op h) \<and> \<not> fin h \<and> (\<exists>d2. add_fragment h ?data ?d1 = Some d2)")
      case True
      then obtain d2 where d2: "\<not> control (op h)" "\<not> fin h" "add_fragment h ?data ?d1 = Some d2"
        by blast
      then have "\<not> failed d2" using nf1 by (auto simp: add_fragment_def split: if_splits)
      with "1.IH" [OF h refl refl d2(1,3,2)] "1.prems" d d2 show ?thesis by simp
    next
      case False
      with "1.prems" d nf1 show ?thesis
        by (auto simp: control_frame_def fail_with_def finish_message_def add_fragment_def
            split: if_splits)
    qed
  qed
qed

subsection \<open>Two decoders that differ only in how much they have reclaimed\<close>

definition sim :: "decoder \<Rightarrow> decoder \<Rightarrow> bool" where
  "sim d e \<longleftrightarrow> pending_bytes d = pending_bytes e
     \<and> d\<lparr>buffer := [], offset := 0\<rparr> = e\<lparr>buffer := [], offset := 0\<rparr>"

lemma sim_refl [simp]: "sim d d"
  by (simp add: sim_def)

lemma sim_iff: "sim d e \<longleftrightarrow> pending_bytes d = pending_bytes e \<and> max_message d = max_message e
    \<and> failed d = failed e \<and> in_fragment d = in_fragment e \<and> fragment_opcode d = fragment_opcode e
    \<and> fragment d = fragment e \<and> unmasked d = unmasked e"
  by (cases d; cases e) (auto simp: sim_def)

lemma sim_next_loop:
  "sim d e \<Longrightarrow> fst (next_loop d) = fst (next_loop e) \<and> sim (snd (next_loop d)) (snd (next_loop e))"
proof (induction d arbitrary: e rule: next_loop.induct)
  case (1 d)
  have pe: "pending_bytes e = pending_bytes d" and big: "\<And>h. too_big h e = too_big h d"
    using "1.prems" by (simp_all add: sim_iff too_big_def)
  have fails: "fst (fail_with s d') = fst (fail_with s e') \<and> sim (snd (fail_with s d')) (snd (fail_with s e'))"
    if "sim d' e'" for s d' e' using that by (simp add: sim_iff fail_with_def pending_bytes_def)
  show ?case
  proof (cases "\<exists>h. read_header (pending_bytes d) = Header h \<and> \<not> too_big h d
      \<and> \<not> length (pending_bytes d) < frame_len h")
    case False
    with "1.prems" fails [OF "1.prems"] show ?thesis
      by (auto simp: next_loop.simps [of d] next_loop.simps [of e] pe big split: header_read.splits)
  next
    case True
    then obtain h where h: "read_header (pending_bytes d) = Header h" "\<not> too_big h d"
      "\<not> length (pending_bytes d) < frame_len h" by blast
    let ?data = "frame_data h (pending_bytes d)" and ?d1 = "consume h d" and ?e1 = "consume h e"
    have s1: "sim ?d1 ?e1" using "1.prems" by (simp add: sim_iff pending_consume) (simp add: consume_def)
    have dl: "next_loop d = (if control (op h) then control_frame h ?data ?d1
        else case add_fragment h ?data ?d1 of None \<Rightarrow> fail_with ProtocolError ?d1
          | Some d2 \<Rightarrow> if fin h then finish_message d2 else next_loop d2)"
      using h by (simp add: next_loop.simps [of d] Let_def)
    have el: "next_loop e = (if control (op h) then control_frame h ?data ?e1
        else case add_fragment h ?data ?e1 of None \<Rightarrow> fail_with ProtocolError ?e1
          | Some d2 \<Rightarrow> if fin h then finish_message d2 else next_loop d2)"
      using h by (simp add: next_loop.simps [of e] Let_def pe big)
    show ?thesis
    proof (cases "control (op h)")
      case True
      with s1 fails [OF s1] show ?thesis by (simp add: dl el control_frame_def)
    next
      case nc: False
      show ?thesis
      proof (cases "add_fragment h ?data ?d1")
        case None
        then have "add_fragment h ?data ?e1 = None"
          using s1 by (auto simp: add_fragment_def sim_iff split: if_splits)
        with None nc fails [OF s1] show ?thesis by (simp add: dl el)
      next
        case (Some d2)
        then obtain e2 where e2: "add_fragment h ?data ?e1 = Some e2"
          using s1 by (auto simp: add_fragment_def sim_iff split: if_splits)
        have s2: "sim d2 e2"
          using Some e2 s1 pending_add_fragment [OF Some] pending_add_fragment [OF e2]
          by (auto simp: add_fragment_def sim_iff split: if_splits)
        show ?thesis
        proof (cases "fin h")
          case True
          with Some e2 nc s2 show ?thesis
            by (simp add: dl el finish_message_def sim_iff pending_bytes_def)
        next
          case False
          with "1.IH" [OF h refl refl nc Some False s2] Some e2 nc show ?thesis by (simp add: dl el)
        qed
      qed
    qed
  qed
qed

lemma sim_append: "sim d e \<Longrightarrow> offset_ok d \<Longrightarrow> offset_ok e \<Longrightarrow> sim (append_bytes d q) (append_bytes e q)"
  by (simp add: sim_iff pending_append) (simp add: append_bytes_def)

lemma sim_feed: "offset_ok d \<Longrightarrow> \<not> failed d \<Longrightarrow> sim (feed d q) (append_bytes d q) \<and> offset_ok (feed d q)"
  by (auto simp: sim_iff feed_def append_bytes_def pending_bytes_def offset_ok_def Let_def)

lemma sim_drain:
  "sim d e \<Longrightarrow> fst (drain d) = fst (drain e) \<and> fst (snd (drain d)) = fst (snd (drain e))
     \<and> sim (snd (snd (drain d))) (snd (snd (drain e)))"
proof (induction d arbitrary: e rule: drain.induct)
  case (1 d)
  show ?case
  proof (cases "failed d")
    case True
    with "1.prems" show ?thesis by (simp add: drain_failed sim_iff)
  next
    case nf: False
    then have nfe: "\<not> failed e" using "1.prems" by (simp add: sim_iff)
    obtain s d' e' where dd: "next_loop d = (s, d')" and ee: "next_loop e = (s, e')" and s': "sim d' e'"
      using sim_next_loop [OF "1.prems"] by (metis prod.collapse)
    show ?thesis
    proof (cases "\<exists>m. s = Got m")
      case True
      then obtain m where m: "s = Got m" by blast
      have "decode_next d = (Got m, d')" using nf dd m by (simp add: decode_next_def)
      from "1.IH" [OF this [symmetric] refl s'] show ?thesis
        using drain_got [OF nf dd [unfolded m]] drain_got [OF nfe ee [unfolded m]] by simp
    next
      case False
      with drain_stop [OF nf dd] drain_stop [OF nfe ee] s' show ?thesis by simp
    qed
  qed
qed


lemma drain_append:
  "offset_ok d \<Longrightarrow> drain d = (ms, s, d') \<Longrightarrow>
     drain (append_bytes d q) =
       (if s = NeedMore then (ms @ fst (drain (append_bytes d' q)), snd (drain (append_bytes d' q)))
        else (ms, s, append_bytes d' q)) \<and> offset_ok d'
     \<and> (s = NeedMore \<longrightarrow> \<not> failed d' \<and> drain d' = ([], NeedMore, d')) \<and> (s \<noteq> NeedMore \<longrightarrow> failed d')"
proof (induction d arbitrary: ms s d' rule: drain.induct)
  case (1 d)
  show ?case
  proof (cases "failed d")
    case True
    with "1.prems" drain_failed [OF True] drain_failed [of "append_bytes d q"] show ?thesis by simp
  next
    case nf: False
    then have nfq: "\<not> failed (append_bytes d q)" by simp
    obtain t d1 where t: "next_loop d = (t, d1)" by fastforce
    note app = next_loop_append [OF "1.prems"(1) t, of q]
    have ok1: "offset_ok d1" using app by blast
    note fl = next_loop_failed [OF nf t]
    show ?thesis
    proof (cases t)
      case NeedMore
      have d': "ms = []" "s = NeedMore" "d' = d1"
        using drain_stop [OF nf t] NeedMore "1.prems"(2) by simp_all
      have nf1: "\<not> failed d1" using fl NeedMore by simp
      have same: "next_loop d1 = (NeedMore, d1)"
        using next_loop_append [OF "1.prems"(1) t, of "[]"] NeedMore t by (simp add: append_bytes_def)
      have "next_loop (append_bytes d q) = next_loop (append_bytes d1 q)" using app NeedMore by simp
      then have "drain (append_bytes d q) = drain (append_bytes d1 q)"
        using nfq nf1 by (simp add: drain.simps [of "append_bytes d q"]
            drain.simps [of "append_bytes d1 q"] decode_next_def)
      with d' ok1 nf1 drain_stop [OF nf1 same] show ?thesis by simp
    next
      case (Got m)
      note dg = drain_got [OF nf t [unfolded Got]]
      have "next_loop (append_bytes d q) = (Got m, append_bytes d1 q)" using app Got by simp
      note dgq = drain_got [OF nfq this]
      obtain ms1 where ms1: "ms = m # ms1" "drain d1 = (ms1, s, d')"
        using dg "1.prems"(2) by (cases "drain d1") auto
      have "decode_next d = (Got m, d1)" using nf t Got by (simp add: decode_next_def)
      from "1.IH" [OF this [symmetric] refl ok1 ms1(2)] ms1 dgq show ?thesis by simp
    next
      case ProtocolError
      have d': "ms = []" "s = ProtocolError" "d' = d1"
        using drain_stop [OF nf t] ProtocolError "1.prems"(2) by simp_all
      moreover have "next_loop (append_bytes d q) = (ProtocolError, append_bytes d1 q)"
        using app ProtocolError by simp
      ultimately show ?thesis using drain_stop [OF nfq] ok1 fl ProtocolError by simp
    next
      case TooBig
      have d': "ms = []" "s = TooBig" "d' = d1"
        using drain_stop [OF nf t] TooBig "1.prems"(2) by simp_all
      moreover have "next_loop (append_bytes d q) = (TooBig, append_bytes d1 q)"
        using app TooBig by simp
      ultimately show ?thesis using drain_stop [OF nfq] ok1 fl TooBig by simp
    qed
  qed
qed

subsection \<open>Any chunking\<close>

text \<open>What the listener does with the reads of a connection, one after another.\<close>

fun receive :: "decoder \<Rightarrow> bytes list \<Rightarrow> message list \<times> decoder" where
  "receive d [] = ([], d)"
| "receive d (chunk # chunks) =
     (let (ms, s, d1) = drain (feed d chunk); (ms', d2) = receive d1 chunks in (ms @ ms', d2))"

lemma receive_failed: "failed d \<Longrightarrow> receive d cs = ([], d)"
proof (induction cs)
  case (Cons c cs)
  then have "feed d c = d" by (simp add: feed_def)
  with Cons show ?case by (simp add: drain_failed)
qed simp

lemma receive_concat:
  assumes "offset_ok d" "\<not> failed d" "drain d = ([], NeedMore, d)"
  shows "fst (receive d cs) = fst (drain (append_bytes d (concat cs)))
    \<and> failed (snd (receive d cs)) = failed (snd (snd (drain (append_bytes d (concat cs)))))
    \<and> (\<not> failed (snd (receive d cs)) \<longrightarrow> sim (snd (receive d cs)) (snd (snd (drain (append_bytes d (concat cs))))))"
  using assms
proof (induction cs arbitrary: d)
  case Nil
  then show ?case by (simp add: append_bytes_def)
next
  case (Cons c cs)
  let ?f = "feed d c" and ?a = "append_bytes d c"
  obtain ms s d1 where d1: "drain ?f = (ms, s, d1)" by (cases "drain ?f") auto
  have f: "sim ?f ?a" "offset_ok ?f" using sim_feed [OF Cons.prems(1,2)] by simp_all
  have oka: "offset_ok ?a" using Cons.prems(1) by (simp add: offset_ok_def append_bytes_def)
  have ap: "append_bytes d (concat (c # cs)) = append_bytes ?a (concat cs)"
    by (simp add: append_bytes_def)
  let ?q = "concat cs"
  have simq: "sim (append_bytes ?f ?q) (append_bytes ?a ?q)" by (rule sim_append [OF f(1,2) oka])
  note eq = sim_drain [OF simq]
  note app = drain_append [OF f(2) d1, of ?q]
  have rec: "receive d (c # cs) = (ms @ fst (receive d1 cs), snd (receive d1 cs))"
    by (simp add: d1 split: prod.split)
  show ?case
  proof (cases "s = NeedMore")
    case True
    with app have d1ok: "offset_ok d1" "\<not> failed d1" "drain d1 = ([], NeedMore, d1)"
      and dq: "drain (append_bytes ?f ?q) =
        (ms @ fst (drain (append_bytes d1 ?q)), snd (drain (append_bytes d1 ?q)))" by simp_all
    from Cons.IH [OF d1ok] dq eq rec show ?thesis
      unfolding ap by (auto simp: sim_iff)
  next
    case False
    with app have "failed d1" and dq: "drain (append_bytes ?f ?q) = (ms, s, append_bytes d1 ?q)"
      by simp_all
    with receive_failed [of d1 cs] eq rec show ?thesis
      unfolding ap by (auto simp: sim_iff)
  qed
qed

lemma drain_new [simp]: "drain (new_decoder n) = ([], NeedMore, new_decoder n)"
  by (simp add: drain.simps decode_next_def next_loop.simps new_decoder_def pending_bytes_def read_header_def)

end
