(* ===== verification/Ws_Wire.thy ===== *)
theory Ws_Wire
  imports Ws_Stream
begin

section \<open>From frames sent to messages received\<close>

text \<open>
  A specification of RFC 6455's message assembly on whole frames, and the proof that the decoder
  fed the bytes of any sequence of frames computes it: the builders and the decoder agree on every
  length encoding, masks cancel, control frames may interleave, and every refusal is the one the
  specification names.
\<close>

unbundle bit_operations_syntax

record wire_frame =
  wf_fin :: bool
  wf_op :: opcode
  wf_key :: "bytes option"
  wf_payload :: bytes

text \<open>An unmasked frame is one of \<^verbatim>\<open>BuildFrame\<close>, which always sets the fin bit.\<close>

definition wire_ok :: "wire_frame \<Rightarrow> bool" where
  "wire_ok w \<longleftrightarrow> length (wf_payload w) < 2 ^ 63
     \<and> (case wf_key w of None \<Rightarrow> wf_fin w | Some key \<Rightarrow> length key = 4)"

definition encode_wire :: "wire_frame \<Rightarrow> bytes" where
  "encode_wire w = (case wf_key w of
      None \<Rightarrow> build_frame (wf_op w) (wf_payload w)
    | Some key \<Rightarrow> build_masked_frame (wf_op w) (wf_payload w) key (wf_fin w))"

text \<open>The specification: the open message is \<open>Some (opcode, bytes so far)\<close>.\<close>

type_synonym open_message = "(opcode \<times> bytes) option"

definition open_len :: "open_message \<Rightarrow> nat" where
  "open_len st = (case st of None \<Rightarrow> 0 | Some (k, b) \<Rightarrow> length b)"

definition join_open :: "open_message \<Rightarrow> opcode \<Rightarrow> bytes \<Rightarrow> open_message" where
  "join_open st k p = (case st of
      None \<Rightarrow> if k = Continuation then None else Some (k, p)
    | Some (k0, b) \<Rightarrow> if k = Continuation then Some (k0, b @ p) else None)"

definition data_message :: "opcode \<Rightarrow> bytes \<Rightarrow> message" where
  "data_message k p = \<lparr>msg_opcode = k, msg_payload = p, close_code = 0\<rparr>"

definition control_message :: "opcode \<Rightarrow> bytes \<Rightarrow> message" where
  "control_message k p = \<lparr>msg_opcode = k, msg_payload = p, close_code = (if k = Close then close_code_of p else 0)\<rparr>"

definition refused_frame :: "nat \<Rightarrow> open_message \<Rightarrow> wire_frame \<Rightarrow> bool" where
  "refused_frame n st w \<longleftrightarrow>
     (let k = wf_op w; len = length (wf_payload w) in
      if control k then \<not> wf_fin w \<or> len > 125 \<or> len > n \<or> k = Close \<and> len = 1
      else open_len st + len > n \<or> join_open st k (wf_payload w) = None)"

fun assemble :: "nat \<Rightarrow> open_message \<Rightarrow> wire_frame list \<Rightarrow> message list \<times> bool" where
  "assemble n st [] = ([], True)"
| "assemble n st (w # ws) =
     (if refused_frame n st w then ([], False)
      else if control (wf_op w) then
        (let (ms, ok) = assemble n st ws in (control_message (wf_op w) (wf_payload w) # ms, ok))
      else case join_open st (wf_op w) (wf_payload w) of
          None \<Rightarrow> ([], False)
        | Some (k, b) \<Rightarrow>
            if wf_fin w then (let (ms, ok) = assemble n None ws in (data_message k b # ms, ok))
            else assemble n (Some (k, b)) ws)"

subsection \<open>Lengths and masks\<close>

lemma foldl_be_bytes:
  "foldl (\<lambda>len b. push_bit 8 len OR ucast b) acc (be_bytes n w) = push_bit (8 * n) acc OR take_bit (8 * n) (w :: u64)"
proof (induction n arbitrary: acc)
  case 0
  then show ?case by (simp add: be_bytes_def)
next
  case (Suc n)
  have cons: "be_bytes (Suc n) w = ucast (drop_bit (n * 8) w) # be_bytes n w"
    by (simp add: be_bytes_def)
  show ?case
    unfolding cons foldl_Cons Suc
    by (rule bit_word_eqI) (auto simp: bit_simps algebra_simps)
qed

lemma length_be_bytes [simp]: "length (be_bytes n w) = n"
  by (simp add: be_bytes_def)

lemma be_len_be_bytes: "be_len (be_bytes n w) = take_bit (8 * n) w"
  by (simp add: be_len_def foldl_be_bytes)

lemma apply_mask_twice: "apply_mask key (apply_mask key data) = data"
  by (rule nth_equalityI) (simp_all add: apply_mask_def xor.assoc)

lemma length_apply_mask [simp]: "length (apply_mask key data) = length data"
  by (simp add: apply_mask_def)

lemma small_field:
  fixes n :: nat
  assumes "n < 128"
  shows "unat (((if m then 0x80 else 0) OR word_of_nat n :: u8) AND 0x7F) = n"
    and "((if m then 0x80 else 0) OR word_of_nat n :: u8) AND 0x80 = (if m then 0x80 else 0)"
proof -
  let ?w = "word_of_nat n :: u8"
  have u: "unat ?w = n" using assms by (simp add: unat_of_nat)
  have "?w AND 0x7F = take_bit 7 ?w" by (simp add: take_bit_eq_mask mask_numeral)
  also have "\<dots> = ?w"
    unfolding word_unat_eq_iff unsigned_take_bit_eq u using assms by (simp add: take_bit_nat_eq_self)
  finally have w: "?w AND 0x7F = ?w" .
  have "?w AND 0x80 = (?w AND 0x7F) AND 0x80" by (simp only: w)
  also have "\<dots> = 0" by (simp add: and.assoc)
  finally have w0: "?w AND 0x80 = 0" .
  show "unat (((if m then 0x80 else 0) OR ?w) AND 0x7F) = n"
    using w u by (simp add: bit.conj_disj_distrib2)
  show "((if m then 0x80 else 0) OR ?w) AND 0x80 = (if m then 0x80 else 0)"
    using w0 by (simp add: bit.conj_disj_distrib2)
qed

lemma first_byte:
  "((if f then 0x80 else 0) OR opcode_code k) AND 0x80 \<noteq> 0 \<longleftrightarrow> f"
  "((if f then 0x80 else 0) OR opcode_code k) AND 0x70 = 0"
  "((if f then 0x80 else 0) OR opcode_code k) AND 0x0F = opcode_code k"
  by (cases k; cases f; simp)+


subsection \<open>The header of a built frame is read back\<close>

text \<open>What both builders share, the mask bit and the key apart.\<close>

definition frame_head :: "bool \<Rightarrow> opcode \<Rightarrow> bool \<Rightarrow> nat \<Rightarrow> bytes" where
  "frame_head f k m n = ((if f then 0x80 else 0) OR opcode_code k) # length_field (if m then 0x80 else 0) n"

lemma build_frame_head: "build_frame k p = frame_head True k False (length p) @ p"
  by (simp add: build_frame_def frame_head_def)

lemma build_masked_frame_head:
  "length key = 4 \<Longrightarrow> build_masked_frame k p key f = frame_head f k True (length p) @ key @ apply_mask key p"
  by (simp add: build_masked_frame_def frame_head_def)

lemma length_field_cases:
  obtains (small) "n < 126" "length_field mb n = [mb OR word_of_nat n]"
  | (mid) "126 \<le> n" "n < 2 ^ 16" "length_field mb n = (mb OR word_of_nat 126) # be_bytes 2 (word_of_nat n)"
  | (big) "126 \<le> n" "2 ^ 16 \<le> n" "length_field mb n = (mb OR word_of_nat 127) # be_bytes 8 (word_of_nat n)"
  by (cases "n < 126"; cases "n \<le> 0xFFFF") (simp_all add: length_field_def)

lemma read_header_head:
  assumes n: "n < 2 ^ 63" and ctl: "control k \<Longrightarrow> f \<and> n \<le> 125"
  shows "read_header (frame_head f k m n @ rest) =
    Header \<lparr>fin = f, op = k, masked = m, payload_len = n, header_len = length (frame_head f k m n)\<rparr>"
proof -
  let ?mb = "if m then 0x80 else 0 :: u8"
  define b where "b = ((if f then 0x80 else 0) OR opcode_code k :: u8)"
  have b: "b AND 0x80 \<noteq> 0 \<longleftrightarrow> f" "b AND 0x70 = 0" "opcode_of (b AND 0x0F) = Some k"
    by (simp_all add: b_def first_byte)
  have fh: "frame_head f k m n @ rest = b # length_field ?mb n @ rest" by (simp add: frame_head_def b_def)
  have lh: "length (frame_head f k m n) = Suc (length (length_field ?mb n))" by (simp add: frame_head_def)
  have mb: "?mb \<noteq> 0 \<longleftrightarrow> m" by simp
  show ?thesis
  proof (cases rule: length_field_cases [of n ?mb])
    case small
    with ctl show ?thesis
      by (simp add: fh lh read_header_def Let_def b small_field read_length_def)
  next
    case mid
    have "unat (take_bit 16 (word_of_nat n :: u64)) = n"
      unfolding unsigned_take_bit_eq using mid(2) by (simp add: unat_of_nat take_bit_nat_eq_self)
    moreover have "\<not> control k" using ctl mid by auto
    ultimately show ?thesis
      using mid(3) small_field [of 126 m]
      by (simp add: fh lh read_header_def Let_def b read_length_def be_len_be_bytes)
  next
    case big
    have u: "unat (word_of_nat n :: u64) = n" using n by (simp add: unat_of_nat)
    then have "unat (drop_bit 63 (word_of_nat n :: u64)) = 0"
      unfolding unsigned_drop_bit_eq u using n by (simp add: drop_bit_eq_div take_bit_nat_eq_self)
    then have d: "drop_bit 63 (word_of_nat n :: u64) = 0" by (simp add: unat_eq_zero)
    have t: "take_bit 64 (word_of_nat n :: u64) = word_of_nat n" by (simp add: take_bit_word_eq_self)
    have "\<not> control k" using ctl big by auto
    with u d t show ?thesis
      using big(3) small_field [of 127 m]
      by (simp add: fh lh read_header_def Let_def b read_length_def be_len_be_bytes)
  qed
qed

lemma read_header_bad_control:
  assumes "control k" "\<not> (f \<and> n \<le> 125)"
  shows "read_header (frame_head f k m n @ rest) = HeaderError"
proof -
  let ?mb = "if m then 0x80 else 0 :: u8"
  define b where "b = ((if f then 0x80 else 0) OR opcode_code k :: u8)"
  have b: "b AND 0x80 \<noteq> 0 \<longleftrightarrow> f" "b AND 0x70 = 0" "opcode_of (b AND 0x0F) = Some k"
    by (simp_all add: b_def first_byte)
  have fh: "frame_head f k m n @ rest = b # length_field ?mb n @ rest" by (simp add: frame_head_def b_def)
  show ?thesis
  proof (cases rule: length_field_cases [of n ?mb])
    case small
    with assms show ?thesis
      unfolding fh by (auto simp: read_header_def Let_def b small_field)
  next
    case mid
    with assms small_field [of 126 m] show ?thesis
      unfolding fh by (simp add: read_header_def Let_def b)
  next
    case big
    with assms small_field [of 127 m] show ?thesis
      unfolding fh by (simp add: read_header_def Let_def b)
  qed
qed


lemma encode_wire_head:
  assumes "wire_ok w"
  shows "encode_wire w = frame_head (wf_fin w) (wf_op w) (wf_key w \<noteq> None) (length (wf_payload w))
    @ (case wf_key w of None \<Rightarrow> wf_payload w | Some key \<Rightarrow> key @ apply_mask key (wf_payload w))"
  using assms
  by (auto simp: encode_wire_def wire_ok_def build_frame_head build_masked_frame_head split: option.splits)

definition head_of :: "wire_frame \<Rightarrow> frame_header" where
  "head_of w = \<lparr>fin = wf_fin w, op = wf_op w, masked = (wf_key w \<noteq> None),
     payload_len = length (wf_payload w),
     header_len = length (frame_head (wf_fin w) (wf_op w) (wf_key w \<noteq> None) (length (wf_payload w)))\<rparr>"

lemma head_of_sel [simp]:
  "fin (head_of w) = wf_fin w" "op (head_of w) = wf_op w" "payload_len (head_of w) = length (wf_payload w)"
  by (simp_all add: head_of_def)

definition bad_control :: "wire_frame \<Rightarrow> bool" where
  "bad_control w \<longleftrightarrow> control (wf_op w) \<and> \<not> (wf_fin w \<and> length (wf_payload w) \<le> 125)"

lemma encode_wire_read:
  assumes "wire_ok w"
  shows "read_header (encode_wire w @ rest) = (if bad_control w then HeaderError else Header (head_of w))"
    and "length (encode_wire w) = frame_len (head_of w)"
    and "frame_data (head_of w) (encode_wire w @ rest) = wf_payload w"
proof -
  note e = encode_wire_head [OF assms]
  have "length (wf_payload w) < 2 ^ 63" using assms by (simp add: wire_ok_def)
  then show "read_header (encode_wire w @ rest) = (if bad_control w then HeaderError else Header (head_of w))"
    unfolding e append_assoc head_of_def bad_control_def
    using read_header_bad_control read_header_head by auto
  have key: "wf_key w = Some key \<Longrightarrow> length key = 4" for key
    using assms by (simp add: wire_ok_def)
  show "length (encode_wire w) = frame_len (head_of w)"
    unfolding e by (auto simp: frame_len_def head_of_def mask_bytes_def key split: option.split)
  show "frame_data (head_of w) (encode_wire w @ rest) = wf_payload w"
    unfolding e by (auto simp: frame_data_def head_of_def mask_bytes_def Let_def key apply_mask_twice split: option.split)
qed

subsection \<open>The decoder computes the specification\<close>

definition holds :: "decoder \<Rightarrow> open_message \<Rightarrow> bool" where
  "holds d st \<longleftrightarrow> in_fragment d = (st \<noteq> None) \<and> (case st of
       None \<Rightarrow> fragment d = [] | Some (k, b) \<Rightarrow> fragment_opcode d = k \<and> fragment d = b)"

lemma holds_new: "holds (new_decoder n) None"
  by (simp add: holds_def new_decoder_def)

lemma holds_consume [simp]: "holds (consume h d) st = holds d st"
  by (simp add: holds_def consume_def split: option.split)

lemma too_big_head:
  "holds d st \<Longrightarrow> too_big (head_of w) d \<longleftrightarrow>
     (if control (wf_op w) then length (wf_payload w) > max_message d
      else open_len st + length (wf_payload w) > max_message d)"
  by (auto simp: too_big_def holds_def open_len_def split: option.splits)

lemma add_fragment_join:
  assumes "holds d st" "\<not> control (wf_op w)"
  shows "case join_open st (wf_op w) p of
      None \<Rightarrow> add_fragment (head_of w) p d = None
    | Some (k, b) \<Rightarrow> \<exists>d'. add_fragment (head_of w) p d = Some d' \<and> holds d' (Some (k, b))
        \<and> max_message d' = max_message d \<and> failed d' = failed d"
  using assms
  by (auto simp: join_open_def add_fragment_def holds_def split: option.splits)

text \<open>One frame at the front of the buffer.\<close>

lemma next_loop_wire:
  assumes ok: "wire_ok w" and p: "pending_bytes d = encode_wire w @ rest"
    and st: "holds d st" and n: "max_message d = n" and nf: "\<not> failed d"
  shows "if refused_frame n st w then \<exists>s d'. next_loop d = (s, d') \<and> failed d' \<and> (\<forall>m. s \<noteq> Got m)
    else if control (wf_op w) then
      next_loop d = (Got (control_message (wf_op w) (wf_payload w)), consume (head_of w) d)
    else \<exists>k b d2. join_open st (wf_op w) (wf_payload w) = Some (k, b)
      \<and> holds d2 (Some (k, b)) \<and> max_message d2 = n \<and> \<not> failed d2 \<and> pending_bytes d2 = rest
      \<and> next_loop d = (if wf_fin w then finish_message d2 else next_loop d2)"
proof -
  let ?h = "head_of w" and ?p = "wf_payload w"
  note rd = encode_wire_read [OF ok]
  have read: "read_header (pending_bytes d) = (if bad_control w then HeaderError else Header ?h)"
    by (simp add: p rd)
  have len: "\<not> length (pending_bytes d) < frame_len ?h" by (simp add: p rd)
  have data: "frame_data ?h (pending_bytes d) = ?p" by (simp add: p rd)
  have pend1: "pending_bytes (consume ?h d) = rest" by (simp add: pending_consume p rd(2) [symmetric])
  note big = too_big_head [OF st, of w, unfolded n]
  have d: "next_loop d = (if bad_control w then fail_with ProtocolError d
      else if too_big ?h d then fail_with TooBig d
      else if control (wf_op w) then control_frame ?h ?p (consume ?h d)
      else case add_fragment ?h ?p (consume ?h d) of None \<Rightarrow> fail_with ProtocolError (consume ?h d)
        | Some d2 \<Rightarrow> if wf_fin w then finish_message d2 else next_loop d2)"
    using len by (simp add: next_loop.simps [of d] read Let_def data split: option.split)
  have st1: "holds (consume ?h d) st" using st by simp
  have c1: "max_message (consume ?h d) = n" "\<not> failed (consume ?h d)"
    using n nf by (simp_all add: consume_def)
  show ?thesis
  proof (cases "control (wf_op w)")
    case True
    then show ?thesis
      by (auto simp: d refused_frame_def Let_def bad_control_def big control_frame_def fail_with_def control_message_def)
  next
    case False
    note join = add_fragment_join [OF st1 False, of ?p]
    show ?thesis
    proof (cases "join_open st (wf_op w) ?p")
      case None
      with join False show ?thesis
        by (auto simp: d refused_frame_def bad_control_def fail_with_def)
    next
      case (Some kb)
      obtain k b where kb: "kb = (k, b)" by (cases kb)
      with join Some obtain d2 where d2: "add_fragment ?h ?p (consume ?h d) = Some d2"
        "holds d2 (Some (k, b))" "max_message d2 = n" "\<not> failed d2"
        using c1 by auto
      have "pending_bytes d2 = rest" using pending_add_fragment [OF d2(1)] pend1 by simp
      with d2 Some kb False show ?thesis
        by (auto simp: d refused_frame_def bad_control_def big fail_with_def)
    qed
  qed
qed


lemma finish_holds:
  "holds d (Some (k, b)) \<Longrightarrow> finish_message d = (Got (data_message k b), snd (finish_message d))
     \<and> holds (snd (finish_message d)) None \<and> max_message (snd (finish_message d)) = max_message d
     \<and> failed (snd (finish_message d)) = failed d"
  by (simp add: holds_def finish_message_def data_message_def)

lemma drain_next_eq:
  "\<not> failed d \<Longrightarrow> \<not> failed e \<Longrightarrow> next_loop d = next_loop e \<Longrightarrow> drain d = drain e"
  by (simp add: drain.simps [of d] drain.simps [of e] decode_next_def)

lemma drain_wire:
  "\<lbrakk>\<forall>w\<in>set ws. wire_ok w; pending_bytes d = concat (map encode_wire ws); holds d st; max_message d = n;
    \<not> failed d\<rbrakk> \<Longrightarrow>
    fst (drain d) = fst (assemble n st ws) \<and> failed (snd (snd (drain d))) = (\<not> snd (assemble n st ws))"
proof (induction ws arbitrary: d st)
  case Nil
  then have "next_loop d = (NeedMore, d)" by (simp add: next_loop.simps [of d] read_header_def)
  with Nil drain_stop [OF Nil(5) this] show ?case by simp
next
  case (Cons w ws)
  from Cons.prems have ok: "wire_ok w" and oks: "\<forall>w\<in>set ws. wire_ok w"
    and p: "pending_bytes d = encode_wire w @ concat (map encode_wire ws)" by simp_all
  note one = next_loop_wire [OF ok p Cons.prems(3,4,5)]
  note nf = Cons.prems(5)
  consider (refuse) "refused_frame n st w"
    | (ctl) "\<not> refused_frame n st w" "control (wf_op w)"
    | (data) "\<not> refused_frame n st w" "\<not> control (wf_op w)" by blast
  then show ?case
  proof cases
    case refuse
    with one obtain s d' where s: "next_loop d = (s, d')" "failed d'" "\<forall>m. s \<noteq> Got m" by auto
    from drain_stop [OF nf s(1,3)] s(2) refuse show ?thesis by simp
  next
    case ctl
    let ?d = "consume (head_of w) d"
    from one ctl have s: "next_loop d = (Got (control_message (wf_op w) (wf_payload w)), ?d)" by simp
    have "pending_bytes ?d = concat (map encode_wire ws)"
      by (simp add: pending_consume p encode_wire_read(2) [OF ok, symmetric])
    moreover have "max_message ?d = n" "\<not> failed ?d" using Cons.prems by (simp_all add: consume_def)
    ultimately have "fst (drain ?d) = fst (assemble n st ws) \<and> failed (snd (snd (drain ?d))) = (\<not> snd (assemble n st ws))"
      using Cons.IH [OF oks] Cons.prems(3) by simp
    with drain_got [OF nf s] ctl show ?thesis by (simp add: split_beta)
  next
    case data
    with one obtain k b d2 where d2: "join_open st (wf_op w) (wf_payload w) = Some (k, b)"
      "holds d2 (Some (k, b))" "max_message d2 = n" "\<not> failed d2"
      "pending_bytes d2 = concat (map encode_wire ws)"
      and nx: "next_loop d = (if wf_fin w then finish_message d2 else next_loop d2)" by auto
    show ?thesis
    proof (cases "wf_fin w")
      case True
      let ?d3 = "snd (finish_message d2)"
      note f = finish_holds [OF d2(2)]
      have s: "next_loop d = (Got (data_message k b), ?d3)" using nx True f by simp
      have "pending_bytes ?d3 = concat (map encode_wire ws)" using pending_finish [of d2] d2(5) by simp
      with Cons.IH [OF oks, of ?d3 None] f d2(3,4)
      have "fst (drain ?d3) = fst (assemble n None ws) \<and> failed (snd (snd (drain ?d3))) = (\<not> snd (assemble n None ws))"
        by simp
      with drain_got [OF nf s] data d2(1) True show ?thesis by (simp add: split_beta)
    next
      case False
      with nx have "drain d = drain d2" using drain_next_eq [OF nf d2(4)] by simp
      with Cons.IH [OF oks d2(5,2,3,4)] data d2(1) False show ?thesis by simp
    qed
  qed
qed

lemma receive_wire:
  assumes "\<forall>w\<in>set ws. wire_ok w" and "concat cs = concat (map encode_wire ws)"
  shows "fst (receive (new_decoder n) cs) = fst (assemble n None ws)
    \<and> failed (snd (receive (new_decoder n) cs)) = (\<not> snd (assemble n None ws))"
proof -
  let ?d = "new_decoder n" and ?q = "concat cs"
  have ok: "offset_ok ?d" "\<not> failed ?d" by (simp_all add: new_decoder_def offset_ok_def)
  have "pending_bytes (append_bytes ?d ?q) = concat (map encode_wire ws)"
    using pending_append [OF ok(1), of ?q] assms(2) by (simp add: new_decoder_def pending_bytes_def)
  moreover have "holds (append_bytes ?d ?q) None" "max_message (append_bytes ?d ?q) = n"
    by (simp_all add: holds_def) (simp_all add: new_decoder_def)
  ultimately show ?thesis
    using receive_concat [OF ok drain_new, of cs] drain_wire [OF assms(1), of "append_bytes ?d ?q" None n] ok
    by simp
qed

subsection \<open>The buffer stays bounded\<close>

text \<open>
  After the listener's loop, what is left is less than a header, a mask and one message; the open
  message is within the limit.
\<close>

lemma header_len_le: "read_header p = Header h \<Longrightarrow> header_len h \<le> 10"
  by (auto simp: read_header_def read_length_def Let_def split: if_splits option.splits)

lemma read_header_more: "read_header p = HeaderMore \<Longrightarrow> length p < 10"
  by (auto simp: read_header_def read_length_def Let_def split: if_splits option.splits)

lemma next_loop_bounded:
  "next_loop d = (s, d') \<Longrightarrow> length (fragment d) \<le> max_message d \<Longrightarrow>
     max_message d' = max_message d \<and> length (fragment d') \<le> max_message d
     \<and> (s = NeedMore \<longrightarrow> length (pending_bytes d') < 14 + max_message d)"
proof (induction d arbitrary: s d' rule: next_loop.induct)
  case (1 d)
  show ?case
  proof (cases "\<exists>h. read_header (pending_bytes d) = Header h \<and> \<not> too_big h d
      \<and> \<not> length (pending_bytes d) < frame_len h")
    case False
    with "1.prems" show ?thesis
      by (auto simp: next_loop.simps [of d] fail_with_def frame_len_def mask_bytes_def too_big_def
          split: header_read.splits if_splits dest: header_len_le read_header_more)
  next
    case True
    then obtain h where h: "read_header (pending_bytes d) = Header h" "\<not> too_big h d"
      "\<not> length (pending_bytes d) < frame_len h" by blast
    let ?data = "frame_data h (pending_bytes d)" and ?d1 = "consume h d"
    have d: "next_loop d = (if control (op h) then control_frame h ?data ?d1
        else case add_fragment h ?data ?d1 of None \<Rightarrow> fail_with ProtocolError ?d1
          | Some d2 \<Rightarrow> if fin h then finish_message d2 else next_loop d2)"
      using h by (simp add: next_loop.simps [of d] Let_def)
    have d1: "max_message ?d1 = max_message d" "fragment ?d1 = fragment d" by (simp_all add: consume_def)
    have len: "length ?data \<le> payload_len h" by (simp add: frame_data_def Let_def apply_mask_def)
    show ?thesis
    proof (cases "\<not> control (op h) \<and> (\<exists>d2. add_fragment h ?data ?d1 = Some d2)")
      case True
      then obtain d2 where d2: "\<not> control (op h)" "add_fragment h ?data ?d1 = Some d2" by blast
      have m2: "max_message d2 = max_message d" "length (fragment d2) \<le> max_message d"
        using d2 d1 len h(2) by (auto simp: add_fragment_def too_big_def split: if_splits)
      show ?thesis
      proof (cases "fin h")
        case True
        with d d2 "1.prems" m2 show ?thesis by (auto simp: finish_message_def)
      next
        case False
        with d d2 "1.prems" have "next_loop d2 = (s, d')" by simp
        from "1.IH" [OF h refl refl d2 False this] m2 show ?thesis by simp
      qed
    next
      case False
      with d "1.prems" d1 show ?thesis
        by (auto simp: control_frame_def fail_with_def split: if_splits option.splits)
    qed
  qed
qed

lemma drain_bounded:
  "drain d = (ms, s, d') \<Longrightarrow> length (fragment d) \<le> max_message d \<Longrightarrow>
     max_message d' = max_message d \<and> length (fragment d') \<le> max_message d
     \<and> (s = NeedMore \<longrightarrow> length (pending_bytes d') < 14 + max_message d)"
proof (induction d arbitrary: ms s d' rule: drain.induct)
  case (1 d)
  show ?case
  proof (cases "failed d")
    case True
    with "1.prems" show ?thesis by (simp add: drain_failed)
  next
    case nf: False
    obtain t d1 where t: "next_loop d = (t, d1)" by fastforce
    note b = next_loop_bounded [OF t "1.prems"(2)]
    show ?thesis
    proof (cases "\<exists>m. t = Got m")
      case True
      then obtain m where m: "t = Got m" by blast
      have dn: "decode_next d = (Got m, d1)" using nf t m by (simp add: decode_next_def)
      obtain ms1 where "drain d1 = (ms1, s, d')"
        using drain_got [OF nf t [unfolded m]] "1.prems"(1) by (cases "drain d1") auto
      from "1.IH" [OF dn [symmetric] refl this] b show ?thesis by simp
    next
      case False
      with drain_stop [OF nf t] "1.prems"(1) b show ?thesis by simp
    qed
  qed
qed


subsection \<open>Properties\<close>

text \<open>C9: the decoder implements message assembly. For any sequence of frames the builders produce,
  masked or not, fragmented, interleaved with control frames, in or out of order, within the limit or not, and
  for any way the reads cut their bytes, the listener receives exactly the messages of the specification on
  whole frames, and the connection has failed exactly when the specification refuses a frame.\<close>

theorem decoder_implements_assembly:
  assumes "\<forall>w\<in>set ws. wire_ok w" and "concat cs = concat (map encode_wire ws)"
  shows "fst (receive (new_decoder n) cs) = fst (assemble n None ws)
    \<and> failed (snd (receive (new_decoder n) cs)) = (\<not> snd (assemble n None ws))"
  by (rule receive_wire [OF assms])

text \<open>A text message in two fragments with a ping between them, cut in three reads.\<close>

definition ping_between :: "wire_frame list" where
  "ping_between =
    [\<lparr>wf_fin = False, wf_op = Text, wf_key = Some [1, 2, 3, 4], wf_payload = bytes_of ''he''\<rparr>,
     \<lparr>wf_fin = True, wf_op = Ping, wf_key = Some [5, 6, 7, 8], wf_payload = []\<rparr>,
     \<lparr>wf_fin = True, wf_op = Continuation, wf_key = Some [0, 0, 0, 0], wf_payload = bytes_of ''y''\<rparr>]"

lemma decoder_implements_assembly_witness:
  "fst (receive (new_decoder 100) [take 3 (concat (map encode_wire ping_between)), [],
      drop 3 (concat (map encode_wire ping_between))])
    = [control_message Ping [], data_message Text (bytes_of ''hey'')]"
proof -
  let ?bs = "concat (map encode_wire ping_between)"
  have ok: "\<forall>w\<in>set ping_between. wire_ok w" by (simp add: ping_between_def wire_ok_def)
  have cs: "concat [take 3 ?bs, [], drop 3 ?bs] = ?bs" by simp
  have "fst (assemble 100 None ping_between) = [control_message Ping [], data_message Text (bytes_of ''hey'')]"
    by (simp add: ping_between_def refused_frame_def join_open_def open_len_def control_def control_message_def
        data_message_def bytes_of_def)
  with decoder_implements_assembly [OF ok cs, of 100] show ?thesis by simp
qed

text \<open>How a stream is cut into reads does not show. For any bytes at all, well formed or not, feeding
  them in any pieces gives the messages and the failure of feeding them at once.\<close>

theorem chunking_does_not_show:
  assumes "concat cs = concat cs'"
  shows "fst (receive (new_decoder n) cs) = fst (receive (new_decoder n) cs')
    \<and> failed (snd (receive (new_decoder n) cs)) = failed (snd (receive (new_decoder n) cs'))"
proof -
  have ok: "offset_ok (new_decoder n)" "\<not> failed (new_decoder n)"
    by (simp_all add: new_decoder_def offset_ok_def)
  from receive_concat [OF ok drain_new, of cs] receive_concat [OF ok drain_new, of cs'] assms
  show ?thesis by simp
qed

lemma chunking_does_not_show_witness:
  "fst (receive (new_decoder 10) [[0x81], [0x01, 0x41]]) = fst (receive (new_decoder 10) [[0x81, 0x01, 0x41]])"
  using chunking_does_not_show [of "[[0x81], [0x01, 0x41]]" "[[0x81, 0x01, 0x41]]" 10] by simp

text \<open>A peer cannot make the decoder buffer without bound. After the listener's loop on any reads, a
  connection that has not failed holds fewer unconsumed bytes than one header, mask and message of the limit, and
  the open message is within the limit.\<close>

theorem decoder_buffer_bounded:
  assumes "\<not> failed (snd (receive (new_decoder n) cs))"
  shows "length (pending_bytes (snd (receive (new_decoder n) cs))) < 14 + n
    \<and> length (fragment (snd (receive (new_decoder n) cs))) \<le> n"
proof -
  let ?d = "new_decoder n" and ?q = "concat cs"
  have ok: "offset_ok ?d" "\<not> failed ?d" by (simp_all add: new_decoder_def offset_ok_def)
  obtain ms s d' where dr: "drain (append_bytes ?d ?q) = (ms, s, d')" by (metis prod_cases3)
  note all = receive_concat [OF ok drain_new, of cs, unfolded dr]
  from all assms have nf: "\<not> failed d'" and sim: "sim (snd (receive ?d cs)) d'" by simp_all
  have "offset_ok (append_bytes ?d ?q)" by (simp add: offset_ok_def append_bytes_def new_decoder_def)
  from drain_append [OF this dr, of "[]"] nf have "s = NeedMore" by blast
  with drain_bounded [OF dr] sim show ?thesis
    by (simp add: sim_iff) (simp add: new_decoder_def)
qed

lemma decoder_buffer_bounded_witness:
  "length (pending_bytes (snd (receive (new_decoder 10) [[0x81], [0x05, 0x41]]))) < 24"
proof -
  have "\<not> failed (snd (receive (new_decoder 10) [[0x81], [0x05, 0x41]]))"
    by (simp add: feed_def new_decoder_def drain.simps decode_next_def next_loop.simps pending_bytes_def read_header_def
        read_length_def opcode_of_def control_def too_big_def frame_len_def mask_bytes_def Let_def)
  from decoder_buffer_bounded [OF this] show ?thesis by simp
qed

end
