(* ===== verification/Reader_Gate.thy ===== *)
theory Reader_Gate
  imports Nevr_Prelude
begin

section \<open>The reader gate: a grace period over two counters\<close>

text \<open>
  \<^verbatim>\<open>src/core/reader_gate.h\<close>. Every atomic access of the class is sequentially consistent, so an
  execution is an interleaving of its accesses: one event per access, of any number of readers and
  writers (threads are natural numbers). A reader runs \<^verbatim>\<open>Enter\<close>, loads the pointer any number of
  times and leaves; a writer publishes a replacement and owns what it replaced, runs
  \<^verbatim>\<open>WaitIdle\<close>, which may time out at any wait, and frees what it owns after a call that returned
  true. The mutex is the field \<open>lock\<close>. Objects are natural numbers and never reused; \<open>freed\<close> is a
  ghost. A counter is an integer: fewer than \<open>2 ^ 31\<close> threads are inside. The epoch is the 64-bit
  word of the source, which may wrap.
\<close>

type_synonym tid = nat
type_synonym obj = nat

datatype reader_pc =
    RHead                       \<comment> \<open>outside, at the head of the loop of \<^verbatim>\<open>Enter\<close>\<close>
  | RLoaded u64                 \<comment> \<open>the epoch was read\<close>
  | RRaised u64                 \<comment> \<open>the counter was raised\<close>
  | RWithdraw bool              \<comment> \<open>the second read of the epoch differed\<close>
  | RInside bool "obj list"     \<comment> \<open>inside the scope, with the pointers loaded so far\<close>

datatype writer_pc =
    WOut
  | WOwns obj                   \<comment> \<open>the object was replaced and is not freed yet\<close>
  | WLocked obj                 \<comment> \<open>in \<^verbatim>\<open>WaitIdle\<close>, holding the mutex\<close>
  | WDrainOld obj bool          \<comment> \<open>waiting for the counter an earlier call left undrained\<close>
  | WAdvance obj                \<comment> \<open>about to advance the epoch\<close>
  | WDrain obj bool             \<comment> \<open>waiting for the counter of the epoch that ended\<close>
  | WIdle obj                   \<comment> \<open>\<^verbatim>\<open>WaitIdle\<close> returned true\<close>

record gate =
  epoch :: u64
  counts :: "bool \<Rightarrow> int"
  lock :: "tid option"
  undrained :: "bool option"
  pointer :: "obj option"
  fresh :: obj
  freed :: "obj list"
  rpc :: "tid \<Rightarrow> reader_pc"
  wpc :: "tid \<Rightarrow> writer_pc"

definition gate0 :: gate where
  "gate0 = \<lparr>epoch = 0, counts = (\<lambda>_. 0), lock = None, undrained = None, pointer = None, fresh = 0,
     freed = [], rpc = (\<lambda>_. RHead), wpc = (\<lambda>_. WOut)\<rparr>"

text \<open>\<^verbatim>\<open>epoch & 1u\<close>: which of the two counters.\<close>

definition slot_of :: "u64 \<Rightarrow> bool" where
  "slot_of e = odd e"

definition bump :: "bool \<Rightarrow> int \<Rightarrow> gate \<Rightarrow> gate" where
  "bump p k s = s\<lparr>counts := (counts s)(p := counts s p + k)\<rparr>"

definition reader_at :: "tid \<Rightarrow> reader_pc \<Rightarrow> gate \<Rightarrow> gate" where
  "reader_at r pc s = s\<lparr>rpc := (rpc s)(r := pc)\<rparr>"

definition writer_at :: "tid \<Rightarrow> writer_pc \<Rightarrow> gate \<Rightarrow> gate" where
  "writer_at w pc s = s\<lparr>wpc := (wpc s)(w := pc)\<rparr>"

subsection \<open>The accesses of a reader\<close>

text \<open>\<open>Step\<close> is the next access of \<^verbatim>\<open>Enter\<close>; \<open>Get\<close> is \<^verbatim>\<open>Load\<close> of the pointer; \<open>Leave\<close> is \<^verbatim>\<open>~Scope\<close>.\<close>

datatype reader_event = Step | Get | Leave

fun reader_step :: "tid \<Rightarrow> reader_event \<Rightarrow> gate \<Rightarrow> gate option" where
  "reader_step r Step s = (case rpc s r of
      RHead \<Rightarrow> Some (reader_at r (RLoaded (epoch s)) s)
    | RLoaded e \<Rightarrow> Some (reader_at r (RRaised e) (bump (slot_of e) 1 s))
    | RRaised e \<Rightarrow> Some (if epoch s = e then reader_at r (RInside (slot_of e) []) s
                         else reader_at r (RWithdraw (slot_of e)) s)
    | RWithdraw p \<Rightarrow> Some (reader_at r RHead (bump p (- 1) s))
    | RInside p os \<Rightarrow> None)"
| "reader_step r Get s = (case rpc s r of
      RInside p os \<Rightarrow> Some (reader_at r (RInside p (case pointer s of None \<Rightarrow> os | Some q \<Rightarrow> q # os)) s)
    | _ \<Rightarrow> None)"
| "reader_step r Leave s = (case rpc s r of
      RInside p os \<Rightarrow> Some (reader_at r RHead (bump p (- 1) s))
    | _ \<Rightarrow> None)"

subsection \<open>The accesses of a writer\<close>

text \<open>
  \<open>Publish replace\<close> stores a new object or null; \<open>Next\<close> is the next access of \<^verbatim>\<open>WaitIdle\<close> (a wait
  goes on only when its counter is zero); \<open>Timeout\<close> ends a wait at the deadline; \<open>Free\<close> is the
  caller's, after true.
\<close>

datatype writer_event = Publish bool | Next | Timeout | Free

fun writer_step :: "tid \<Rightarrow> writer_event \<Rightarrow> gate \<Rightarrow> gate option" where
  "writer_step w (Publish replace) s =
     (if wpc s w = WOut
      then Some (writer_at w (case pointer s of None \<Rightarrow> WOut | Some q \<Rightarrow> WOwns q)
             (s\<lparr>pointer := (if replace then Some (fresh s) else None), fresh := fresh s + 1\<rparr>))
      else None)"
| "writer_step w Next s = (case wpc s w of
      WOwns q \<Rightarrow> (if lock s = None then Some (writer_at w (WLocked q) (s\<lparr>lock := Some w\<rparr>)) else None)
    | WLocked q \<Rightarrow> Some (case undrained s of
          None \<Rightarrow> writer_at w (WAdvance q) s
        | Some p \<Rightarrow> writer_at w (WDrainOld q p) s)
    | WDrainOld q p \<Rightarrow>
        (if counts s p = 0 then Some (writer_at w (WAdvance q) (s\<lparr>undrained := None\<rparr>)) else None)
    | WAdvance q \<Rightarrow> Some (writer_at w (WDrain q (slot_of (epoch s))) (s\<lparr>epoch := epoch s + 1\<rparr>))
    | WDrain q p \<Rightarrow>
        (if counts s p = 0 then Some (writer_at w (WIdle q) (s\<lparr>lock := None\<rparr>)) else None)
    | _ \<Rightarrow> None)"
| "writer_step w Timeout s = (case wpc s w of
      WOwns q \<Rightarrow> Some s
    | WDrainOld q p \<Rightarrow>
        (if counts s p \<noteq> 0 then Some (writer_at w (WOwns q) (s\<lparr>lock := None\<rparr>)) else None)
    | WDrain q p \<Rightarrow>
        (if counts s p \<noteq> 0
         then Some (writer_at w (WOwns q) (s\<lparr>undrained := Some p, lock := None\<rparr>)) else None)
    | _ \<Rightarrow> None)"
| "writer_step w Free s = (case wpc s w of
      WIdle q \<Rightarrow> Some (writer_at w WOut (s\<lparr>freed := q # freed s\<rparr>))
    | _ \<Rightarrow> None)"

inductive gate_step :: "gate \<Rightarrow> gate \<Rightarrow> bool" where
  reads: "reader_step r e s = Some t \<Longrightarrow> gate_step s t"
| writes: "writer_step w e s = Some t \<Longrightarrow> gate_step s t"

inductive_cases gate_stepE: "gate_step s t"

subsection \<open>The invariant\<close>

text \<open>The counter a reader is registered in.\<close>

fun registered :: "reader_pc \<Rightarrow> bool option" where
  "registered (RRaised e) = Some (slot_of e)"
| "registered (RWithdraw p) = Some p"
| "registered (RInside p os) = Some p"
| "registered _ = None"

fun inside_slot :: "reader_pc \<Rightarrow> bool option" where
  "inside_slot (RInside p os) = Some p"
| "inside_slot _ = None"

fun held :: "reader_pc \<Rightarrow> obj set" where
  "held (RInside p os) = set os"
| "held _ = {}"

fun owned :: "writer_pc \<Rightarrow> obj option" where
  "owned WOut = None"
| "owned (WOwns q) = Some q"
| "owned (WLocked q) = Some q"
| "owned (WDrainOld q p) = Some q"
| "owned (WAdvance q) = Some q"
| "owned (WDrain q p) = Some q"
| "owned (WIdle q) = Some q"

text \<open>A counter is owed when a call is waiting for it or an earlier one left it undrained.\<close>

fun draining :: "writer_pc \<Rightarrow> bool option" where
  "draining (WDrain q p) = Some p"
| "draining _ = None"

definition counted :: "gate \<Rightarrow> bool" where
  "counted s \<longleftrightarrow> (\<forall>p. finite {r. registered (rpc s r) = Some p}
     \<and> counts s p = int (card {r. registered (rpc s r) = Some p}))"

text \<open>What the mutex, the undrained counter and the current slot are for a writer at each point.\<close>

fun writer_ok :: "tid \<Rightarrow> tid option \<Rightarrow> bool option \<Rightarrow> bool \<Rightarrow> writer_pc \<Rightarrow> bool" where
  "writer_ok w l u c (WLocked q) = (l = Some w)"
| "writer_ok w l u c (WDrainOld q p) = (l = Some w \<and> u = Some p)"
| "writer_ok w l u c (WAdvance q) = (l = Some w \<and> u = None)"
| "writer_ok w l u c (WDrain q p) = (l = Some w \<and> u = None \<and> p = (\<not> c))"
| "writer_ok w l u c _ = (l \<noteq> Some w)"

definition locks :: "gate \<Rightarrow> bool" where
  "locks s \<longleftrightarrow> (\<forall>w. writer_ok w (lock s) (undrained s) (slot_of (epoch s)) (wpc s w))
     \<and> (\<forall>p. undrained s = Some p \<longrightarrow> p = (\<not> slot_of (epoch s)))"

definition owed :: "gate \<Rightarrow> bool" where
  "owed s \<longleftrightarrow> (\<forall>r p. inside_slot (rpc s r) = Some p \<longrightarrow> p = slot_of (epoch s)
     \<or> undrained s = Some p \<or> (\<exists>w. draining (wpc s w) = Some p))"

definition objects :: "gate \<Rightarrow> bool" where
  "objects s \<longleftrightarrow> (\<forall>q. pointer s = Some q \<longrightarrow> q < fresh s \<and> q \<notin> set (freed s) \<and> (\<forall>w. owned (wpc s w) \<noteq> Some q))
     \<and> (\<forall>w q. owned (wpc s w) = Some q \<longrightarrow> q < fresh s \<and> q \<notin> set (freed s))
     \<and> (\<forall>w w' q. owned (wpc s w) = Some q \<longrightarrow> owned (wpc s w') = Some q \<longrightarrow> w = w')
     \<and> (\<forall>q\<in>set (freed s). q < fresh s)
     \<and> (\<forall>r. \<forall>q\<in>held (rpc s r). q < fresh s \<and> q \<notin> set (freed s))"

definition graced :: "gate \<Rightarrow> bool" where
  "graced s \<longleftrightarrow> (\<forall>w q p. wpc s w = WDrain q p \<longrightarrow> (\<forall>r. q \<in> held (rpc s r) \<longrightarrow> inside_slot (rpc s r) = Some p))
     \<and> (\<forall>w q. wpc s w = WIdle q \<longrightarrow> (\<forall>r. q \<notin> held (rpc s r)))"

definition gate_inv :: "gate \<Rightarrow> bool" where
  "gate_inv s \<longleftrightarrow> counted s \<and> locks s \<and> owed s \<and> objects s \<and> graced s"


subsection \<open>Every step keeps it\<close>

lemma card_upd:
  fixes f :: "tid \<Rightarrow> reader_pc"
  assumes "finite {r. P (f r)}"
  shows "finite {r. P ((f(x := v)) r)}"
    and "int (card {r. P ((f(x := v)) r)}) =
      int (card {r. P (f r)}) + (if P v then 1 else 0) - (if P (f x) then 1 else 0)"
proof -
  let ?A = "{r. P (f r)}"
  have up: "{r. P ((f(x := v)) r)} = (if P v then insert x ?A else ?A - {x})"
    by auto
  show "finite {r. P ((f(x := v)) r)}" using assms unfolding up by simp
  have x: "x \<in> ?A \<longleftrightarrow> P (f x)" by simp
  have "P (f x) \<Longrightarrow> card ?A > 0" using assms by (auto simp: card_gt_0_iff)
  then show "int (card {r. P ((f(x := v)) r)}) =
      int (card {r. P (f r)}) + (if P v then 1 else 0) - (if P (f x) then 1 else 0)"
    using assms unfolding up by (auto simp: card_insert_if card_Diff_singleton)
qed

lemma counted_reader_at:
  assumes "counted s"
    and "\<And>p. counts t p = counts s p + (if registered pc = Some p then 1 else 0)
      - (if registered (rpc s r) = Some p then 1 else 0)"
    and "rpc t = (rpc s)(r := pc)"
  shows "counted t"
  using assms card_upd [of "\<lambda>pc. registered pc = Some p" "rpc s" r pc for p]
  by (simp add: counted_def)

lemma reader_step_rpc: "reader_step r e s = Some t \<Longrightarrow> rpc t = (rpc s)(r := rpc t r)"
  by (cases e) (auto simp: reader_at_def bump_def split: reader_pc.splits if_splits)

lemma reader_step_frame:
  "reader_step r e s = Some t \<Longrightarrow> epoch t = epoch s \<and> lock t = lock s \<and> undrained t = undrained s
     \<and> pointer t = pointer s \<and> fresh t = fresh s \<and> freed t = freed s \<and> wpc t = wpc s"
  by (cases e) (auto simp: reader_at_def bump_def split: reader_pc.splits if_splits)

lemma reader_step_counts:
  "reader_step r e s = Some t \<Longrightarrow> counts t p = counts s p + (if registered (rpc t r) = Some p then 1 else 0)
      - (if registered (rpc s r) = Some p then 1 else 0)"
  by (cases e) (auto simp: reader_at_def bump_def split: reader_pc.splits if_splits)

lemma reader_step_inside:
  "reader_step r e s = Some t \<Longrightarrow> inside_slot (rpc t r) = Some p \<Longrightarrow>
     inside_slot (rpc s r) = Some p \<or> p = slot_of (epoch s) \<and> held (rpc t r) = {}"
  by (cases e) (auto simp: reader_at_def bump_def split: reader_pc.splits if_splits)

lemma reader_step_held:
  "reader_step r e s = Some t \<Longrightarrow> q \<in> held (rpc t r) \<Longrightarrow>
     (q \<in> held (rpc s r) \<or> pointer s = Some q) \<and> inside_slot (rpc t r) = inside_slot (rpc s r)"
  by (cases e) (auto simp: reader_at_def bump_def split: reader_pc.splits if_splits option.splits)

lemma held_inside: "q \<in> held pc \<Longrightarrow> \<exists>p. inside_slot pc = Some p"
  by (cases pc) auto

lemma reader_step_inv:
  assumes inv: "gate_inv s" and step: "reader_step r e s = Some t"
  shows "gate_inv t"
proof -
  note rpc = reader_step_rpc [OF step] and frame = reader_step_frame [OF step]
  have r': "rpc t r' = rpc s r'" if "r' \<noteq> r" for r' using that by (subst rpc) simp
  have counted: "counted t"
    using inv reader_step_counts [OF step] rpc counted_reader_at by (metis gate_inv_def)
  have locks: "locks t" using inv frame by (simp add: gate_inv_def locks_def)
  have owed: "owed t"
    unfolding owed_def
  proof (intro allI impI)
    fix r' p assume p: "inside_slot (rpc t r') = Some p"
    then have "inside_slot (rpc s r') = Some p \<or> p = slot_of (epoch s)"
      using r' [of r'] reader_step_inside [OF step, of p] by (cases "r' = r") auto
    with inv show "p = slot_of (epoch t) \<or> undrained t = Some p \<or> (\<exists>w. draining (wpc t w) = Some p)"
      by (auto simp: gate_inv_def owed_def frame)
  qed
  have held: "q \<in> held (rpc s r') \<or> pointer s = Some q" "inside_slot (rpc t r') = inside_slot (rpc s r')"
    if "q \<in> held (rpc t r')" for q r'
    using that r' [of r'] reader_step_held [OF step, of q] by (cases "r' = r"; simp)+
  have obj: "objects s" using inv by (simp add: gate_inv_def)
  have "q < fresh s \<and> q \<notin> set (freed s)" if "q \<in> held (rpc t r')" for q r'
    using held(1) [OF that] obj by (auto simp: objects_def)
  then have objects: "objects t" using obj frame by (simp add: objects_def)
  have "q \<in> held (rpc s r')" if "q \<in> held (rpc t r')" "owned (wpc s w) = Some q" for q r' w
    using held(1) [OF that(1)] obj that(2) by (auto simp: objects_def)
  then have graced: "graced t"
    using inv held(2) frame unfolding gate_inv_def graced_def by (metis owned.simps(6,7))
  from counted locks owed objects graced show ?thesis by (simp add: gate_inv_def)
qed

lemma slot_of_next: "slot_of (e + 1) = (\<not> slot_of e)"
  by (simp add: slot_of_def even_word_iff) 


lemma not_registered:
  assumes "counted s" "counts s p = 0"
  shows "registered (rpc s r) \<noteq> Some p" "inside_slot (rpc s r) \<noteq> Some p"
proof -
  have "{r. registered (rpc s r) = Some p} = {}" using assms by (auto simp: counted_def)
  then show "registered (rpc s r) \<noteq> Some p" by blast
  then show "inside_slot (rpc s r) \<noteq> Some p" by (cases "rpc s r") auto
qed

text \<open>The steps of a writer, one by one.\<close>

lemma writer_step_cases:
  assumes "writer_step w e s = Some t"
  obtains
    (first) b where "wpc s w = WOut" "pointer s = None"
      "t = writer_at w WOut (s\<lparr>pointer := b, fresh := fresh s + 1\<rparr>)" "b = None \<or> b = Some (fresh s)"
  | (replace) b q where "wpc s w = WOut" "pointer s = Some q"
      "t = writer_at w (WOwns q) (s\<lparr>pointer := b, fresh := fresh s + 1\<rparr>)" "b = None \<or> b = Some (fresh s)"
  | (lock) q where "wpc s w = WOwns q" "lock s = None" "t = writer_at w (WLocked q) (s\<lparr>lock := Some w\<rparr>)"
  | (clean) q where "wpc s w = WLocked q" "undrained s = None" "t = writer_at w (WAdvance q) s"
  | (old) q p where "wpc s w = WLocked q" "undrained s = Some p" "t = writer_at w (WDrainOld q p) s"
  | (drained) q p where "wpc s w = WDrainOld q p" "counts s p = 0"
      "t = writer_at w (WAdvance q) (s\<lparr>undrained := None\<rparr>)"
  | (advance) q where "wpc s w = WAdvance q"
      "t = writer_at w (WDrain q (slot_of (epoch s))) (s\<lparr>epoch := epoch s + 1\<rparr>)"
  | (idle) q p where "wpc s w = WDrain q p" "counts s p = 0" "t = writer_at w (WIdle q) (s\<lparr>lock := None\<rparr>)"
  | (stay) "t = s"
  | (give_up_old) q p where "wpc s w = WDrainOld q p" "t = writer_at w (WOwns q) (s\<lparr>lock := None\<rparr>)"
  | (give_up) q p where "wpc s w = WDrain q p"
      "t = writer_at w (WOwns q) (s\<lparr>undrained := Some p, lock := None\<rparr>)"
  | (free) q where "wpc s w = WIdle q" "t = writer_at w WOut (s\<lparr>freed := q # freed s\<rparr>)"
proof (cases e)
  case (Publish b)
  with assms show ?thesis
    by (auto split: if_splits option.splits intro: first replace)
next
  case Next
  with assms show ?thesis
    by (auto split: writer_pc.splits if_splits option.splits intro: lock clean old drained advance idle)
next
  case Timeout
  with assms show ?thesis
    by (auto split: writer_pc.splits if_splits intro: stay give_up_old give_up)
next
  case Free
  with assms show ?thesis
    by (auto split: writer_pc.splits intro: free)
qed


lemma writer_at_sel [simp]:
  "epoch (writer_at w pc s) = epoch s" "counts (writer_at w pc s) = counts s" "lock (writer_at w pc s) = lock s"
  "undrained (writer_at w pc s) = undrained s" "pointer (writer_at w pc s) = pointer s"
  "fresh (writer_at w pc s) = fresh s" "freed (writer_at w pc s) = freed s" "rpc (writer_at w pc s) = rpc s"
  "wpc (writer_at w pc s) = (wpc s)(w := pc)"
  by (simp_all add: writer_at_def)

lemma writer_step_reader: "writer_step w e s = Some t \<Longrightarrow> rpc t = rpc s \<and> counts t = counts s"
  by (erule writer_step_cases) auto

lemma writer_ok_other:
  "writer_ok v l u c pc \<Longrightarrow> l \<noteq> Some v \<Longrightarrow> l' \<noteq> Some v \<Longrightarrow> writer_ok v l' u' c' pc"
  by (cases pc) auto

lemma locks_update:
  assumes "locks s" "wpc t = (wpc s)(w := pc)"
    and "lock s = None \<or> lock s = Some w" "lock t = None \<or> lock t = Some w"
    and "writer_ok w (lock t) (undrained t) (slot_of (epoch t)) pc"
    and "\<And>p. undrained t = Some p \<Longrightarrow> p = (\<not> slot_of (epoch t))"
  shows "locks t"
  unfolding locks_def
proof (intro conjI allI impI)
  fix v
  show "writer_ok v (lock t) (undrained t) (slot_of (epoch t)) (wpc t v)"
  proof (cases "v = w")
    case True
    with assms show ?thesis by simp
  next
    case False
    with assms(3,4) have "lock s \<noteq> Some v" "lock t \<noteq> Some v" by auto
    moreover have "writer_ok v (lock s) (undrained s) (slot_of (epoch s)) (wpc s v)"
      using assms(1) by (simp add: locks_def)
    ultimately show ?thesis using assms(2) False by (simp add: writer_ok_other)
  qed
qed (use assms in auto)

lemma locks_keep:
  assumes "locks s" "wpc t = (wpc s)(w := pc)"
    and "lock t = lock s" "undrained t = undrained s" "epoch t = epoch s"
    and "writer_ok w (lock s) (undrained s) (slot_of (epoch s)) pc"
  shows "locks t"
  using assms by (simp add: locks_def)

lemma writer_ok_at: "locks s \<Longrightarrow> wpc s w = pc \<Longrightarrow> writer_ok w (lock s) (undrained s) (slot_of (epoch s)) pc"
  by (auto simp: locks_def)

lemma writer_step_locks:
  assumes l: "locks s" and step: "writer_step w e s = Some t"
  shows "locks t"
  using step
proof (cases rule: writer_step_cases)
  case (first b)
  with writer_ok_at [OF l first(1)] show ?thesis by (intro locks_keep [OF l]) auto
next
  case (replace b q)
  with writer_ok_at [OF l replace(1)] show ?thesis by (intro locks_keep [OF l]) auto
next
  case (lock q)
  with writer_ok_at [OF l lock(1)] l show ?thesis by (intro locks_update [OF l]) (auto simp: locks_def)
next
  case (clean q)
  with writer_ok_at [OF l clean(1)] show ?thesis by (intro locks_keep [OF l]) auto
next
  case (old q p)
  with writer_ok_at [OF l old(1)] show ?thesis by (intro locks_keep [OF l]) auto
next
  case (drained q p)
  with writer_ok_at [OF l drained(1)] show ?thesis by (intro locks_update [OF l]) auto
next
  case (advance q)
  with writer_ok_at [OF l advance(1)] show ?thesis by (intro locks_update [OF l]) (auto simp: slot_of_next)
next
  case (idle q p)
  with writer_ok_at [OF l idle(1)] show ?thesis by (intro locks_update [OF l]) auto
next
  case stay
  with l show ?thesis by simp
next
  case (give_up_old q p)
  with writer_ok_at [OF l give_up_old(1)] l show ?thesis by (intro locks_update [OF l]) (auto simp: locks_def)
next
  case (give_up q p)
  with writer_ok_at [OF l give_up(1)] show ?thesis by (intro locks_update [OF l]) auto
next
  case (free q)
  with writer_ok_at [OF l free(1)] show ?thesis by (intro locks_keep [OF l]) auto
qed

lemma owed_keep:
  assumes "owed s" "wpc t = (wpc s)(w := pc)" "draining (wpc s w) = None"
    and "undrained t = undrained s" "epoch t = epoch s" "rpc t = rpc s"
  shows "owed t"
  unfolding owed_def
proof (intro allI impI)
  fix r p assume "inside_slot (rpc t r) = Some p"
  with assms(1,6) have "p = slot_of (epoch s) \<or> undrained s = Some p \<or> (\<exists>v. draining (wpc s v) = Some p)"
    by (simp add: owed_def)
  then show "p = slot_of (epoch t) \<or> undrained t = Some p \<or> (\<exists>v. draining (wpc t v) = Some p)"
  proof (elim disjE)
    assume "\<exists>v. draining (wpc s v) = Some p"
    then obtain v where v: "draining (wpc s v) = Some p" ..
    with assms(3) have "v \<noteq> w" by auto
    with v assms(2) have "draining (wpc t v) = Some p" by simp
    then show ?thesis by blast
  qed (use assms in simp_all)
qed

text \<open>Only the writer that holds the mutex waits for a counter.\<close>

lemma draining_lock: "locks s \<Longrightarrow> draining (wpc s v) = Some p \<Longrightarrow> lock s = Some v \<and> undrained s = None"
  by (drule writer_ok_at [OF _ refl, of _ v]) (cases "wpc s v"; simp)

lemma owed_inside:
  assumes "owed s" "inside_slot (rpc s r) = Some p" "undrained s \<noteq> Some p" "\<And>v. draining (wpc s v) \<noteq> Some p"
  shows "p = slot_of (epoch s)"
  using assms unfolding owed_def by blast

lemma owed_current:
  assumes "\<And>r p. inside_slot (rpc t r) = Some p \<Longrightarrow> p = slot_of (epoch t)"
  shows "owed t"
  using assms by (auto simp: owed_def)

lemma writer_step_owed:
  assumes inv: "gate_inv s" and step: "writer_step w e s = Some t"
  shows "owed t"
proof -
  have locks: "locks s" and owed: "owed s" and cnt: "counted s"
    using inv by (simp_all add: gate_inv_def)
  show ?thesis
    using step
  proof (cases rule: writer_step_cases)
    case (drained q p)
    have "undrained s = Some p" using writer_ok_at [OF locks drained(1)] by simp
    then have "p' = slot_of (epoch s)" if "inside_slot (rpc s r) = Some p'" for r p'
      using owed_inside [OF owed that] draining_lock [OF locks] not_registered(2) [OF cnt drained(2), of r] that
      by (metis option.inject option.distinct(1))
    then show ?thesis using drained by (intro owed_current) simp
  next
    case (advance q)
    have un: "undrained s = None" and lk: "lock s = Some w" using writer_ok_at [OF locks advance(1)] by simp_all
    have nd: "draining (wpc s v) \<noteq> Some p" for v p
      using draining_lock [OF locks, of v p] lk advance(1) by auto
    have cur: "p = slot_of (epoch s)" if "inside_slot (rpc s r) = Some p" for r p
      using owed_inside [OF owed that] un nd by simp
    have "draining (wpc t w) = Some (slot_of (epoch s))" using advance by simp
    moreover have "rpc t = rpc s" using advance by simp
    ultimately show ?thesis using cur by (auto simp: owed_def)
  next
    case (idle q p)
    have "lock s = Some w" "undrained s = None" "p = (\<not> slot_of (epoch s))"
      using writer_ok_at [OF locks idle(1)] by simp_all
    then have "p' = slot_of (epoch s)" if "inside_slot (rpc s r) = Some p'" for r p'
      using not_registered(2) [OF cnt idle(2), of r] that by (cases "p' = p") auto
    then show ?thesis using idle by (intro owed_current) simp
  next
    case (give_up q p)
    then have "undrained t = Some (\<not> slot_of (epoch t))" using writer_ok_at [OF locks give_up(1)] by simp
    then show ?thesis by (auto simp: owed_def)
  next
    case stay
    with owed show ?thesis by simp
  qed (use owed_keep [OF owed, of t w] in auto)
qed


lemma objects_keep:
  assumes "objects s" "wpc t = (wpc s)(w := pc)" "owned pc = owned (wpc s w)"
    and "pointer t = pointer s" "fresh t = fresh s" "freed t = freed s" "rpc t = rpc s"
  shows "objects t"
proof -
  have "owned (wpc t v) = owned (wpc s v)" for v using assms(2,3) by simp
  with assms show ?thesis by (simp add: objects_def)
qed

lemma objectsD:
  assumes "objects s"
  shows "pointer s = Some q \<Longrightarrow> q < fresh s \<and> q \<notin> set (freed s) \<and> owned (wpc s v) \<noteq> Some q"
    and "owned (wpc s v) = Some q \<Longrightarrow> q < fresh s \<and> q \<notin> set (freed s)"
    and "owned (wpc s v) = Some q \<Longrightarrow> owned (wpc s u) = Some q \<Longrightarrow> v = u"
    and "q \<in> set (freed s) \<Longrightarrow> q < fresh s"
    and "q \<in> held (rpc s r) \<Longrightarrow> q < fresh s \<and> q \<notin> set (freed s)"
  using assms unfolding objects_def by blast+

lemma objectsI:
  assumes "\<And>q v. pointer s = Some q \<Longrightarrow> q < fresh s \<and> q \<notin> set (freed s) \<and> owned (wpc s v) \<noteq> Some q"
    and "\<And>q v. owned (wpc s v) = Some q \<Longrightarrow> q < fresh s \<and> q \<notin> set (freed s)"
    and "\<And>q v u. owned (wpc s v) = Some q \<Longrightarrow> owned (wpc s u) = Some q \<Longrightarrow> v = u"
    and "\<And>q. q \<in> set (freed s) \<Longrightarrow> q < fresh s"
    and "\<And>q r. q \<in> held (rpc s r) \<Longrightarrow> q < fresh s \<and> q \<notin> set (freed s)"
  shows "objects s"
  unfolding objects_def using assms by blast

lemma objects_publish:
  assumes o: "objects s" and w: "wpc s w = WOut" and b: "b = None \<or> b = Some (fresh s)"
    and pc: "owned pc = pointer s"
  shows "objects (writer_at w pc (s\<lparr>pointer := b, fresh := fresh s + 1\<rparr>))" (is "objects ?t")
proof -
  note d = objectsD [OF o]
  have own: "owned (wpc ?t v) = (if v = w then pointer s else owned (wpc s v))" for v
    using pc by simp
  have fresh_free: "fresh s \<notin> set (freed s)" using d(4) [of "fresh s"] by blast
  show ?thesis
  proof (rule objectsI, unfold own)
    fix q v
    show "pointer ?t = Some q \<Longrightarrow>
        q < fresh ?t \<and> q \<notin> set (freed ?t) \<and> (if v = w then pointer s else owned (wpc s v)) \<noteq> Some q"
      using b fresh_free d(1) [of "fresh s"] d(2) [of v "fresh s"] by auto
    show "(if v = w then pointer s else owned (wpc s v)) = Some q \<Longrightarrow> q < fresh ?t \<and> q \<notin> set (freed ?t)"
      using d(1) [of q w] d(2) [of v q] by (auto split: if_splits)
    fix u
    show "(if v = w then pointer s else owned (wpc s v)) = Some q \<Longrightarrow>
        (if u = w then pointer s else owned (wpc s u)) = Some q \<Longrightarrow> v = u"
      using d(1) [of q v] d(1) [of q u] d(3) [of v q u] by (auto split: if_splits)
  next
    fix q show "q \<in> set (freed ?t) \<Longrightarrow> q < fresh ?t" using d(4) [of q] by simp
  next
    fix q r show "q \<in> held (rpc ?t r) \<Longrightarrow> q < fresh ?t \<and> q \<notin> set (freed ?t)" using d(5) [of q r] by auto
  qed
qed

lemma writer_step_objects:
  assumes o: "objects s" and g: "graced s" and step: "writer_step w e s = Some t"
  shows "objects t"
  using step
proof (cases rule: writer_step_cases)
  case (first b)
  with objects_publish [OF o] show ?thesis by simp
next
  case (replace b q)
  with objects_publish [OF o] show ?thesis by simp
next
  case stay
  with o show ?thesis by simp
next
  case (free q)
  note d = objectsD [OF o]
  have own: "owned (wpc s w) = Some q" and nh: "q \<notin> held (rpc s r)" for r
    using free g by (auto simp: graced_def)
  have ownt: "owned (wpc t v) = Some q' \<Longrightarrow> owned (wpc s v) = Some q' \<and> v \<noteq> w" for v q'
    using free by (auto split: if_splits)
  show ?thesis
  proof (rule objectsI)
    fix q' v
    show "pointer t = Some q' \<Longrightarrow> q' < fresh t \<and> q' \<notin> set (freed t) \<and> owned (wpc t v) \<noteq> Some q'"
      using free d(1) [of q' v] d(1) [of q' w] own by auto
    show "q' < fresh t \<and> q' \<notin> set (freed t)" if a: "owned (wpc t v) = Some q'"
    proof -
      have v: "owned (wpc s v) = Some q'" "v \<noteq> w" using ownt [OF a] by simp_all
      with d(3) [OF v(1), of w] own have "q' \<noteq> q" by auto
      with d(2) [OF v(1)] free(2) show ?thesis by simp
    qed
    fix u
    show "owned (wpc t v) = Some q' \<Longrightarrow> owned (wpc t u) = Some q' \<Longrightarrow> v = u"
      using ownt [of v q'] ownt [of u q'] d(3) [of v q' u] by simp
  next
    fix q' show "q' \<in> set (freed t) \<Longrightarrow> q' < fresh t" using free d(4) [of q'] d(2) [OF own] by auto
  next
    fix q' r show "q' \<in> held (rpc t r) \<Longrightarrow> q' < fresh t \<and> q' \<notin> set (freed t)"
      using free d(5) [of q' r] nh by auto
  qed
qed (use objects_keep [OF o, of t w] in auto)

lemma graced_keep:
  assumes "graced s" "wpc t = (wpc s)(w := pc)" "rpc t = rpc s"
    and "\<And>q p r. pc = WDrain q p \<Longrightarrow> q \<in> held (rpc s r) \<Longrightarrow> inside_slot (rpc s r) = Some p"
    and "\<And>q r. pc = WIdle q \<Longrightarrow> q \<notin> held (rpc s r)"
  shows "graced t"
  using assms by (simp add: graced_def)

lemma writer_step_graced:
  assumes inv: "gate_inv s" and step: "writer_step w e s = Some t"
  shows "graced t"
proof -
  have locks: "locks s" and owed: "owed s" and cnt: "counted s" and g: "graced s"
    using inv by (simp_all add: gate_inv_def)
  show ?thesis
    using step
  proof (cases rule: writer_step_cases)
    case (advance q)
    have un: "undrained s = None" and lk: "lock s = Some w" using writer_ok_at [OF locks advance(1)] by simp_all
    have nd: "draining (wpc s v) \<noteq> Some p" for v p
      using draining_lock [OF locks, of v p] lk advance(1) by auto
    have "inside_slot (rpc s r) = Some (slot_of (epoch s))" if "q' \<in> held (rpc s r)" for r q'
      using held_inside [OF that] owed_inside [OF owed] un nd by force
    with advance show ?thesis by (intro graced_keep [OF g, of t w]) auto
  next
    case (idle q p)
    have "q \<notin> held (rpc s r)" for r
      using g idle(1) not_registered(2) [OF cnt idle(2), of r] by (auto simp: graced_def)
    with idle show ?thesis by (intro graced_keep [OF g, of t w]) auto
  next
    case stay
    with g show ?thesis by simp
  qed (use graced_keep [OF g, of t w] in auto)
qed

lemma gate0_inv: "gate_inv gate0"
  by (simp add: gate_inv_def gate0_def counted_def locks_def owed_def objects_def graced_def)

lemma gate_step_inv: "gate_inv s \<Longrightarrow> gate_step s t \<Longrightarrow> gate_inv t"
proof (erule gate_stepE)
  fix w e assume inv: "gate_inv s" and step: "writer_step w e s = Some t"
  have "counted t" using inv writer_step_reader [OF step] by (simp add: gate_inv_def counted_def)
  with writer_step_locks [OF _ step] writer_step_owed [OF inv step] writer_step_objects [OF _ _ step]
    writer_step_graced [OF inv step] inv
  show "gate_inv t" by (simp add: gate_inv_def)
qed (rule reader_step_inv)

interpretation gate: step_system "\<lambda>s. s = gate0" gate_step gate_inv
  by unfold_locales (auto simp: gate0_inv intro: gate_step_inv)

abbreviation reachable :: "gate \<Rightarrow> bool" where
  "reachable \<equiv> reach (\<lambda>s. s = gate0) gate_step"

subsection \<open>What it promises\<close>

lemma reachable_held:
  "reachable s \<Longrightarrow> q \<in> held (rpc s r) \<Longrightarrow> q \<notin> set (freed s) \<and> (\<forall>w. wpc s w \<noteq> WIdle q)"
  by (drule gate.reach_inv) (auto simp: gate_inv_def objects_def graced_def)

lemma reachable_counts:
  "reachable s \<Longrightarrow> (\<forall>r. rpc s r = RHead) \<Longrightarrow> counts s p = 0"
  by (drule gate.reach_inv) (simp add: gate_inv_def counted_def)

text \<open>A run of given events, for concrete executions.\<close>

fun gate_run :: "((tid \<times> reader_event) + (tid \<times> writer_event)) list \<Rightarrow> gate \<Rightarrow> gate option" where
  "gate_run [] s = Some s"
| "gate_run (Inl (r, e) # es) s = (case reader_step r e s of None \<Rightarrow> None | Some t \<Rightarrow> gate_run es t)"
| "gate_run (Inr (w, e) # es) s = (case writer_step w e s of None \<Rightarrow> None | Some t \<Rightarrow> gate_run es t)"

lemma gate_run_reach: "gate_run es s = Some t \<Longrightarrow> reachable s \<Longrightarrow> reachable t"
  by (induction es s rule: gate_run.induct)
    (auto split: option.splits intro: reach_step gate_step.intros)

text \<open>
  While a writer waits for a counter, no reader newly enters a scope in it, so a stream of readers
  does not keep the writer waiting.
\<close>

lemma draining_closed:
  assumes "gate_inv s" "draining (wpc s w) = Some p" "gate_step s t" "inside_slot (rpc t r) = Some p"
  shows "inside_slot (rpc s r) = Some p"
proof -
  have p: "p \<noteq> slot_of (epoch s)"
    using assms(1,2) writer_ok_at [of s w] by (cases "wpc s w") (auto simp: gate_inv_def)
  from assms(3) show ?thesis
  proof (cases rule: gate_step.cases)
    case (reads r' e)
    have "r \<noteq> r' \<Longrightarrow> rpc t r = rpc s r" by (subst reader_step_rpc [OF reads]) simp
    with reader_step_inside [OF reads, of p] p assms(4) show ?thesis
      by (cases "r = r'") auto
  next
    case (writes v e)
    with writer_step_reader [OF writes] assms(4) show ?thesis by simp
  qed
qed


subsection \<open>Properties\<close>

text \<open>C6: no use after free. In every reachable state, a pointer some reader loaded inside its scope
  has not been freed, and it is not the object of a writer whose \<^verbatim>\<open>WaitIdle\<close> just returned true: when
  the writer frees what it replaced, no reader holds it, whatever the interleaving, the number of
  writers and the timed-out calls before.\<close>

theorem reader_gate_no_use_after_free:
  assumes "reachable s" and "q \<in> held (rpc s r)"
  shows "q \<notin> set (freed s) \<and> (\<forall>w. wpc s w \<noteq> WIdle q) \<and> (\<forall>w t. writer_step w Free s = Some t \<longrightarrow> q \<notin> set (freed t))"
proof -
  have no: "q \<notin> set (freed s)" "wpc s w \<noteq> WIdle q" for w using reachable_held [OF assms] by blast+
  have "q \<notin> set (freed t)" if "writer_step w Free s = Some t" for w t
    using that no(1) no(2) [of w] by (auto split: writer_pc.splits)
  with no show ?thesis by blast
qed

text \<open>A reader inside while a writer replaces its object and waits.\<close>

definition overtaken :: "((tid \<times> reader_event) + (tid \<times> writer_event)) list" where
  "overtaken = [Inr (9, Publish True), Inl (1, Step), Inl (1, Step), Inl (1, Step), Inl (1, Get),
     Inr (9, Publish False), Inr (9, Next), Inr (9, Next), Inr (9, Next)]"

lemma overtaken_run: "\<exists>s. gate_run overtaken gate0 = Some s \<and> rpc s 1 = RInside False [0] \<and> wpc s 9 = WDrain 0 False
    \<and> epoch s = 1 \<and> counts s False = 1"
  by (simp add: overtaken_def gate0_def reader_at_def writer_at_def bump_def slot_of_def)

lemma reader_gate_no_use_after_free_witness:
  "\<exists>s. reachable s \<and> 0 \<in> held (rpc s 1) \<and> wpc s 9 = WDrain 0 False \<and> 0 \<notin> set (freed s)"
proof -
  obtain s where s: "gate_run overtaken gate0 = Some s" "rpc s 1 = RInside False [0]" "wpc s 9 = WDrain 0 False"
    using overtaken_run by blast
  have r: "reachable s" using gate_run_reach [OF s(1)] reach_init [of "\<lambda>s. s = gate0" gate0] by simp
  have h: "0 \<in> held (rpc s 1)" using s(2) by simp
  from reader_gate_no_use_after_free [OF r h] r h s(3) show ?thesis by blast
qed



end
