(* ===== verification/Call_Ring.thy ===== *)
theory Call_Ring
  imports Nevr_Prelude
begin

section \<open>The ring of call records: many producers, one consumer\<close>

text \<open>
  \<^verbatim>\<open>src/core/call_ring.h\<close>, one event per access of a shared variable, any number of producers and
  the one consumer. \<open>n\<close> is the template parameter \<^verbatim>\<open>N\<close>. The counters are natural numbers: the
  signed differences of the source are those of numbers below \<open>2 ^ 63\<close>, far above what a process
  pushes. The interleaving is sequentially consistent; the release store of a slot's sequence number
  and its acquire load order the record's bytes before and after it as the model does.
  \<open>claims\<close> and \<open>popped\<close> are ghosts: the records in the order their positions were claimed, and
  what the consumer returned.
\<close>

type_synonym tid = nat

record call_record =
  enter_ticks :: u64
  exit_ticks :: u64
  call_args :: "u64 list"
  ret :: u64
  ret_xmm0 :: u64
  export_id :: u32
  thread_id :: u32

datatype producer =
    PIdle
  | PLook call_record nat     \<comment> \<open>\<open>pos\<close> loaded, about to load the slot's sequence number\<close>
  | PClaim call_record nat    \<comment> \<open>\<open>diff == 0\<close>, about to compare and exchange\<close>
  | PReload call_record       \<comment> \<open>\<open>diff > 0\<close>\<close>
  | PWrite call_record nat    \<comment> \<open>the position is claimed\<close>
  | PStore call_record nat    \<comment> \<open>the record is in the slot\<close>
  | PCount                    \<comment> \<open>published, about to count and return true\<close>
  | PDrop                     \<comment> \<open>\<open>diff < 0\<close>, about to count and return false\<close>

datatype consumer =
    CIdle
  | CTake nat                 \<comment> \<open>the slot is ready\<close>
  | CFree nat                 \<comment> \<open>the record was copied out\<close>
  | CDone nat                 \<comment> \<open>the slot was handed back\<close>

record ring =
  seqs :: "nat \<Rightarrow> nat"
  recs :: "nat \<Rightarrow> call_record option"
  enq :: nat
  deq :: nat
  pushed :: nat
  dropped :: nat
  prods :: "tid \<Rightarrow> producer"
  consumer :: consumer
  claims :: "call_record list"
  popped :: "call_record list"

definition seeded :: ring where
  "seeded = \<lparr>seqs = (\<lambda>i. i), recs = (\<lambda>_. None), enq = 0, deq = 0, pushed = 0, dropped = 0,
     prods = (\<lambda>_. PIdle), consumer = CIdle, claims = [], popped = []\<rparr>"

definition prod_at :: "tid \<Rightarrow> producer \<Rightarrow> ring \<Rightarrow> ring" where
  "prod_at t pc s = s\<lparr>prods := (prods s)(t := pc)\<rparr>"

text \<open>\<open>Push r\<close> enters the function; \<open>Go spurious\<close> is its next access, the flag for a weak exchange that fails for no reason.\<close>

datatype push_event = Push call_record | Go bool

fun push_step :: "nat \<Rightarrow> tid \<Rightarrow> push_event \<Rightarrow> ring \<Rightarrow> ring option" where
  "push_step n t (Push r) s = (if prods s t = PIdle then Some (prod_at t (PLook r (enq s)) s) else None)"
| "push_step n t (Go spurious) s = (case prods s t of
      PIdle \<Rightarrow> None
    | PLook r pos \<Rightarrow> Some (prod_at t
        (if seqs s (pos mod n) = pos then PClaim r pos
         else if seqs s (pos mod n) < pos then PDrop else PReload r) s)
    | PClaim r pos \<Rightarrow> Some (
        if enq s = pos \<and> \<not> spurious then prod_at t (PWrite r pos) (s\<lparr>enq := pos + 1, claims := claims s @ [r]\<rparr>)
        else prod_at t (PLook r (enq s)) s)
    | PReload r \<Rightarrow> Some (prod_at t (PLook r (enq s)) s)
    | PWrite r pos \<Rightarrow> Some (prod_at t (PStore r pos) (s\<lparr>recs := (recs s)(pos mod n := Some r)\<rparr>))
    | PStore r pos \<Rightarrow> Some (prod_at t PCount (s\<lparr>seqs := (seqs s)(pos mod n := pos + 1)\<rparr>))
    | PCount \<Rightarrow> Some (prod_at t PIdle (s\<lparr>pushed := pushed s + 1\<rparr>))
    | PDrop \<Rightarrow> Some (prod_at t PIdle (s\<lparr>dropped := dropped s + 1\<rparr>)))"

text \<open>\<open>Pop\<close>, one access at a time; \<open>None\<close> is the call that returns false.\<close>

fun pop_step :: "nat \<Rightarrow> ring \<Rightarrow> ring option" where
  "pop_step n s = (case consumer s of
      CIdle \<Rightarrow> (if seqs s (deq s mod n) < deq s + 1 then None else Some (s\<lparr>consumer := CTake (deq s)\<rparr>))
    | CTake pos \<Rightarrow> (case recs s (pos mod n) of
          None \<Rightarrow> None
        | Some r \<Rightarrow> Some (s\<lparr>consumer := CFree pos, popped := popped s @ [r]\<rparr>))
    | CFree pos \<Rightarrow> Some (s\<lparr>consumer := CDone pos, seqs := (seqs s)(pos mod n := pos + n)\<rparr>)
    | CDone pos \<Rightarrow> Some (s\<lparr>consumer := CIdle, deq := pos + 1\<rparr>))"

inductive ring_step :: "nat \<Rightarrow> ring \<Rightarrow> ring \<Rightarrow> bool" for n where
  pushes: "push_step n t e s = Some s' \<Longrightarrow> ring_step n s s'"
| pops: "pop_step n s = Some s' \<Longrightarrow> ring_step n s s'"

subsection \<open>The invariant\<close>

text \<open>The first position whose slot the consumer has not handed back.\<close>

definition head :: "ring \<Rightarrow> nat" where
  "head s = (case consumer s of CDone pos \<Rightarrow> deq s + 1 | _ \<Rightarrow> deq s)"

definition taken :: "ring \<Rightarrow> nat" where
  "taken s = (case consumer s of CDone pos \<Rightarrow> deq s + 1 | CFree pos \<Rightarrow> deq s + 1 | _ \<Rightarrow> deq s)"

fun holds_pos :: "producer \<Rightarrow> nat option" where
  "holds_pos (PWrite r pos) = Some pos"
| "holds_pos (PStore r pos) = Some pos"
| "holds_pos _ = None"

definition slots_ok :: "nat \<Rightarrow> ring \<Rightarrow> bool" where
  "slots_ok n s \<longleftrightarrow> (\<forall>p. head s \<le> p \<longrightarrow> p < head s + n \<longrightarrow>
     (if enq s \<le> p then seqs s (p mod n) = p
      else seqs s (p mod n) = p \<or> seqs s (p mod n) = p + 1 \<and> recs s (p mod n) = Some (claims s ! p)))"

fun producer_ok :: "nat \<Rightarrow> ring \<Rightarrow> producer \<Rightarrow> bool" where
  "producer_ok n s (PLook r pos) = (pos \<le> enq s)"
| "producer_ok n s (PClaim r pos) = (pos < head s + n \<and> pos \<le> enq s)"
| "producer_ok n s (PWrite r pos) = (head s \<le> pos \<and> pos < enq s \<and> claims s ! pos = r \<and> seqs s (pos mod n) = pos)"
| "producer_ok n s (PStore r pos) = (head s \<le> pos \<and> pos < enq s \<and> claims s ! pos = r \<and> seqs s (pos mod n) = pos
     \<and> recs s (pos mod n) = Some r)"
| "producer_ok n s _ = True"

fun consumer_ok :: "nat \<Rightarrow> ring \<Rightarrow> consumer \<Rightarrow> bool" where
  "consumer_ok n s CIdle = True"
| "consumer_ok n s (CTake pos) = (pos = deq s \<and> pos < enq s \<and> seqs s (pos mod n) = pos + 1)"
| "consumer_ok n s (CFree pos) = (pos = deq s \<and> pos < enq s \<and> seqs s (pos mod n) = pos + 1)"
| "consumer_ok n s (CDone pos) = (pos = deq s \<and> pos < enq s)"

definition ring_inv :: "nat \<Rightarrow> ring \<Rightarrow> bool" where
  "ring_inv n s \<longleftrightarrow> head s \<le> enq s \<and> enq s \<le> head s + n \<and> length (claims s) = enq s
     \<and> slots_ok n s \<and> (\<forall>t. producer_ok n s (prods s t)) \<and> consumer_ok n s (consumer s)
     \<and> (\<forall>t t' p. holds_pos (prods s t) = Some p \<longrightarrow> holds_pos (prods s t') = Some p \<longrightarrow> t = t')
     \<and> popped s = take (taken s) (claims s)"

lemma ring_invI:
  assumes "slots_ok n s" "\<And>t. producer_ok n s (prods s t)" "consumer_ok n s (consumer s)"
    and "\<And>t t' p. holds_pos (prods s t) = Some p \<Longrightarrow> holds_pos (prods s t') = Some p \<Longrightarrow> t = t'"
    and "head s \<le> enq s" "enq s \<le> head s + n" "length (claims s) = enq s" "popped s = take (taken s) (claims s)"
  shows "ring_inv n s"
  unfolding ring_inv_def using assms by blast

lemma ring_invD:
  assumes "ring_inv n s"
  shows "slots_ok n s" "producer_ok n s (prods s t)" "consumer_ok n s (consumer s)"
    and "head s \<le> enq s" "enq s \<le> head s + n" "length (claims s) = enq s" "popped s = take (taken s) (claims s)"
  using assms by (simp_all add: ring_inv_def)

lemma ring_uniq:
  "ring_inv n s \<Longrightarrow> holds_pos (prods s t) = Some p \<Longrightarrow> holds_pos (prods s t') = Some p \<Longrightarrow> t = t'"
  by (simp add: ring_inv_def)

subsection \<open>Every step keeps it\<close>

lemma mod_window:
  fixes p q :: nat
  assumes "p mod n = q mod n" "h \<le> p" "p < h + n" "h \<le> q" "q < h + n"
  shows "p = q"
proof -
  have "p \<le> q \<Longrightarrow> p mod n = q mod n \<Longrightarrow> q < p + n \<Longrightarrow> p = q" for p q :: nat
    using mod_eq_dvd_iff_nat [of p q n] by (auto dest!: dvd_imp_le)
  from this [of p q] this [of q p] assms show ?thesis by linarith
qed

text \<open>The position of the window a slot is in.\<close>

lemma window_pos:
  fixes p :: nat
  assumes "0 < n"
  obtains q where "h \<le> q" "q < h + n" "q mod n = p mod n"
proof -
  let ?k = "(p mod n + (n - h mod n)) mod n"
  have "(h + ?k) mod n = (h mod n + (p mod n + (n - h mod n))) mod n"
    by (metis mod_add_eq mod_add_left_eq mod_add_right_eq mod_mod_trivial)
  also have "h mod n + (p mod n + (n - h mod n)) = p mod n + n"
    using mod_less_divisor [OF assms, of h] by linarith
  finally have "(h + ?k) mod n = p mod n" by simp
  moreover have "?k < n" using assms by simp
  ultimately show ?thesis using that [of "h + ?k"] by simp
qed

lemma slots_okD:
  assumes "slots_ok n s" "head s \<le> p" "p < head s + n"
  shows "enq s \<le> p \<Longrightarrow> seqs s (p mod n) = p"
    and "p < enq s \<Longrightarrow> seqs s (p mod n) = p \<or> seqs s (p mod n) = p + 1 \<and> recs s (p mod n) = Some (claims s ! p)"
  using assms by (auto simp: slots_ok_def)

lemma seq_seen:
  assumes inv: "ring_inv n s" and n: "2 \<le> n"
  shows "seqs s (pos mod n) = pos \<Longrightarrow> head s \<le> pos \<and> pos < head s + n"
    and "seqs s (pos mod n) < pos \<Longrightarrow> head s + n \<le> pos"
proof -
  obtain q where q: "head s \<le> q" "q < head s + n" "q mod n = pos mod n"
    using n by (auto intro: window_pos [of n "head s" pos])
  have sq: "seqs s (pos mod n) = q \<or> seqs s (pos mod n) = q + 1"
    using slots_okD [OF _ q(1,2)] inv q(3) by (cases "enq s \<le> q") (auto simp: ring_inv_def)
  have "Suc q mod n \<noteq> q mod n"
    using n by (simp add: mod_Suc)
  then have ne: "pos \<noteq> q + 1" using q(3) by auto
  show "seqs s (pos mod n) = pos \<Longrightarrow> head s \<le> pos \<and> pos < head s + n"
    using sq ne q by auto
  show "head s + n \<le> pos" if "seqs s (pos mod n) < pos"
  proof (rule ccontr)
    assume "\<not> head s + n \<le> pos"
    moreover have "q < pos" using that sq by auto
    ultimately show False using mod_window [OF q(3) q(1,2)] q(1) by auto
  qed
qed


lemma head_cong:
  "consumer s' = consumer s \<Longrightarrow> deq s' = deq s \<Longrightarrow> head s' = head s"
  "consumer s' = consumer s \<Longrightarrow> deq s' = deq s \<Longrightarrow> taken s' = taken s"
  by (simp_all add: head_def taken_def split: consumer.split)

lemma prod_at_sel [simp]:
  "seqs (prod_at t pc s) = seqs s" "recs (prod_at t pc s) = recs s" "enq (prod_at t pc s) = enq s"
  "deq (prod_at t pc s) = deq s" "pushed (prod_at t pc s) = pushed s" "dropped (prod_at t pc s) = dropped s"
  "prods (prod_at t pc s) = (prods s)(t := pc)" "consumer (prod_at t pc s) = consumer s"
  "claims (prod_at t pc s) = claims s" "popped (prod_at t pc s) = popped s"
  by (simp_all add: prod_at_def)

lemma prod_at_head [simp]: "head (prod_at t pc s) = head s" "taken (prod_at t pc s) = taken s"
  by (rule head_cong; simp)+

lemma slots_cong:
  "seqs s' = seqs s \<Longrightarrow> recs s' = recs s \<Longrightarrow> enq s' = enq s \<Longrightarrow> claims s' = claims s \<Longrightarrow> head s' = head s \<Longrightarrow>
     slots_ok n s' = slots_ok n s"
  by (simp add: slots_ok_def)

lemma producer_cong:
  "seqs s' = seqs s \<Longrightarrow> recs s' = recs s \<Longrightarrow> enq s' = enq s \<Longrightarrow> claims s' = claims s \<Longrightarrow> head s' = head s \<Longrightarrow>
     producer_ok n s' pc = producer_ok n s pc"
  by (cases pc) auto

lemma consumer_cong:
  "seqs s' = seqs s \<Longrightarrow> enq s' = enq s \<Longrightarrow> deq s' = deq s \<Longrightarrow> consumer_ok n s' pc = consumer_ok n s pc"
  by (cases pc) auto

text \<open>A producer moves without touching the ring.\<close>

lemma quiet_inv:
  assumes inv: "ring_inv n s"
    and same: "seqs s' = seqs s" "recs s' = recs s" "enq s' = enq s" "deq s' = deq s" "claims s' = claims s"
      "popped s' = popped s" "consumer s' = consumer s"
    and pc: "prods s' = (prods s)(t := pc)" "producer_ok n s pc" "holds_pos pc = None"
  shows "ring_inv n s'"
proof -
  have h: "head s' = head s" "taken s' = taken s" by (rule head_cong; simp add: same)+
  note inv_s = ring_invD [OF inv]
  have prods: "producer_ok n s' (prods s' u)" for u
    using inv_s(2) [of u] pc producer_cong [OF same(1,2,3,5) h(1)] by simp
  have uniq: "u = u'" if "holds_pos (prods s' u) = Some p" "holds_pos (prods s' u') = Some p" for u u' p
    using that pc(1,3) by (intro ring_uniq [OF inv, of u p u']) (auto split: if_splits)
  have slots: "slots_ok n s'" using slots_cong [OF same(1,2,3,5) h(1)] inv_s(1) by simp
  have cons: "consumer_ok n s' (consumer s')" using consumer_cong [OF same(1,3,4)] inv_s(3) same(7) by simp
  from ring_invI [OF slots prods cons uniq] inv_s(4-7) same h show ?thesis by simp
qed

lemma claim_inv:
  assumes inv: "ring_inv n s" and pc: "prods s t = PClaim r pos" and e: "enq s = pos"
  shows "ring_inv n (prod_at t (PWrite r pos) (s\<lparr>enq := pos + 1, claims := claims s @ [r]\<rparr>))"
proof -
  define s' where "s' = prod_at t (PWrite r pos) (s\<lparr>enq := pos + 1, claims := claims s @ [r]\<rparr>)"
  have sel: "seqs s' = seqs s" "recs s' = recs s" "enq s' = pos + 1" "deq s' = deq s" "claims s' = claims s @ [r]"
    "popped s' = popped s" "consumer s' = consumer s" "prods s' = (prods s)(t := PWrite r pos)"
    by (simp_all add: s'_def)
  have h: "head s' = head s" "taken s' = taken s" by (rule head_cong; simp add: sel)+
  note inv_s = ring_invD [OF inv]
  have len: "length (claims s) = pos" using inv_s(6) e by simp
  from inv_s(2) [of t] have win: "pos < head s + n" by (simp add: pc)
  have hd: "head s \<le> pos" using inv_s(4) e by simp
  have sq: "seqs s (pos mod n) = pos" using slots_okD(1) [OF inv_s(1) hd win] e by simp
  have slots: "slots_ok n s'"
    unfolding slots_ok_def h
  proof (intro allI impI)
    fix p assume p: "head s \<le> p" "p < head s + n"
    show "if enq s' \<le> p then seqs s' (p mod n) = p else seqs s' (p mod n) = p \<or>
        seqs s' (p mod n) = p + 1 \<and> recs s' (p mod n) = Some (claims s' ! p)"
      using slots_okD [OF inv_s(1) p] e sq len unfolding sel by (cases "p < pos"; cases "p = pos") (auto simp: nth_append)
  qed
  have prods: "producer_ok n s' (prods s' u)" for u
    using inv_s(2) [of u] hd sq len e h by (cases "prods s u") (auto simp: nth_append sel)
  have "holds_pos (prods s v) \<noteq> Some pos" for v
    using inv_s(2) [of v] e by (cases "prods s v") auto
  then have uniq: "u = u'" if "holds_pos (prods s' u) = Some p" "holds_pos (prods s' u') = Some p" for u u' p
    using that ring_uniq [OF inv, of u p u'] by (auto simp: sel split: if_splits)
  have cons: "consumer_ok n s' (consumer s')"
    using inv_s(3) e by (cases "consumer s") (auto simp: sel)
  have "taken s \<le> pos"
    using inv_s(3,4) e by (cases "consumer s") (auto simp: head_def taken_def)
  then have "popped s' = take (taken s') (claims s')" using inv_s(7) len h by (simp add: sel)
  with ring_invI [OF slots prods cons uniq] hd win len have "ring_inv n s'" by (simp add: h sel)
  then show ?thesis by (simp add: s'_def)
qed

lemma mod_other:
  "head s \<le> p \<Longrightarrow> p < head s + n \<Longrightarrow> head s \<le> pos \<Longrightarrow> pos < head s + n \<Longrightarrow> p mod n \<noteq> pos mod n \<or> p = pos"
  using mod_window [of p n pos "head s"] by blast

lemma other_slot:
  assumes inv: "ring_inv n s" and t: "holds_pos (prods s t) = Some pos" and u: "holds_pos (prods s u) = Some p" "u \<noteq> t"
  shows "p mod n \<noteq> pos mod n"
proof -
  have pos: "head s \<le> pos" "pos < enq s" using ring_invD(2) [OF inv, of t] t by (cases "prods s t"; simp)+
  have p: "head s \<le> p" "p < enq s" using ring_invD(2) [OF inv, of u] u by (cases "prods s u"; simp)+
  have "p \<noteq> pos" using ring_uniq [OF inv t] u by auto
  with mod_other [OF p(1) _ pos(1)] p pos ring_invD(5) [OF inv] show ?thesis by force
qed

lemma write_inv:
  assumes inv: "ring_inv n s" and pc: "prods s t = PWrite r pos"
  shows "ring_inv n (prod_at t (PStore r pos) (s\<lparr>recs := (recs s)(pos mod n := Some r)\<rparr>))"
proof -
  define s' where "s' = prod_at t (PStore r pos) (s\<lparr>recs := (recs s)(pos mod n := Some r)\<rparr>)"
  have sel: "seqs s' = seqs s" "recs s' = (recs s)(pos mod n := Some r)" "enq s' = enq s" "deq s' = deq s"
    "claims s' = claims s" "popped s' = popped s" "consumer s' = consumer s" "prods s' = (prods s)(t := PStore r pos)"
    by (simp_all add: s'_def)
  have h: "head s' = head s" "taken s' = taken s" by (rule head_cong; simp add: sel)+
  note inv_s = ring_invD [OF inv]
  from inv_s(2) [of t] have mine: "head s \<le> pos" "pos < enq s" "claims s ! pos = r" "seqs s (pos mod n) = pos"
    by (simp_all add: pc)
  have win: "pos < head s + n" using inv_s(5) mine by simp
  have slots: "slots_ok n s'"
    unfolding slots_ok_def h
  proof (intro allI impI)
    fix p assume p: "head s \<le> p" "p < head s + n"
    show "if enq s' \<le> p then seqs s' (p mod n) = p else seqs s' (p mod n) = p \<or>
        seqs s' (p mod n) = p + 1 \<and> recs s' (p mod n) = Some (claims s' ! p)"
      using slots_okD [OF inv_s(1) p] mod_other [OF p mine(1) win] mine by (auto simp: sel)
  qed
  have prods: "producer_ok n s' (prods s' u)" for u
  proof (cases "u = t")
    case True
    with mine h show ?thesis by (simp add: sel)
  next
    case False
    have "holds_pos (prods s u) = Some p \<Longrightarrow> p mod n \<noteq> pos mod n" for p
      using other_slot [OF inv, of t pos u p] pc False by simp
    with inv_s(2) [of u] False show ?thesis by (cases "prods s u") (auto simp: sel h)
  qed
  have "holds_pos (prods s' v) = holds_pos (prods s v)" for v using pc by (simp add: sel)
  then have uniq: "u = u'" if "holds_pos (prods s' u) = Some p" "holds_pos (prods s' u') = Some p" for u u' p
    using that ring_uniq [OF inv, of u p u'] by simp
  have cons: "consumer_ok n s' (consumer s')" using inv_s(3) by (cases "consumer s") (auto simp: sel)
  from ring_invI [OF slots prods cons uniq] inv_s(4-7) have "ring_inv n s'" by (simp add: h sel)
  then show ?thesis by (simp add: s'_def)
qed

lemma store_inv:
  assumes inv: "ring_inv n s" and pc: "prods s t = PStore r pos"
  shows "ring_inv n (prod_at t PCount (s\<lparr>seqs := (seqs s)(pos mod n := pos + 1)\<rparr>))"
proof -
  define s' where "s' = prod_at t PCount (s\<lparr>seqs := (seqs s)(pos mod n := pos + 1)\<rparr>)"
  have sel: "seqs s' = (seqs s)(pos mod n := pos + 1)" "recs s' = recs s" "enq s' = enq s" "deq s' = deq s"
    "claims s' = claims s" "popped s' = popped s" "consumer s' = consumer s" "prods s' = (prods s)(t := PCount)"
    by (simp_all add: s'_def)
  have h: "head s' = head s" "taken s' = taken s" by (rule head_cong; simp add: sel)+
  note inv_s = ring_invD [OF inv]
  from inv_s(2) [of t] have mine: "head s \<le> pos" "pos < enq s" "claims s ! pos = r" "seqs s (pos mod n) = pos"
    "recs s (pos mod n) = Some r"
    by (simp_all add: pc)
  have win: "pos < head s + n" using inv_s(5) mine by simp
  have slots: "slots_ok n s'"
    unfolding slots_ok_def h
  proof (intro allI impI)
    fix p assume p: "head s \<le> p" "p < head s + n"
    show "if enq s' \<le> p then seqs s' (p mod n) = p else seqs s' (p mod n) = p \<or>
        seqs s' (p mod n) = p + 1 \<and> recs s' (p mod n) = Some (claims s' ! p)"
      using slots_okD [OF inv_s(1) p] mod_other [OF p mine(1) win] mine by (auto simp: sel)
  qed
  have prods: "producer_ok n s' (prods s' u)" for u
  proof (cases "u = t")
    case False
    have "holds_pos (prods s u) = Some p \<Longrightarrow> p mod n \<noteq> pos mod n" for p
      using other_slot [OF inv, of t pos u p] pc False by simp
    with inv_s(2) [of u] False show ?thesis by (cases "prods s u") (auto simp: sel h)
  qed (simp add: sel)
  have uniq: "u = u'" if "holds_pos (prods s' u) = Some p" "holds_pos (prods s' u') = Some p" for u u' p
    using that ring_uniq [OF inv, of u p u'] by (auto simp: sel split: if_splits)
  have "seqs s (p mod n) = p + 1 \<Longrightarrow> p mod n \<noteq> pos mod n" if "p = deq s" "head s = deq s" for p
    using mod_other [of s p n pos] win mine that by auto
  then have cons: "consumer_ok n s' (consumer s')"
    using inv_s(3) by (cases "consumer s") (auto simp: sel head_def)
  from ring_invI [OF slots prods cons uniq] inv_s(4-7) have "ring_inv n s'" by (simp add: h sel)
  then show ?thesis by (simp add: s'_def)
qed


lemma push_step_inv:
  assumes n: "2 \<le> n" and inv: "ring_inv n s" and step: "push_step n t e s = Some s'"
  shows "ring_inv n s'"
proof -
  note inv_s = ring_invD [OF inv]
  have quiet: "s' = prod_at t pc s \<Longrightarrow> producer_ok n s pc \<Longrightarrow> holds_pos pc = None \<Longrightarrow> ring_inv n s'" for pc
    using quiet_inv [OF inv, of s' t pc] by simp
  have count: "s' = prod_at t PIdle (s\<lparr>pushed := k\<rparr>) \<or> s' = prod_at t PIdle (s\<lparr>dropped := k\<rparr>) \<Longrightarrow> ring_inv n s'" for k
    using quiet_inv [OF inv, of s' t PIdle] by auto
  show ?thesis
  proof (cases e)
    case (Push r)
    with step quiet [of "PLook r (enq s)"] show ?thesis by (auto split: if_splits)
  next
    case (Go spurious)
    show ?thesis
    proof (cases "prods s t")
      case (PLook r pos)
      with inv_s(2) [of t] have le: "pos \<le> enq s" by simp
      let ?i = "seqs s (pos mod n)"
      show ?thesis
        using step Go PLook seq_seen(1) [OF inv n, of pos] le
          quiet [of "PClaim r pos"] quiet [of PDrop] quiet [of "PReload r"]
        by (cases "?i = pos"; cases "?i < pos") auto
    next
      case (PClaim r pos)
      with step Go claim_inv [OF inv PClaim] quiet [of "PLook r (enq s)"] show ?thesis
        by (auto split: if_splits)
    next
      case (PReload r)
      with step Go quiet [of "PLook r (enq s)"] show ?thesis by auto
    next
      case (PWrite r pos)
      with step Go write_inv [OF inv PWrite] show ?thesis by auto
    next
      case (PStore r pos)
      with step Go store_inv [OF inv PStore] show ?thesis by auto
    next
      case PCount
      with step Go count show ?thesis by auto
    next
      case PDrop
      with step Go count show ?thesis by auto
    qed (use step Go in simp)
  qed
qed

text \<open>The slot of the first position is ready exactly when its record is published.\<close>

lemma ready:
  assumes n: "2 \<le> n" and inv: "ring_inv n s" and idle: "consumer s = CIdle"
    and seq: "\<not> seqs s (deq s mod n) < deq s + 1"
  shows "deq s < enq s \<and> seqs s (deq s mod n) = deq s + 1 \<and> recs s (deq s mod n) = Some (claims s ! deq s)"
proof -
  have h: "head s = deq s" using idle by (simp add: head_def)
  note sl = slots_okD [OF ring_invD(1) [OF inv], of "deq s", unfolded h]
  from sl(1) seq n have "deq s < enq s" by (cases "enq s \<le> deq s") auto
  with sl(2) seq n show ?thesis by auto
qed

lemma consumer_rec:
  assumes n: "2 \<le> n" and inv: "ring_inv n s" and c: "consumer s = CTake pos \<or> consumer s = CFree pos"
  shows "recs s (pos mod n) = Some (claims s ! pos)" "pos = deq s" "pos < enq s" "head s = pos"
proof -
  have ok: "pos = deq s" "pos < enq s" "seqs s (pos mod n) = pos + 1"
    using ring_invD(3) [OF inv] c by auto
  have h: "head s = pos" using c ok by (auto simp: head_def)
  with slots_okD(2) [OF ring_invD(1) [OF inv], of pos] ok n show "recs s (pos mod n) = Some (claims s ! pos)"
    by auto
  show "pos = deq s" "pos < enq s" "head s = pos" by fact+
qed

lemma free_inv:
  assumes n: "2 \<le> n" and inv: "ring_inv n s" and c: "consumer s = CFree pos"
  shows "ring_inv n (s\<lparr>consumer := CDone pos, seqs := (seqs s)(pos mod n := pos + n)\<rparr>)"
proof -
  define s' where "s' = s\<lparr>consumer := CDone pos, seqs := (seqs s)(pos mod n := pos + n)\<rparr>"
  have sel: "seqs s' = (seqs s)(pos mod n := pos + n)" "recs s' = recs s" "enq s' = enq s" "deq s' = deq s"
    "claims s' = claims s" "popped s' = popped s" "consumer s' = CDone pos" "prods s' = prods s"
    by (simp_all add: s'_def)
  note inv_s = ring_invD [OF inv] and cr = consumer_rec [OF n inv, of pos, simplified c, simplified]
  have h: "head s' = pos + 1" "taken s' = taken s" using cr c by (simp_all add: head_def taken_def sel)
  have oth: "p mod n \<noteq> pos mod n" if "pos < p" "p < pos + n" for p
    using mod_other [of s p n pos] that cr(4) n by auto
  have slots: "slots_ok n s'"
    unfolding slots_ok_def h
  proof (intro allI impI)
    fix p assume p: "pos + 1 \<le> p" "p < pos + 1 + n"
    show "if enq s' \<le> p then seqs s' (p mod n) = p else seqs s' (p mod n) = p \<or>
        seqs s' (p mod n) = p + 1 \<and> recs s' (p mod n) = Some (claims s' ! p)"
    proof (cases "p = pos + n")
      case True
      with inv_s(5) cr(4) show ?thesis by (simp add: sel)
    next
      case False
      with slots_okD [OF inv_s(1), of p] oth [of p] p cr(4) show ?thesis by (simp add: sel)
    qed
  qed
  have prods: "producer_ok n s' (prods s' u)" for u
  proof -
    have "pos < p \<and> p mod n \<noteq> pos mod n" if "holds_pos (prods s u) = Some p" for p
    proof -
      have "head s \<le> p" "p < enq s" "seqs s (p mod n) = p" using inv_s(2) [of u] that by (cases "prods s u"; simp)+
      moreover have "seqs s (pos mod n) = pos + 1" using inv_s(3) unfolding c consumer_ok.simps by blast
      ultimately show ?thesis using oth [of p] cr(4) inv_s(5) by (cases "p = pos") auto
    qed
    with inv_s(2) [of u] cr(4) show ?thesis by (cases "prods s u") (auto simp: sel h)
  qed
  have uniq: "u = u'" if "holds_pos (prods s' u) = Some p" "holds_pos (prods s' u') = Some p" for u u' p
    using that ring_uniq [OF inv, of u p u'] by (simp add: sel)
  have cons: "consumer_ok n s' (consumer s')" using cr by (simp add: sel)
  from ring_invI [OF slots prods cons uniq] inv_s(4-7) cr have "ring_inv n s'" by (simp add: h sel)
  then show ?thesis by (simp add: s'_def)
qed

text \<open>The consumer moves without changing a slot.\<close>

lemma consumer_inv:
  assumes inv: "ring_inv n s"
    and same: "seqs s' = seqs s" "recs s' = recs s" "enq s' = enq s" "claims s' = claims s" "prods s' = prods s"
      "head s' = head s"
    and new: "consumer_ok n s' (consumer s')" "popped s' = take (taken s') (claims s)"
  shows "ring_inv n s'"
proof -
  note inv_s = ring_invD [OF inv]
  have slots: "slots_ok n s'" using slots_cong [OF same(1,2,3,4,6)] inv_s(1) by simp
  have prods: "producer_ok n s' (prods s' u)" for u
    using producer_cong [OF same(1,2,3,4,6)] inv_s(2) [of u] same(5) by simp
  have uniq: "u = u'" if "holds_pos (prods s' u) = Some p" "holds_pos (prods s' u') = Some p" for u u' p
    using that ring_uniq [OF inv, of u p u'] same(5) by simp
  from ring_invI [OF slots prods new(1) uniq] inv_s(4-6) new(2) same show ?thesis by simp
qed

lemma pop_step_inv:
  assumes n: "2 \<le> n" and inv: "ring_inv n s" and step: "pop_step n s = Some s'"
  shows "ring_inv n s'"
proof -
  note inv_s = ring_invD [OF inv]
  show ?thesis
  proof (cases "consumer s")
    case CIdle
    with step have seq: "\<not> seqs s (deq s mod n) < deq s + 1" and s': "s' = s\<lparr>consumer := CTake (deq s)\<rparr>"
      by (auto split: if_splits)
    from ready [OF n inv CIdle seq] inv_s(7) CIdle show ?thesis
      by (intro consumer_inv [OF inv]) (auto simp: s' head_def taken_def)
  next
    case (CTake pos)
    note cr = consumer_rec [OF n inv, of pos, simplified CTake, simplified]
    from step CTake cr(1) have s': "s' = s\<lparr>consumer := CFree pos, popped := popped s @ [claims s ! pos]\<rparr>"
      by auto
    have "consumer_ok n s' (consumer s')" using inv_s(3) unfolding CTake by (auto simp: s')
    note cons = this
    have pop: "popped s' = take (taken s') (claims s)"
      using inv_s(6,7) cr(2,3) by (simp add: s' taken_def CTake take_Suc_conv_app_nth)
    have hd: "head s' = head s" by (simp add: s' head_def CTake)
    show ?thesis by (rule consumer_inv [OF inv _ _ _ _ _ hd cons pop]) (simp_all add: s')
  next
    case (CFree pos)
    with step free_inv [OF n inv CFree] show ?thesis by auto
  next
    case (CDone pos)
    with step have s': "s' = s\<lparr>consumer := CIdle, deq := pos + 1\<rparr>" by auto
    have pos: "pos = deq s" using inv_s(3) by (simp add: CDone)
    show ?thesis
      using inv_s(7) by (intro consumer_inv [OF inv]) (simp_all add: s' head_def taken_def CDone pos)
  qed
qed

lemma seeded_inv: "2 \<le> n \<Longrightarrow> ring_inv n seeded"
  by (rule ring_invI) (auto simp: seeded_def slots_ok_def head_def taken_def)

lemma ring_step_inv: "2 \<le> n \<Longrightarrow> ring_inv n s \<Longrightarrow> ring_step n s s' \<Longrightarrow> ring_inv n s'"
  by (erule ring_step.cases) (auto intro: push_step_inv pop_step_inv)

text \<open>The ring of any size of at least two: the sizes of the source are powers of two.\<close>

interpretation ring: step_system "\<lambda>s. s = seeded" "ring_step (n + 2)" "ring_inv (n + 2)" for n
  by unfold_locales (auto simp del: add_2_eq_Suc' intro: seeded_inv ring_step_inv [of "n + 2"])

lemma ring_reach_inv:
  assumes "2 \<le> n" "reach (\<lambda>s. s = seeded) (ring_step n) s"
  shows "ring_inv n s"
proof -
  have "n - 2 + 2 = n" using assms(1) by simp
  with ring.reach_inv [of "n - 2" s] assms(2) show ?thesis by simp
qed

lemma take_is_prefix_nth: "popped s = take k (claims s) \<Longrightarrow> j < length (popped s) \<Longrightarrow> popped s ! j = claims s ! j"
  by simp

fun ring_run :: "nat \<Rightarrow> ((tid \<times> push_event) option) list \<Rightarrow> ring \<Rightarrow> ring option" where
  "ring_run n [] s = Some s"
| "ring_run n (Some (t, e) # es) s = (case push_step n t e s of None \<Rightarrow> None | Some s' \<Rightarrow> ring_run n es s')"
| "ring_run n (None # es) s = (case pop_step n s of None \<Rightarrow> None | Some s' \<Rightarrow> ring_run n es s')"

lemma ring_run_reach:
  "ring_run n es s = Some t \<Longrightarrow> reach (\<lambda>s. s = seeded) (ring_step n) s \<Longrightarrow> reach (\<lambda>s. s = seeded) (ring_step n) t"
  by (induction n es s rule: ring_run.induct)
    (auto split: option.splits simp del: push_step.simps pop_step.simps intro: reach_step ring_step.intros)


subsection \<open>Properties\<close>

text \<open>C11: the ring is a queue. Whatever the interleaving of the producers and the consumer, the records
  popped so far are, in order and untorn, exactly the first claimed ones; nothing is lost, repeated or
  reordered, and never more than the ring holds are in it.\<close>

theorem call_ring_fifo:
  assumes "2 \<le> n" and "reach (\<lambda>s. s = seeded) (ring_step n) s"
  shows "popped s = take (length (popped s)) (claims s) \<and> length (claims s) = enq s
    \<and> deq s \<le> length (popped s) \<and> length (popped s) \<le> enq s \<and> enq s \<le> length (popped s) + n"
proof -
  have inv: "ring_inv n s" by (rule ring_reach_inv [OF assms])
  note i = ring_invD [OF inv]
  have t: "taken s \<le> enq s" "head s \<le> taken s" "deq s \<le> taken s"
    using i(3,4) by (cases "consumer s"; simp add: taken_def head_def)+
  then have "length (popped s) = taken s" using i(6,7) by simp
  with i t show ?thesis by simp
qed

definition sample_record :: "u64 \<Rightarrow> call_record" where
  "sample_record k = \<lparr>enter_ticks = k, exit_ticks = k + 1, call_args = [1, 2, 3, 4], ret = 0, ret_xmm0 = 0,
     export_id = 7, thread_id = 8\<rparr>"

text \<open>Two producers whose claims cross, and one pop.\<close>

definition crossing :: "((tid \<times> push_event) option) list" where
  "crossing = [Some (1, Push (sample_record 1)), Some (2, Push (sample_record 2)), Some (1, Go False), Some (2, Go False),
     Some (2, Go False), Some (1, Go False), Some (1, Go False), Some (1, Go False), Some (1, Go False),
     Some (2, Go False), Some (2, Go False), None, None]"

lemma crossing_run: "\<exists>s. ring_run 2 crossing seeded = Some s \<and> popped s = [sample_record 2]
    \<and> claims s = [sample_record 2, sample_record 1] \<and> enq s = 2"
  by (simp add: crossing_def seeded_def prod_at_def)

lemma call_ring_fifo_witness:
  "\<exists>s. reach (\<lambda>s. s = seeded) (ring_step 2) s \<and> popped s = [sample_record 2] \<and> enq s \<le> length (popped s) + 2"
proof -
  obtain s where s: "ring_run 2 crossing seeded = Some s" "popped s = [sample_record 2]"
    using crossing_run by blast
  have r: "reach (\<lambda>s. s = seeded) (ring_step 2) s"
    using ring_run_reach [OF s(1)] reach_init [of "\<lambda>s. s = seeded" seeded] by simp
  from call_ring_fifo [OF _ r] r s(2) show ?thesis by auto
qed

text \<open>C32: a record is dropped only when the ring is full. A producer that finds the slot of its position
  behind, and so returns false, finds every slot taken: \<open>n\<close> positions are claimed and not handed back.\<close>

theorem call_ring_drops_when_full:
  assumes "2 \<le> n" and "reach (\<lambda>s. s = seeded) (ring_step n) s"
    and "prods s t = PLook r pos" and "push_step n t (Go b) s = Some s'" and "prods s' t = PDrop"
  shows "enq s = head s + n \<and> pos = enq s"
proof -
  have inv: "ring_inv n s" by (rule ring_reach_inv [OF assms(1,2)])
  have "seqs s (pos mod n) < pos" using assms(3-5) by (auto split: if_splits)
  from seq_seen(2) [OF inv assms(1) this] ring_invD(5) [OF inv] ring_invD(2) [OF inv, of t] assms(3)
  show ?thesis by simp
qed

definition filling :: "((tid \<times> push_event) option) list" where
  "filling = [Some (1, Push (sample_record 1)), Some (1, Go False), Some (1, Go False), Some (1, Go False),
     Some (1, Go False), Some (1, Go False), Some (1, Push (sample_record 2)), Some (1, Go False), Some (1, Go False),
     Some (1, Go False), Some (1, Go False), Some (1, Go False), Some (3, Push (sample_record 3))]"

lemma filling_run: "\<exists>s s'. ring_run 2 filling seeded = Some s \<and> prods s 3 = PLook (sample_record 3) 2
    \<and> push_step 2 3 (Go False) s = Some s' \<and> prods s' 3 = PDrop"
  by (simp add: filling_def seeded_def prod_at_def)

lemma call_ring_drops_when_full_witness:
  "\<exists>s. reach (\<lambda>s. s = seeded) (ring_step 2) s \<and> enq s = head s + 2"
proof -
  obtain s s' where s: "ring_run 2 filling seeded = Some s" "prods s 3 = PLook (sample_record 3) 2"
    "push_step 2 3 (Go False) s = Some s'" "prods s' 3 = PDrop"
    using filling_run by blast
  have r: "reach (\<lambda>s. s = seeded) (ring_step 2) s"
    using ring_run_reach [OF s(1)] reach_init [of "\<lambda>s. s = seeded" seeded] by simp
  from call_ring_drops_when_full [OF _ r s(2,3,4)] r show ?thesis by auto
qed

end
