(* ===== verification/Rate_Limiter.thy ===== *)
theory Rate_Limiter
  imports Nevr_Prelude
begin

section \<open>The rate limiter of the log filter\<close>

text \<open>
  \<^verbatim>\<open>src/runtime/log/rate_limiter.h\<close> and \<^verbatim>\<open>collapse_format_rules.h\<close>: the identity of a line, the
  table of windows, and the summaries that report what was folded. The class's mutex makes every
  call atomic, so a run is a sequence of calls. A summary is the record the code prints; its text is
  \<open>format_summary\<close>. The counters are the 32-bit words of the source.
\<close>

definition window_sec :: u64 where "window_sec = 5"
definition threshold :: u32 where "threshold = 3"
definition table_size :: nat where "table_size = 128"
definition sample_size :: nat where "sample_size = 128"

datatype verdict = Emit | Collapse

subsection \<open>The identity of a line\<close>

record format_rule =
  rule_name :: bytes
  rule_head :: bytes
  rule_tail :: bytes

definition format_rules :: "format_rule list" where
  "format_rules = [\<lparr>rule_name = bytes_of ''script_realdiv'', rule_head = bytes_of ''realdiv('',
     rule_tail = bytes_of '') divide by zero''\<rparr>]"

definition max_hex_digits :: nat where "max_hex_digits = 16"

definition is_digit :: "u8 \<Rightarrow> bool" where
  "is_digit c \<longleftrightarrow> 0x30 \<le> c \<and> c \<le> 0x39"

definition is_hex :: "u8 \<Rightarrow> bool" where
  "is_hex c \<longleftrightarrow> is_digit c \<or> (0x61 \<le> c \<and> c \<le> 0x66) \<or> (0x41 \<le> c \<and> c \<le> 0x46)"

text \<open>The format at the start of \<open>s\<close>; the digits are read one past the limit, as the loop does.\<close>

definition format_here :: "format_rule \<Rightarrow> bytes \<Rightarrow> bool" where
  "format_here rule s \<longleftrightarrow>
     (let head = length (rule_head rule); digits = length (takeWhile is_hex (take (max_hex_digits + 1) (drop head s)))
      in take head s = rule_head rule \<and> digits \<noteq> 0 \<and> digits \<le> max_hex_digits
         \<and> take (length (rule_tail rule)) (drop (head + digits) s) = rule_tail rule)"

fun format_anywhere :: "format_rule \<Rightarrow> bytes \<Rightarrow> bool" where
  "format_anywhere rule [] = False"
| "format_anywhere rule (c # s) = (format_here rule (c # s) \<or> format_anywhere rule s)"

fun match_rules :: "format_rule list \<Rightarrow> bytes \<Rightarrow> bytes option" where
  "match_rules [] msg = None"
| "match_rules (rule # rules) msg =
     (if format_anywhere rule msg then Some (rule_name rule) else match_rules rules msg)"

definition match_format :: "bytes \<Rightarrow> bytes option" where
  "match_format msg = match_rules format_rules msg"

definition fnv_basis :: u64 where "fnv_basis = 1469598103934665603"
definition fnv_prime :: u64 where "fnv_prime = 1099511628211"

definition fnv :: "u64 \<Rightarrow> u8 \<Rightarrow> u64" where
  "fnv h c = (h XOR ucast c) * fnv_prime"

fun normalized_from :: "u64 \<Rightarrow> bool \<Rightarrow> bytes \<Rightarrow> u64" where
  "normalized_from h in_digits [] = h"
| "normalized_from h in_digits (c # s) =
     (if is_digit c then (if in_digits then normalized_from h True s else normalized_from (fnv h 1) True s)
      else normalized_from (fnv h c) False s)"

definition normalized_hash :: "bytes \<Rightarrow> u64" where
  "normalized_hash msg = normalized_from fnv_basis False msg"

definition format_hash :: "bytes \<Rightarrow> u64" where
  "format_hash name = foldl fnv fnv_basis name"

definition suppressed_salt :: u64 where "suppressed_salt = 0x5355505052455353"

definition line_hash :: "bytes \<Rightarrow> u64" where
  "line_hash msg = (case match_format msg of Some name \<Rightarrow> format_hash name | None \<Rightarrow> normalized_hash msg)"

definition entry_hash :: "bytes \<Rightarrow> u64" where
  "entry_hash entry = format_hash entry XOR suppressed_salt"

subsection \<open>The table\<close>

record slot =
  hash :: u64
  window_start :: u64
  seen :: u32
  emitted :: u32
  suppressed :: bool
  sample :: bytes

definition empty_slot :: slot where
  "empty_slot = \<lparr>hash = 0, window_start = 0, seen = 0, emitted = 0, suppressed = False, sample = []\<rparr>"

type_synonym table = "slot list"

definition empty_table :: table where
  "empty_table = replicate table_size empty_slot"

record summary =
  sum_suppressed :: bool
  sum_count :: u32
  sum_window :: u64
  sum_sample :: bytes

definition summary_of :: "slot \<Rightarrow> u64 \<Rightarrow> summary" where
  "summary_of e window_s = \<lparr>sum_suppressed = suppressed e, sum_count = seen e - emitted e,
     sum_window = window_s, sum_sample = sample e\<rparr>"

text \<open>\<^verbatim>\<open>FormatSummary\<close>; \<^verbatim>\<open>snprintf\<close> keeps \<^verbatim>\<open>cap - 1\<close> bytes, and \<^verbatim>\<open>%s\<close> ends at a zero byte.\<close>

definition format_summary :: "summary \<Rightarrow> nat \<Rightarrow> bytes" where
  "format_summary m cap = take (cap - 1)
     (bytes_of (if sum_suppressed m then ''[NEVR.LOGFILTER] suppressed count='' else ''[NEVR.LOGFILTER] repeated count='')
      @ decimal (unat (sum_count m)) @ bytes_of '' window_s='' @ decimal (unat (sum_window m))
      @ bytes_of (if sum_suppressed m then '' entry='' else '' msg='') @ [0x22]
      @ takeWhile (\<lambda>c. c \<noteq> 0) (sum_sample m) @ [0x22])"

text \<open>\<^verbatim>\<open>Admit\<close>.\<close>

definition admit :: "u64 \<Rightarrow> bytes \<Rightarrow> u32 \<Rightarrow> bool \<Rightarrow> u64 \<Rightarrow> table \<Rightarrow> verdict \<times> summary option \<times> table" where
  "admit h text budget supp now tab =
     (let i = unat h mod table_size; e = tab ! i;
          expired = (hash e \<noteq> h \<or> now - window_start e \<ge> window_sec);
          out = (if expired \<and> hash e \<noteq> 0 \<and> seen e > emitted e
                 then Some (summary_of e (now - window_start e)) else None);
          e1 = (if expired then \<lparr>hash = h, window_start = now, seen = 0, emitted = 0, suppressed = supp,
                  sample = take (sample_size - 1) text\<rparr> else e);
          e2 = e1\<lparr>seen := seen e1 + 1\<rparr>
      in if emitted e2 < budget then (Emit, out, tab[i := e2\<lparr>emitted := emitted e2 + 1\<rparr>])
         else (Collapse, out, tab[i := e2]))"

definition check :: "bytes \<Rightarrow> u64 \<Rightarrow> table \<Rightarrow> verdict \<times> summary option \<times> table" where
  "check msg now tab = admit (line_hash msg) msg threshold False now tab"

definition count_suppressed :: "bytes \<Rightarrow> u64 \<Rightarrow> table \<Rightarrow> verdict \<times> summary option \<times> table" where
  "count_suppressed entry now tab = admit (entry_hash entry) entry 0 True now tab"

definition due :: "u64 \<Rightarrow> bool \<Rightarrow> slot \<Rightarrow> bool" where
  "due now every e \<longleftrightarrow> hash e \<noteq> 0 \<and> seen e > emitted e
     \<and> (every \<or> (if now > window_start e then now - window_start e else 0) \<ge> window_sec)"

fun take_pending :: "u64 \<Rightarrow> bool \<Rightarrow> table \<Rightarrow> (summary \<times> table) option" where
  "take_pending now every [] = None"
| "take_pending now every (e # tab) =
     (if due now every e
      then Some (summary_of e (if now > window_start e then now - window_start e else 0), empty_slot # tab)
      else map_option (\<lambda>(m, tab'). (m, e # tab')) (take_pending now every tab))"

text \<open>The caller's loop: \<^verbatim>\<open>TakePending\<close> until it returns false.\<close>

lemma take_pending_fewer:
  "take_pending now every tab = Some (m, tab') \<Longrightarrow> length (filter (due now every) tab') < length (filter (due now every) tab)"
  by (induction tab arbitrary: m tab') (auto simp: due_def empty_slot_def split: if_splits)

function flush :: "u64 \<Rightarrow> bool \<Rightarrow> table \<Rightarrow> summary list \<times> table" where
  "flush now every tab = (case take_pending now every tab of
      None \<Rightarrow> ([], tab)
    | Some (m, tab') \<Rightarrow> (let (ms, tab'') = flush now every tab' in (m # ms, tab'')))"
  by pat_completeness auto

termination flush
  by (relation "measure (\<lambda>(now, every, tab). length (filter (due now every) tab))")
    (auto dest: take_pending_fewer [OF sym] take_pending_fewer)

declare flush.simps [simp del]

subsection \<open>Runs\<close>

datatype call = Line bytes u64 | Suppressed bytes u64 | TakePending u64 bool

fun call_hash :: "call \<Rightarrow> u64 option" where
  "call_hash (Line msg now) = Some (line_hash msg)"
| "call_hash (Suppressed entry now) = Some (entry_hash entry)"
| "call_hash (TakePending now every) = None"

fun do_call :: "call \<Rightarrow> table \<Rightarrow> nat \<times> summary list \<times> table" where
  "do_call (Line msg now) tab =
     (let (v, out, tab') = check msg now tab in (if v = Collapse then 1 else 0, (case out of None \<Rightarrow> [] | Some m \<Rightarrow> [m]), tab'))"
| "do_call (Suppressed entry now) tab =
     (let (v, out, tab') = count_suppressed entry now tab in (if v = Collapse then 1 else 0, (case out of None \<Rightarrow> [] | Some m \<Rightarrow> [m]), tab'))"
| "do_call (TakePending now every) tab =
     (case take_pending now every tab of None \<Rightarrow> (0, [], tab) | Some (m, tab') \<Rightarrow> (0, [m], tab'))"

text \<open>How many calls were folded, the summaries, the table.\<close>

fun run_calls :: "call list \<Rightarrow> table \<Rightarrow> nat \<times> summary list \<times> table" where
  "run_calls [] tab = (0, [], tab)"
| "run_calls (c # cs) tab =
     (let (k, ms, tab1) = do_call c tab; (k', ms', tab2) = run_calls cs tab1 in (k + k', ms @ ms', tab2))"


subsection \<open>No fold is uncounted\<close>

definition owed_lines :: "slot \<Rightarrow> nat" where
  "owed_lines e = unat (seen e) - unat (emitted e)"

definition total_owed :: "table \<Rightarrow> nat" where
  "total_owed tab = sum_list (map owed_lines tab)"

definition reported :: "summary list \<Rightarrow> nat" where
  "reported ms = sum_list (map (\<lambda>m. unat (sum_count m)) ms)"

text \<open>Slots after at most \<open>n\<close> calls.\<close>

definition slot_ok :: "nat \<Rightarrow> slot \<Rightarrow> bool" where
  "slot_ok n e \<longleftrightarrow> unat (emitted e) \<le> unat (seen e) \<and> unat (seen e) \<le> n
     \<and> (hash e = 0 \<longrightarrow> seen e = 0 \<and> emitted e = 0)"

definition table_ok :: "nat \<Rightarrow> table \<Rightarrow> bool" where
  "table_ok n tab \<longleftrightarrow> length tab = table_size \<and> (\<forall>e\<in>set tab. slot_ok n e)"

lemma slot_ok_mono: "slot_ok n e \<Longrightarrow> n \<le> m \<Longrightarrow> slot_ok m e"
  by (auto simp: slot_ok_def)

lemma sum_list_list_update:
  fixes f :: "'a \<Rightarrow> nat"
  assumes "i < length xs"
  shows "sum_list (map f (xs[i := x])) + f (xs ! i) = sum_list (map f xs) + f x"
  using assms
proof (induction xs arbitrary: i)
  case (Cons y xs)
  show ?case
  proof (cases i)
    case (Suc j)
    with Cons.IH [of j] Cons.prems show ?thesis by simp
  qed simp
qed simp

lemma unat_Suc: "unat (w :: u32) + 1 < 2 ^ 32 \<Longrightarrow> unat (w + 1) = unat w + 1"
  by (simp add: unat_word_ariths)

lemma admit_account:
  assumes ok: "table_ok n tab" and h: "h \<noteq> 0" and n: "n + 1 < 2 ^ 32"
    and adm: "admit h text budget supp now tab = (v, out, tab')"
  shows "table_ok (n + 1) tab'"
    and "total_owed tab + (if v = Collapse then 1 else 0)
      = total_owed tab' + (case out of None \<Rightarrow> 0 | Some m \<Rightarrow> unat (sum_count m))"
proof -
  define i where "i = unat h mod table_size"
  define e where "e = tab ! i"
  define expired where "expired \<longleftrightarrow> hash e \<noteq> h \<or> now - window_start e \<ge> window_sec"
  define e1 where "e1 = (if expired then \<lparr>hash = h, window_start = now, seen = 0, emitted = 0, suppressed = supp,
      sample = take (sample_size - 1) text\<rparr> else e)"
  define e2 where "e2 = e1\<lparr>seen := seen e1 + 1\<rparr>"
  define e3 where "e3 = (if emitted e2 < budget then e2\<lparr>emitted := emitted e2 + 1\<rparr> else e2)"
  have len: "length tab = table_size" using ok by (simp add: table_ok_def)
  have i: "i < length tab" unfolding len i_def table_size_def by (rule mod_less_divisor) simp
  have e: "slot_ok n e" using ok i by (simp add: table_ok_def e_def)
  have run: "admit h text budget supp now tab =
    (let out = (if expired \<and> hash e \<noteq> 0 \<and> seen e > emitted e then Some (summary_of e (now - window_start e)) else None)
     in if emitted e2 < budget then (Emit, out, tab[i := e2\<lparr>emitted := emitted e2 + 1\<rparr>])
        else (Collapse, out, tab[i := e2]))"
    unfolding admit_def Let_def e2_def e1_def expired_def e_def i_def by (rule refl)
  have v: "v = (if emitted e2 < budget then Emit else Collapse)" and tab': "tab' = tab[i := e3]"
    and out: "out = (if expired \<and> hash e \<noteq> 0 \<and> seen e > emitted e then Some (summary_of e (now - window_start e)) else None)"
    using adm run by (simp_all add: e3_def Let_def split: if_splits)
  have e1: "unat (emitted e1) \<le> unat (seen e1)" "unat (seen e1) \<le> n" "hash e1 = h"
    using e by (auto simp: e1_def slot_ok_def expired_def)
  have s2: "unat (seen e2) = unat (seen e1) + 1" "emitted e2 = emitted e1" "hash e2 = h"
    using e1 n unat_Suc [of "seen e1"] by (simp_all add: e2_def)
  have s3: "seen e3 = seen e2" "hash e3 = h"
    "unat (emitted e3) = unat (emitted e1) + (if emitted e2 < budget then 1 else 0)"
    using s2 e1 n unat_Suc [of "emitted e1"] by (simp_all add: e3_def)
  have ok3: "slot_ok (n + 1) e3" using e1 s2 s3 h by (auto simp: slot_ok_def)
  show "table_ok (n + 1) tab'"
    using ok ok3 slot_ok_mono [of n _ "n + 1"] set_update_subset_insert [of tab i e3]
    by (auto simp: table_ok_def tab')
  have owed3: "owed_lines e3 = owed_lines e1 + (if v = Collapse then 1 else 0)"
    using e1 s2 s3 by (auto simp: owed_lines_def v)
  have cnt: "seen e > emitted e \<Longrightarrow> unat (seen e - emitted e) = owed_lines e"
    by (simp add: owed_lines_def unat_sub order_less_imp_le)
  have "hash e \<noteq> 0 \<or> owed_lines e = 0" using e by (auto simp: slot_ok_def owed_lines_def)
  moreover have "\<not> seen e > emitted e \<Longrightarrow> owed_lines e = 0"
    by (simp add: owed_lines_def word_less_nat_alt)
  ultimately have "owed_lines e = owed_lines e1 + (case out of None \<Rightarrow> 0 | Some m \<Rightarrow> unat (sum_count m))"
    using cnt by (auto simp: out e1_def summary_of_def owed_lines_def)
  with sum_list_list_update [OF i, of owed_lines e3] owed3
  show "total_owed tab + (if v = Collapse then 1 else 0)
      = total_owed tab' + (case out of None \<Rightarrow> 0 | Some m \<Rightarrow> unat (sum_count m))"
    by (auto simp: total_owed_def tab' e_def)
qed

lemma due_count: "due now every e \<Longrightarrow> unat (seen e - emitted e) = owed_lines e"
  by (simp add: due_def owed_lines_def unat_sub order_less_imp_le)

lemma take_pending_account:
  "take_pending now every tab = Some (m, tab') \<Longrightarrow> total_owed tab = total_owed tab' + unat (sum_count m)
     \<and> length tab' = length tab \<and> set tab' \<subseteq> insert empty_slot (set tab)"
proof (induction tab arbitrary: m tab')
  case (Cons e tab)
  have emp: "owed_lines empty_slot = 0" by (simp add: owed_lines_def empty_slot_def)
  show ?case
  proof (cases "due now every e")
    case True
    with Cons.prems due_count [OF True] emp show ?thesis
      by (auto simp: total_owed_def summary_of_def)
  next
    case False
    with Cons.prems obtain tab1 where "take_pending now every tab = Some (m, tab1)" "tab' = e # tab1" by auto
    with Cons.IH [of m tab1] show ?thesis by (auto simp: total_owed_def)
  qed
qed simp

lemma empty_slot_ok: "slot_ok n empty_slot"
  by (simp add: slot_ok_def empty_slot_def)

lemma do_call_account:
  assumes "table_ok n tab" "call_hash c \<noteq> Some 0" "n + 1 < 2 ^ 32" "do_call c tab = (k, ms, tab')"
  shows "table_ok (n + 1) tab' \<and> total_owed tab + k = total_owed tab' + reported ms"
proof (cases c)
  case (Line msg now)
  obtain v out t where c: "check msg now tab = (v, out, t)" by (cases "check msg now tab") auto
  with Line assms admit_account [OF assms(1) _ assms(3) c [unfolded check_def]] show ?thesis
    by (auto simp: reported_def split: option.splits)
next
  case (Suppressed entry now)
  obtain v out t where c: "count_suppressed entry now tab = (v, out, t)" by (cases "count_suppressed entry now tab") auto
  with Suppressed assms admit_account [OF assms(1) _ assms(3) c [unfolded count_suppressed_def]] show ?thesis
    by (auto simp: reported_def split: option.splits)
next
  case (TakePending now every)
  have mono: "table_ok (n + 1) tab"
    using assms(1) slot_ok_mono [of n _ "n + 1"] by (simp add: table_ok_def)
  show ?thesis
  proof (cases "take_pending now every tab")
    case None
    with TakePending assms mono show ?thesis by (simp add: reported_def)
  next
    case (Some p)
    obtain m t where p: "p = (m, t)" by (cases p)
    with take_pending_account [of now every tab m t] Some TakePending assms mono empty_slot_ok [of "n + 1"] show ?thesis
      by (auto simp: reported_def table_ok_def)
  qed
qed

lemma run_calls_account:
  "table_ok n tab \<Longrightarrow> \<forall>c\<in>set cs. call_hash c \<noteq> Some 0 \<Longrightarrow> n + length cs < 2 ^ 32 \<Longrightarrow> run_calls cs tab = (k, ms, tab') \<Longrightarrow>
     table_ok (n + length cs) tab' \<and> total_owed tab + k = total_owed tab' + reported ms"
proof (induction cs arbitrary: n tab k ms tab')
  case Nil
  then show ?case by (simp add: reported_def)
next
  case (Cons c cs)
  obtain k1 ms1 tab1 where 1: "do_call c tab = (k1, ms1, tab1)" by (cases "do_call c tab") auto
  obtain k2 ms2 tab2 where 2: "run_calls cs tab1 = (k2, ms2, tab2)" by (cases "run_calls cs tab1") auto
  have e: "k = k1 + k2" "ms = ms1 @ ms2" "tab' = tab2" using Cons.prems(4) 1 2 by simp_all
  have s: "table_ok (n + 1) tab1 \<and> total_owed tab + k1 = total_owed tab1 + reported ms1"
    using do_call_account [OF Cons.prems(1) _ _ 1] Cons.prems by simp
  with Cons.IH [of "n + 1" tab1 k2 ms2 tab2] 2 Cons.prems e show ?case
    by (auto simp: reported_def)
qed

lemma empty_table_ok: "table_ok 0 empty_table"
  by (simp add: table_ok_def empty_table_def empty_slot_ok)

lemma total_owed_empty: "total_owed empty_table = 0"
  by (simp add: total_owed_def empty_table_def owed_lines_def empty_slot_def sum_list_replicate)

lemma take_pending_None: "take_pending now every tab = None \<longleftrightarrow> (\<forall>e\<in>set tab. \<not> due now every e)"
  by (induction tab) auto

lemma flush_account:
  "flush now every tab = (ms, tab') \<Longrightarrow> total_owed tab = total_owed tab' + reported ms
     \<and> set tab' \<subseteq> insert empty_slot (set tab) \<and> (\<forall>e\<in>set tab'. \<not> due now every e)"
proof (induction now every tab arbitrary: ms tab' rule: flush.induct)
  case (1 now every tab)
  show ?case
  proof (cases "take_pending now every tab")
    case None
    with "1.prems" have "ms = []" "tab' = tab" by (simp_all add: flush.simps [of now every tab])
    with None take_pending_None [of now every tab] show ?thesis by (auto simp: reported_def)
  next
    case (Some p)
    obtain m t where p: "p = (m, t)" by (cases p)
    obtain ms1 tab1 where fl: "flush now every t = (ms1, tab1)" by (cases "flush now every t")
    with "1.prems" Some p have e: "ms = m # ms1" "tab' = tab1" by (simp_all add: flush.simps [of now every tab])
    from "1.IH" [OF Some p [symmetric] fl] take_pending_account [of now every tab m t] Some p e show ?thesis
      by (auto simp: reported_def)
  qed
qed

lemma not_due_owed: "slot_ok n e \<Longrightarrow> \<not> due now True e \<Longrightarrow> owed_lines e = 0"
  by (auto simp: slot_ok_def due_def owed_lines_def word_less_nat_alt)

subsection \<open>Digits do not make a new line\<close>

lemma normalized_digits: "\<forall>c\<in>set ds. is_digit c \<Longrightarrow> normalized_from h True (ds @ s) = normalized_from h True s"
  by (induction ds) auto

lemma normalized_append:
  assumes "\<forall>c\<in>set ds. is_digit c" "\<forall>c\<in>set ds'. is_digit c" "ds \<noteq> []" "ds' \<noteq> []"
  shows "normalized_from h b (xs @ ds @ ys) = normalized_from h b (xs @ ds' @ ys)"
proof (induction xs arbitrary: h b)
  case Nil
  from assms obtain d r d' r' where "ds = d # r" "ds' = d' # r'" by (cases ds; cases ds') auto
  with assms show ?case by (simp add: normalized_digits)
qed simp


subsection \<open>A burst of one line\<close>

lemma admit_same:
  assumes "length tab = table_size" and "hash (tab ! (unat h mod table_size)) = h"
    and "\<not> now - window_start (tab ! (unat h mod table_size)) \<ge> window_sec"
  shows "admit h text budget supp now tab =
    (let i = unat h mod table_size; e = tab ! i
     in if emitted e < budget then (Emit, None, tab[i := e\<lparr>seen := seen e + 1, emitted := emitted e + 1\<rparr>])
        else (Collapse, None, tab[i := e\<lparr>seen := seen e + 1\<rparr>]))"
  using assms by (simp add: admit_def Let_def)

text \<open>The verdicts of a sequence of calls of one identity at the given times.\<close>

fun verdicts :: "u64 \<Rightarrow> bytes \<Rightarrow> u32 \<Rightarrow> u64 list \<Rightarrow> table \<Rightarrow> verdict list" where
  "verdicts h text budget [] tab = []"
| "verdicts h text budget (now # ts) tab =
     (let (v, out, tab') = admit h text budget False now tab in v # verdicts h text budget ts tab')"

lemma verdicts_same:
  assumes "length tab = table_size" "hash (tab ! (unat h mod table_size)) = h"
    "window_start (tab ! (unat h mod table_size)) = t0" "\<forall>t\<in>set ts. t - t0 < window_sec"
    "emitted (tab ! (unat h mod table_size)) = k" "unat k \<le> unat budget"
  shows "verdicts h text budget ts tab =
    replicate (min (unat budget - unat k) (length ts)) Emit @ replicate (length ts - (unat budget - unat k)) Collapse"
  using assms
proof (induction ts arbitrary: tab k)
  case Nil
  then show ?case by simp
next
  case (Cons t ts)
  let ?i = "unat h mod table_size"
  let ?e = "tab ! ?i"
  have i: "?i < length tab" unfolding Cons.prems(1) by (simp add: table_size_def)
  have adm: "admit h text budget False t tab =
    (if emitted ?e < budget then (Emit, None, tab[?i := ?e\<lparr>seen := seen ?e + 1, emitted := emitted ?e + 1\<rparr>])
     else (Collapse, None, tab[?i := ?e\<lparr>seen := seen ?e + 1\<rparr>]))"
    using admit_same [of tab h t "text" budget False] Cons.prems by (simp add: Let_def not_le)
  show ?case
  proof (cases "k < budget")
    case True
    then have lt: "unat k < unat budget" by (simp add: word_less_nat_alt)
    have "unat budget < 2 ^ LENGTH(32)" by (rule unsigned_less)
    with lt have k1: "unat (k + 1) = unat k + 1" by (intro unat_Suc) simp
    let ?t = "tab[?i := ?e\<lparr>seen := seen ?e + 1, emitted := emitted ?e + 1\<rparr>]"
    have "verdicts h text budget ts ?t =
        replicate (min (unat budget - unat (k + 1)) (length ts)) Emit @ replicate (length ts - (unat budget - unat (k + 1))) Collapse"
      using Cons.prems i k1 lt by (intro Cons.IH) simp_all
    moreover have "unat budget - unat k = Suc (unat budget - unat (k + 1))" using k1 lt by simp
    ultimately show ?thesis using adm True Cons.prems(5) by simp
  next
    case False
    then have eq: "unat k = unat budget" using Cons.prems(6) by (simp add: word_less_nat_alt)
    let ?t = "tab[?i := ?e\<lparr>seen := seen ?e + 1\<rparr>]"
    have "verdicts h text budget ts ?t =
        replicate (min (unat budget - unat k) (length ts)) Emit @ replicate (length ts - (unat budget - unat k)) Collapse"
      using Cons.prems i by (intro Cons.IH) simp_all
    then show ?thesis using adm False Cons.prems(5) eq by simp
  qed
qed

subsection \<open>Properties\<close>

text \<open>C29: no deletion is uncounted. Over any run of fewer than \<open>2 ^ 32\<close> calls from an empty table,
  whatever the lines, the identities that share a slot and the times, and after the caller's last
  \<^verbatim>\<open>TakePending(all)\<close> loop, the counts of the summaries add up to exactly the number of lines
  that were folded or suppressed, and the table owes nothing. The identity 0, which the table takes for an
  empty slot, is excluded.\<close>

theorem rate_limiter_accounts:
  assumes "\<forall>c\<in>set cs. call_hash c \<noteq> Some 0" and "length cs < 2 ^ 32"
    and "run_calls cs empty_table = (k, ms, tab)" and "flush now True tab = (ms', tab')"
  shows "reported (ms @ ms') = k \<and> total_owed tab' = 0"
proof -
  note run = run_calls_account [OF empty_table_ok assms(1) _ assms(3)]
  have ok: "table_ok (length cs) tab" and sum: "k = total_owed tab + reported ms"
    using run assms(2) by (simp_all add: total_owed_empty)
  note fl = flush_account [OF assms(4)]
  have "slot_ok (length cs) e" if "e \<in> set tab'" for e
    using that fl ok empty_slot_ok by (auto simp: table_ok_def)
  then have "\<forall>e\<in>set tab'. owed_lines e = 0" using fl not_due_owed by blast
  then have "total_owed tab' = 0" by (simp add: total_owed_def)
  with fl sum show ?thesis by (simp add: reported_def)
qed

definition two_suppressed :: "call list" where
  "two_suppressed = [Suppressed (bytes_of ''x'') 100, Suppressed (bytes_of ''x'') 101]"

lemma two_suppressed_folds:
  "fst (run_calls two_suppressed empty_table) = 2 \<and> (\<forall>c\<in>set two_suppressed. call_hash c \<noteq> Some 0)"
  by (simp add: two_suppressed_def count_suppressed_def admit_def Let_def empty_table_def table_size_def empty_slot_def
      window_sec_def summary_of_def entry_hash_def format_hash_def bytes_of_def fnv_def fnv_basis_def fnv_prime_def suppressed_salt_def)

lemma rate_limiter_accounts_witness:
  "\<exists>ms tab ms' tab'. run_calls two_suppressed empty_table = (2, ms, tab) \<and> flush 200 True tab = (ms', tab')
    \<and> reported (ms @ ms') = 2 \<and> total_owed tab' = 0"
proof -
  obtain k ms tab where run: "run_calls two_suppressed empty_table = (k, ms, tab)" by (metis prod_cases3)
  obtain ms' tab' where fl: "flush 200 True tab = (ms', tab')" by fastforce
  have k: "k = 2" using two_suppressed_folds run by simp
  have len: "length two_suppressed < 2 ^ 32" by (simp add: two_suppressed_def)
  have "reported (ms @ ms') = k \<and> total_owed tab' = 0"
    using rate_limiter_accounts [OF _ len run fl] two_suppressed_folds by blast
  with run fl k show ?thesis by auto
qed

text \<open>Values do not make new lines. Two lines that differ only in the digits of a number have one
  identity, for any text around it, as long as both or neither are lines of a collapse format.\<close>

theorem line_identity:
  assumes "\<forall>c\<in>set ds. is_digit c" "\<forall>c\<in>set ds'. is_digit c" "ds \<noteq> []" "ds' \<noteq> []"
    and "match_format (xs @ ds @ ys) = match_format (xs @ ds' @ ys)"
  shows "line_hash (xs @ ds @ ys) = line_hash (xs @ ds' @ ys)"
  using normalized_append [OF assms(1-4)] assms(5) by (simp add: line_hash_def normalized_hash_def split: option.split)

lemma line_identity_witness:
  "line_hash (bytes_of ''call #41'') = line_hash (bytes_of ''call #1234'')"
proof -
  have "match_format (bytes_of ''call #'' @ bytes_of ''41'' @ []) = match_format (bytes_of ''call #'' @ bytes_of ''1234'' @ [])"
    by (simp add: match_format_def format_rules_def format_here_def bytes_of_def Let_def)
  from line_identity [OF _ _ _ _ this] show ?thesis by (simp add: bytes_of_def is_digit_def)
qed

text \<open>The first three pass. In a burst of one identity that opens a fresh window, and stays inside
  it, exactly the first \<open>budget\<close> calls are emitted and every later one is folded: three of a line, none of
  a suppress entry.\<close>

theorem rate_limiter_burst:
  assumes "length tab = table_size" and "hash (tab ! (unat h mod table_size)) \<noteq> h" and "\<forall>t\<in>set ts. t - t0 < window_sec"
  shows "verdicts h text budget (t0 # ts) tab =
    replicate (min (unat budget) (Suc (length ts))) Emit @ replicate (Suc (length ts) - unat budget) Collapse"
proof -
  let ?i = "unat h mod table_size"
  let ?e = "\<lparr>hash = h, window_start = t0, seen = 0, emitted = 0, suppressed = False, sample = take (sample_size - 1) text\<rparr>"
  have i: "?i < length tab" unfolding assms(1) by (simp add: table_size_def)
  have "verdicts h text budget (t0 # ts) tab = verdicts h text budget (t0 # ts) (tab[?i := ?e])"
    using assms(2) i by (simp add: admit_def Let_def window_sec_def)
  also have "\<dots> = replicate (min (unat budget - unat (0 :: u32)) (length (t0 # ts))) Emit
      @ replicate (length (t0 # ts) - (unat budget - unat (0 :: u32))) Collapse"
    using assms i by (intro verdicts_same) (auto simp: window_sec_def)
  finally show ?thesis by simp
qed

lemma rate_limiter_burst_witness:
  "verdicts 77 (bytes_of ''x'') threshold [10, 11, 12, 13, 14] empty_table = [Emit, Emit, Emit, Collapse, Collapse]"
proof -
  have "length empty_table = table_size" by (simp add: empty_table_def)
  moreover have "hash (empty_table ! (unat (77 :: u64) mod table_size)) \<noteq> 77"
    by (simp add: empty_table_def empty_slot_def table_size_def)
  moreover have "\<forall>t\<in>set [11, 12, 13, 14 :: u64]. t - 10 < window_sec" by (simp add: window_sec_def)
  moreover have "unat threshold = 3" by (simp add: threshold_def)
  moreover have "length [11, 12, 13, 14 :: u64] = 4" by simp
  ultimately have "verdicts 77 (bytes_of ''x'') threshold (10 # [11, 12, 13, 14]) empty_table =
    replicate (min 3 (Suc 4)) Emit @ replicate (Suc 4 - 3) Collapse"
    using rate_limiter_burst [of empty_table 77 "[11, 12, 13, 14]" 10 "bytes_of ''x''" threshold] by metis
  then show ?thesis by (simp add: numeral_3_eq_3 numeral_2_eq_2 del: verdicts.simps)
qed

text \<open>A clock that moves back: a summary of \<^verbatim>\<open>Admit\<close> reports the age as a huge unsigned number,
  which \<^verbatim>\<open>TakePending\<close> avoids.\<close>

lemma clock_back_huge_window:
  "(let (k, ms, tab) = run_calls [Suppressed (bytes_of ''x'') 100, Suppressed (bytes_of ''x'') 99] empty_table
    in map sum_window ms) = [- 1]"
  by (simp add: count_suppressed_def admit_def Let_def empty_table_def table_size_def empty_slot_def window_sec_def
      summary_of_def entry_hash_def format_hash_def bytes_of_def fnv_def fnv_basis_def fnv_prime_def suppressed_salt_def)

end
