(* ===== verification/Lobby_Hold.thy ===== *)
theory Lobby_Hold
  imports Nevr_Prelude
begin

section \<open>The hold of a return to lobby\<close>

text \<open>
  \<^verbatim>\<open>src/runtime/lifecycle/return_to_lobby_hold.h\<close>: the configuration value and the policy, a small
  state machine driven by the game's requests and the frame's polls. The clock is the 64-bit
  millisecond count, whose difference may wrap as in the code.
\<close>

datatype request_verdict = Proceed | Hold | HoldAgain
datatype poll_verdict = Keep | Release | Cancel

subsection \<open>The configuration value\<close>

datatype ttl_problem = NotWhole | AboveLimit

definition max_ttl_seconds :: u64 where "max_ttl_seconds = 86400"

fun parse_ttl_from :: "u64 \<Rightarrow> bytes \<Rightarrow> u64 \<times> ttl_problem option" where
  "parse_ttl_from value [] = (value, None)"
| "parse_ttl_from value (c # cs) =
     (if c < 0x30 \<or> c > 0x39 then (0, Some NotWhole)
      else let value' = value * 10 + ucast (c - 0x30)
           in if value' > max_ttl_seconds then (max_ttl_seconds, Some AboveLimit) else parse_ttl_from value' cs)"

text \<open>\<open>None\<close> is the null pointer; the text ends at its first zero byte, which the caller has cut.\<close>

definition parse_ttl_seconds :: "bytes option \<Rightarrow> u64 \<times> ttl_problem option" where
  "parse_ttl_seconds t = (case t of None \<Rightarrow> (0, None) | Some [] \<Rightarrow> (0, None) | Some s \<Rightarrow> parse_ttl_from 0 s)"

subsection \<open>The policy\<close>

record policy =
  ttl_ms :: u64
  holding :: bool
  held_since :: u64
  held_requests :: u64
  released :: bool

definition new_policy :: policy where
  "new_policy = \<lparr>ttl_ms = 0, holding = False, held_since = 0, held_requests = 0, released = False\<rparr>"

definition set_ttl_ms :: "u64 \<Rightarrow> policy \<Rightarrow> policy" where
  "set_ttl_ms ttl p = p\<lparr>ttl_ms := ttl\<rparr>"

definition idle :: "policy \<Rightarrow> bool" where
  "idle p \<longleftrightarrow> \<not> holding p \<and> ttl_ms p = 0"

definition saw_players :: "u64 \<Rightarrow> policy \<Rightarrow> policy" where
  "saw_players entrants p = (if entrants \<noteq> 0 then p\<lparr>released := False\<rparr> else p)"

definition on_return_requested :: "u64 \<Rightarrow> u64 \<Rightarrow> bool \<Rightarrow> policy \<Rightarrow> request_verdict \<times> policy" where
  "on_return_requested now entrants shutdown p0 =
     (let p = saw_players entrants p0
      in if ttl_ms p = 0 \<or> shutdown then (Proceed, p)
         else if entrants \<noteq> 0 then (Proceed, p)
         else if released p then (Proceed, p)
         else let p1 = p\<lparr>held_requests := held_requests p + 1\<rparr>
              in if holding p1 then (HoldAgain, p1)
                 else (Hold, p1\<lparr>holding := True, held_since := now, held_requests := 1\<rparr>))"

definition poll :: "u64 \<Rightarrow> u64 \<Rightarrow> bool \<Rightarrow> policy \<Rightarrow> poll_verdict \<times> policy" where
  "poll now entrants shutdown p0 =
     (let p = saw_players entrants p0
      in if \<not> holding p then (Keep, p)
         else if shutdown \<or> entrants \<noteq> 0 then (Cancel, p\<lparr>holding := False\<rparr>)
         else if now - held_since p \<ge> ttl_ms p then (Release, p\<lparr>holding := False, released := True\<rparr>)
         else (Keep, p))"

text \<open>The two callbacks are values here: they are called only when there is something to decide.\<close>

definition poll_if_active :: "u64 \<Rightarrow> u64 \<Rightarrow> bool \<Rightarrow> policy \<Rightarrow> poll_verdict \<times> policy" where
  "poll_if_active now entrants shutdown p = (if idle p then (Keep, p) else poll now entrants shutdown p)"

subsection \<open>Runs\<close>

datatype hold_event = SetTtl u64 | Request u64 u64 bool | Poll u64 u64 bool

datatype outcome = Configured | Requested request_verdict | Polled poll_verdict

fun hold_step :: "hold_event \<Rightarrow> policy \<Rightarrow> outcome \<times> policy" where
  "hold_step (SetTtl ttl) p = (Configured, set_ttl_ms ttl p)"
| "hold_step (Request now entrants shutdown) p =
     (let (v, p') = on_return_requested now entrants shutdown p in (Requested v, p'))"
| "hold_step (Poll now entrants shutdown) p =
     (let (v, p') = poll_if_active now entrants shutdown p in (Polled v, p'))"

fun hold_run :: "hold_event list \<Rightarrow> policy \<Rightarrow> outcome list \<times> policy" where
  "hold_run [] p = ([], p)"
| "hold_run (e # es) p = (let (v, p1) = hold_step e p; (vs, p2) = hold_run es p1 in (v # vs, p2))"

definition policy_ok :: "policy \<Rightarrow> bool" where
  "policy_ok p \<longleftrightarrow> \<not> (holding p \<and> released p)"

lemmas hold_defs = on_return_requested_def poll_def poll_if_active_def saw_players_def set_ttl_ms_def idle_def Let_def

interpretation hold: fold_system "\<lambda>e p. snd (hold_step e p)" policy_ok
proof
  fix p e assume "policy_ok p"
  then show "policy_ok (snd (hold_step e p))"
    by (cases e) (auto simp: policy_ok_def hold_defs split: prod.split)
qed

lemma hold_run_state: "snd (hold_run es p) = fold (\<lambda>e p. snd (hold_step e p)) es p"
  by (induction es arbitrary: p) (simp_all add: split_beta)

lemma hold_run_ok: "policy_ok (snd (hold_run es new_policy))"
  unfolding hold_run_state by (rule hold.fold_inv) (simp add: policy_ok_def new_policy_def)

text \<open>The outcomes that open and close a hold.\<close>

definition opens :: "outcome \<Rightarrow> bool" where "opens v \<longleftrightarrow> v = Requested Hold"
definition closes :: "outcome \<Rightarrow> bool" where "closes v \<longleftrightarrow> v = Polled Release \<or> v = Polled Cancel"

lemma hold_step_balance:
  "hold_step e p = (v, p') \<Longrightarrow> (if holding p then 1 else 0) + (if opens v then 1 else 0)
     = (if closes v then 1 else 0) + (if holding p' then 1 else (0 :: nat))"
  by (cases e) (auto simp: hold_defs opens_def closes_def split: if_splits prod.splits)

lemma hold_run_balance:
  "hold_run es p = (vs, p') \<Longrightarrow> (if holding p then 1 else 0) + length (filter opens vs)
     = length (filter closes vs) + (if holding p' then 1 else (0 :: nat))"
proof (induction es arbitrary: p vs p')
  case (Cons e es)
  obtain v p1 where 1: "hold_step e p = (v, p1)" by fastforce
  obtain ws p2 where 2: "hold_run es p1 = (ws, p2)" by fastforce
  from Cons.prems 1 2 have "vs = v # ws" "p' = p2" by simp_all
  with hold_step_balance [OF 1] Cons.IH [OF 2] show ?case by auto
qed simp

text \<open>An event that shows no player.\<close>

fun empty_event :: "hold_event \<Rightarrow> bool" where
  "empty_event (SetTtl ttl) = True"
| "empty_event (Request now entrants shutdown) = (entrants = 0)"
| "empty_event (Poll now entrants shutdown) = (entrants = 0)"

lemma released_step:
  "released p \<Longrightarrow> policy_ok p \<Longrightarrow> empty_event e \<Longrightarrow> hold_step e p = (v, p') \<Longrightarrow>
     v \<in> {Configured, Requested Proceed, Polled Keep} \<and> released p' \<and> policy_ok p'"
  by (cases e) (auto simp: hold_defs policy_ok_def split: if_splits prod.splits)

lemma released_run:
  "released p \<Longrightarrow> policy_ok p \<Longrightarrow> \<forall>e\<in>set es. empty_event e \<Longrightarrow>
     set (fst (hold_run es p)) \<subseteq> {Configured, Requested Proceed, Polled Keep}"
proof (induction es arbitrary: p)
  case (Cons e es)
  obtain v p1 where 1: "hold_step e p = (v, p1)" by fastforce
  with released_step [OF Cons.prems(1,2) _ 1] Cons.prems Cons.IH [of p1] show ?case
    by (auto simp: split_beta)
qed simp

subsection \<open>The value parsed\<close>

definition digit :: "u8 \<Rightarrow> bool" where "digit c \<longleftrightarrow> 0x30 \<le> c \<and> c \<le> 0x39"

definition digits_value :: "nat \<Rightarrow> bytes \<Rightarrow> nat" where
  "digits_value v ds = foldl (\<lambda>v c. v * 10 + (unat c - 48)) v ds"

lemma digits_value_ge: "v \<le> digits_value v ds"
proof (induction ds arbitrary: v)
  case (Cons d ds)
  from Cons.IH [of "v * 10 + (unat d - 48)"] show ?case by (simp add: digits_value_def)
qed (simp add: digits_value_def)

text \<open>What the value means, on unbounded numbers.\<close>

definition ttl_meaning :: "nat \<Rightarrow> bytes \<Rightarrow> nat \<times> ttl_problem option" where
  "ttl_meaning v s = (let ds = takeWhile digit s in
     if digits_value v ds > 86400 then (86400, Some AboveLimit)
     else if ds \<noteq> s then (0, Some NotWhole) else (digits_value v ds, None))"

lemma digit_step:
  assumes "digit c" "unat v \<le> 86400"
  shows "unat (v * 10 + ucast (c - 0x30) :: u64) = unat v * 10 + (unat c - 48)"
proof -
  have c: "48 \<le> unat c" "unat c \<le> 57" using assms(1) by (simp_all add: digit_def word_le_nat_alt)
  have "unat (c - 0x30) = unat c - 48" using assms(1) by (subst unat_sub) (simp_all add: digit_def)
  then have "unat (ucast (c - 0x30) :: u64) = unat c - 48"
    using c by (simp add: unsigned_ucast_eq take_bit_nat_eq_self)
  then show ?thesis using assms(2) c by (simp only: unat_word_ariths) simp
qed

lemma parse_ttl_from_meaning:
  "unat v \<le> 86400 \<Longrightarrow> (unat (fst (parse_ttl_from v s)), snd (parse_ttl_from v s)) = ttl_meaning (unat v) s"
proof (induction s arbitrary: v)
  case Nil
  then show ?case by (simp add: ttl_meaning_def digits_value_def)
next
  case (Cons c s)
  show ?case
  proof (cases "digit c")
    case False
    then have "c < 0x30 \<or> c > 0x39" by (auto simp: digit_def)
    with False Cons.prems show ?thesis by (simp add: ttl_meaning_def digits_value_def)
  next
    case True
    then have nd: "\<not> (c < 0x30 \<or> c > 0x39)" by (auto simp: digit_def)
    let ?v = "v * 10 + ucast (c - 0x30) :: u64"
    note v = digit_step [OF True Cons.prems]
    have dv: "digits_value (unat v) (takeWhile digit (c # s)) = digits_value (unat ?v) (takeWhile digit s)"
      using True by (simp add: digits_value_def v)
    show ?thesis
    proof (cases "?v > max_ttl_seconds")
      case big: True
      then have "unat ?v > 86400" by (simp add: word_less_nat_alt max_ttl_seconds_def)
      with digits_value_ge [of "unat ?v" "takeWhile digit s"] dv nd big show ?thesis
        by (simp add: ttl_meaning_def Let_def max_ttl_seconds_def)
    next
      case False
      then have "unat ?v \<le> 86400" by (simp add: word_less_nat_alt max_ttl_seconds_def)
      from Cons.IH [OF this] dv nd False True show ?thesis
        by (simp add: ttl_meaning_def Let_def)
    qed
  qed
qed

subsection \<open>Properties\<close>

text \<open>Every swallowed request is accounted for. Over any run from the start, whatever the configuration
  changes, player counts and shutdowns, the holds opened are the holds released, the holds cancelled
  and the one still open, so no return to lobby is swallowed and forgotten.\<close>

theorem holds_are_resolved:
  "length (filter opens (fst (hold_run es new_policy)))
    = length (filter closes (fst (hold_run es new_policy))) + (if holding (snd (hold_run es new_policy)) then 1 else 0)"
  using hold_run_balance [of es new_policy "fst (hold_run es new_policy)" "snd (hold_run es new_policy)"]
  by (simp add: new_policy_def)


definition one_release :: "hold_event list" where
  "one_release = [SetTtl 5000, Request 100 0 False, Poll 200 0 False, Poll 5100 0 False]"


text \<open>A hold is released no earlier than its TTL, only with no player and no shutdown pending, and at the first
  poll after it.\<close>

theorem release_exactly_when_due:
  "fst (poll_if_active now entrants shutdown p) = Release \<longleftrightarrow>
     holding p \<and> \<not> shutdown \<and> entrants = 0 \<and> ttl_ms p \<le> now - held_since p"
  by (auto simp: hold_defs)

text \<open>The configured seconds mean what they say. The parser computes the meaning on unbounded
  numbers: the decimal value of a text of digits, one day for more than that, zero for anything else, each
  with its problem; 64 bits never wrap.\<close>

theorem ttl_parses_to_meaning:
  "(unat (fst (parse_ttl_seconds (Some s))), snd (parse_ttl_seconds (Some s))) = ttl_meaning 0 s"
  using parse_ttl_from_meaning [of 0 s]
  by (cases s) (simp_all add: parse_ttl_seconds_def ttl_meaning_def digits_value_def)

end
