(* ===== verification/Auth_Token.thy ===== *)
theory Auth_Token
  imports Ws_Accept
begin

section \<open>The token model\<close>

text \<open>
  \<^verbatim>\<open>src/core/auth_token_model.h\<close>: the cached credentials, the claims of a JWT, and the expiry
  rules. The JSON library (nlohmann) is outside the repository: it is the parameter \<open>js\<close>, the record
  of the operations the code calls. An exception of the library is \<open>None\<close>.
\<close>

unbundle bit_operations_syntax

text \<open>
  \<open>js_lookup\<close> is \<^verbatim>\<open>contains\<close> and \<^verbatim>\<open>at\<close> in one (\<open>None\<close>: not contained), \<open>js_string\<close> is
  \<^verbatim>\<open>get<std::string>\<close>, \<open>js_unsigned\<close> is \<^verbatim>\<open>is_number_unsigned\<close> and \<^verbatim>\<open>get<uint64_t>\<close>,
  \<open>js_u64\<close> is the converting \<^verbatim>\<open>get<uint64_t>\<close> of \<^verbatim>\<open>value\<close>, \<open>js_empty\<close> is \<^verbatim>\<open>object()\<close>.
\<close>

record 'j json =
  js_parse :: "bytes \<Rightarrow> 'j option"
  js_object :: "'j \<Rightarrow> bool"
  js_lookup :: "'j \<Rightarrow> bytes \<Rightarrow> 'j option"
  js_string :: "'j \<Rightarrow> bytes option"
  js_unsigned :: "'j \<Rightarrow> u64 option"
  js_u64 :: "'j \<Rightarrow> u64 option"
  js_empty :: 'j

text \<open>\<^verbatim>\<open>j.value(key, default)\<close>: it throws on what is not an object and on a value of another type.\<close>

definition value_or :: "'j json \<Rightarrow> ('j \<Rightarrow> 'a option) \<Rightarrow> 'j \<Rightarrow> bytes \<Rightarrow> 'a \<Rightarrow> 'a option" where
  "value_or js get j key d =
     (if \<not> js_object js j then None
      else case js_lookup js j key of None \<Rightarrow> Some d | Some v \<Rightarrow> get v)"

definition value_str :: "'j json \<Rightarrow> 'j \<Rightarrow> string \<Rightarrow> bytes option" where
  "value_str js j key = value_or js (js_string js) j (bytes_of key) []"

definition value_u64 :: "'j json \<Rightarrow> 'j \<Rightarrow> string \<Rightarrow> u64 option" where
  "value_u64 js j key = value_or js (js_u64 js) j (bytes_of key) 0"

record cached_auth =
  token :: bytes
  token_expiry :: u64
  refresh_token :: bytes
  refresh_token_expiry :: u64
  user_id :: bytes
  username :: bytes

definition no_auth :: cached_auth where
  "no_auth = \<lparr>token = [], token_expiry = 0, refresh_token = [], refresh_token_expiry = 0, user_id = [], username = []\<rparr>"

definition has_valid_token :: "u64 \<Rightarrow> cached_auth \<Rightarrow> bool" where
  "has_valid_token now a \<longleftrightarrow> token a \<noteq> [] \<and> token_expiry a > now + 60"

definition has_valid_refresh_token :: "u64 \<Rightarrow> cached_auth \<Rightarrow> bool" where
  "has_valid_refresh_token now a \<longleftrightarrow> refresh_token a \<noteq> [] \<and> refresh_token_expiry a > now + 60"

subsection \<open>The claims of a JWT\<close>

definition jwt_segment :: "bytes \<Rightarrow> bytes option" where
  "jwt_segment tok =
     (if tok = [] then None
      else case find_ch 0x2E tok of
        None \<Rightarrow> None
      | Some d1 \<Rightarrow> (case find_ch 0x2E (drop (d1 + 1) tok) of
            None \<Rightarrow> None
          | Some n \<Rightarrow> Some (take n (drop (d1 + 1) tok))))"

definition from_url :: "u8 \<Rightarrow> u8" where
  "from_url c = (if c = 0x2D then 0x2B else if c = 0x5F then 0x2F else c)"

text \<open>The padding to a multiple of four.\<close>

definition pad4 :: "bytes \<Rightarrow> bytes" where
  "pad4 s = s @ replicate ((4 - length s mod 4) mod 4) 0x3D"

text \<open>The decoding loop: \<open>buf\<close> holds \<open>bits\<close> bits not written yet.\<close>

fun b64_loop :: "u32 \<Rightarrow> nat \<Rightarrow> bytes \<Rightarrow> bytes" where
  "b64_loop buf bits [] = []"
| "b64_loop buf bits (c # cs) =
     (if c = 0x3D then []
      else case find_ch c base64_table of
        None \<Rightarrow> b64_loop buf bits cs
      | Some pos \<Rightarrow>
          let buf1 = push_bit 6 buf OR word_of_nat pos; bits1 = bits + 6
          in if bits1 \<ge> 8
             then ucast (drop_bit (bits1 - 8) buf1) # b64_loop (buf1 AND (push_bit (bits1 - 8) 1 - 1)) (bits1 - 8) cs
             else b64_loop buf1 bits1 cs)"

definition decode_b64url :: "bytes \<Rightarrow> bytes" where
  "decode_b64url s = b64_loop 0 0 (pad4 (map from_url s))"

definition decode_claims :: "'j json \<Rightarrow> bytes \<Rightarrow> 'j" where
  "decode_claims js tok =
     (case jwt_segment tok of
        None \<Rightarrow> js_empty js
      | Some s \<Rightarrow> (case js_parse js (decode_b64url s) of None \<Rightarrow> js_empty js | Some j \<Rightarrow> j))"

text \<open>\<^verbatim>\<open>strtoull\<close> in base 10.\<close>

definition is_space :: "u8 \<Rightarrow> bool" where
  "is_space c \<longleftrightarrow> c = 0x20 \<or> (0x09 \<le> c \<and> c \<le> 0x0D)"

definition dec_digit :: "u8 \<Rightarrow> bool" where
  "dec_digit c \<longleftrightarrow> 0x30 \<le> c \<and> c \<le> 0x39"

definition strtoull :: "bytes \<Rightarrow> u64" where
  "strtoull s =
     (let s1 = dropWhile is_space (takeWhile (\<lambda>c. c \<noteq> 0) s);
          neg = (s1 \<noteq> [] \<and> hd s1 = 0x2D);
          s2 = (if s1 \<noteq> [] \<and> (hd s1 = 0x2D \<or> hd s1 = 0x2B) then tl s1 else s1);
          n = foldl (\<lambda>v c. v * 10 + (unat c - 48)) 0 (takeWhile dec_digit s2)
      in if n > 2 ^ 64 - 1 then - 1 else if neg then - word_of_nat n else word_of_nat n)"

text \<open>\<open>None\<close>: the exception the library throws on claims that are not an object, or a \<^verbatim>\<open>did\<close> that is not a string.\<close>

definition get_discord_id :: "'j json \<Rightarrow> bytes \<Rightarrow> u64 option" where
  "get_discord_id js tok =
     (let claims = decode_claims js tok;
          vrs = (case js_lookup js claims (bytes_of ''vrs'') of
                   Some v \<Rightarrow> if js_object js v then value_str js v ''did'' else Some []
                 | None \<Rightarrow> Some [])
      in Option.bind vrs (\<lambda>did0. Option.bind (if did0 = [] then value_str js claims ''did'' else Some did0) (\<lambda>did.
           Some (if did \<noteq> [] then strtoull did else 0))))"

definition get_jwt_expiry :: "'j json \<Rightarrow> bytes \<Rightarrow> u64" where
  "get_jwt_expiry js tok =
     (case js_lookup js (decode_claims js tok) (bytes_of ''exp'') of
        None \<Rightarrow> 0
      | Some v \<Rightarrow> (case js_unsigned js v of None \<Rightarrow> 0 | Some n \<Rightarrow> n))"

subsection \<open>Expiry\<close>

definition fallback_access_lifetime :: u64 where "fallback_access_lifetime = 300"
definition max_disk_access_lifetime :: u64 where "max_disk_access_lifetime = 60"
definition fallback_refresh_lifetime :: u64 where "fallback_refresh_lifetime = 30 * 24 * 3600"

definition read_expires_in :: "'j json \<Rightarrow> 'j \<Rightarrow> string \<Rightarrow> u64 option" where
  "read_expires_in js j field =
     (case js_lookup js j (bytes_of field) of None \<Rightarrow> None | Some v \<Rightarrow> js_unsigned js v)"

definition resolve_access_expiry :: "'j json \<Rightarrow> u64 \<Rightarrow> bytes \<Rightarrow> u64 option \<Rightarrow> u64" where
  "resolve_access_expiry js now tok expires_in =
     (let jwt = get_jwt_expiry js tok
      in if jwt > now then jwt
         else case expires_in of Some n \<Rightarrow> now + n | None \<Rightarrow> now + fallback_access_lifetime)"

definition resolve_refresh_expiry :: "u64 \<Rightarrow> u64 option \<Rightarrow> u64" where
  "resolve_refresh_expiry now expires_in =
     (case expires_in of Some n \<Rightarrow> now + n | None \<Rightarrow> now + fallback_refresh_lifetime)"

subsection \<open>The credentials file\<close>

definition parse_credentials :: "'j json \<Rightarrow> bytes \<Rightarrow> u64 \<Rightarrow> cached_auth" where
  "parse_credentials js txt now =
     (case (Option.bind (js_parse js txt) (\<lambda>j.
        Option.bind (value_str js j ''token'') (\<lambda>tok.
        Option.bind (value_u64 js j ''token_expiry'') (\<lambda>e0.
        Option.bind (if e0 = 0 then value_u64 js j ''expiry'' else Some e0) (\<lambda>e.
        Option.bind (value_str js j ''refresh_token'') (\<lambda>rt.
        Option.bind (value_u64 js j ''refresh_token_expiry'') (\<lambda>re.
        Option.bind (value_str js j ''user_id'') (\<lambda>uid.
        Option.bind (value_str js j ''username'') (\<lambda>un.
          let max_expiry = now + max_disk_access_lifetime
          in Some \<lparr>token = tok, token_expiry = (if e > max_expiry then max_expiry else e), refresh_token = rt,
               refresh_token_expiry = re, user_id = uid, username = un\<rparr>))))))))) of
        None \<Rightarrow> no_auth | Some a \<Rightarrow> a)"

datatype field = FStr bytes | FNum u64

text \<open>The object \<^verbatim>\<open>SerializeCredentialsJson\<close> builds; \<open>dump\<close> is the library's writer.\<close>

definition credentials_fields :: "cached_auth \<Rightarrow> (bytes \<times> field) list" where
  "credentials_fields a =
     [(bytes_of ''refresh_token'', FStr (refresh_token a)),
      (bytes_of ''refresh_token_expiry'', FNum (refresh_token_expiry a))]
     @ (if user_id a \<noteq> [] then [(bytes_of ''user_id'', FStr (user_id a))] else [])
     @ (if username a \<noteq> [] then [(bytes_of ''username'', FStr (username a))] else [])"

definition serialize_credentials :: "((bytes \<times> field) list \<Rightarrow> bytes) \<Rightarrow> cached_auth \<Rightarrow> bytes" where
  "serialize_credentials dump a = dump (credentials_fields a) @ [10]"


subsection \<open>Base64 is decoded back\<close>

lemma find_ch_nth: "distinct xs \<Longrightarrow> i < length xs \<Longrightarrow> find_ch (xs ! i) xs = Some i"
  by (induction xs arbitrary: i) (auto simp: nth_Cons split: nat.split)

lemma table_distinct: "distinct base64_table" "0x3D \<notin> set base64_table"
  by (simp_all add: base64_table_def bytes_of_def)

lemma table_all: "i < 64 \<Longrightarrow> find_ch (base64_table ! i) base64_table = Some i \<and> base64_table ! i \<noteq> 0x3D"
  using find_ch_nth [OF table_distinct(1), of i] table_distinct(2) nth_mem [of i base64_table] base64_table_length by metis

lemma sextet: "unat ((w :: u32) AND 0x3F) < 64"
proof -
  have "w AND 0x3F = take_bit 6 w" by (simp add: take_bit_eq_mask mask_numeral)
  then show ?thesis by (simp add: unsigned_take_bit_eq take_bit_nat_less_exp [of 6, simplified])
qed

lemma find_b64_char:
  "find_ch (b64_char v k) base64_table = Some (unat (drop_bit k v AND 0x3F))" "b64_char v k \<noteq> 0x3D"
  using table_all sextet [of "drop_bit k v"] by (simp_all add: b64_char_def)

lemma b64_loop_char:
  "b64_loop buf bits (b64_char v k # cs) =
     (let buf1 = push_bit 6 buf OR (drop_bit k v AND 0x3F); bits1 = bits + 6
      in if bits1 \<ge> 8 then ucast (drop_bit (bits1 - 8) buf1) # b64_loop (buf1 AND (push_bit (bits1 - 8) 1 - 1)) (bits1 - 8) cs
         else b64_loop buf1 bits1 cs)"
  by (simp add: find_b64_char Let_def)

lemma and_low: "(w :: u32) AND 0x3F = take_bit 6 w" "w AND 15 = take_bit 4 w" "w AND 3 = take_bit 2 w" "w AND 0 = 0"
  by (simp_all add: take_bit_eq_mask mask_numeral)

lemma triple:
  "b64_loop 0 0 (b64_char v 18 # b64_char v 12 # b64_char v 6 # b64_char v 0 # cs)
   = ucast (drop_bit 16 v) # ucast (drop_bit 8 v) # ucast v # b64_loop 0 0 cs"
proof -
  have "ucast (drop_bit 4 (push_bit 6 (take_bit 6 (drop_bit 18 v)) OR take_bit 6 (drop_bit 12 v))) = (ucast (drop_bit 16 v) :: u8)"
     by (rule bit_word_eqI) (auto simp: bit_simps)
  moreover have "ucast (drop_bit 2 (push_bit 6 (take_bit 4 (push_bit 6 (take_bit 6 (drop_bit 18 v)) OR take_bit 6 (drop_bit 12 v))) OR take_bit 6 (drop_bit 6 v)))
      = (ucast (drop_bit 8 v) :: u8)"
     by (rule bit_word_eqI) (auto simp: bit_simps)
  moreover have "ucast (push_bit 6 (take_bit 2 (push_bit 6 (take_bit 4 (push_bit 6 (take_bit 6 (drop_bit 18 v)) OR take_bit 6 (drop_bit 12 v))) OR take_bit 6 (drop_bit 6 v))) OR take_bit 6 v)
      = (ucast v :: u8)"
     by (rule bit_word_eqI) (auto simp: bit_simps)
  ultimately show ?thesis
    by (simp only: b64_loop_char Let_def and_low) (simp add: and_low)
qed

lemma pair_end:
  "b64_loop 0 0 (b64_char v 18 # b64_char v 12 # b64_char v 6 # 0x3D # cs) = [ucast (drop_bit 16 v), ucast (drop_bit 8 v)]"
proof -
  have "ucast (drop_bit 4 (push_bit 6 (take_bit 6 (drop_bit 18 v)) OR take_bit 6 (drop_bit 12 v))) = (ucast (drop_bit 16 v) :: u8)"
     by (rule bit_word_eqI) (auto simp: bit_simps)
  moreover have "ucast (drop_bit 2 (push_bit 6 (take_bit 4 (push_bit 6 (take_bit 6 (drop_bit 18 v)) OR take_bit 6 (drop_bit 12 v))) OR take_bit 6 (drop_bit 6 v)))
      = (ucast (drop_bit 8 v) :: u8)"
     by (rule bit_word_eqI) (auto simp: bit_simps)
  ultimately show ?thesis
    by (simp only: b64_loop_char Let_def and_low) (simp add: and_low)
qed

lemma single_end:
  "b64_loop 0 0 (b64_char v 18 # b64_char v 12 # 0x3D # cs) = [ucast (drop_bit 16 v)]"
proof -
  have "ucast (drop_bit 4 (push_bit 6 (take_bit 6 (drop_bit 18 v)) OR take_bit 6 (drop_bit 12 v))) = (ucast (drop_bit 16 v) :: u8)"
     by (rule bit_word_eqI) (auto simp: bit_simps)
  then show ?thesis
    by (simp only: b64_loop_char Let_def and_low) (simp add: and_low)
qed

lemma joined_bytes:
  fixes a b c :: u8
  defines "v \<equiv> push_bit 16 (ucast a) OR push_bit 8 (ucast b) OR ucast c :: u32"
  shows "ucast (drop_bit 16 v) = a" "ucast (drop_bit 8 v) = b" "ucast v = c"
  unfolding v_def by (rule bit_word_eqI, auto simp: bit_simps dest: bit_imp_le_length)+

lemma joined_bytes2:
  fixes a b :: u8
  defines "v \<equiv> push_bit 16 (ucast a) OR push_bit 8 (ucast b) :: u32"
  shows "ucast (drop_bit 16 v) = a" "ucast (drop_bit 8 v) = b"
  unfolding v_def by (rule bit_word_eqI, auto simp: bit_simps dest: bit_imp_le_length)+

lemma joined_bytes1: "ucast (drop_bit 16 (push_bit 16 (ucast (a :: u8)) :: u32)) = a"
  by (rule bit_word_eqI) (auto simp: bit_simps)

lemma pads: "bytes_of ''=='' = [0x3D, 0x3D]" "bytes_of ''='' = [0x3D]"
  by (simp_all add: bytes_of_def)

lemma b64_loop_base64: "b64_loop 0 0 (base64 bs) = bs"
proof (induction bs rule: base64.induct)
  case (1 a b c rest)
  then show ?case
    by (simp only: base64.simps Let_def append_Cons append_Nil triple joined_bytes)
next
  case (2 a)
  then show ?case
    by (simp only: base64.simps Let_def append_Cons append_Nil joined_bytes1 single_end pads)
next
  case (3 a b)
  then show ?case
    by (simp only: base64.simps Let_def append_Cons append_Nil pads pair_end joined_bytes2)
qed simp

subsection \<open>The encoder of a JWT segment: Base64 without padding, with the URL letters\<close>

definition to_url :: "u8 \<Rightarrow> u8" where
  "to_url c = (if c = 0x2B then 0x2D else if c = 0x2F then 0x5F else c)"

definition encode_b64url :: "bytes \<Rightarrow> bytes" where
  "encode_b64url bs = map to_url (takeWhile (\<lambda>c. c \<noteq> 0x3D) (base64 bs))"

lemma b64_char_set: "b64_char v k \<in> set base64_table"
  using sextet [of "drop_bit k v"] by (simp add: b64_char_def base64_table_length)

lemma table_url: "c \<in> set base64_table \<Longrightarrow> from_url (to_url c) = c"
  by (auto simp: base64_table_def bytes_of_def from_url_def to_url_def)

lemma pad_base64:
  "pad4 (takeWhile (\<lambda>c. c \<noteq> 0x3D) (base64 bs)) = base64 bs \<and> set (takeWhile (\<lambda>c. c \<noteq> 0x3D) (base64 bs)) \<subseteq> set base64_table"
proof (induction bs rule: base64.induct)
  case (1 a b c rest)
  let ?v = "push_bit 16 (ucast a) OR push_bit 8 (ucast b) OR ucast c :: u32"
  let ?t = "takeWhile (\<lambda>c. c \<noteq> 0x3D) (base64 rest)"
  have "pad4 (p # q # r # s # ?t) = p # q # r # s # pad4 ?t" for p q r s
    by (simp add: pad4_def)
  then show ?case using 1 by (simp add: Let_def find_b64_char b64_char_set)
next
  case (2 a)
  show ?case by (simp add: Let_def find_b64_char b64_char_set pad4_def bytes_of_def numeral_2_eq_2)
next
  case (3 a b)
  show ?case by (simp add: Let_def find_b64_char b64_char_set pad4_def bytes_of_def)
qed (simp add: pad4_def)

lemma decode_encode_b64url: "decode_b64url (encode_b64url bs) = bs"
proof -
  have "map from_url (map to_url s) = s" if "set s \<subseteq> set base64_table" for s
    using that by (induction s) (auto simp: table_url)
  with pad_base64 [of bs] show ?thesis
    by (simp add: decode_b64url_def encode_b64url_def b64_loop_base64 del: map_map)
qed


text \<open>The JWT with a given payload.\<close>

lemma table_no_dot: "0x2E \<notin> to_url ` set base64_table"
  by (auto simp: base64_table_def bytes_of_def to_url_def)

lemma jwt_segment_encode:
  assumes "0x2E \<notin> set header"
  shows "jwt_segment (header @ 0x2E # encode_b64url bs @ 0x2E # sig) = Some (encode_b64url bs)"
proof -
  have "0x2E \<notin> set (encode_b64url bs)"
    using pad_base64 [of bs] table_no_dot by (auto simp: encode_b64url_def)
  then show ?thesis using assms by (simp add: jwt_segment_def find_ch_append)
qed

subsection \<open>Properties\<close>

text \<open>The claims of a token are the JSON of its payload. For any payload bytes, a token with any header
  without a dot and any signature, whose middle segment is their URL-safe Base64, decodes to what the JSON
  library makes of exactly those bytes, and to the empty object when it refuses them.\<close>

theorem claims_of_encoded_payload:
  assumes "0x2E \<notin> set header"
  shows "decode_claims js (header @ 0x2E # encode_b64url bs @ 0x2E # sig) =
    (case js_parse js bs of None \<Rightarrow> js_empty js | Some j \<Rightarrow> j)"
  by (simp add: decode_claims_def jwt_segment_encode [OF assms] decode_encode_b64url)

text \<open>A library whose values are the texts themselves.\<close>

definition text_json :: "bytes json" where
  "text_json = \<lparr>js_parse = Some, js_object = (\<lambda>j. True), js_lookup = (\<lambda>j k. None), js_string = Some, js_unsigned = (\<lambda>j. None),
     js_u64 = (\<lambda>j. None), js_empty = []\<rparr>"

lemma claims_of_encoded_payload_witness:
  "decode_claims text_json ([0x61] @ 0x2E # encode_b64url (bytes_of ''{}?'') @ 0x2E # [0x62]) = bytes_of ''{}?''"
  using claims_of_encoded_payload [of "[0x61]" text_json "bytes_of ''{}?''" "[0x62]"] by (simp add: text_json_def)

text \<open>What writing and reading back an object promises.\<close>

fun field_matches :: "'j json \<Rightarrow> field \<Rightarrow> 'j \<Rightarrow> bool" where
  "field_matches js (FStr s) v = (js_string js v = Some s)"
| "field_matches js (FNum n) v = (js_u64 js v = Some n)"

definition reads_back :: "'j json \<Rightarrow> ((bytes \<times> field) list \<Rightarrow> bytes) \<Rightarrow> (bytes \<times> field) list \<Rightarrow> bool" where
  "reads_back js dump kvs \<longleftrightarrow> (\<exists>j. js_parse js (dump kvs @ [10]) = Some j \<and> js_object js j
     \<and> (\<forall>k. rel_option (field_matches js) (map_of kvs k) (js_lookup js j k)))"

lemma value_str_matches:
  assumes "js_object js j" "rel_option (field_matches js) m (js_lookup js j (bytes_of key))"
    and "m = (if s = [] \<and> opt then None else Some (FStr s))"
  shows "value_str js j key = Some s"
  using assms by (cases "js_lookup js j (bytes_of key)") (auto simp: value_str_def value_or_def split: if_splits)

lemma value_u64_matches:
  assumes "js_object js j" "rel_option (field_matches js) m (js_lookup js j (bytes_of key))"
    and "m = (if opt then None else Some (FNum n))" "opt \<Longrightarrow> n = 0"
  shows "value_u64 js j key = Some n"
  using assms by (cases "js_lookup js j (bytes_of key)") (auto simp: value_u64_def value_or_def split: if_splits)

lemma credentials_lookup:
  "map_of (credentials_fields a) (bytes_of ''token'') = None"
  "map_of (credentials_fields a) (bytes_of ''token_expiry'') = None"
  "map_of (credentials_fields a) (bytes_of ''expiry'') = None"
  "map_of (credentials_fields a) (bytes_of ''refresh_token'') = Some (FStr (refresh_token a))"
  "map_of (credentials_fields a) (bytes_of ''refresh_token_expiry'') = Some (FNum (refresh_token_expiry a))"
  "map_of (credentials_fields a) (bytes_of ''user_id'') = (if user_id a = [] then None else Some (FStr (user_id a)))"
  "map_of (credentials_fields a) (bytes_of ''username'') = (if username a = [] then None else Some (FStr (username a)))"
  by (simp_all add: credentials_fields_def bytes_of_def)

text \<open>C34: a login saved is the login loaded, without the access token. When the JSON library reads back the
  object it wrote, parsing the credentials file gives the refresh token, its expiry and the user, and an empty
  access token that no clock makes valid.\<close>

theorem saved_credentials_load:
  assumes "reads_back js dump (credentials_fields a)"
  shows "parse_credentials js (serialize_credentials dump a) now = a\<lparr>token := [], token_expiry := 0\<rparr>
    \<and> \<not> has_valid_token t (parse_credentials js (serialize_credentials dump a) now)"
proof -
  from assms obtain j where j: "js_parse js (dump (credentials_fields a) @ [10]) = Some j" "js_object js j"
    and rel: "\<And>k. rel_option (field_matches js) (map_of (credentials_fields a) k) (js_lookup js j k)"
    by (auto simp: reads_back_def)
  have "value_str js j ''token'' = Some []"
    by (rule value_str_matches [OF j(2) rel, where opt = True]) (simp add: credentials_lookup)
  moreover have "value_u64 js j ''token_expiry'' = Some 0" "value_u64 js j ''expiry'' = Some 0"
    by (rule value_u64_matches [OF j(2) rel, where opt = True]; simp add: credentials_lookup)+
  moreover have "value_str js j ''refresh_token'' = Some (refresh_token a)"
    by (rule value_str_matches [OF j(2) rel, where opt = False]) (simp add: credentials_lookup)
  moreover have "value_u64 js j ''refresh_token_expiry'' = Some (refresh_token_expiry a)"
    by (rule value_u64_matches [OF j(2) rel, where opt = False]) (simp_all add: credentials_lookup)
  moreover have "value_str js j ''user_id'' = Some (user_id a)"
    by (rule value_str_matches [OF j(2) rel, where opt = True]) (simp add: credentials_lookup)
  moreover have "value_str js j ''username'' = Some (username a)"
    by (rule value_str_matches [OF j(2) rel, where opt = True]) (simp add: credentials_lookup)
  ultimately have "parse_credentials js (serialize_credentials dump a) now = a\<lparr>token := [], token_expiry := 0\<rparr>"
    by (intro cached_auth.equality) (simp_all add: parse_credentials_def serialize_credentials_def j(1) Let_def)
  then show ?thesis by (simp add: has_valid_token_def)
qed

text \<open>A library of one document.\<close>

datatype toy_json = TObj "(bytes \<times> field) list" | TField field

definition toy_json :: "(bytes \<times> field) list \<Rightarrow> toy_json json" where
  "toy_json kvs = \<lparr>js_parse = (\<lambda>txt. Some (TObj kvs)), js_object = (\<lambda>j. case j of TObj kvs \<Rightarrow> True | _ \<Rightarrow> False),
     js_lookup = (\<lambda>j k. case j of TObj kvs \<Rightarrow> map_option TField (map_of kvs k) | _ \<Rightarrow> None),
     js_string = (\<lambda>j. case j of TField (FStr s) \<Rightarrow> Some s | _ \<Rightarrow> None),
     js_unsigned = (\<lambda>j. case j of TField (FNum n) \<Rightarrow> Some n | _ \<Rightarrow> None),
     js_u64 = (\<lambda>j. case j of TField (FNum n) \<Rightarrow> Some n | _ \<Rightarrow> None), js_empty = TObj []\<rparr>"

lemma toy_reads_back: "reads_back (toy_json kvs) (\<lambda>_. []) kvs"
proof -
  have "field_matches (toy_json kvs) f (TField f)" for f by (cases f) (simp_all add: toy_json_def)
  then show ?thesis
    by (auto simp: reads_back_def toy_json_def option.rel_map intro: option.rel_refl)
qed

definition sample_auth :: cached_auth where
  "sample_auth = \<lparr>token = bytes_of ''a.b.c'', token_expiry = 99, refresh_token = bytes_of ''r'', refresh_token_expiry = 1000,
     user_id = bytes_of ''u'', username = []\<rparr>"

lemma saved_credentials_load_witness:
  "parse_credentials (toy_json (credentials_fields sample_auth)) (serialize_credentials (\<lambda>_. []) sample_auth) 5
    = sample_auth\<lparr>token := [], token_expiry := 0\<rparr>"
  using saved_credentials_load [OF toy_reads_back, of sample_auth 5 0] by simp

text \<open>An access token read from disk lives at most a minute. Whatever the file says, a clock that is not
  within a minute of the end of time makes the loaded expiry at most \<open>now + 60\<close>.\<close>

theorem disk_token_clamped:
  assumes "now \<le> - 61"
  shows "token_expiry (parse_credentials js txt now) \<le> now + 60 \<and> \<not> has_valid_token now (parse_credentials js txt now)"
proof -
  have "token_expiry (parse_credentials js txt now) \<le> now + 60"
    by (auto simp: parse_credentials_def no_auth_def max_disk_access_lifetime_def Let_def
        split: option.splits bind_splits)
  then show ?thesis by (auto simp: has_valid_token_def)
qed

lemma disk_token_clamped_witness:
  "token_expiry (parse_credentials (toy_json [(bytes_of ''token'', FStr [65]), (bytes_of ''token_expiry'', FNum 5000)]) [] 100) \<le> 160"
  using disk_token_clamped [of 100 "toy_json [(bytes_of ''token'', FStr [65]), (bytes_of ''token_expiry'', FNum 5000)]" "[]"]
  by simp

text \<open>A fresh token is never stored as expired. When the sums do not wrap, the resolved expiry is in
  the future: the token's own claim when that is, else the server's positive lifetime, else five minutes.\<close>

theorem fresh_token_in_future:
  assumes "unat now + unat (case expires_in of Some n \<Rightarrow> n | None \<Rightarrow> fallback_access_lifetime) < 2 ^ 64"
    and "expires_in \<noteq> Some 0"
  shows "now < resolve_access_expiry js now tok expires_in
    \<and> (get_jwt_expiry js tok > now \<longrightarrow> resolve_access_expiry js now tok expires_in = get_jwt_expiry js tok)"
proof -
  have add: "now < now + n" if "unat now + unat n < 2 ^ 64" "n \<noteq> 0" for n :: u64
    using that by (simp add: word_less_nat_alt unat_word_ariths unat_gt_0)
  show ?thesis
    using assms add by (auto simp: resolve_access_expiry_def Let_def fallback_access_lifetime_def split: option.splits)
qed

lemma fresh_token_in_future_witness:
  "100 < resolve_access_expiry text_json 100 [] (Some 3600)"
  using fresh_token_in_future [of 100 "Some 3600" text_json "[]"] by simp

text \<open>Claims that are not an object make \<^verbatim>\<open>GetDiscordId\<close> throw, where its comment promises 0.\<close>

lemma discord_id_throws:
  "js_object js (decode_claims js tok) = False \<Longrightarrow> js_lookup js (decode_claims js tok) (bytes_of ''vrs'') = None
    \<Longrightarrow> get_discord_id js tok = None"
  by (simp add: get_discord_id_def value_str_def value_or_def Let_def)

end
