(* ===== verification/Device_Login.thy ===== *)
theory Device_Login
  imports Auth_Token
begin

section \<open>Poll answers and the token refresh\<close>

text \<open>
  \<^verbatim>\<open>src/core/device_poll_response.cpp\<close> (what the poll endpoint answered) and
  \<^verbatim>\<open>src/core/auth_refresh.cpp\<close> (the refresh of an access token). A log line changes no value and is not modelled.
\<close>

subsection \<open>The poll answer\<close>

datatype poll_status = Pending | Verified | Expired | Error

record poll_response =
  status :: poll_status
  access_token :: bytes
  poll_refresh_token :: bytes
  poll_user_id :: bytes
  poll_username :: bytes
  expires_in :: "u64 option"
  refresh_expires_in :: "u64 option"
  server_status :: bytes
  answered :: bool

definition no_response :: poll_response where
  "no_response = \<lparr>status = Error, access_token = [], poll_refresh_token = [], poll_user_id = [], poll_username = [],
     expires_in = None, refresh_expires_in = None, server_status = [], answered = False\<rparr>"

text \<open>The body of the \<^verbatim>\<open>try\<close> block; \<open>None\<close> is an exception of the JSON library.\<close>

definition read_poll_response :: "'j json \<Rightarrow> 'j \<Rightarrow> poll_response option" where
  "read_poll_response js j =
     (let r0 = no_response\<lparr>answered := True\<rparr>
      in if js_lookup js j (bytes_of ''error'') \<noteq> None then Some r0
         else Option.bind (value_str js j ''status'') (\<lambda>st.
           let r1 = r0\<lparr>server_status := st\<rparr>
           in if st = bytes_of ''expired'' then Some (r1\<lparr>status := Expired\<rparr>)
              else if st \<noteq> bytes_of ''verified'' then Some (r1\<lparr>status := Pending\<rparr>)
              else Option.bind (value_str js j ''access_token'') (\<lambda>t0.
                Option.bind (if t0 = [] then value_str js j ''token'' else Some t0) (\<lambda>t.
                if t = [] then Some r1
                else Option.bind (value_str js j ''refresh_token'') (\<lambda>rt.
                  Option.bind (value_str js j ''user_id'') (\<lambda>uid.
                  Option.bind (value_str js j ''username'') (\<lambda>un.
                    Some (r1\<lparr>access_token := t, poll_refresh_token := rt, poll_user_id := uid, poll_username := un,
                      expires_in := read_expires_in js j ''expires_in'',
                      refresh_expires_in := read_expires_in js j ''refresh_token_expires_in'',
                      status := Verified\<rparr>))))))))"

definition parse_poll_response :: "'j json \<Rightarrow> bytes \<Rightarrow> poll_response" where
  "parse_poll_response js body =
     (case Option.bind (js_parse js body) (read_poll_response js) of None \<Rightarrow> no_response | Some r \<Rightarrow> r)"

definition known_poll_status :: "bytes \<Rightarrow> bool" where
  "known_poll_status st \<longleftrightarrow> st = bytes_of ''authorization_pending'' \<or> st = bytes_of ''pending''
     \<or> st = bytes_of ''expired'' \<or> st = bytes_of ''verified''"

definition poll_body_prefix :: "bytes \<Rightarrow> nat \<Rightarrow> bytes" where
  "poll_body_prefix body n = map (\<lambda>c. if c < 0x20 \<or> c = 0x7F then 0x2E else c) (take n body)"

subsection \<open>The refresh\<close>

datatype refresh_outcome =
  Refreshed | NoRefreshToken | TransportFailed | Denied | Unauthorized | ClientError | Rejected | Malformed | NoAccessToken

record http_response =
  transport_ok :: bool
  http_status :: int
  http_body :: bytes

definition refresh_lead :: u64 where "refresh_lead = 300"

definition access_token_needs_refresh :: "u64 \<Rightarrow> u64 \<Rightarrow> bool" where
  "access_token_needs_refresh live_expiry now \<longleftrightarrow> live_expiry \<le> now + refresh_lead"

definition refresh_messages :: "bytes list" where
  "refresh_messages = [bytes_of ''invalid or expired refresh token'', bytes_of ''refresh token expired'',
     bytes_of ''not a refresh token'', bytes_of ''invalid payload: refresh_token required'']"

definition trim_right :: "bytes \<Rightarrow> bytes" where
  "trim_right s = rev (dropWhile is_space (rev s))"

definition names_refresh_token :: "'j json \<Rightarrow> bytes \<Rightarrow> bool" where
  "names_refresh_token js body =
     (case js_parse js body of
        None \<Rightarrow> False
      | Some j \<Rightarrow> js_object js j \<and> (\<exists>field\<in>set [''message'', ''error''].
          case js_lookup js j (bytes_of field) of
            None \<Rightarrow> False
          | Some v \<Rightarrow> (case js_string js v of
                None \<Rightarrow> False
              | Some txt \<Rightarrow> trim_right (map to_lower txt) \<in> set refresh_messages)))"

text \<open>The body of the second \<^verbatim>\<open>try\<close> block.\<close>

definition read_refresh_response :: "'j json \<Rightarrow> cached_auth \<Rightarrow> u64 \<Rightarrow> 'j \<Rightarrow> (refresh_outcome \<times> cached_auth) option" where
  "read_refresh_response js auth now j =
     Option.bind (value_str js j ''access_token'') (\<lambda>t0.
     Option.bind (if t0 = [] then value_str js j ''token'' else Some t0) (\<lambda>t.
     Option.bind (value_str js j ''refresh_token'') (\<lambda>rt.
       if t = [] then Some (NoAccessToken, auth)
       else let te = resolve_access_expiry js now t (read_expires_in js j ''expires_in'');
                re = (if rt = [] then 0 else resolve_refresh_expiry now (read_expires_in js j ''refresh_token_expires_in''));
                auth1 = auth\<lparr>token := t, token_expiry := te\<rparr>
            in Some (Refreshed, if rt \<noteq> [] then auth1\<lparr>refresh_token := rt, refresh_token_expiry := re\<rparr> else auth1))))"

definition apply_refresh_response :: "'j json \<Rightarrow> cached_auth \<Rightarrow> http_response \<Rightarrow> u64 \<Rightarrow> refresh_outcome \<times> cached_auth" where
  "apply_refresh_response js auth r now =
     (if \<not> transport_ok r then (TransportFailed, auth)
      else if http_status r \<noteq> 200 then
        (let named = names_refresh_token js (http_body r); st = http_status r
         in if (st = 400 \<or> st = 401 \<or> st = 403) \<and> named then (Denied, auth)
            else if st = 401 \<or> st = 403 then (Unauthorized, auth)
            else if st \<ge> 400 \<and> st < 500 \<and> st \<noteq> 408 \<and> st \<noteq> 429 then (ClientError, auth)
            else (Rejected, auth))
      else (case Option.bind (js_parse js (http_body r)) (read_refresh_response js auth now) of
              None \<Rightarrow> (Malformed, auth) | Some res \<Rightarrow> res))"

definition build_device_auth_url :: "bytes \<Rightarrow> bytes \<Rightarrow> bytes \<Rightarrow> bytes" where
  "build_device_auth_url base key endpoint =
     base @ bytes_of ''/v2/rpc/device/auth/'' @ endpoint @ bytes_of ''?http_key='' @ key @ bytes_of ''&unwrap''"

text \<open>\<open>post\<close> is the HTTP client, \<open>dump\<close> the library's writer.\<close>

definition refresh_access_token :: "'j json \<Rightarrow> ((bytes \<times> field) list \<Rightarrow> bytes) \<Rightarrow> (bytes \<Rightarrow> bytes \<Rightarrow> http_response)
    \<Rightarrow> cached_auth \<Rightarrow> bytes \<Rightarrow> bytes \<Rightarrow> u64 \<Rightarrow> refresh_outcome \<times> cached_auth" where
  "refresh_access_token js dump post auth base key now =
     (if refresh_token auth = [] then (NoRefreshToken, auth)
      else apply_refresh_response js auth
        (post (build_device_auth_url base key (bytes_of ''refresh''))
           (dump [(bytes_of ''refresh_token'', FStr (refresh_token auth))])) now)"

subsection \<open>The poll answer is honest\<close>

lemma read_poll_cases:
  assumes "read_poll_response js j = Some r"
  shows "answered r \<and> (status r = Verified \<and> access_token r \<noteq> [] \<and> server_status r = bytes_of ''verified''
    \<or> status r = Expired \<and> access_token r = [] \<and> server_status r = bytes_of ''expired''
    \<or> status r = Pending \<and> access_token r = [] \<and> server_status r \<noteq> bytes_of ''expired'' \<and> server_status r \<noteq> bytes_of ''verified''
    \<or> status r = Error \<and> access_token r = [])"
proof (cases "js_lookup js j (bytes_of ''error'') \<noteq> None")
  case True
  with assms show ?thesis by (auto simp: read_poll_response_def no_response_def Let_def simp del: not_None_eq)
next
  case False
  then obtain st where st: "value_str js j ''status'' = Some st"
    using assms by (cases "value_str js j ''status''") (simp_all add: read_poll_response_def Let_def)
  show ?thesis
  proof (cases "st = bytes_of ''verified''")
    case False
    then show ?thesis using assms st \<open>\<not> js_lookup js j (bytes_of ''error'') \<noteq> None\<close>
      by (auto simp: read_poll_response_def no_response_def Let_def split: if_split_asm)
  next
    case v: True
    have ne: "bytes_of ''verified'' \<noteq> bytes_of ''expired''" by (simp add: bytes_of_def)
    obtain t0 where t0: "value_str js j ''access_token'' = Some t0" 
      using assms False st v ne by (cases "value_str js j ''access_token''") (simp_all add: read_poll_response_def Let_def)
    obtain t where t: "(if t0 = [] then value_str js j ''token'' else Some t0) = Some t" 
      using assms False st v ne t0 by (cases "(if t0 = [] then value_str js j ''token'' else Some t0)") (simp_all add: read_poll_response_def Let_def)
    show ?thesis
    proof (cases "t = []")
      case True
      with assms False st v ne t0 t show ?thesis by (auto simp: read_poll_response_def Let_def no_response_def)
    next
      case tn: False
      with assms False st v ne t0 t show ?thesis 
        by (auto simp: read_poll_response_def Let_def no_response_def bind_eq_Some_conv)
    qed
  qed
qed

lemma parsed_verified_has_token:
  assumes "status (parse_poll_response js body) = Verified"
  shows "access_token (parse_poll_response js body) \<noteq> [] \<and> answered (parse_poll_response js body)
    \<and> server_status (parse_poll_response js body) = bytes_of ''verified''"
proof (cases "Option.bind (js_parse js body) (read_poll_response js)")
  case None
  with assms show ?thesis by (simp add: parse_poll_response_def no_response_def)
next
  case (Some r)
  then obtain j where "read_poll_response js j = Some r" by (auto simp: bind_eq_Some_conv)
  from read_poll_cases [OF this] assms Some show ?thesis by (auto simp: parse_poll_response_def)
qed

lemma poll_body_is_one_line:
  "length (poll_body_prefix body n) \<le> n \<and> (\<forall>c\<in>set (poll_body_prefix body n). 0x20 \<le> c \<and> c \<noteq> 0x7F)"
  by (auto simp: poll_body_prefix_def)

subsection \<open>The refresh keeps the login\<close>

lemma read_refresh_cases:
  assumes "read_refresh_response js auth now j = Some (out, auth1)"
  shows "out = NoAccessToken \<and> auth1 = auth
    \<or> out = Refreshed \<and> token auth1 \<noteq> [] \<and> user_id auth1 = user_id auth \<and> username auth1 = username auth
      \<and> (refresh_token auth1 = refresh_token auth \<and> refresh_token_expiry auth1 = refresh_token_expiry auth
          \<or> refresh_token auth1 \<noteq> [])"
proof -
  obtain t0 where t0: "value_str js j ''access_token'' = Some t0"
    using assms by (cases "value_str js j ''access_token''") (simp_all add: read_refresh_response_def)
  obtain t where t: "(if t0 = [] then value_str js j ''token'' else Some t0) = Some t"
    using assms t0 by (cases "(if t0 = [] then value_str js j ''token'' else Some t0)") (simp_all add: read_refresh_response_def)
  obtain rt where rt: "value_str js j ''refresh_token'' = Some rt"
    using assms t0 t by (cases "value_str js j ''refresh_token''") (simp_all add: read_refresh_response_def)
  show ?thesis
    using assms unfolding read_refresh_response_def t0 bind.bind_lunit t rt Let_def
    by (cases "t = []"; cases "rt = []") auto
qed

lemma apply_refresh_cases:
  assumes "apply_refresh_response js auth r now = (out, auth1)"
  shows "out \<noteq> Refreshed \<and> auth1 = auth
    \<or> out = Refreshed \<and> transport_ok r \<and> http_status r = 200 \<and> token auth1 \<noteq> []
      \<and> user_id auth1 = user_id auth \<and> username auth1 = username auth
      \<and> (refresh_token auth1 = refresh_token auth \<and> refresh_token_expiry auth1 = refresh_token_expiry auth
          \<or> refresh_token auth1 \<noteq> [])"
proof (cases "transport_ok r \<and> http_status r = 200")
  case False
  then show ?thesis using assms by (auto simp: apply_refresh_response_def Let_def split: if_splits)
next
  case True
  then show ?thesis using assms read_refresh_cases [of js auth now _ out auth1]
    by (cases "Option.bind (js_parse js (http_body r)) (read_refresh_response js auth now)")
      (auto simp: apply_refresh_response_def bind_eq_Some_conv)
qed

lemma no_denied_200:
  "read_refresh_response js auth now j \<noteq> Some (Denied, a)"
  using read_refresh_cases [of js auth now j Denied a] by auto

lemma denied_iff:
  "fst (apply_refresh_response js auth r now) = Denied \<longleftrightarrow>
     transport_ok r \<and> http_status r \<in> {400, 401, 403} \<and> names_refresh_token js (http_body r)"
proof (cases "transport_ok r \<and> http_status r = 200")
  case False
  then show ?thesis by (auto simp: apply_refresh_response_def Let_def split: if_splits)
next
  case True
  then show ?thesis using no_denied_200 [of js auth now]
    by (cases "Option.bind (js_parse js (http_body r)) (read_refresh_response js auth now)")
      (auto simp: apply_refresh_response_def bind_eq_Some_conv)
qed

text \<open>A refresh of the login, whatever the server answers, either leaves the cached credentials exactly as they were, or
  reports success with a non-empty access token, keeping the refresh token and its expiry unless the answer carried a
  non-empty new one, and keeping the account; it reports the token itself as denied exactly when there was a refresh
  token and the answer was a 400, 401 or 403 whose message is one of the refresh service's own.\<close>

theorem refresh_failure_keeps_login:
  "(case refresh_access_token js dump post auth base key now of (out, auth1) \<Rightarrow>
      (if out = Refreshed
       then refresh_token auth \<noteq> [] \<and> token auth1 \<noteq> [] \<and> user_id auth1 = user_id auth \<and> username auth1 = username auth
         \<and> (refresh_token auth1 = refresh_token auth \<and> refresh_token_expiry auth1 = refresh_token_expiry auth
            \<or> 0 < length (refresh_token auth1))
       else auth1 = auth)
      \<and> (out = Denied \<longleftrightarrow> refresh_token auth \<noteq> []
          \<and> (let r = post (build_device_auth_url base key (bytes_of ''refresh''))
                       (dump [(bytes_of ''refresh_token'', FStr (refresh_token auth))])
             in transport_ok r \<and> http_status r \<in> {400, 401, 403} \<and> names_refresh_token js (http_body r))))"
proof (cases "refresh_token auth = []")
  case True
  then show ?thesis by (simp add: refresh_access_token_def)
next
  case False
  define r where "r = post (build_device_auth_url base key (bytes_of ''refresh''))
                       (dump [(bytes_of ''refresh_token'', FStr (refresh_token auth))])"
  obtain out auth1 where a: "apply_refresh_response js auth r now = (out, auth1)" by fastforce
  have e: "refresh_access_token js dump post auth base key now = (out, auth1)"
    using False a by (simp add: refresh_access_token_def r_def)
  show ?thesis
    unfolding e prod.case r_def [symmetric] Let_def
    using apply_refresh_cases [OF a] denied_iff [of js auth r now] False unfolding a fst_conv length_greater_0_conv by (cases "out = Refreshed") argo+
qed

end
