(* ===== verification/Device_Flow.thy ===== *)
theory Device_Flow
  imports Device_Login
begin

section \<open>The device-code login loop\<close>

text \<open>
  \<^verbatim>\<open>src/core/device_auth_flow.cpp\<close>. The injected operations of the flow act on a world of any
  type: each takes the world and returns it. Times are integers, in nanoseconds of the steady clock. A log
  line is the event it reports; its text is not modelled.
\<close>

definition device_auth_lifetime :: int where "device_auth_lifetime = 300 * 1000000000"
definition poll_interval :: int where "poll_interval = 3 * 1000000000"
definition browser_open_accepted_above :: int where "browser_open_accepted_above = 32"

datatype flow_end = EndVerified | NoCode | BrowserFailed | CodeExpired | TimedOut | PollErrors | Cancelled

datatype flow_event =
    LogUnavailable | LogNoCode | LogStarted bool | LogExpiresIn | LogOpened bytes int | LogTimedOut bool
  | LogStopped | LogCancelled | LogPoll nat poll_response | LogUnknownStatus bytes | LogExpired bool
  | LogWaiting int | LogAborted nat | LogRetry nat

record 'w flow_ops =
  op_complete :: bool                                     \<comment> \<open>no required operation is missing\<close>
  op_now :: "'w \<Rightarrow> int \<times> 'w"
  op_request_code :: "'w \<Rightarrow> bytes \<times> 'w"
  op_open_browser :: "bytes \<Rightarrow> 'w \<Rightarrow> int \<times> 'w"
  op_open_failure :: "bytes \<Rightarrow> bytes \<Rightarrow> int \<Rightarrow> 'w \<Rightarrow> int \<times> 'w"
  op_poll :: "bytes \<Rightarrow> 'w \<Rightarrow> poll_response \<times> 'w"
  op_sleep :: "int \<Rightarrow> 'w \<Rightarrow> 'w"
  op_log :: "flow_event \<Rightarrow> 'w \<Rightarrow> 'w"                     \<comment> \<open>does nothing when absent\<close>
  op_cancelled :: "('w \<Rightarrow> bool \<times> 'w) option"
  op_on_code_issued :: "(bytes \<Rightarrow> bytes \<Rightarrow> 'w \<Rightarrow> 'w) option"
  op_on_end :: "(flow_end \<Rightarrow> 'w \<Rightarrow> 'w) option"
  op_renews_expired_codes :: bool
  op_shows_code_only :: bool
  op_max_errors :: nat

text \<open>How a flow stands: ended with an optional verified response, or the three counters and the world.\<close>

type_synonym 'w flow_result = "poll_response option \<times> flow_end \<times> 'w"

record counters =
  poll_count :: nat
  polls_sent :: nat
  errors :: nat

definition timed_out :: "'w flow_ops \<Rightarrow> 'w \<Rightarrow> 'w flow_result" where
  "timed_out ops w = (None, TimedOut, op_log ops (LogTimedOut (op_renews_expired_codes ops)) w)"

definition ask_cancelled :: "'w flow_ops \<Rightarrow> 'w \<Rightarrow> bool \<times> 'w" where
  "ask_cancelled ops w = (case op_cancelled ops of None \<Rightarrow> (False, w) | Some f \<Rightarrow> f w)"

definition log_poll :: "'w flow_ops \<Rightarrow> nat \<Rightarrow> poll_response \<Rightarrow> 'w \<Rightarrow> 'w" where
  "log_poll ops n r w =
     (let w1 = op_log ops (LogPoll n r) w
      in if status r = Pending \<and> answered r \<and> \<not> known_poll_status (server_status r)
         then op_log ops (LogUnknownStatus (server_status r)) w1 else w1)"

text \<open>The \<^verbatim>\<open>switch\<close> on an answer that counts.\<close>

definition flow_answer :: "'w flow_ops \<Rightarrow> int \<Rightarrow> counters \<Rightarrow> poll_response \<Rightarrow> 'w \<Rightarrow> 'w flow_result + counters \<times> 'w" where
  "flow_answer ops deadline k r w = (case status r of
      Verified \<Rightarrow> Inl (Some r, EndVerified, w)
    | Expired \<Rightarrow> Inl (None, CodeExpired, op_log ops (LogExpired (op_renews_expired_codes ops)) w)
    | Pending \<Rightarrow>
        (let k1 = k\<lparr>errors := 0, poll_count := poll_count k + 1\<rparr>
         in if poll_count k1 mod 10 = 0
            then (let (t, w1) = op_now ops w in Inr (k1, op_log ops (LogWaiting (deadline - t)) w1))
            else Inr (k1, w))
    | Error \<Rightarrow>
        (let k1 = k\<lparr>errors := errors k + 1\<rparr>
         in if errors k1 \<ge> op_max_errors ops then Inl (None, PollErrors, op_log ops (LogAborted (errors k1)) w)
            else Inr (k1, op_log ops (LogRetry (errors k1)) w)))"

text \<open>One turn of the loop.\<close>

definition flow_turn :: "'w flow_ops \<Rightarrow> bytes \<Rightarrow> int \<Rightarrow> counters \<Rightarrow> 'w \<Rightarrow> 'w flow_result + counters \<times> 'w" where
  "flow_turn ops dcode deadline k w0 =
     (let (before, w1) = op_now ops w0
      in if before \<ge> deadline then Inl (timed_out ops w1)
         else let remaining = deadline - before;
                  wait = (if remaining < poll_interval then remaining else poll_interval);
                  w2 = (if wait > 0 then op_sleep ops wait w1 else w1);
                  (stop, w3) = ask_cancelled ops w2
              in if stop then Inl (None, Cancelled, op_log ops LogCancelled w3)
                 else let (t, w4) = op_now ops w3
                      in if t \<ge> deadline then Inl (timed_out ops w4)
                         else let (r, w5) = op_poll ops dcode w4;
                                  k1 = k\<lparr>polls_sent := polls_sent k + 1\<rparr>;
                                  w6 = log_poll ops (polls_sent k1) r w5;
                                  (late, w7) = (if status r \<noteq> Verified
                                                then (let (u, w) = op_now ops w6 in (u \<ge> deadline, w)) else (False, w6))
                              in if late then Inl (timed_out ops w7) else flow_answer ops deadline k1 r w7)"

partial_function (option) flow_loop :: "'w flow_ops \<Rightarrow> bytes \<Rightarrow> int \<Rightarrow> counters \<Rightarrow> 'w \<Rightarrow> 'w flow_result option" where
  "flow_loop ops dcode deadline k w = (case flow_turn ops dcode deadline k w of
      Inl res \<Rightarrow> Some res | Inr (k1, w1) \<Rightarrow> flow_loop ops dcode deadline k1 w1)"

definition no_counters :: counters where
  "no_counters = \<lparr>poll_count = 0, polls_sent = 0, errors = 0\<rparr>"

text \<open>The outer option is a loop that does not end; the end is \<open>None\<close> when an operation is missing.\<close>

definition run_flow :: "'w flow_ops \<Rightarrow> bytes \<Rightarrow> 'w \<Rightarrow> (poll_response option \<times> flow_end option \<times> 'w) option" where
  "run_flow ops login_url w0 =
     (if \<not> op_complete ops then Some (None, None, op_log ops LogUnavailable w0)
      else let (dcode, w1) = op_request_code ops w0
      in if dcode = [] then Some (None, Some NoCode, op_log ops LogNoCode w1)
      else let (t0, w2) = op_now ops w1;
               deadline = t0 + device_auth_lifetime;
               w3 = op_log ops LogExpiresIn (op_log ops (LogStarted (op_shows_code_only ops)) w2);
               full_url = login_url @ bytes_of ''?code='' @ dcode;
               w4 = (case op_on_code_issued ops of None \<Rightarrow> w3 | Some f \<Rightarrow> f dcode login_url w3);
               (browser, w5) = op_open_browser ops full_url w4;
               w6 = op_log ops (LogOpened full_url browser) w5;
               (ui, w7) = (if browser \<le> browser_open_accepted_above then op_open_failure ops dcode login_url browser w6
                           else (1, w6));
               (t1, w8) = op_now ops w7
      in if browser \<le> browser_open_accepted_above \<and> ui = 0
         then Some (None, Some BrowserFailed, op_log ops LogStopped w8)
         else if t1 \<ge> deadline then (let (r, e, w) = timed_out ops w8 in Some (r, Some e, w))
         else map_option (\<lambda>(r, e, w). (r, Some e, w)) (flow_loop ops dcode deadline no_counters w8))"

definition run_device_code_flow :: "'w flow_ops \<Rightarrow> bytes \<Rightarrow> 'w \<Rightarrow> (poll_response option \<times> 'w) option" where
  "run_device_code_flow ops login_url w0 = map_option (\<lambda>(r, e, w).
     (r, case (e, op_on_end ops) of (Some e, Some f) \<Rightarrow> f e w | _ \<Rightarrow> w)) (run_flow ops login_url w0)"

subsection \<open>Asking until approved\<close>

record sign_in =
  si_verified :: bool
  si_end :: flow_end

record renew_policy =
  max_failures :: nat
  retry_delay :: int

text \<open>The outer option is a wait that does not end.\<close>

partial_function (option) until_approved :: "('w \<Rightarrow> sign_in \<times> 'w) \<Rightarrow> (int \<Rightarrow> 'w \<Rightarrow> 'w) \<Rightarrow> renew_policy \<Rightarrow> nat \<Rightarrow> 'w
    \<Rightarrow> (bool \<times> 'w) option" where
  "until_approved attempt pause policy failures w =
     (let (r, w1) = attempt w
      in if si_verified r then Some (True, w1)
         else if si_end r = CodeExpired \<or> si_end r = TimedOut then until_approved attempt pause policy 0 w1
         else if si_end r = NoCode \<or> si_end r = PollErrors then
           (if failures + 1 \<ge> max_failures policy then Some (False, w1)
            else until_approved attempt pause policy (failures + 1)
                   (if retry_delay policy > 0 then pause (retry_delay policy) w1 else w1))
         else Some (False, w1))"

subsection \<open>A login ends\<close>

text \<open>
  What the proofs rely on: the clock \<open>clk\<close> of the world never goes back, a sleep lasts at least as long as asked,
  and \<open>hist\<close> holds the status of every poll answered so far, newest first.
\<close>

definition quiet :: "('w \<Rightarrow> int) \<Rightarrow> ('w \<Rightarrow> poll_status list) \<Rightarrow> 'w \<Rightarrow> 'w \<Rightarrow> bool" where
  "quiet clk hist w w1 \<longleftrightarrow> clk w \<le> clk w1 \<and> hist w1 = hist w"

definition flow_laws :: "('w \<Rightarrow> int) \<Rightarrow> ('w \<Rightarrow> poll_status list) \<Rightarrow> 'w flow_ops \<Rightarrow> bool" where
  "flow_laws clk hist ops \<longleftrightarrow>
     (\<forall>w. case op_now ops w of (t, w1) \<Rightarrow> t = clk w1 \<and> quiet clk hist w w1)
   \<and> (\<forall>d w. clk w + d \<le> clk (op_sleep ops d w) \<and> hist (op_sleep ops d w) = hist w)
   \<and> (\<forall>c w. case op_poll ops c w of (r, w1) \<Rightarrow> clk w \<le> clk w1 \<and> hist w1 = status r # hist w)
   \<and> (\<forall>w. quiet clk hist w (snd (op_request_code ops w)))
   \<and> (\<forall>u w. quiet clk hist w (snd (op_open_browser ops u w)))
   \<and> (\<forall>c u b w. quiet clk hist w (snd (op_open_failure ops c u b w)))
   \<and> (\<forall>e w. quiet clk hist w (op_log ops e w))
   \<and> (\<forall>f w. op_cancelled ops = Some f \<longrightarrow> quiet clk hist w (snd (f w)))
   \<and> (\<forall>f c u w. op_on_code_issued ops = Some f \<longrightarrow> quiet clk hist w (f c u w))
   \<and> (\<forall>f e w. op_on_end ops = Some f \<longrightarrow> quiet clk hist w (f e w))"

lemma quiet_refl: "quiet clk hist w w"
  by (simp add: quiet_def)

lemma quiet_trans: "quiet clk hist w1 w2 \<Longrightarrow> quiet clk hist w2 w3 \<Longrightarrow> quiet clk hist w1 w3"
  by (simp add: quiet_def)

lemma lawD:
  assumes "flow_laws clk hist ops"
  shows "op_now ops w = (t, w1) \<Longrightarrow> t = clk w1 \<and> quiet clk hist w w1"
    and "clk w + d \<le> clk (op_sleep ops d w) \<and> hist (op_sleep ops d w) = hist w"
    and "op_poll ops c w = (r, w1) \<Longrightarrow> clk w \<le> clk w1 \<and> hist w1 = status r # hist w"
    and "op_request_code ops w = (c, w1) \<Longrightarrow> quiet clk hist w w1"
    and "op_open_browser ops u w = (b, w1) \<Longrightarrow> quiet clk hist w w1"
    and "op_open_failure ops c u b w = (x, w1) \<Longrightarrow> quiet clk hist w w1"
    and "quiet clk hist w (op_log ops e w)"
    and "ask_cancelled ops w = (s, w1) \<Longrightarrow> quiet clk hist w w1"
    and "op_on_code_issued ops = Some f \<Longrightarrow> quiet clk hist w (f c u w)"
    and "op_on_end ops = Some g \<Longrightarrow> quiet clk hist w (g fe w)"
proof -
  note l = assms [unfolded flow_laws_def]
  show "op_now ops w = (t, w1) \<Longrightarrow> t = clk w1 \<and> quiet clk hist w w1" using l [THEN conjunct1] by (auto split: prod.splits)
  note l = l [THEN conjunct2]
  show "clk w + d \<le> clk (op_sleep ops d w) \<and> hist (op_sleep ops d w) = hist w" using l [THEN conjunct1] by blast
  note l = l [THEN conjunct2]
  show "op_poll ops c w = (r, w1) \<Longrightarrow> clk w \<le> clk w1 \<and> hist w1 = status r # hist w"
    using l [THEN conjunct1] by (auto split: prod.splits)
  note l = l [THEN conjunct2]
  show "op_request_code ops w = (c, w1) \<Longrightarrow> quiet clk hist w w1" using l [THEN conjunct1] by (metis snd_conv)
  note l = l [THEN conjunct2]
  show "op_open_browser ops u w = (b, w1) \<Longrightarrow> quiet clk hist w w1" using l [THEN conjunct1] by (metis snd_conv)
  note l = l [THEN conjunct2]
  show "op_open_failure ops c u b w = (x, w1) \<Longrightarrow> quiet clk hist w w1"
    using l [THEN conjunct1] by (metis snd_conv)
  note l = l [THEN conjunct2]
  show "quiet clk hist w (op_log ops e w)" using l [THEN conjunct1] by blast
  note l = l [THEN conjunct2]
  show "ask_cancelled ops w = (s, w1) \<Longrightarrow> quiet clk hist w w1"
    using l [THEN conjunct1] by (cases "op_cancelled ops") (auto simp: ask_cancelled_def quiet_refl, metis snd_conv)
  note l = l [THEN conjunct2]
  show "op_on_code_issued ops = Some f \<Longrightarrow> quiet clk hist w (f c u w)" using l [THEN conjunct1] by blast
  show "op_on_end ops = Some g \<Longrightarrow> quiet clk hist w (g fe w)" using l [THEN conjunct2] by blast
qed

lemma quiet_log_poll:
  assumes "flow_laws clk hist ops"
  shows "quiet clk hist w (log_poll ops n r w)"
  by (auto simp: log_poll_def Let_def intro: lawD(7) [OF assms] quiet_trans)

definition max_run :: "'w flow_ops \<Rightarrow> nat" where "max_run ops = max 1 (op_max_errors ops)"

text \<open>What an end says of the answers \<open>h\<close> of the flow and of the clock.\<close>

definition end_told :: "nat \<Rightarrow> int \<Rightarrow> poll_response option \<Rightarrow> flow_end \<Rightarrow> poll_status list \<Rightarrow> int \<Rightarrow> bool" where
  "end_told m deadline r e h t \<longleftrightarrow> (r \<noteq> None \<longleftrightarrow> Verified \<in> set h) \<and> (case e of
      EndVerified \<Rightarrow> (\<exists>p. r = Some p \<and> status p = Verified) \<and> h \<noteq> [] \<and> hd h = Verified
    | CodeExpired \<Rightarrow> r = None \<and> h \<noteq> [] \<and> hd h = Expired
    | PollErrors \<Rightarrow> r = None \<and> take m h = replicate m Error
    | TimedOut \<Rightarrow> r = None \<and> deadline \<le> t
    | _ \<Rightarrow> r = None)"

lemma timed_out_told:
  assumes "flow_laws clk hist ops" "timed_out ops w = (r, e, w1)" "deadline \<le> clk w" "Verified \<notin> set h"
  shows "end_told m deadline r e h (clk w1) \<and> quiet clk hist w w1"
  using assms(2-4) lawD(7) [OF assms(1), of w "LogTimedOut (op_renews_expired_codes ops)"]
  by (auto simp: timed_out_def end_told_def quiet_def)

lemma flow_answer_told:
  assumes laws: "flow_laws clk hist ops" and h: "hist w = status r # hs @ base"
    and nv: "Verified \<notin> set hs"
    and er: "take (errors k) hs = replicate (errors k) Error" "errors k < max_run ops"
  shows "case flow_answer ops deadline k r w of
      Inl (res, e, w1) \<Rightarrow> hist w1 = status r # hs @ base \<and> end_told (max_run ops) deadline res e (status r # hs) (clk w1)
    | Inr (k1, w1) \<Rightarrow> hist w1 = status r # hs @ base \<and> clk w \<le> clk w1 \<and> status r \<noteq> Verified
        \<and> errors k1 < max_run ops \<and> take (errors k1) (status r # hs) = replicate (errors k1) Error"
proof (cases "status r")
  case Pending
  obtain t w1 where n: "op_now ops w = (t, w1)" by fastforce
  show ?thesis using Pending lawD(1) [OF laws n] lawD(7) [OF laws, of w1] h nv
    by (auto simp: flow_answer_def Let_def n quiet_def max_run_def intro: order_trans)
next
  case Verified
  then show ?thesis using h nv by (auto simp: flow_answer_def end_told_def)
next
  case Expired
  then show ?thesis using h nv lawD(7) [OF laws, of w] by (auto simp: flow_answer_def end_told_def quiet_def)
next
  case Error
  have "errors k + 1 = max_run ops" if "op_max_errors ops \<le> errors k + 1" using that er(2) by (auto simp: max_run_def)
  moreover have "errors k + 1 < max_run ops" if "\<not> op_max_errors ops \<le> errors k + 1" using that by (auto simp: max_run_def)
  ultimately show ?thesis using h nv lawD(7) [OF laws, of w] Error er
    by (auto simp: flow_answer_def end_told_def quiet_def Let_def)
qed


lemma flow_turn_told:
  assumes laws: "flow_laws clk hist ops" and h: "hist w = hs @ base"
    and nv: "Verified \<notin> set hs"
    and er: "take (errors k) hs = replicate (errors k) Error" "errors k < max_run ops"
  shows "case flow_turn ops dcode deadline k w of
      Inl (res, e, w1) \<Rightarrow> (\<exists>h. hist w1 = h @ base \<and> end_told (max_run ops) deadline res e h (clk w1)
        \<and> (h = hs \<or> (\<exists>s. h = s # hs) \<and> clk w + poll_interval < deadline))
    | Inr (k1, w1) \<Rightarrow> (\<exists>s. hist w1 = s # hs @ base \<and> s \<noteq> Verified \<and> clk w + poll_interval \<le> clk w1 \<and> clk w + poll_interval < deadline
        \<and> errors k1 < max_run ops \<and> take (errors k1) (s # hs) = replicate (errors k1) Error)"
proof -
  obtain before w1 where 1: "op_now ops w = (before, w1)" by fastforce
  note q1 = lawD(1) [OF laws 1, unfolded quiet_def]
  show ?thesis
  proof (cases "before \<ge> deadline")
    case True
    obtain res e u where t: "timed_out ops w1 = (res, e, u)" by (cases "timed_out ops w1") auto
    show ?thesis using timed_out_told [where deadline = deadline and h = hs, OF laws t] True q1 h nv
      by (auto simp: flow_turn_def 1 t quiet_def)
  next
    case False
    define wait where "wait = (if deadline - before < poll_interval then deadline - before else poll_interval)"
    have pos: "0 < wait" using False by (auto simp: wait_def poll_interval_def)
    define w2 where "w2 = op_sleep ops wait w1"
    have q2: "clk w1 + wait \<le> clk w2" "hist w2 = hist w1" using lawD(2) [OF laws, of w1 wait] by (simp_all add: w2_def)
    obtain stop w3 where 3: "ask_cancelled ops w2 = (stop, w3)" by fastforce
    note q3 = lawD(8) [OF laws 3, unfolded quiet_def]
    obtain t w4 where 4: "op_now ops w3 = (t, w4)" by fastforce
    note q4 = lawD(1) [OF laws 4, unfolded quiet_def]
    have e1: "flow_turn ops dcode deadline k w =
      (if stop then Inl (None, Cancelled, op_log ops LogCancelled w3)
       else if t \<ge> deadline then Inl (timed_out ops w4)
       else let (r, w5) = op_poll ops dcode w4;
                k1 = k\<lparr>polls_sent := polls_sent k + 1\<rparr>;
                w6 = log_poll ops (polls_sent k1) r w5;
                (late, w7) = (if status r \<noteq> Verified
                              then (let (u, w) = op_now ops w6 in (u \<ge> deadline, w)) else (False, w6))
            in if late then Inl (timed_out ops w7) else flow_answer ops deadline k1 r w7)"
      using False pos by (simp add: flow_turn_def 1 Let_def 3 4 wait_def [symmetric] w2_def [symmetric])
    consider "stop" | "\<not> stop" "t \<ge> deadline" | "\<not> stop" "t < deadline" by linarith
    then show ?thesis
    proof cases
      case 1
      then show ?thesis using e1 lawD(7) [OF laws, of w3 LogCancelled, unfolded quiet_def] q1 q2 q3 h nv
        by (auto simp: end_told_def)
    next
      case 2
      obtain res e u where t: "timed_out ops w4 = (res, e, u)" by (cases "timed_out ops w4") auto
      show ?thesis using 2 e1 timed_out_told [where deadline = deadline and h = hs, OF laws t] q1 q2 q3 q4 h nv by (auto simp: t quiet_def)
    next
      case 3
      have wait: "wait = poll_interval" using 3 q1 q2 q3 q4 by (auto simp: wait_def split: if_splits)
      have late: "clk w + poll_interval < deadline" "clk w + poll_interval \<le> clk w4" using 3 q1 q2 q3 q4 wait by auto
      obtain r w5 where 5: "op_poll ops dcode w4 = (r, w5)" by fastforce
      note q5 = lawD(3) [OF laws 5]
      define k1 where "k1 = k\<lparr>polls_sent := polls_sent k + 1\<rparr>"
      define w6 where "w6 = log_poll ops (polls_sent k1) r w5"
      note q6 = quiet_log_poll [OF laws, of w5 "polls_sent k1" r, folded w6_def, unfolded quiet_def]
      obtain lt w7 where 7: "(if status r \<noteq> Verified
                              then (let (u, w) = op_now ops w6 in (u \<ge> deadline, w)) else (False, w6)) = (lt, w7)" by fastforce
      have q7: "clk w6 \<le> clk w7 \<and> hist w7 = hist w6 \<and> (lt \<longrightarrow> deadline \<le> clk w7 \<and> status r \<noteq> Verified)"
        using 7 lawD(1) [OF laws, of w6, unfolded quiet_def] by (auto simp: Let_def split: if_splits prod.splits)
      have e2: "flow_turn ops dcode deadline k w = (if lt then Inl (timed_out ops w7) else flow_answer ops deadline k1 r w7)"
      proof -
        have n: "stop = False" "(deadline \<le> t) = False" using 3 by simp_all
        show ?thesis unfolding e1
          by (simp only: n if_False 5 Let_def prod.case k1_def [symmetric] w6_def [symmetric] 7 [unfolded Let_def])
      qed
      have h7: "hist w7 = status r # hs @ base" using q1 q2 q3 q4 q5 q6 q7 h by simp
      have er1: "take (errors k1) hs = replicate (errors k1) Error" "errors k1 < max_run ops" using er by (simp_all add: k1_def)
      show ?thesis
      proof (cases lt)
        case True
        obtain res e u where t: "timed_out ops w7 = (res, e, u)" by (cases "timed_out ops w7") auto
        have "hist u = (status r # hs) @ base \<and> end_told (max_run ops) deadline res e (status r # hs) (clk u)"
          using timed_out_told [where deadline = deadline and h = "status r # hs", OF laws t] q7 True h7 nv by (auto simp: quiet_def)
        then show ?thesis using True late(1) unfolding e2 t by (auto intro!: exI [of _ "status r # hs"])
      next
        case False
        have c: "clk w + poll_interval \<le> clk w7" using late q5 q6 q7 by linarith
        show ?thesis using flow_answer_told [where deadline = deadline, OF laws h7 nv er1] late(1) c False unfolding e2
          by (cases "flow_answer ops deadline k1 r w7")
            (auto intro!: exI [of _ "status r # hs"] intro: order_trans)
      qed
    qed
  qed
qed


lemma flow_loop_told:
  assumes laws: "flow_laws clk hist ops"
  shows "hist w = hs @ base \<Longrightarrow> Verified \<notin> set hs \<Longrightarrow> take (errors k) hs = replicate (errors k) Error \<Longrightarrow> errors k < max_run ops
    \<Longrightarrow> t1 + int (length hs) * poll_interval \<le> clk w
    \<Longrightarrow> hs = [] \<or> t1 + int (length hs) * poll_interval < deadline
    \<Longrightarrow> \<exists>res e w1 h. flow_loop ops dcode deadline k w = Some (res, e, w1) \<and> hist w1 = h @ base
        \<and> end_told (max_run ops) deadline res e h (clk w1)
        \<and> (h = [] \<or> t1 + int (length h) * poll_interval < deadline)"
proof (induction "nat (deadline - clk w)" arbitrary: w k hs rule: less_induct)
  case less
  note told = flow_turn_told [where deadline = deadline and dcode = dcode, OF laws less.prems(1-4)]
  have unf: "flow_loop ops dcode deadline k w = (case flow_turn ops dcode deadline k w of
      Inl res \<Rightarrow> Some res | Inr (k1, w1) \<Rightarrow> flow_loop ops dcode deadline k1 w1)"
    by (rule flow_loop.simps)
  show ?case
  proof (cases "flow_turn ops dcode deadline k w")
    case (Inl x)
    obtain res e w1 where x: "x = (res, e, w1)" by (cases x)
    obtain h where h: "hist w1 = h @ base" "end_told (max_run ops) deadline res e h (clk w1)"
      "h = hs \<or> (\<exists>s. h = s # hs) \<and> clk w + poll_interval < deadline"
      using told unfolding Inl x by auto
    from h(3) have "h = [] \<or> t1 + int (length h) * poll_interval < deadline"
      using less.prems(5,6) by (auto simp: algebra_simps)
    with h(1,2) show ?thesis using unf Inl x by auto
  next
    case (Inr x)
    obtain k1 w1 where x: "x = (k1, w1)" by (cases x)
    obtain s where s: "hist w1 = (s # hs) @ base" "clk w + poll_interval \<le> clk w1" "clk w + poll_interval < deadline"
      "errors k1 < max_run ops" "take (errors k1) (s # hs) = replicate (errors k1) Error" "s \<noteq> Verified"
      using told unfolding Inr x by auto
    have "nat (deadline - clk w1) < nat (deadline - clk w)" using s(2,3) by (simp add: poll_interval_def)
    moreover have "t1 + int (length (s # hs)) * poll_interval \<le> clk w1" using less.prems(5) s(2) by (simp add: algebra_simps)
    moreover have "t1 + int (length (s # hs)) * poll_interval < deadline" using less.prems(5) s(3) by (simp add: algebra_simps)
    ultimately show ?thesis using less.hyps [of w1 "s # hs" k1] s(1,4,5,6) less.prems(2) unf Inr x by simp
  qed
qed

lemma run_flow_told:
  assumes laws: "flow_laws clk hist ops"
  shows "\<exists>res e w1 h. run_flow ops url w0 = Some (res, e, w1) \<and> hist w1 = h @ hist w0 \<and> length h \<le> 99
    \<and> (case e of None \<Rightarrow> \<not> op_complete ops \<and> res = None
       | Some e \<Rightarrow> end_told (max_run ops) (clk w0 + device_auth_lifetime) res e h (clk w1))"
proof (cases "op_complete ops")
  case False
  then show ?thesis using lawD(7) [OF laws, of w0] by (auto simp: run_flow_def quiet_def)
next
  case complete: True
  obtain dcode w1 where 1: "op_request_code ops w0 = (dcode, w1)" by fastforce
  note q1 = lawD(4) [OF laws 1, unfolded quiet_def]
  show ?thesis
  proof (cases "dcode = []")
    case True
    then show ?thesis using complete q1 lawD(7) [OF laws, of w1]
      by (auto simp: run_flow_def 1 quiet_def end_told_def)
  next
    case False
    obtain t0 w2 where 2: "op_now ops w1 = (t0, w2)" by fastforce
    note q2 = lawD(1) [OF laws 2, unfolded quiet_def]
    define deadline where "deadline = t0 + device_auth_lifetime"
    define w3 where "w3 = op_log ops LogExpiresIn (op_log ops (LogStarted (op_shows_code_only ops)) w2)"
    have q3: "clk w2 \<le> clk w3 \<and> hist w3 = hist w2"
      using quiet_trans [OF lawD(7) [OF laws] lawD(7) [OF laws]] by (simp add: w3_def quiet_def)
    define full where "full = url @ bytes_of ''?code='' @ dcode"
    define w4 where "w4 = (case op_on_code_issued ops of None \<Rightarrow> w3 | Some f \<Rightarrow> f dcode url w3)"
    have q4: "clk w3 \<le> clk w4 \<and> hist w4 = hist w3"
      using lawD(9) [OF laws, unfolded quiet_def] by (cases "op_on_code_issued ops") (auto simp: w4_def)
    obtain b w5 where 5: "op_open_browser ops full w4 = (b, w5)" by fastforce
    note q5 = lawD(5) [OF laws 5, unfolded quiet_def]
    define w6 where "w6 = op_log ops (LogOpened full b) w5"
    have q6: "clk w5 \<le> clk w6 \<and> hist w6 = hist w5" using lawD(7) [OF laws] by (simp add: w6_def quiet_def)
    obtain ui w7 where 7: "(if b \<le> browser_open_accepted_above then op_open_failure ops dcode url b w6 else (1, w6)) = (ui, w7)"
      by fastforce
    have q7: "clk w6 \<le> clk w7 \<and> hist w7 = hist w6"
      using 7 lawD(6) [OF laws, unfolded quiet_def] by (auto split: if_splits)
    obtain t1 w8 where 8: "op_now ops w7 = (t1, w8)" by fastforce
    note q8 = lawD(1) [OF laws 8, unfolded quiet_def]
    have e: "run_flow ops url w0 =
      (if b \<le> browser_open_accepted_above \<and> ui = 0 then Some (None, Some BrowserFailed, op_log ops LogStopped w8)
       else if t1 \<ge> deadline then (let (r, e, w) = timed_out ops w8 in Some (r, Some e, w))
       else map_option (\<lambda>(r, e, w). (r, Some e, w)) (flow_loop ops dcode deadline no_counters w8))"
      unfolding run_flow_def using complete False
      by (simp only: 1 2 5 7 8 Let_def prod.case deadline_def [symmetric] w3_def [symmetric] full_def [symmetric]
          w4_def [symmetric] w6_def [symmetric] not_True_eq_False if_False)
    have hist8: "hist w8 = hist w0" using q1 q2 q3 q4 q5 q6 q7 q8 by simp
    have t01: "clk w0 \<le> t0" "t0 \<le> clk w8" using q1 q2 q3 q4 q5 q6 q7 q8 by simp_all
    have dl: "end_told m (clk w0 + device_auth_lifetime) r en h t" if "end_told m deadline r en h t" for m r en h t
      using that t01 by (auto simp: end_told_def deadline_def split: flow_end.splits)
    consider "b \<le> browser_open_accepted_above \<and> ui = 0" | "\<not> (b \<le> browser_open_accepted_above \<and> ui = 0)" "t1 \<ge> deadline"
      | "\<not> (b \<le> browser_open_accepted_above \<and> ui = 0)" "t1 < deadline" by linarith
    then show ?thesis
    proof cases
      case 1
      then show ?thesis using e hist8 lawD(7) [OF laws, of w8] by (auto simp: quiet_def end_told_def)
    next
      case 2
      obtain r en u where t: "timed_out ops w8 = (r, en, u)" by (cases "timed_out ops w8") auto
      show ?thesis
        using timed_out_told [where deadline = deadline and h = "[]" and m = "max_run ops", OF laws t] 2 q8 hist8
        unfolding e t by (auto simp: quiet_def intro!: dl)
    next
      case 3
      obtain res en u h where l: "flow_loop ops dcode deadline no_counters w8 = Some (res, en, u)"
        "hist u = h @ hist w0" "end_told (max_run ops) deadline res en h (clk u)"
        "h = [] \<or> clk w8 + int (length h) * poll_interval < deadline"
      proof -
        have "errors no_counters = 0" "0 < max_run ops" by (simp_all add: no_counters_def max_run_def)
        with flow_loop_told [where hs = "[]" and base = "hist w0" and k = no_counters and ?t1.0 = "clk w8" and w = w8
            and deadline = deadline and dcode = dcode, OF laws] hist8 that
        show ?thesis by auto
      qed
      have "length h \<le> 99"
        using l(4) 3 t01 q8 by (auto simp: deadline_def device_auth_lifetime_def poll_interval_def)
      then show ?thesis using 3 l(1,2) dl [OF l(3)] unfolding e by auto
    qed
  qed
qed


text \<open>A server that answers pending, then fails once, then answers verified.\<close>

definition trial_ops :: "(int \<times> poll_status list) flow_ops" where
  "trial_ops = \<lparr>op_complete = True, op_now = (\<lambda>w. (fst w, w)), op_request_code = (\<lambda>w. ([0x41], w)),
     op_open_browser = (\<lambda>u w. (33, w)), op_open_failure = (\<lambda>c u b w. (0, w)),
     op_poll = (\<lambda>c w. let s = (if length (snd w) = 0 then Pending else if length (snd w) = 1 then Error else Verified)
                      in (no_response\<lparr>status := s\<rparr>, (fst w, s # snd w))),
     op_sleep = (\<lambda>d w. (fst w + d, snd w)), op_log = (\<lambda>e w. w), op_cancelled = None, op_on_code_issued = None,
     op_on_end = None, op_renews_expired_codes = False, op_shows_code_only = False, op_max_errors = 5\<rparr>"

lemma trial_laws: "flow_laws fst snd trial_ops"
  by (simp add: flow_laws_def trial_ops_def quiet_def Let_def no_response_def)


lemma trial_run: "map_option (\<lambda>(r, w). (map_option status r, w)) (run_device_code_flow trial_ops [] (0, []))
  = Some (Some Verified, 9000000000, [Verified, Error, Pending])"
  by (simp add: run_device_code_flow_def run_flow_def trial_ops_def Let_def device_auth_lifetime_def
      browser_open_accepted_above_def flow_loop.simps flow_turn_def poll_interval_def ask_cancelled_def
      log_poll_def flow_answer_def no_counters_def no_response_def)

subsection \<open>The wait for approval ends\<close>

text \<open>\<open>tried\<close> counts the attempts made, the \<open>i\<close>-th of which ends as \<open>sched i\<close>; a pause makes none.\<close>

definition scheduled :: "('w \<Rightarrow> sign_in \<times> 'w) \<Rightarrow> (int \<Rightarrow> 'w \<Rightarrow> 'w) \<Rightarrow> ('w \<Rightarrow> nat) \<Rightarrow> (nat \<Rightarrow> sign_in) \<Rightarrow> bool" where
  "scheduled attempt pause tried sched \<longleftrightarrow>
     (\<forall>w. fst (attempt w) = sched (tried w) \<and> tried (snd (attempt w)) = Suc (tried w)) \<and> (\<forall>d w. tried (pause d w) = tried w)"

definition ran_out :: "sign_in \<Rightarrow> bool" where
  "ran_out r \<longleftrightarrow> \<not> si_verified r \<and> (si_end r = CodeExpired \<or> si_end r = TimedOut)"

definition failed_to_reach :: "sign_in \<Rightarrow> bool" where
  "failed_to_reach r \<longleftrightarrow> \<not> si_verified r \<and> (si_end r = NoCode \<or> si_end r = PollErrors)"

text \<open>The failures in a row that end with attempt \<open>i\<close>, not counting earlier than attempt \<open>from\<close>.\<close>

fun run_before :: "(nat \<Rightarrow> sign_in) \<Rightarrow> nat \<Rightarrow> nat" where
  "run_before sched 0 = 0"
| "run_before sched (Suc i) = (if failed_to_reach (sched i) then Suc (run_before sched i) else 0)"

lemma until_approved_reaches:
  assumes sch: "scheduled attempt pause tried sched"
    and going: "\<And>i. i < n \<Longrightarrow> ran_out (sched i) \<or> failed_to_reach (sched i) \<and> Suc (run_before sched i) < max_failures policy"
    and "tried w \<le> n"
  shows "\<exists>w1. tried w1 = n \<and> until_approved attempt pause policy (run_before sched (tried w)) w
    = until_approved attempt pause policy (run_before sched n) w1"
  using \<open>tried w \<le> n\<close>
proof (induction "n - tried w" arbitrary: w)
  case 0
  then have "tried w = n" by simp
  then show ?case by blast
next
  case (Suc d)
  then have lt: "tried w < n" by simp
  obtain r w1 where a: "attempt w = (r, w1)" by fastforce
  have r: "r = sched (tried w)" "tried w1 = Suc (tried w)" using sch a unfolding scheduled_def by (metis fst_conv, metis snd_conv)
  define w2 where "w2 = (if failed_to_reach r \<and> retry_delay policy > 0 then pause (retry_delay policy) w1 else w1)"
  have t2: "tried w2 = Suc (tried w)" using sch r(2) by (simp add: w2_def scheduled_def)
  have "until_approved attempt pause policy (run_before sched (tried w)) w
    = until_approved attempt pause policy (run_before sched (Suc (tried w))) w2"
    using going [OF lt] r(1) a
    by (subst until_approved.simps) (auto simp: w2_def ran_out_def failed_to_reach_def)
  moreover have "d = n - tried w2" "tried w2 \<le> n" using Suc.hyps(2) t2 lt by simp_all
  ultimately show ?case using Suc.hyps(1) [of w2] t2 by auto
qed

text \<open>The wait of a dedicated server for its approval goes on through any number of codes that ran out, and through
  failures to reach the service as long as fewer than the limit come in a row; at the first attempt that is neither it
  returns, approved exactly when that attempt was verified.\<close>

theorem approval_wait_ends:
  assumes "scheduled attempt pause tried sched" and "tried w = 0"
    and "\<forall>i<n. ran_out (sched i) \<or> failed_to_reach (sched i) \<and> Suc (run_before sched i) < max_failures policy"
    and "\<not> (ran_out (sched n) \<or> failed_to_reach (sched n) \<and> Suc (run_before sched n) < max_failures policy)"
  shows "\<exists>w1. until_approved attempt pause policy 0 w = Some (si_verified (sched n), w1) \<and> tried w1 = Suc n"
proof -
  obtain w1 where w1: "tried w1 = n" "until_approved attempt pause policy 0 w
    = until_approved attempt pause policy (run_before sched n) w1"
    using until_approved_reaches [OF assms(1), of n policy w] assms(2,3) by auto
  obtain r w2 where a: "attempt w1 = (r, w2)" by fastforce
  have r: "r = sched n" "tried w2 = Suc n"
    using assms(1) a w1(1) unfolding scheduled_def by (metis fst_conv, metis snd_conv)
  have "until_approved attempt pause policy (run_before sched n) w1 = Some (si_verified r, w2)"
    using assms(4) r(1) a
    by (subst until_approved.simps) (auto simp: ran_out_def failed_to_reach_def)
  with w1(2) r show ?thesis by auto
qed

definition trial_schedule :: "nat \<Rightarrow> sign_in" where
  "trial_schedule i = (if i = 0 then \<lparr>si_verified = False, si_end = CodeExpired\<rparr>
     else if i < 3 then \<lparr>si_verified = False, si_end = NoCode\<rparr>
     else if i = 3 then \<lparr>si_verified = False, si_end = TimedOut\<rparr>
     else \<lparr>si_verified = True, si_end = EndVerified\<rparr>)"

lemma approval_wait_ends_witness:
  "\<exists>w1. until_approved (\<lambda>n. (trial_schedule n, Suc n)) (\<lambda>d n. n) \<lparr>max_failures = 3, retry_delay = 5\<rparr> 0 0
     = Some (si_verified (trial_schedule 4), w1) \<and> w1 = Suc 4"
  by (rule approval_wait_ends [where tried = "\<lambda>n. n" and sched = trial_schedule])
    (auto simp: scheduled_def trial_schedule_def ran_out_def failed_to_reach_def less_Suc_eq numeral_eq_Suc)

end
