(* ===== verification/Party_Wire.thy ===== *)
theory Party_Wire
  imports Ws_Accept
begin

section \<open>The party messages on the wire\<close>

text \<open>
  The first half of \<^verbatim>\<open>src/runtime/compat/social_party.h\<close>: the message symbols, the frame, the UUID a
  member goes by and the builders of the requests. An array of 16 bytes is a byte list of that length.
\<close>

unbundle bit_operations_syntax

subsection \<open>Symbols\<close>

definition k_create_request :: u64 where "k_create_request = 0x0b7bd21332523994"
definition k_join_request :: u64 where "k_join_request = 0xb57b22cc5352e00c"
definition k_leave_request :: u64 where "k_leave_request = 0xb77b0be7a94a9fb6"
definition k_invite_request :: u64 where "k_invite_request = 0xcf13f934540b5f5e"
definition k_lock_request :: u64 where "k_lock_request = 0xc2478aa479f3e16a"
definition k_set_join_policy_request :: u64 where "k_set_join_policy_request = 0xe1d46b6fb78fd9e6"
definition k_join_policy_everyone :: u32 where "k_join_policy_everyone = 3"
definition k_unlock_request :: u64 where "k_unlock_request = 0x5a4e99802fa3d704"
definition k_party_data_update_request :: u64 where "k_party_data_update_request = 0x3448ca6e8d9dd0ce"
definition k_party_data_scope_party :: u64 where "k_party_data_scope_party = 0"
definition k_invite_list_refresh_request :: u64 where "k_invite_list_refresh_request = 0xd8cbc44959e25da8"
definition k_friend_list_refresh_request :: u64 where "k_friend_list_refresh_request = 0xdcfa94680e8d19fc"
definition k_recently_met_refresh_request :: u64 where "k_recently_met_refresh_request = 0xc5359d9ff7e1fefe"
definition k_friend_invite_request :: u64 where "k_friend_invite_request = 0x7f0d7a28de3c6f70"
definition k_kick_request :: u64 where "k_kick_request = 0xfaf57beb59917d64"
definition k_pass_request :: u64 where "k_pass_request = 0x518543cd886a6946"
definition k_invite_response :: u64 where "k_invite_response = 0xe3654a09203555a3"

definition reply_table :: "(u64 \<times> string) list" where
  "reply_table =
    [(0x0b7ac20124523993, ''PartyCreateSuccess''), (0x0b6fd60b2b423885, ''PartyCreateFailure''),
     (0xb57a32de4552e00b, ''PartyJoinSuccess''), (0xb56f26d44a42e11d, ''PartyJoinFailure''),
     (0xcc38103e64879e53, ''PartyJoinNotify''), (0xb77a1bf5bf4a9fb1, ''PartyLeaveSuccess''),
     (0xb76f0fffb05a9ea7, ''PartyLeaveFailure''), (0x05315abefc8f804b, ''PartyLeaveNotify''),
     (0xfaf46bf94f917d63, ''PartyKickSuccess''), (0xfae17ff340817c75, ''PartyKickFailure''),
     (0x28cb04891f93dc81, ''PartyKickNotify''), (0x518453df9e6a6941, ''PartyPassSuccess''),
     (0x519147d5917a6857, ''PartyPassFailure''), (0x9d946c88d5a8aca5, ''PartyPassNotify''),
     (0xc2469ab66ff3e16d, ''PartyLockSuccess''), (0xc2538ebc60e3e07b, ''PartyLockFailure''),
     (0x93a6b1a6cd4ef8dd, ''PartyLockNotify''), (0x5a4f899239a3d703, ''PartyUnlockSuccess''),
     (0x5a5a9d9836b3d615, ''PartyUnlockFailure''), (0xd8cfd3795010481f, ''PartyUnlockNotify''),
     (0x218f721f09026dab, ''PartyInviteNotify''), (0x685a5fb8447b1155, ''PartyInviteListResponse''),
     (0xdee671b237a5278d, ''PartyUpdateSuccess''), (0xdef365b838b5269b, ''PartyUpdateFailure''),
     (0x23c834cb3bc6ecf5, ''PartyUpdateNotify''), (0x4edffb9fc8cc8731, ''PartyUpdateMemberSuccess''),
     (0x4ecaef95c7dc8627, ''PartyUpdateMemberFailure''), (0x451eb6ca40dde289, ''PartyUpdateMemberNotify'')]"

definition reply_name :: "u64 \<Rightarrow> string option" where
  "reply_name symbol = map_of reply_table symbol"

definition reply_symbol :: "string option \<Rightarrow> u64" where
  "reply_symbol name = (case find (\<lambda>(s, n). name = Some n) reply_table of None \<Rightarrow> 0 | Some (s, n) \<Rightarrow> s)"

definition request_name :: "u64 \<Rightarrow> string option" where
  "request_name symbol = map_of
     [(k_create_request, ''PartyCreateRequest''), (k_join_request, ''PartyJoinRequest''),
      (k_leave_request, ''PartyLeaveRequest''), (k_invite_request, ''PartyInviteRequest''),
      (k_lock_request, ''PartyLockRequest''), (k_unlock_request, ''PartyUnlockRequest''),
      (k_set_join_policy_request, ''PartySetJoinPolicyRequest''),
      (k_party_data_update_request, ''PartyDataUpdateRequest''),
      (k_invite_list_refresh_request, ''PartyInviteListRefreshRequest''),
      (k_kick_request, ''PartyKickRequest''), (k_pass_request, ''PartyPassRequest''),
      (k_invite_response, ''PartyInviteResponse''),
      (k_friend_list_refresh_request, ''FriendListRefreshRequest''),
      (k_recently_met_refresh_request, ''RecentlyMetRefreshRequest''),
      (k_friend_invite_request, ''FriendInviteRequest'')] symbol"

subsection \<open>Building\<close>

record party_message =
  msg_symbol :: u64
  msg_payload :: bytes
  msg_target :: u64

definition append_le :: "bytes \<Rightarrow> u64 \<Rightarrow> nat \<Rightarrow> bytes" where
  "append_le out value n = out @ map (\<lambda>i. ucast (drop_bit (8 * i) value AND 0xFF)) [0..<n]"

definition frame_marker :: bytes where
  "frame_marker = [0xf6, 0x40, 0xbb, 0x78, 0xa2, 0xe7, 0x8c, 0xbb]"

definition party_frame :: "party_message \<Rightarrow> bytes" where
  "party_frame m = append_le (append_le frame_marker (msg_symbol m) 8)
     (word_of_nat (length (msg_payload m))) 8 @ msg_payload m"

text \<open>The whole-message SHA-1 of the header: pad, then one chunk of 64 bytes at a time.\<close>

definition uuid_pad :: "bytes \<Rightarrow> bytes" where
  "uuid_pad m = (let bits = word_of_nat (length m) * 8 :: u64; m1 = m @ [0x80];
       m2 = m1 @ replicate ((56 + 64 - length m1 mod 64) mod 64) 0
     in m2 @ map (\<lambda>i. ucast (drop_bit (8 * i) bits AND 0xFF)) (rev [0..<8]))"

fun uuid_chunks :: "sha1_hash \<Rightarrow> nat \<Rightarrow> bytes \<Rightarrow> sha1_hash" where
  "uuid_chunks h 0 m = h"
| "uuid_chunks h (Suc n) m = uuid_chunks (sha1_compress h (take 64 m)) n (drop 64 m)"

definition uuid_sha1 :: "bytes \<Rightarrow> bytes" where
  "uuid_sha1 m = (let p = uuid_pad m; h = uuid_chunks (0x67452301, 0xEFCDAB89, 0x98BADCFE, 0x10325476, 0xC3D2E1F0) (length p div 64) p
     in case h of (a, b, c, d, e) \<Rightarrow>
       concat (map (\<lambda>w. map (\<lambda>j. ucast (drop_bit (24 - 8 * j) w AND 0xFF)) [0..<4]) [a, b, c, d, e]))"

definition uuid_v5_nil :: "bytes \<Rightarrow> bytes" where
  "uuid_v5_nil name = (let d = take 16 (uuid_sha1 (replicate 16 0 @ name))
     in d[6 := (d ! 6 AND 0x0F) OR 0x50, 8 := (d ! 8 AND 0x3F) OR 0x80])"

definition login_platform_prefix :: "u64 \<Rightarrow> bytes" where
  "login_platform_prefix platform = (if platform = 7 then bytes_of ''DMO'' else bytes_of ''OVR-ORG'')"

definition member_uuid :: "u64 \<Rightarrow> u64 \<Rightarrow> bytes" where
  "member_uuid account platform = uuid_v5_nil (login_platform_prefix platform @ bytes_of ''-'' @ decimal (unat account))"

definition standard_msg :: "u64 \<Rightarrow> bytes \<Rightarrow> u64 \<Rightarrow> party_message" where
  "standard_msg symbol self tail = \<lparr>msg_symbol = symbol,
     msg_payload = append_le (append_le (append_le [] 0 8 @ self) 0 8) tail 8, msg_target = 0\<rparr>"

definition short_msg :: "u64 \<Rightarrow> bytes \<Rightarrow> party_message" where
  "short_msg symbol self = \<lparr>msg_symbol = symbol,
     msg_payload = append_le (append_le [] 0 8 @ self) 0 8, msg_target = 0\<rparr>"

definition targeted_msg :: "u64 \<Rightarrow> bytes \<Rightarrow> bytes \<Rightarrow> u32 \<Rightarrow> party_message" where
  "targeted_msg symbol self target param = \<lparr>msg_symbol = symbol,
     msg_payload = append_le (append_le (append_le (self @ target) 0 8) (ucast param) 4) 0 4, msg_target = 0\<rparr>"

definition targeted_to :: "u64 \<Rightarrow> bytes \<Rightarrow> u64 \<Rightarrow> u32 \<Rightarrow> party_message" where
  "targeted_to symbol self account param = (targeted_msg symbol self (member_uuid account 4) param)\<lparr>msg_target := account\<rparr>"

text \<open>
  \<^verbatim>\<open>Send\<close>: the registered sender, if any, takes every frame, also after one it did not accept. The sender acts
  on a world of any type.
\<close>

fun send_each :: "(bytes \<Rightarrow> 'w \<Rightarrow> bool \<times> 'w) \<Rightarrow> party_message list \<Rightarrow> bool \<Rightarrow> 'w \<Rightarrow> bool \<times> 'w" where
  "send_each sender [] all w = (all, w)"
| "send_each sender (m # ms) all w = (let (ok, w1) = sender (party_frame m) w in send_each sender ms (ok \<and> all) w1)"

definition send_messages :: "(bytes \<Rightarrow> 'w \<Rightarrow> bool \<times> 'w) option \<Rightarrow> party_message list \<Rightarrow> 'w \<Rightarrow> bool \<times> 'w" where
  "send_messages sender ms w = (case sender of None \<Rightarrow> (False, w) | Some f \<Rightarrow> send_each f ms True w)"

subsection \<open>Reading\<close>

text \<open>The readers of \<^verbatim>\<open>Feed\<close> and \<^verbatim>\<open>ParseDataNotify\<close>: little-endian, most significant byte first.\<close>

definition le_value :: "bytes \<Rightarrow> nat \<Rightarrow> nat \<Rightarrow> u64" where
  "le_value p off n = foldl (\<lambda>v i. push_bit 8 v OR ucast (p ! (off + i))) 0 (rev [0..<n])"

definition feed_u64 :: "bytes \<Rightarrow> nat \<Rightarrow> u64" where
  "feed_u64 p off = (if off + 8 > length p then 0 else le_value p off 8)"

definition feed_u8 :: "bytes \<Rightarrow> nat \<Rightarrow> u32" where
  "feed_u8 p off = (if off < length p then ucast (p ! off) else 0)"

record data_notify =
  dn_party :: u64
  dn_member :: u64
  dn_seq :: u32
  dn_json :: bytes

definition strip_nuls :: "bytes \<Rightarrow> bytes" where
  "strip_nuls s = rev (dropWhile (\<lambda>c. c = 0) (rev s))"

definition parse_data_notify :: "bytes option \<Rightarrow> data_notify option" where
  "parse_data_notify payload = (case payload of
      None \<Rightarrow> None
    | Some p \<Rightarrow>
        (if length p < 24 then None
         else let json_len = unat (le_value p 20 4)
              in if 24 + json_len > length p then None
                 else Some \<lparr>dn_party = le_value p 0 8, dn_member = le_value p 8 8, dn_seq = ucast (le_value p 16 4),
                        dn_json = strip_nuls (take json_len (drop 24 p))\<rparr>))"

text \<open>Nakama's join failure as the game's code.\<close>

definition game_join_failure_code :: "u32 \<Rightarrow> u32" where
  "game_join_failure_code c = (if c \<in> {1, 3, 4, 5, 6} then c else if c = 2 then 4 else 0)"

subsection \<open>What the builders write is read back\<close>

lemma length_append_le [simp]: "length (append_le out v n) = length out + n"
  by (simp add: append_le_def)

lemma ucast_mask_byte: "(ucast (w AND 0xFF) :: u8) = ucast (w :: u64)"
proof -
  have "w AND 0xFF = take_bit 8 w" by (simp add: take_bit_eq_mask mask_numeral)
  then show ?thesis by (auto intro!: bit_word_eqI simp: bit_simps dest: bit_imp_le_length)
qed

lemma ucast_mask_byte32: "(ucast (w AND 0xFF) :: u8) = ucast (w :: u32)"
proof -
  have "w AND 0xFF = take_bit 8 w" by (simp add: take_bit_eq_mask mask_numeral)
  then show ?thesis by (auto intro!: bit_word_eqI simp: bit_simps dest: bit_imp_le_length)
qed

definition le_bytes :: "u64 \<Rightarrow> nat \<Rightarrow> bytes" where
  "le_bytes v n = map (\<lambda>i. ucast (drop_bit (8 * i) v)) [0..<n]"

lemma length_le_bytes [simp]: "length (le_bytes v n) = n"
  by (simp add: le_bytes_def)

lemma append_le_eq: "append_le out v n = out @ le_bytes v n"
  by (simp add: append_le_def le_bytes_def ucast_mask_byte)

lemma le_fold:
  "foldl (\<lambda>v i. push_bit 8 v OR ucast (f i :: u8)) (v :: u64) (rev [0..<n])
     = push_bit (8 * n) v OR foldl (\<lambda>v i. push_bit 8 v OR ucast (f i)) 0 (rev [0..<n])"
proof (induction n arbitrary: v)
  case (Suc n)
  show ?case
    using Suc [of "push_bit 8 v OR ucast (f n)"] Suc [of "ucast (f n)"]
    by (simp add: push_bit_or or.assoc add.commute)
qed simp

lemma le_fold_read:
  assumes "\<And>i. i < n \<Longrightarrow> f i = (ucast (drop_bit (8 * i) w) :: u8)"
  shows "foldl (\<lambda>v i. push_bit 8 v OR ucast (f i)) 0 (rev [0..<n]) = take_bit (8 * n) (w :: u64)"
  using assms
proof (induction n)
  case (Suc n)
  have "foldl (\<lambda>v i. push_bit 8 v OR ucast (f i)) 0 (rev [0..<Suc n])
    = push_bit (8 * n) (ucast (ucast (drop_bit (8 * n) w) :: u8)) OR take_bit (8 * n) w"
    using Suc le_fold [of f "ucast (f n)" n] by simp
  also have "\<dots> = take_bit (8 * Suc n) w"
    by (rule bit_word_eqI) (auto simp: bit_simps dest: bit_imp_le_length)
  finally show ?case .
qed simp

lemma le_value_le_bytes:
  assumes "off = length pre"
  shows "le_value (pre @ le_bytes w n @ post) off n = take_bit (8 * n) w"
  unfolding le_value_def
  by (rule le_fold_read) (simp add: assms nth_append le_bytes_def)

lemma le_value_8: "off = length pre \<Longrightarrow> le_value (pre @ le_bytes w 8 @ post) off 8 = w"
  using le_value_le_bytes [of off pre w 8 post] by (simp add: take_bit_length_eq [where 'a = 64, simplified])

lemma layouts:
  "length (msg_payload (short_msg s self)) = 16 + length self"
  "length (msg_payload (standard_msg s self v)) = 24 + length self"
  "length (msg_payload (targeted_msg s self t c)) = 16 + length self + length t"
  by (simp_all add: short_msg_def standard_msg_def targeted_msg_def)

lemma uuid_chunks_blocks: "length m = 64 * n \<Longrightarrow> md_blocks sha1_compress h m = (uuid_chunks h n m, [])"
proof (induction n arbitrary: h m)
  case (Suc n)
  have "md_blocks sha1_compress h (take 64 m @ drop 64 m) = md_blocks sha1_compress (sha1_compress h (take 64 m)) (drop 64 m)"
    using Suc.prems by (intro md_blocks_block) simp
  with Suc show ?case by simp
qed simp

lemma uuid_pad_md: "uuid_pad m = md_pad m"
proof -
  have "(56 + 64 - Suc (length m) mod 64) mod 64 = pad_zeros (length m)"
  proof -
    define r where "r = length m mod 64"
    have r: "r < 64" by (simp add: r_def)
    have "(119 - r) mod 64 = 55 - r" if "r < 56"
    proof -
      have "119 - r = 55 - r + 64" using that by simp
      then show ?thesis by (simp only: mod_add_self2) simp
    qed
    then show ?thesis
      using r by (cases "r = 63") (auto simp: pad_zeros_def mod_Suc r_def [symmetric])
  qed
  then show ?thesis
    by (simp add: uuid_pad_def md_pad_def Let_def be64_bytes_def ucast_mask_byte mult.commute)
qed

lemma uuid_sha1_streams: "uuid_sha1 m = sha1_finish (sha1_update sha1_new m)"
proof -
  obtain n where n: "length (md_pad m) = 64 * n" using md_pad_aligned [of m] by (elim dvdE)
  have "md_digest sha1_compress (sha1_h sha1_new) m = uuid_chunks (sha1_h sha1_new) n (md_pad m)"
    using uuid_chunks_blocks [OF n] by (simp add: md_digest_def)
  then show ?thesis
    unfolding sha1_finish_update
    using n by (simp add: uuid_sha1_def uuid_pad_md Let_def sha1_bytes_def sha1_new_def
        ucast_mask_byte32 upt_rec split: prod.split)
qed

lemma length_member_uuid: "length (member_uuid a p) = 16"
  by (simp add: member_uuid_def uuid_v5_nil_def Let_def uuid_sha1_streams sha1_finish_update length_sha1_bytes)

lemma find_map_of:
  "map_of t s = Some n \<Longrightarrow> distinct (map snd t) \<Longrightarrow> find (\<lambda>(s', n'). Some n = Some n') t = Some (s, n)"
proof (induction t)
  case (Cons x t)
  show ?case
  proof (cases "fst x = s")
    case False
    then have "map_of t s = Some n" using Cons.prems(1) by (cases x) simp
    moreover from this have "snd x \<noteq> n" using Cons.prems(2) map_of_SomeD [of t s n] by (auto intro: rev_image_eqI)
    ultimately show ?thesis using Cons by (cases x) auto
  qed (use Cons.prems in \<open>cases x, simp\<close>)
qed simp

lemma reply_symbol_name:
  assumes "reply_name s = Some n"
  shows "reply_symbol (Some n) = s"
proof -
  have "distinct (map snd reply_table)" by code_simp
  from find_map_of [OF assms [unfolded reply_name_def] this] show ?thesis
    by (simp add: reply_symbol_def)
qed

lemma strip_nuls_end: "js = [] \<or> last js \<noteq> 0 \<Longrightarrow> strip_nuls (js @ replicate k 0) = js"
proof -
  have *: "dropWhile (\<lambda>c. c = 0) (replicate k (0 :: u8) @ xs) = dropWhile (\<lambda>c. c = 0) xs" for xs
    by (induction k) simp_all
  assume "js = [] \<or> last js \<noteq> 0"
  then show ?thesis
    by (cases js rule: rev_cases) (simp_all add: strip_nuls_def * )
qed

definition data_notify_bytes :: "data_notify \<Rightarrow> nat \<Rightarrow> bytes" where
  "data_notify_bytes d nuls = le_bytes (dn_party d) 8 @ le_bytes (dn_member d) 8 @ le_bytes (ucast (dn_seq d)) 4
     @ le_bytes (word_of_nat (length (dn_json d) + nuls)) 4 @ dn_json d @ replicate nuls 0"

subsection \<open>Properties\<close>

text \<open>A party-data notify is read back. Whatever the party, member, number and JSON text, with any zero bytes the server
  puts after the text and anything after the message, the parser returns exactly what was sent.\<close>

theorem data_notify_read_back:
  assumes "length (dn_json d) + nuls < 2 ^ 32" and "dn_json d = [] \<or> last (dn_json d) \<noteq> 0"
  shows "parse_data_notify (Some (data_notify_bytes d nuls @ rest)) = Some d"
proof -
  let ?n = "length (dn_json d) + nuls"
  let ?p = "data_notify_bytes d nuls @ rest"
  have party: "le_value ?p 0 8 = dn_party d"
    using le_value_8 [of 0 "[]" "dn_party d"] by (simp add: data_notify_bytes_def)
  have member: "le_value ?p 8 8 = dn_member d"
    using le_value_8 [of 8 "le_bytes (dn_party d) 8" "dn_member d"] by (simp add: data_notify_bytes_def)
  have seq: "le_value ?p 16 4 = take_bit 32 (ucast (dn_seq d))"
    using le_value_le_bytes [of 16 "le_bytes (dn_party d) 8 @ le_bytes (dn_member d) 8" "ucast (dn_seq d)" 4]
    by (simp add: data_notify_bytes_def)
  have len: "le_value ?p 20 4 = take_bit 32 (word_of_nat ?n)"
    using le_value_le_bytes [of 20 "le_bytes (dn_party d) 8 @ le_bytes (dn_member d) 8 @ le_bytes (ucast (dn_seq d)) 4"
        "word_of_nat ?n" 4] by (simp add: data_notify_bytes_def)
  have nat: "unat (take_bit 32 (word_of_nat ?n :: u64)) = ?n"
    using assms(1) by (simp add: unsigned_take_bit_eq take_bit_nat_eq_self unat_of_nat del: of_nat_add)
  have "ucast (take_bit 32 (ucast (dn_seq d) :: u64)) = dn_seq d"
    by (rule bit_word_eqI) (simp add: bit_simps)
  moreover have "take ?n (drop 24 ?p) = dn_json d @ replicate nuls 0"
    by (simp add: data_notify_bytes_def)
  ultimately show ?thesis
    using strip_nuls_end [OF assms(2)] nat
    by (simp add: parse_data_notify_def party member seq len Let_def) (simp add: data_notify_bytes_def)
qed

definition sample_notify :: data_notify where
  "sample_notify = \<lparr>dn_party = 7, dn_member = 0x1122334455667788, dn_seq = 3, dn_json = [0x7B, 0x7D]\<rparr>"

lemma data_notify_read_back_witness:
  "parse_data_notify (Some (data_notify_bytes sample_notify 2 @ [9])) = Some sample_notify"
  by (rule data_notify_read_back) (simp_all add: sample_notify_def)

text \<open>The UUID of a party member is the version-5 UUID of its platform name: the first 16 bytes of the SHA-1 that the
  streaming digest of the loopback server computes for the nil namespace and the name, with the version and variant
  bits set; it is always 16 bytes long.\<close>

theorem member_uuid_is_version_5:
  "(let d = take 16 (sha1_finish (sha1_update sha1_new
              (replicate 16 0 @ login_platform_prefix p @ bytes_of ''-'' @ decimal (unat a))))
    in member_uuid a p = d[6 := (d ! 6 AND 0x0F) OR 0x50, 8 := (d ! 8 AND 0x3F) OR 0x80])
   \<and> length (member_uuid a p) = 16
   \<and> member_uuid a p ! 6 AND 0xF0 = 0x50 \<and> member_uuid a p ! 8 AND 0xC0 = 0x80"
proof -
  have bits: "((x AND 0x0F) OR 0x50) AND 0xF0 = 0x50" "((x AND 0x3F) OR 0x80) AND 0xC0 = 0x80" for x :: u8
    by (simp_all add: bit.conj_disj_distrib2 bit.conj_disj_distrib and.assoc)
  show ?thesis
    using bits length_member_uuid [of a p]
    by (simp add: member_uuid_def uuid_v5_nil_def uuid_sha1_streams Let_def)
qed


end
