(* ===== verification/Party_State.thy ===== *)
theory Party_State
  imports Party_Wire
begin

section \<open>The party state machine\<close>

text \<open>
  \<^verbatim>\<open>class State\<close> of \<^verbatim>\<open>src/runtime/compat/social_party.h\<close>. Its mutex makes every operation one step; an
  operation takes the state and returns its result with the new state. Indices and counts are natural numbers
  (the lists hold fewer than 2^32 elements). A shared JSON text is its bytes: that two holders share one object
  is not modelled.
\<close>

datatype event_kind =
    EvCreated | EvJoined | EvJoinFailed | EvUpdated | EvHostChanged | EvLeft | EvKicked | EvMemberJoined
  | EvMemberUpdated | EvMemberLeft | EvInviteReceived | EvInviteFailed | EvInvitesDropped

record party_event =
  ev_kind :: event_kind
  ev_index :: nat
  ev_id :: u64
  ev_name :: bytes
  ev_code :: u32
  ev_ids :: "u64 list"

definition make_event :: "event_kind \<Rightarrow> nat \<Rightarrow> u64 \<Rightarrow> bytes \<Rightarrow> u32 \<Rightarrow> party_event" where
  "make_event k i a n c = \<lparr>ev_kind = k, ev_index = i, ev_id = a, ev_name = n, ev_code = c, ev_ids = []\<rparr>"

record member =
  m_id :: u64
  m_name :: bytes
  m_data :: "bytes option"

record invite =
  in_party :: u64
  in_sender :: u64
  in_name :: bytes
  in_time :: u64

record party =
  p_self :: u64
  p_platform :: u64
  p_self_name :: bytes
  p_id :: u64
  p_owner :: u64
  p_creating :: bool
  p_joining :: bool
  p_joining_id :: u64
  p_deferred :: u64
  p_invite_party :: u64
  p_inviter :: u64
  p_locked :: bool
  p_policy :: u32
  p_lock_asked :: "bool option"
  p_viewed_at :: u64
  p_refresh_sent :: bool
  p_last_refresh :: u64
  p_members :: "member list"
  p_invites :: "invite list"
  p_stash :: "invite list"
  p_names :: "u64 \<rightharpoonup> bytes"
  p_unnamed :: "u64 list"
  p_pending :: "u64 list"
  p_events :: "party_event list"
  p_data :: "bytes option"
  p_seq :: u32
  p_held :: u64
  p_held_data :: "bytes option"
  p_held_members :: "member list"

definition new_party :: party where
  "new_party = \<lparr>p_self = 0, p_platform = 4, p_self_name = [], p_id = 0, p_owner = 0, p_creating = False,
     p_joining = False, p_joining_id = 0, p_deferred = 0, p_invite_party = 0, p_inviter = 0, p_locked = False,
     p_policy = k_join_policy_everyone, p_lock_asked = None, p_viewed_at = 0, p_refresh_sent = False,
     p_last_refresh = 0, p_members = [], p_invites = [], p_stash = [], p_names = Map.empty, p_unnamed = [],
     p_pending = [], p_events = [], p_data = None, p_seq = 0, p_held = 0, p_held_data = None, p_held_members = []\<rparr>"

subsection \<open>The private helpers\<close>

definition self_uuid :: "party \<Rightarrow> bytes" where
  "self_uuid p = (if p_self p = 0 then replicate 16 0 else member_uuid (p_self p) (p_platform p))"

fun find_member :: "u64 \<Rightarrow> member list \<Rightarrow> nat option" where
  "find_member a [] = None"
| "find_member a (m # ms) = (if m_id m = a then Some 0 else map_option Suc (find_member a ms))"

definition post :: "party_event \<Rightarrow> party \<Rightarrow> party" where
  "post e p = p\<lparr>p_events := p_events p @ [e]\<rparr>"

definition erase_at :: "nat \<Rightarrow> 'a list \<Rightarrow> 'a list" where
  "erase_at i xs = take i xs @ drop (Suc i) xs"

definition remove_member :: "u64 \<Rightarrow> party \<Rightarrow> party" where
  "remove_member a p = (case find_member a (p_members p) of
      None \<Rightarrow> p
    | Some i \<Rightarrow>
        (if m_id (p_members p ! i) = p_self p then p
         else let m = p_members p ! i;
                  p1 = post (make_event EvMemberLeft 0 (m_id m) (m_name m) 0) (p\<lparr>p_members := erase_at i (p_members p)\<rparr>)
              in if m_id m = p_owner p1
                 then let heir = (case find (\<lambda>x. m_id x \<noteq> p_self p1) (p_members p1) of None \<Rightarrow> p_self p1 | Some x \<Rightarrow> m_id x)
                      in post (make_event EvHostChanged 0 0 [] 0) (p1\<lparr>p_owner := heir\<rparr>)
                 else p1))"

definition take_invite :: "nat \<Rightarrow> party \<Rightarrow> invite option \<times> party" where
  "take_invite index p =
     (if index \<ge> length (p_invites p) then (None, p)
      else let at = length (p_invites p) - 1 - index
           in (Some (p_invites p ! at), p\<lparr>p_invites := erase_at at (p_invites p)\<rparr>))"

definition remote_members_leave :: "party \<Rightarrow> party" where
  "remote_members_leave p =
     fold (\<lambda>m. post (make_event EvMemberLeft 0 (m_id m) (m_name m) 0)) (rev (tl (p_members p))) p"

definition name_locked :: "u64 \<Rightarrow> party \<Rightarrow> bytes \<times> party" where
  "name_locked a p =
     (if a = p_self p \<and> p_self_name p \<noteq> [] then (p_self_name p, p)
      else case p_names p a of
        Some n \<Rightarrow> (n, p)
      | None \<Rightarrow> (decimal (unat a),
          if a \<noteq> 0 \<and> a \<noteq> p_self p \<and> a \<notin> set (p_unnamed p) then p\<lparr>p_unnamed := p_unnamed p @ [a]\<rparr> else p))"

definition rename_locked :: "u64 \<Rightarrow> bytes \<Rightarrow> party \<Rightarrow> party" where
  "rename_locked a n p = p\<lparr>
     p_members := map (\<lambda>m. if m_id m = a then m\<lparr>m_name := n\<rparr> else m) (p_members p),
     p_invites := map (\<lambda>i. if in_sender i = a then i\<lparr>in_name := n\<rparr> else i) (p_invites p)\<rparr>"

definition forget_join :: "u64 \<Rightarrow> party \<Rightarrow> party" where
  "forget_join pid p =
     (let p1 = (if p_deferred p = pid then p\<lparr>p_deferred := 0\<rparr> else p)
      in if p_invite_party p1 = pid then p1\<lparr>p_invite_party := 0, p_inviter := 0\<rparr> else p1)"

definition stash_invite :: "invite \<Rightarrow> party \<Rightarrow> party" where
  "stash_invite i p =
     (if \<exists>k\<in>set (p_stash p). in_party k = in_party i \<and> in_sender k = in_sender i then p
      else p\<lparr>p_stash := p_stash p @ [i]\<rparr>)"

definition restore_invites :: "party \<Rightarrow> party" where
  "restore_invites p =
     (let back = filter (\<lambda>k. in_sender k \<notin> in_sender ` set (p_invites p)) (p_stash p)
      in p\<lparr>p_invites := back @ p_invites p, p_stash := []\<rparr>)"

definition forget_held_data :: "party \<Rightarrow> party" where
  "forget_held_data p = p\<lparr>p_held := 0, p_held_data := None, p_held_members := []\<rparr>"

definition clear_party :: "party \<Rightarrow> party" where
  "clear_party p = (forget_held_data (p\<lparr>p_data := None\<rparr>))\<lparr>p_id := 0, p_owner := 0, p_creating := False,
     p_joining := False, p_joining_id := 0, p_stash := [], p_locked := False, p_lock_asked := None,
     p_members := [], p_pending := []\<rparr>"

definition friend_refresh_min :: u64 where "friend_refresh_min = 5"
definition friend_poll_seconds :: u64 where "friend_poll_seconds = 30"
definition friend_tab_idle :: u64 where "friend_tab_idle = 10"

definition refresh_friends_limited :: "u64 \<Rightarrow> party \<Rightarrow> party_message list \<times> party" where
  "refresh_friends_limited now p =
     (if p_refresh_sent p \<and> now \<ge> p_last_refresh p \<and> now - p_last_refresh p < friend_refresh_min then ([], p)
      else let p1 = p\<lparr>p_refresh_sent := True, p_last_refresh := now\<rparr>
           in ([short_msg k_friend_list_refresh_request (self_uuid p1)], p1))"

subsection \<open>The operations of the game and the facade\<close>

definition set_self :: "u64 \<Rightarrow> bytes \<Rightarrow> u64 \<Rightarrow> party \<Rightarrow> party" where
  "set_self account name platform p =
     (let p1 = p\<lparr>p_self := account, p_platform := platform, p_self_name := name\<rparr>
      in if name \<noteq> [] then rename_locked account name p1 else p1)"

definition set_name :: "u64 \<Rightarrow> bytes \<Rightarrow> party \<Rightarrow> party" where
  "set_name account name p =
     (if account = 0 \<or> name = [] then p
      else rename_locked account name (p\<lparr>p_names := (p_names p)(account \<mapsto> name)\<rparr>))"

definition take_unnamed :: "party \<Rightarrow> u64 list \<times> party" where
  "take_unnamed p = (p_unnamed p, p\<lparr>p_unnamed := []\<rparr>)"

definition send_invite :: "u64 \<Rightarrow> party \<Rightarrow> party_message list \<times> party" where
  "send_invite target p =
     (if p_id p \<noteq> 0 then ([standard_msg k_invite_request (self_uuid p) target], p)
      else let p1 = (if target \<in> set (p_pending p) then p else p\<lparr>p_pending := p_pending p @ [target]\<rparr>)
           in if \<not> p_creating p1
              then ([standard_msg k_create_request (self_uuid p1) 0], p1\<lparr>p_creating := True\<rparr>) else ([], p1))"

definition create_party :: "party \<Rightarrow> party_message list \<times> party" where
  "create_party p =
     (if p_id p \<noteq> 0 \<or> p_creating p \<or> p_joining p then ([], p)
      else ([standard_msg k_create_request (self_uuid p) 0], p\<lparr>p_creating := True\<rparr>))"

text \<open>One turn of the loop of \<^verbatim>\<open>BeginJoin\<close>, on an invite to the party, newest first.\<close>

definition begin_join_invite :: "u64 \<Rightarrow> invite \<Rightarrow> party \<Rightarrow> party" where
  "begin_join_invite pid i p =
     stash_invite i (if p_invite_party p \<noteq> pid then p\<lparr>p_invite_party := pid, p_inviter := in_sender i\<rparr> else p)"

definition invites_to :: "u64 \<Rightarrow> party \<Rightarrow> invite list" where
  "invites_to pid p = rev (filter (\<lambda>i. in_party i = pid) (p_invites p))"

definition drop_invites :: "u64 \<Rightarrow> party \<Rightarrow> party" where
  "drop_invites pid p = p\<lparr>p_invites := filter (\<lambda>i. in_party i \<noteq> pid) (p_invites p)\<rparr>"

definition begin_join :: "u64 \<Rightarrow> party \<Rightarrow> bool \<times> party" where
  "begin_join pid p =
     (if pid = 0 then (False, p)
      else let p1 = drop_invites pid (fold (begin_join_invite pid) (invites_to pid p) p)
           in if p_creating p1 \<or> p_joining p1 \<or> p_self p1 = 0 then (False, p1\<lparr>p_deferred := pid\<rparr>) else (True, p1))"

definition abandon_join :: "u64 \<Rightarrow> party \<Rightarrow> party" where
  "abandon_join pid p = (forget_join pid p)\<lparr>p_stash := []\<rparr>"

definition abandon_create :: "party \<Rightarrow> bool \<times> party" where
  "abandon_create p = (p_creating p, p\<lparr>p_creating := False\<rparr>)"

definition abandon_joining :: "party \<Rightarrow> bool \<times> party" where
  "abandon_joining p =
     (if \<not> p_joining p then (False, p)
      else (True, post (make_event EvJoinFailed 0 0 [] 0)
              (restore_invites (p\<lparr>p_joining := False, p_joining_id := 0\<rparr>))))"

definition forget_lock_request :: "party \<Rightarrow> party" where
  "forget_lock_request p = p\<lparr>p_lock_asked := None\<rparr>"

definition expire_lock_request :: "bool \<Rightarrow> party \<Rightarrow> bool \<times> party" where
  "expire_lock_request want p =
     (if p_lock_asked p \<noteq> Some want \<or> p_locked p = want then (False, p) else (True, p\<lparr>p_lock_asked := None\<rparr>))"

definition join_party :: "u64 \<Rightarrow> party \<Rightarrow> party_message list \<times> party" where
  "join_party pid p =
     (if pid = 0 then ([], p)
      else if p_creating p \<or> p_joining p \<or> p_self p = 0 then ([], p\<lparr>p_deferred := pid\<rparr>)
      else if pid = p_id p then ([], (forget_join pid p)\<lparr>p_stash := []\<rparr>)
      else let p1 = (drop_invites pid (fold stash_invite (invites_to pid p) p))\<lparr>p_joining := True, p_joining_id := pid\<rparr>;
               m = (if p_invite_party p1 = pid \<and> p_inviter p1 \<noteq> 0
                    then targeted_to k_invite_response (self_uuid p1) (p_inviter p1) 1
                    else standard_msg k_join_request (self_uuid p1) pid)
           in ([m], forget_join pid p1))"

definition invite_party_at :: "nat \<Rightarrow> party \<Rightarrow> u64" where
  "invite_party_at index p =
     (if index \<ge> length (p_invites p) then 0 else in_party (p_invites p ! (length (p_invites p) - 1 - index)))"

definition reset_party :: "party \<Rightarrow> party_message list \<times> party" where
  "reset_party p =
     (if p_id p \<noteq> 0 then [standard_msg k_leave_request (self_uuid p) 0] else [], clear_party (remote_members_leave p))"

definition dismiss :: "nat \<Rightarrow> party \<Rightarrow> party_message list \<times> party" where
  "dismiss index p = (case take_invite index p of
      (None, p1) \<Rightarrow> ([], p1)
    | (Some i, p1) \<Rightarrow> ([targeted_to k_invite_response (self_uuid p1) (in_sender i) 0], p1))"

definition leave_party :: "party \<Rightarrow> party_message list \<times> party" where
  "leave_party p =
     (if p_id p = 0 \<or> length (p_members p) \<le> 1 then ([], p)
      else ([standard_msg k_leave_request (self_uuid p) 0],
            post (make_event EvLeft 0 0 [] 0) (clear_party (remote_members_leave p))))"

definition kick :: "nat \<Rightarrow> party \<Rightarrow> party_message list \<times> party" where
  "kick index p =
     (if p_id p = 0 \<or> p_owner p \<noteq> p_self p \<or> index = 0 \<or> index \<ge> length (p_members p) then ([], p)
      else let m = p_members p ! index
           in ([targeted_to k_kick_request (self_uuid p) (m_id m) 0],
               post (make_event EvMemberLeft 0 (m_id m) (m_name m) 0) (p\<lparr>p_members := erase_at index (p_members p)\<rparr>)))"

definition pass_lead :: "nat \<Rightarrow> party \<Rightarrow> party_message list \<times> party" where
  "pass_lead index p =
     (if p_id p = 0 \<or> p_owner p \<noteq> p_self p \<or> index \<ge> length (p_members p) \<or> m_id (p_members p ! index) = p_self p then ([], p)
      else let a = m_id (p_members p ! index)
           in ([targeted_to k_pass_request (self_uuid p) a 0], post (make_event EvHostChanged 0 0 [] 0) (p\<lparr>p_owner := a\<rparr>)))"

definition set_locked :: "bool \<Rightarrow> party \<Rightarrow> party_message list \<times> party" where
  "set_locked want p =
     (if p_id p = 0 \<or> p_lock_asked p = Some want then ([], p)
      else ([standard_msg (if want then k_lock_request else k_unlock_request) (self_uuid p) 0], p\<lparr>p_lock_asked := Some want\<rparr>))"

definition set_join_policy :: "u32 \<Rightarrow> party \<Rightarrow> party_message list \<times> party" where
  "set_join_policy policy p =
     (if policy = p_policy p then ([], p)
      else let p1 = p\<lparr>p_policy := policy\<rparr>
           in (if p_id p1 \<noteq> 0 \<and> p_owner p1 = p_self p1
               then [standard_msg k_set_join_policy_request (self_uuid p1) (ucast policy)] else [], p1))"

definition refresh_friends :: "party \<Rightarrow> party_message list" where
  "refresh_friends p = [short_msg k_friend_list_refresh_request (self_uuid p)]"

definition note_friends_viewed :: "u64 \<Rightarrow> party \<Rightarrow> party" where
  "note_friends_viewed now p = p\<lparr>p_viewed_at := now + 1\<rparr>"

definition refresh_friends_on_tab_open :: "u64 \<Rightarrow> party \<Rightarrow> party_message list \<times> party" where
  "refresh_friends_on_tab_open now p = refresh_friends_limited now (note_friends_viewed now p)"

definition poll_friends_while_open :: "u64 \<Rightarrow> party \<Rightarrow> party_message list \<times> party" where
  "poll_friends_while_open now p =
     (if p_viewed_at p = 0 then ([], p)
      else let viewed = p_viewed_at p - 1
           in if now < viewed \<or> now - viewed > friend_tab_idle then ([], p)
              else if \<not> p_refresh_sent p \<or> now < p_last_refresh p \<or> now - p_last_refresh p < friend_poll_seconds then ([], p)
              else refresh_friends_limited now p)"

definition refresh_recently_met :: "party \<Rightarrow> party_message list" where
  "refresh_recently_met p = (if p_self p \<noteq> 0 then [short_msg k_recently_met_refresh_request (self_uuid p)] else [])"

definition request_friend :: "u64 \<Rightarrow> party \<Rightarrow> party_message list" where
  "request_friend target p = (if target \<noteq> 0 then [standard_msg k_friend_invite_request (self_uuid p) target] else [])"

definition refresh_invites :: "party \<Rightarrow> party_message list" where
  "refresh_invites p = [standard_msg k_invite_list_refresh_request (self_uuid p) 0]"

definition with_json :: "party_message \<Rightarrow> bytes \<Rightarrow> party_message" where
  "with_json m json = m\<lparr>msg_payload := append_le (msg_payload m) (word_of_nat (length json)) 4 @ json\<rparr>"

definition share_data :: "u64 \<Rightarrow> bytes \<Rightarrow> party \<Rightarrow> party_message list \<times> party" where
  "share_data scope json p =
     (if p_id p = 0 \<or> p_joining p \<or> scope = k_party_data_scope_party \<and> p_owner p \<noteq> p_self p then ([], p)
      else let m = standard_msg k_party_data_update_request (self_uuid p) scope;
               p1 = p\<lparr>p_seq := p_seq p + 1\<rparr>
           in ([with_json (m\<lparr>msg_payload := append_le (msg_payload m) (ucast (p_seq p1)) 4\<rparr>) json], p1))"

definition presence_update :: "u64 \<Rightarrow> bytes \<Rightarrow> party \<Rightarrow> party_message list" where
  "presence_update symbol json p = (if p_self p = 0 then [] else [with_json (short_msg symbol (self_uuid p)) json])"

definition drain_events :: "party \<Rightarrow> party_event list \<times> party" where
  "drain_events p = (p_events p, p\<lparr>p_events := []\<rparr>)"

record party_view =
  v_party :: u64
  v_owner :: u64
  v_self :: u64
  v_self_name :: bytes
  v_creating :: bool
  v_joining :: bool
  v_joining_party :: u64
  v_locked :: bool
  v_members :: "member list"
  v_invites :: "invite list"
  v_data :: "bytes option"

definition snapshot :: "party \<Rightarrow> party_view" where
  "snapshot p = \<lparr>v_party = p_id p, v_owner = p_owner p, v_self = p_self p, v_self_name = p_self_name p,
     v_creating = p_creating p, v_joining = p_joining p, v_joining_party = (if p_joining p then p_joining_id p else 0),
     v_locked = p_locked p, v_members = p_members p, v_invites = p_invites p, v_data = p_data p\<rparr>"

subsection \<open>What the server says\<close>

datatype data_outcome = DoParty | DoMember | DoMemberAdded | DoHeld | DoOwnIgnored | DoOtherParty

text \<open>\<^verbatim>\<open>members_.push_back(Member{id, NameLocked(id), data})\<close>.\<close>

definition add_member :: "u64 \<Rightarrow> bytes option \<Rightarrow> party \<Rightarrow> party" where
  "add_member a data p =
     (let (n, p1) = name_locked a p in p1\<lparr>p_members := p_members p1 @ [\<lparr>m_id = a, m_name = n, m_data = data\<rparr>]\<rparr>)"

definition member_joined :: "u64 \<Rightarrow> party \<Rightarrow> party" where
  "member_joined a p = post (make_event EvMemberJoined (length (p_members p) - 1) a [] 0) p"

definition set_member_data :: "nat \<Rightarrow> bytes option \<Rightarrow> party \<Rightarrow> party" where
  "set_member_data i data p = p\<lparr>p_members := (p_members p)[i := (p_members p ! i)\<lparr>m_data := data\<rparr>]\<rparr>"

definition hold_member :: "u64 \<Rightarrow> bytes \<Rightarrow> party \<Rightarrow> party" where
  "hold_member a json p =
     (if \<exists>m\<in>set (p_held_members p). m_id m = a
      then p\<lparr>p_held_members := map (\<lambda>m. if m_id m = a then m\<lparr>m_data := Some json\<rparr> else m) (p_held_members p)\<rparr>
      else p\<lparr>p_held_members := p_held_members p @ [\<lparr>m_id = a, m_name = [], m_data = Some json\<rparr>]\<rparr>)"

definition receive_data :: "u64 \<Rightarrow> u64 \<Rightarrow> bytes \<Rightarrow> party \<Rightarrow> data_outcome \<times> party" where
  "receive_data pid a json p =
     (if pid \<noteq> 0 \<and> pid = p_id p then
        (if a = 0 then (if p_owner p = p_self p then (DoOwnIgnored, p) else (DoParty, p\<lparr>p_data := Some json\<rparr>))
         else if a = p_self p then (DoOwnIgnored, p)
         else case find_member a (p_members p) of
             Some i \<Rightarrow> (DoMember, set_member_data i (Some json) p)
           | None \<Rightarrow> (DoMemberAdded, member_joined a (add_member a (Some json) p)))
      else if pid \<noteq> 0 \<and> p_joining p \<and> pid = p_joining_id p then
        (let p1 = (if p_held p \<noteq> pid then p\<lparr>p_held := pid, p_held_data := None, p_held_members := []\<rparr> else p)
         in if a = 0 then (DoHeld, p1\<lparr>p_held_data := Some json\<rparr>)
            else if a = p_self p1 then (DoOwnIgnored, p1)
            else (DoHeld, hold_member a json p1))
      else (DoOtherParty, p))"

text \<open>The messages of \<^verbatim>\<open>Feed\<close>. \<open>out\<close> tells whether the caller gave a list for the requests to send.\<close>

definition feed_create_success :: "u64 \<Rightarrow> u64 \<Rightarrow> bool \<Rightarrow> party \<Rightarrow> party_message list \<times> party" where
  "feed_create_success pid owner out p =
     (let p1 = add_member (p_self p) None (p\<lparr>p_creating := False, p_id := pid, p_owner := owner, p_members := []\<rparr>);
          p2 = post (make_event EvCreated 0 0 [] 0) (p1\<lparr>p_data := None\<rparr>);
          ms = (if p_policy p2 \<noteq> k_join_policy_everyone
                then [standard_msg k_set_join_policy_request (self_uuid p2) (ucast (p_policy p2))] else [])
             @ map (standard_msg k_invite_request (self_uuid p2)) (p_pending p2)
      in (if out then ms else [], p2\<lparr>p_pending := []\<rparr>))"

definition feed_create_failure :: "party \<Rightarrow> party" where
  "feed_create_failure p =
     (let p1 = p\<lparr>p_creating := False\<rparr>;
          p2 = (if p_pending p1 \<noteq> []
                then post ((make_event EvInvitesDropped (length (p_pending p1)) 0 [] 0)\<lparr>ev_ids := p_pending p1\<rparr>) p1 else p1)
      in p2\<lparr>p_pending := []\<rparr>)"

definition admit_held :: "member \<Rightarrow> party \<Rightarrow> party" where
  "admit_held h p = (case find_member (m_id h) (p_members p) of
      Some i \<Rightarrow> set_member_data i (m_data h) p
    | None \<Rightarrow> add_member (m_id h) (m_data h) p)"

definition announce_members :: "party \<Rightarrow> party" where
  "announce_members p =
     fold (\<lambda>i. post (make_event EvMemberJoined i (m_id (p_members p ! i)) [] 0)) [1..<length (p_members p)] p"

definition feed_join_success :: "u64 \<Rightarrow> u64 \<Rightarrow> party \<Rightarrow> party" where
  "feed_join_success pid owner p =
     (let p1 = (if p_id p \<noteq> 0 \<and> p_id p \<noteq> pid
                then post (make_event EvLeft 0 0 [] 0) (remote_members_leave p) else p);
          p2 = p1\<lparr>p_joining := False, p_joining_id := 0, p_stash := [], p_locked := False, p_lock_asked := None,
                 p_id := pid, p_owner := owner, p_members := []\<rparr>;
          p3 = add_member (p_self p2) None p2;
          p4 = (if p_owner p3 \<noteq> p_self p3 then add_member (p_owner p3) None p3 else p3);
          p5 = p4\<lparr>p_data := None\<rparr>;
          p6 = (if p_held p5 = p_id p5
                then fold admit_held (p_held_members p5) (p5\<lparr>p_data := p_held_data p5\<rparr>) else p5);
          p7 = post (make_event EvJoined 0 0 [] 0) (forget_held_data p6)
      in announce_members p7)"

definition feed_join_failure :: "u32 \<Rightarrow> party \<Rightarrow> party" where
  "feed_join_failure c p =
     post (make_event EvJoinFailed 0 0 [] (game_join_failure_code c))
       (forget_held_data (p\<lparr>p_joining := False, p_joining_id := 0, p_stash := []\<rparr>))"

definition feed_join_notify :: "u64 \<Rightarrow> party \<Rightarrow> party" where
  "feed_join_notify a p =
     (if a \<noteq> p_self p \<and> find_member a (p_members p) = None then member_joined a (add_member a None p) else p)"

definition feed_kick_notify :: "u64 \<Rightarrow> party \<Rightarrow> party" where
  "feed_kick_notify a p =
     (if a = p_self p
      then let had_remotes = length (p_members p) > 1; p1 = clear_party (remote_members_leave p)
           in if had_remotes then post (make_event EvKicked 0 0 [] 0) p1 else p1
      else remove_member a p)"

definition feed_invite :: "u64 \<Rightarrow> u64 \<Rightarrow> u64 \<Rightarrow> party \<Rightarrow> party" where
  "feed_invite pid sender now p =
     (let (n, p1) = name_locked sender p
      in post (make_event EvInviteReceived 0 0 [] 0)
           (p1\<lparr>p_invites := filter (\<lambda>i. in_sender i \<noteq> sender) (p_invites p1)
              @ [\<lparr>in_party = pid, in_sender = sender, in_name = n, in_time = now\<rparr>]\<rparr>))"

definition feed_locked :: "bool \<Rightarrow> party \<Rightarrow> party" where
  "feed_locked l p = post (make_event EvUpdated 0 0 [] 0) (p\<lparr>p_locked := l, p_lock_asked := Some l\<rparr>)"

definition feed_update_member :: "u64 \<Rightarrow> party \<Rightarrow> party" where
  "feed_update_member a p = (case find_member a (p_members p) of
      Some i \<Rightarrow> post (make_event EvMemberUpdated i a [] 0) p | None \<Rightarrow> p)"

definition feed_named :: "string \<Rightarrow> bytes \<Rightarrow> u64 \<Rightarrow> bool \<Rightarrow> party \<Rightarrow> party_message list \<times> party" where
  "feed_named n b now out p =
     (let len = length b; ours = (feed_u64 b 0 = p_id p)
      in if n = ''PartyCreateSuccess'' \<and> len \<ge> 16 then feed_create_success (feed_u64 b 0) (feed_u64 b 8) out p
         else ([],
           if n = ''PartyCreateFailure'' then feed_create_failure p
           else if n = ''PartyJoinSuccess'' \<and> len \<ge> 16 then feed_join_success (feed_u64 b 0) (feed_u64 b 8) p
           else if n = ''PartyJoinFailure'' then feed_join_failure (feed_u8 b 8) p
           else if n = ''PartyJoinNotify'' \<and> len \<ge> 16 \<and> ours then feed_join_notify (feed_u64 b 8) p
           else if n = ''PartyLeaveNotify'' \<and> len \<ge> 16 \<and> ours then remove_member (feed_u64 b 8) p
           else if n = ''PartyKickNotify'' \<and> len \<ge> 16 \<and> ours then feed_kick_notify (feed_u64 b 8) p
           else if n = ''PartyPassNotify'' \<and> len \<ge> 16 \<and> ours
             then post (make_event EvHostChanged 0 0 [] 0) (p\<lparr>p_owner := feed_u64 b 8\<rparr>)
           else if (n = ''PartyLockNotify'' \<or> n = ''PartyUnlockNotify'' \<or> n = ''PartyLockSuccess'' \<or> n = ''PartyUnlockSuccess'')
               \<and> len \<ge> 8 \<and> ours
             then feed_locked (find_sub ''Unlock'' n = None) p
           else if n = ''PartyUpdateNotify'' \<and> len \<ge> 8 \<and> ours then post (make_event EvUpdated 0 0 [] 0) p
           else if n = ''PartyUpdateMemberNotify'' \<and> len \<ge> 16 \<and> ours then feed_update_member (feed_u64 b 8) p
           else if n = ''PartyInviteNotify'' \<and> len \<ge> 16 then feed_invite (feed_u64 b 0) (feed_u64 b 8) now p
           else p))"

definition feed_party :: "u64 \<Rightarrow> bytes option \<Rightarrow> u64 \<Rightarrow> bool \<Rightarrow> party \<Rightarrow> (bool \<times> party_message list) \<times> party" where
  "feed_party symbol payload now out p = (case (reply_name symbol, payload) of
      (Some n, Some b) \<Rightarrow> (let (ms, p1) = feed_named n b now out p in ((True, ms), p1))
    | _ \<Rightarrow> ((False, []), p))"

end
