(* ===== verification/Party_Log.thy ===== *)
theory Party_Log
  imports Party_State
begin

section \<open>What the events tell the facade\<close>

text \<open>
  The facade never reads the member list between two drains: it follows the events. Here is that observer, and
  the proof that it always knows exactly who is in the party.
\<close>

subsection \<open>The observer\<close>

text \<open>The ids of the remote members as told so far; \<open>None\<close> when an event contradicts what was told before.\<close>

definition observe :: "u64 list \<Rightarrow> party_event \<Rightarrow> u64 list option" where
  "observe xs e = (case ev_kind e of
      EvCreated \<Rightarrow> Some []
    | EvJoined \<Rightarrow> Some []
    | EvLeft \<Rightarrow> if xs = [] then Some [] else None
    | EvKicked \<Rightarrow> if xs = [] then Some [] else None
    | EvMemberJoined \<Rightarrow> if ev_index e = length xs + 1 \<and> ev_id e \<notin> set xs then Some (xs @ [ev_id e]) else None
    | EvMemberLeft \<Rightarrow> if ev_id e \<in> set xs then Some (remove1 (ev_id e) xs) else None
    | EvMemberUpdated \<Rightarrow> if ev_index e = 0 \<or> ev_index e \<le> length xs \<and> xs ! (ev_index e - 1) = ev_id e then Some xs else None
    | _ \<Rightarrow> Some xs)"

fun observe_all :: "u64 list \<Rightarrow> party_event list \<Rightarrow> u64 list option" where
  "observe_all xs [] = Some xs"
| "observe_all xs (e # es) = Option.bind (observe xs e) (\<lambda>ys. observe_all ys es)"

lemma observe_all_append: "observe_all xs (es @ fs) = Option.bind (observe_all xs es) (\<lambda>ys. observe_all ys fs)"
  by (induction es arbitrary: xs) (auto simp: Option.bind_assoc)

definition remotes :: "party \<Rightarrow> u64 list" where
  "remotes p = map m_id (tl (p_members p))"

definition members_ok :: "party \<Rightarrow> bool" where
  "members_ok p \<longleftrightarrow> (p_id p = 0 \<longleftrightarrow> p_members p = []) \<and> (p_members p \<noteq> [] \<longrightarrow> m_id (hd (p_members p)) = p_self p)
     \<and> distinct (map m_id (p_members p))"

definition tells :: "party \<Rightarrow> party \<Rightarrow> bool" where
  "tells p q \<longleftrightarrow> (\<exists>es. p_events q = p_events p @ es \<and> observe_all (remotes p) es = Some (remotes q))"

definition good :: "party \<Rightarrow> party \<Rightarrow> bool" where
  "good p q \<longleftrightarrow> (members_ok p \<longrightarrow> members_ok q \<and> tells p q)"

lemma goodI: "(members_ok p \<Longrightarrow> members_ok q) \<Longrightarrow> (members_ok p \<Longrightarrow> tells p q) \<Longrightarrow> good p q"
  by (simp add: good_def)

lemma tells_trans: "tells p q \<Longrightarrow> tells q r \<Longrightarrow> tells p r"
  by (auto simp: tells_def observe_all_append)

lemma good_trans: "good p q \<Longrightarrow> good q r \<Longrightarrow> good p r"
  by (auto simp: good_def intro: tells_trans)

lemma members_ok_ids:
  "members_ok p \<longleftrightarrow> (p_id p = 0 \<longleftrightarrow> map m_id (p_members p) = []) \<and> (map m_id (p_members p) \<noteq> [] \<longrightarrow> hd (map m_id (p_members p)) = p_self p)
     \<and> distinct (map m_id (p_members p))"
  by (auto simp: members_ok_def hd_map)

lemma remotes_ids: "remotes p = tl (map m_id (p_members p))"
  by (simp add: remotes_def map_tl)

definition same_party :: "party \<Rightarrow> party \<Rightarrow> bool" where
  "same_party p q \<longleftrightarrow> map m_id (p_members q) = map m_id (p_members p) \<and> p_self q = p_self p \<and> (p_id q = 0 \<longleftrightarrow> p_id p = 0) \<and> p_events q = p_events p"

lemma good_same: "same_party p q \<Longrightarrow> good p q"
  by (auto simp: same_party_def good_def members_ok_ids tells_def remotes_ids simp del: map_is_Nil_conv intro!: exI [of _ "[]"])

lemma same_party_refl: "same_party p p"
  by (simp add: same_party_def)

lemma good_refl: "good p p"
  by (rule good_same [OF same_party_refl])

lemma post_sel [simp]:
  "p_members (post e p) = p_members p" "p_self (post e p) = p_self p" "p_id (post e p) = p_id p"
  "p_events (post e p) = p_events p @ [e]" "p_owner (post e p) = p_owner p" "p_self_name (post e p) = p_self_name p"
  "p_names (post e p) = p_names p" "p_held_members (post e p) = p_held_members p" "p_invites (post e p) = p_invites p"
  "p_stash (post e p) = p_stash p" "p_joining (post e p) = p_joining p" "p_pending (post e p) = p_pending p"
  by (simp_all add: post_def)

lemma make_event_sel [simp]:
  "ev_kind (make_event k i a n c) = k" "ev_index (make_event k i a n c) = i" "ev_id (make_event k i a n c) = a"
  by (simp_all add: make_event_def)

lemma members_ok_post [simp]: "members_ok (post e p) \<longleftrightarrow> members_ok p"
  by (simp add: members_ok_def)

lemma remotes_post [simp]: "remotes (post e p) = remotes p"
  by (simp add: remotes_def)

text \<open>An event that says nothing of the members.\<close>

lemma good_post: "ev_kind e \<notin> {EvCreated, EvJoined, EvLeft, EvKicked, EvMemberJoined, EvMemberLeft, EvMemberUpdated}
    \<Longrightarrow> good p (post e p)"
  by (rule goodI) (auto simp: tells_def observe_def split: event_kind.split)

lemma good_post_after: "good p q \<Longrightarrow>
    ev_kind e \<notin> {EvCreated, EvJoined, EvLeft, EvKicked, EvMemberJoined, EvMemberLeft, EvMemberUpdated} \<Longrightarrow> good p (post e q)"
  by (rule good_trans [OF _ good_post])

subsection \<open>Members come and go\<close>

lemma find_member_Some: "find_member a ms = Some i \<Longrightarrow> i < length ms \<and> m_id (ms ! i) = a"
  by (induction ms arbitrary: i) (auto split: if_splits)

lemma find_member_None: "find_member a ms = None \<longleftrightarrow> a \<notin> m_id ` set ms"
  by (induction ms) auto

lemma erase_at_Suc: "xs \<noteq> [] \<Longrightarrow> erase_at (Suc i) xs = hd xs # erase_at i (tl xs)"
  by (cases xs) (simp_all add: erase_at_def)

lemma map_erase_at: "map f (erase_at i xs) = erase_at i (map f xs)"
  by (simp add: erase_at_def take_map drop_map)

lemma remove1_erase: "distinct xs \<Longrightarrow> i < length xs \<Longrightarrow> remove1 (xs ! i) xs = erase_at i xs"
proof (induction xs arbitrary: i)
  case (Cons x xs)
  then show ?case by (cases i) (auto simp: erase_at_def)
qed simp

lemma distinct_erase: "distinct xs \<Longrightarrow> distinct (erase_at i xs)"
  by (auto simp: erase_at_def dest: set_take_disj_set_drop_if_distinct [where i = i and j = "Suc i"])

lemma set_erase_at: "set (erase_at i xs) \<subseteq> set xs"
  by (auto simp: erase_at_def dest: in_set_takeD in_set_dropD)

text \<open>Erasing a remote member and telling so.\<close>

lemma good_erase:
  assumes "i < length (p_members p)" and "members_ok p \<Longrightarrow> i \<noteq> 0"
    and e: "ev_kind e = EvMemberLeft" "ev_id e = m_id (p_members p ! i)"
  shows "good p (post e (p\<lparr>p_members := erase_at i (p_members p)\<rparr>))"
proof (rule goodI)
  assume ok: "members_ok p"
  then obtain k where k: "i = Suc k" using assms(2) by (cases i) auto
  obtain m ms where ms: "p_members p = m # ms" using assms(1) by (cases "p_members p") auto
  have er: "erase_at i (m # ms) = m # erase_at k ms" by (simp add: k erase_at_def)
  have d: "distinct (map m_id ms)" and len: "k < length ms" using ok assms(1) by (auto simp: members_ok_def ms k)
  have "m_id m \<notin> set (erase_at k (map m_id ms))"
    using ok set_erase_at [of k "map m_id ms"] by (auto simp: members_ok_def ms)
  then show "members_ok (post e (p\<lparr>p_members := erase_at i (p_members p)\<rparr>))"
    using ok d by (auto simp: members_ok_def er ms map_erase_at distinct_erase)
  have "observe (remotes p) e = Some (remove1 (map m_id ms ! k) (map m_id ms))"
    using e len by (auto simp: observe_def remotes_def ms k)
  also have "remove1 (map m_id ms ! k) (map m_id ms) = map m_id (erase_at k ms)"
    using remove1_erase [OF d, of k] len by (simp add: map_erase_at)
  finally show "tells p (post e (p\<lparr>p_members := erase_at i (p_members p)\<rparr>))"
    by (auto simp: tells_def er remotes_def ms)
qed

lemma good_remove: "good p (remove_member a p)"
proof (cases "find_member a (p_members p)")
  case None
  then show ?thesis by (simp add: remove_member_def good_refl)
next
  case (Some i)
  show ?thesis
  proof (cases "m_id (p_members p ! i) = p_self p")
    case True
    then show ?thesis by (simp add: remove_member_def Some good_refl)
  next
    case False
    define m where "m = p_members p ! i"
    define p1 where "p1 = post (make_event EvMemberLeft 0 (m_id m) (m_name m) 0) (p\<lparr>p_members := erase_at i (p_members p)\<rparr>)"
    have i: "i < length (p_members p)" using find_member_Some [OF Some] by simp
    have "i \<noteq> 0" if "members_ok p"
    proof
      assume "i = 0"
      with i that have "m_id (p_members p ! i) = p_self p" by (cases "p_members p") (auto simp: members_ok_def)
      with False show False ..
    qed
    then have g: "good p p1" unfolding p1_def using i by (intro good_erase) (simp_all add: m_def)
    have "good p1 (post e (p1\<lparr>p_owner := h\<rparr>))" if "ev_kind e = EvHostChanged" for e h
      using that by (intro good_post_after good_same) (simp_all add: same_party_def)
    moreover have "remove_member a p = (if m_id m = p_owner p1
        then let heir = (case find (\<lambda>x. m_id x \<noteq> p_self p1) (p_members p1) of None \<Rightarrow> p_self p1 | Some x \<Rightarrow> m_id x)
             in post (make_event EvHostChanged 0 0 [] 0) (p1\<lparr>p_owner := heir\<rparr>) else p1)"
      using False unfolding remove_member_def Some option.case Let_def m_def [symmetric] p1_def [symmetric] by simp
    ultimately show ?thesis using g good_trans [OF g] by (simp add: Let_def)
  qed
qed

lemma name_locked_sel: "name_locked a p = (n, q) \<Longrightarrow> \<exists>u. q = p\<lparr>p_unnamed := u\<rparr>"
  by (auto simp: name_locked_def split: if_splits option.splits intro: exI [of _ "p_unnamed p"])

text \<open>Adding a member changes the list of members and the names to look up.\<close>

lemma add_member_eq: "\<exists>u n. add_member a d p = p\<lparr>p_unnamed := u, p_members := p_members p @ [\<lparr>m_id = a, m_name = n, m_data = d\<rparr>]\<rparr>"
proof -
  obtain n q where n: "name_locked a p = (n, q)" by fastforce
  then obtain u where "q = p\<lparr>p_unnamed := u\<rparr>" using name_locked_sel by blast
  then show ?thesis by (auto simp: add_member_def n intro!: exI [of _ u] exI [of _ n])
qed

lemma add_member_sel [simp]:
  "map m_id (p_members (add_member a d p)) = map m_id (p_members p) @ [a]"
  "p_self (add_member a d p) = p_self p" "p_id (add_member a d p) = p_id p" "p_events (add_member a d p) = p_events p"
  "p_owner (add_member a d p) = p_owner p" "p_held (add_member a d p) = p_held p"
  "p_held_members (add_member a d p) = p_held_members p" "p_held_data (add_member a d p) = p_held_data p"
  "length (p_members (add_member a d p)) = Suc (length (p_members p))" "p_members (add_member a d p) \<noteq> []"
  "p_pending (add_member a d p) = p_pending p" "p_policy (add_member a d p) = p_policy p"
  using add_member_eq [of a d p] by auto

lemma good_joined:
  assumes "find_member a (p_members p) = None" and "p_id p \<noteq> 0"
  shows "good p (member_joined a (add_member a d p))"
proof (rule goodI)
  assume ok: "members_ok p"
  then obtain x xs where ids: "map m_id (p_members p) = x # xs" using assms(2) by (cases "map m_id (p_members p)") (auto simp: members_ok_ids)
  have new: "a \<notin> set (map m_id (p_members p))" using assms(1) by (simp add: find_member_None)
  show "members_ok (member_joined a (add_member a d p))"
    using ok new assms(2) ids unfolding members_ok_ids by (auto simp: member_joined_def ids)
  have "length (p_members p) = Suc (length xs)" using ids by (metis length_Cons length_map)
  then show "tells p (member_joined a (add_member a d p))"
    using ids new by (auto simp: tells_def member_joined_def remotes_ids observe_def)
qed

lemma observe_leaving:
  "distinct (map m_id ms) \<Longrightarrow> observe_all (map m_id ms) (map (\<lambda>m. make_event EvMemberLeft 0 (m_id m) (m_name m) 0) (rev ms)) = Some []"
proof (induction ms rule: rev_induct)
  case (snoc m ms)
  then show ?case by (simp add: observe_def remove1_append)
qed simp

lemma fold_post: "fold (\<lambda>x. post (f x)) xs p = p\<lparr>p_events := p_events p @ map f xs\<rparr>"
  by (induction xs arbitrary: p) (simp_all add: post_def)

lemma remote_members_leave_eq:
  "remote_members_leave p = p\<lparr>p_events := p_events p
     @ map (\<lambda>m. make_event EvMemberLeft 0 (m_id m) (m_name m) 0) (rev (tl (p_members p)))\<rparr>"
  by (simp add: remote_members_leave_def fold_post)

lemma observe_leave: "members_ok p \<Longrightarrow>
    observe_all (remotes p) (map (\<lambda>m. make_event EvMemberLeft 0 (m_id m) (m_name m) 0) (rev (tl (p_members p)))) = Some []"
  unfolding remotes_def by (rule observe_leaving) (simp add: members_ok_def distinct_tl map_tl)

lemma clear_party_sel [simp]:
  "p_members (clear_party p) = []" "p_id (clear_party p) = 0" "p_self (clear_party p) = p_self p"
  "p_events (clear_party p) = p_events p" "remotes (clear_party p) = []"
  by (simp_all add: clear_party_def forget_held_data_def remotes_def)

lemma good_clear: "good p (clear_party (remote_members_leave p))"
  by (rule goodI) (auto simp: members_ok_def tells_def remote_members_leave_eq observe_leave)

lemma good_clear_post: "ev_kind e \<in> {EvLeft, EvKicked} \<Longrightarrow> good p (post e (clear_party (remote_members_leave p)))"
  by (rule good_trans [OF good_clear], rule goodI)
    (auto simp: tells_def observe_def remotes_def remote_members_leave_eq)

end
