(* ===== verification/Party_Runs.thy ===== *)
theory Party_Runs
  imports Party_Log
begin

section \<open>Runs of the party state machine\<close>

text \<open>
  The calls the game, the facade and the bridge make on the party state, in any order, and the properties that
  hold after any of them.
\<close>

datatype party_call =
    SetSelf u64 bytes u64 | SetName u64 bytes | TakeUnnamed | SendInvite u64 | CreateParty | BeginJoin u64
  | AbandonJoin u64 | AbandonCreate | AbandonJoining | ForgetLock | ExpireLock bool | JoinParty u64 | ResetParty
  | Dismiss nat | LeaveParty | Kick nat | PassLead nat | SetLocked bool | SetPolicy u32 | TabOpen u64 | Viewed u64
  | PollFriends u64 | ShareData u64 bytes | ReceiveData u64 u64 bytes | FeedParty u64 "bytes option" u64 bool

fun party_step :: "party_call \<Rightarrow> party \<Rightarrow> party" where
  "party_step (SetSelf a n f) p = set_self a n f p"
| "party_step (SetName a n) p = set_name a n p"
| "party_step TakeUnnamed p = snd (take_unnamed p)"
| "party_step (SendInvite a) p = snd (send_invite a p)"
| "party_step CreateParty p = snd (create_party p)"
| "party_step (BeginJoin i) p = snd (begin_join i p)"
| "party_step (AbandonJoin i) p = abandon_join i p"
| "party_step AbandonCreate p = snd (abandon_create p)"
| "party_step AbandonJoining p = snd (abandon_joining p)"
| "party_step ForgetLock p = forget_lock_request p"
| "party_step (ExpireLock b) p = snd (expire_lock_request b p)"
| "party_step (JoinParty i) p = snd (join_party i p)"
| "party_step ResetParty p = snd (reset_party p)"
| "party_step (Dismiss n) p = snd (dismiss n p)"
| "party_step LeaveParty p = snd (leave_party p)"
| "party_step (Kick n) p = snd (kick n p)"
| "party_step (PassLead n) p = snd (pass_lead n p)"
| "party_step (SetLocked b) p = snd (set_locked b p)"
| "party_step (SetPolicy c) p = snd (set_join_policy c p)"
| "party_step (TabOpen t) p = snd (refresh_friends_on_tab_open t p)"
| "party_step (Viewed t) p = note_friends_viewed t p"
| "party_step (PollFriends t) p = snd (poll_friends_while_open t p)"
| "party_step (ShareData s j) p = snd (share_data s j p)"
| "party_step (ReceiveData i a j) p = snd (receive_data i a j p)"
| "party_step (FeedParty s b t w) p = snd (feed_party s b t w p)"

text \<open>
  The contract of the environment: the account changes only outside a party, and the server never names a party 0.
\<close>

fun call_ok :: "party_call \<Rightarrow> party \<Rightarrow> bool" where
  "call_ok (SetSelf a n f) p \<longleftrightarrow> p_id p = 0 \<or> a = p_self p"
| "call_ok (FeedParty s (Some b) t w) p \<longleftrightarrow> length b < 16 \<or> feed_u64 b 0 \<noteq> 0"
| "call_ok c p \<longleftrightarrow> True"

subsection \<open>Every operation tells what it does\<close>

lemma map_rename: "map m_id (map (\<lambda>m. if m_id m = a then m\<lparr>m_name := n\<rparr> else m) ms) = map m_id ms"
  by simp

lemma same_rename: "same_party p q \<Longrightarrow> same_party p (rename_locked a n q)"
  by (simp add: same_party_def rename_locked_def map_rename del: map_map)

lemma good_set_self: "p_id p = 0 \<or> a = p_self p \<Longrightarrow> good p (set_self a n f p)"
proof (cases "a = p_self p")
  case True
  then show ?thesis
    by (auto simp: set_self_def Let_def intro!: good_same same_rename) (auto simp: same_party_def)
next
  case False
  assume "p_id p = 0 \<or> a = p_self p"
  with False have "p_id p = 0" by simp
  then show ?thesis
    by (intro goodI) (auto simp: set_self_def Let_def members_ok_ids tells_def remotes_ids rename_locked_def
        intro!: exI [of _ "[]"])
qed

lemma good_set_name: "good p (set_name a n p)"
  by (auto simp: set_name_def intro!: good_same same_rename) (auto simp: same_party_def)

lemma same_stash: "same_party p q \<Longrightarrow> same_party p (stash_invite i q)"
  by (auto simp: same_party_def stash_invite_def)

lemma same_begin: "same_party p q \<Longrightarrow> same_party p (begin_join_invite pid i q)"
  by (auto simp: begin_join_invite_def intro!: same_stash) (auto simp: same_party_def)

lemma same_fold: "(\<And>i q. same_party p q \<Longrightarrow> same_party p (f i q)) \<Longrightarrow> same_party p q \<Longrightarrow> same_party p (fold f is q)"
  by (induction "is" arbitrary: q) auto

lemma same_drop: "same_party p q \<Longrightarrow> same_party p (drop_invites pid q)"
  by (simp add: same_party_def drop_invites_def)

lemma good_begin_join: "good p (snd (begin_join pid p))"
proof -
  have "same_party p (drop_invites pid (fold (begin_join_invite pid) (invites_to pid p) p))"
    by (intro same_drop same_fold same_begin same_party_refl)
  then have "same_party p (snd (begin_join pid p))"
    by (auto simp: begin_join_def Let_def) (auto simp: same_party_def)
  then show ?thesis by (rule good_same)
qed

lemma same_forget: "same_party p q \<Longrightarrow> same_party p (forget_join pid q)"
  by (auto simp: same_party_def forget_join_def Let_def)

lemma good_join: "good p (snd (join_party pid p))"
proof -
  have "same_party p (drop_invites pid (fold stash_invite (invites_to pid p) p))"
    by (intro same_drop same_fold same_stash same_party_refl)
  then have s: "same_party p ((drop_invites pid (fold stash_invite (invites_to pid p) p))\<lparr>p_joining := True, p_joining_id := pid\<rparr>)"
    by (simp add: same_party_def)
  then show ?thesis
    using same_forget [OF same_party_refl, of p pid]
    by (auto simp: join_party_def Let_def intro!: good_same same_forget) (auto simp: same_party_def)
qed

lemma good_abandon_joining: "good p (snd (abandon_joining p))"
  by (auto simp: abandon_joining_def intro!: good_refl good_post_after [OF good_same])
    (auto simp: same_party_def restore_invites_def)

lemma good_kick: "good p (snd (kick i p))"
  by (auto simp: kick_def Let_def intro!: good_refl good_erase)

lemma good_pass: "good p (snd (pass_lead i p))"
  by (auto simp: pass_lead_def Let_def intro!: good_refl good_post_after [OF good_same]) (auto simp: same_party_def)

lemma good_leave: "good p (snd (leave_party p))"
  by (auto simp: leave_party_def intro!: good_refl good_clear_post)

lemma good_reset: "good p (snd (reset_party p))"
  by (simp add: reset_party_def good_clear)

lemma good_dismiss: "good p (snd (dismiss i p))"
  by (rule good_same) (auto simp: dismiss_def take_invite_def same_party_def Let_def)

lemma good_refresh: "good p (snd (refresh_friends_limited t p))"
  by (rule good_same) (auto simp: refresh_friends_limited_def same_party_def Let_def)

lemma good_tab_open: "good p (snd (refresh_friends_on_tab_open t p))"
  unfolding refresh_friends_on_tab_open_def
  by (rule good_trans [OF _ good_refresh]) (simp add: good_same same_party_def note_friends_viewed_def)

lemma good_poll: "good p (snd (poll_friends_while_open t p))"
  by (auto simp: poll_friends_while_open_def Let_def intro: good_refl good_refresh)

lemma map_id_update: "map m_id (ms[i := (ms ! i)\<lparr>m_data := d\<rparr>]) = map m_id ms"
  by (cases "i < length ms") (auto simp: list_eq_iff_nth_eq nth_list_update)

lemma good_set_data: "good p (set_member_data i d p)"
  by (rule good_same) (simp add: same_party_def set_member_data_def map_id_update)

lemma same_hold: "same_party p q \<Longrightarrow> same_party p (hold_member a j q)"
  by (simp add: same_party_def hold_member_def)

lemma good_receive_data: "good p (snd (receive_data i a j p))"
proof (cases "i \<noteq> 0 \<and> i = p_id p")
  case True
  show ?thesis
  proof (cases "a = 0 \<or> a = p_self p")
    case True
    have "same_party p (p\<lparr>p_data := Some j\<rparr>)" by (simp add: same_party_def)
    then have "same_party p (snd (receive_data i a j p))"
      using True \<open>i \<noteq> 0 \<and> i = p_id p\<close> same_party_refl [of p] by (auto simp: receive_data_def)
    then show ?thesis by (rule good_same)
  next
    case False
    then show ?thesis
      using True good_set_data [of p _ "Some j"] good_joined [of a p "Some j"]
      by (cases "find_member a (p_members p)") (auto simp: receive_data_def)
  qed
next
  case False
  define p1 where "p1 = (if p_held p \<noteq> i then p\<lparr>p_held := i, p_held_data := None, p_held_members := []\<rparr> else p)"
  have p1: "same_party p p1" "same_party p (p1\<lparr>p_held_data := Some j\<rparr>)" by (simp_all add: p1_def same_party_def)
  have "snd (receive_data i a j p) = (if i \<noteq> 0 \<and> p_joining p \<and> i = p_joining_id p
    then if a = 0 then p1\<lparr>p_held_data := Some j\<rparr> else if a = p_self p1 then p1 else hold_member a j p1 else p)"
    unfolding receive_data_def p1_def [symmetric] Let_def if_not_P [OF False] by auto
  then have "same_party p (snd (receive_data i a j p))"
    using p1 same_hold [OF p1(1)] same_party_refl by simp
  then show ?thesis by (rule good_same)
qed

text \<open>The messages of the server.\<close>

lemma good_create_success: "i \<noteq> 0 \<Longrightarrow> good p (snd (feed_create_success i a w p))"
  by (rule goodI) (auto simp: feed_create_success_def Let_def members_ok_ids tells_def remotes_ids observe_def)

lemma good_create_failure: "good p (feed_create_failure p)"
proof -
  define p1 where "p1 = p\<lparr>p_creating := False\<rparr>"
  define p2 where "p2 = (if p_pending p1 \<noteq> [] then post ((make_event EvInvitesDropped (length (p_pending p1)) 0 [] 0)\<lparr>ev_ids := p_pending p1\<rparr>) p1 else p1)"
  have g1: "good p p1" by (rule good_same) (simp add: p1_def same_party_def)
  then have "good p p2" unfolding p2_def by (auto intro: good_post_after simp: make_event_def)
  then have "good p (p2\<lparr>p_pending := []\<rparr>)"
    by (rule good_trans) (simp add: good_same same_party_def)
  then show ?thesis by (simp add: feed_create_failure_def Let_def p1_def [symmetric] p2_def [symmetric])
qed

lemma set_data_sel [simp]:
  "map m_id (p_members (set_member_data i d p)) = map m_id (p_members p)" "p_self (set_member_data i d p) = p_self p"
  "p_id (set_member_data i d p) = p_id p" "p_events (set_member_data i d p) = p_events p"
  by (simp_all add: set_member_data_def map_id_update)

text \<open>What is true of the member list while it is being built.\<close>

definition built :: "party \<Rightarrow> party \<Rightarrow> bool" where
  "built p q \<longleftrightarrow> p_self q = p_self p \<and> p_id q = p_id p \<and> p_events q = p_events p
     \<and> map m_id (p_members q) \<noteq> [] \<and> hd (map m_id (p_members q)) = p_self p \<and> distinct (map m_id (p_members q))"

lemma built_admit: "built p q \<Longrightarrow> built p (admit_held h q)"
proof (cases "find_member (m_id h) (p_members q)")
  case None
  assume "built p q"
  moreover have "admit_held h q = add_member (m_id h) (m_data h) q" using None by (simp add: admit_held_def)
  ultimately show ?thesis using None by (auto simp: built_def find_member_None simp del: map_is_Nil_conv)
next
  case (Some i)
  assume "built p q"
  with Some show ?thesis by (simp add: admit_held_def built_def del: map_is_Nil_conv)
qed

lemma built_fold: "built p q \<Longrightarrow> built p (fold admit_held hs q)"
  by (induction hs arbitrary: q) (auto intro: built_admit)

lemma announce_eq: "announce_members p = p\<lparr>p_events := p_events p
    @ map (\<lambda>i. make_event EvMemberJoined i (m_id (p_members p ! i)) [] 0) [1..<length (p_members p)]\<rparr>"
  by (simp add: announce_members_def fold_post)

lemma observe_joining:
  "distinct (map m_id ms) \<Longrightarrow> 0 < k \<Longrightarrow> k \<le> length ms \<Longrightarrow>
    observe_all [] (map (\<lambda>i. make_event EvMemberJoined i (m_id (ms ! i)) [] 0) [1..<k]) = Some (map m_id (take (k - 1) (tl ms)))"
proof (induction k)
  case (Suc k)
  show ?case
  proof (cases "k = 0")
    case False
    obtain m rest where ms: "ms = m # rest" using Suc.prems(3) by (cases ms) auto
    have k: "k - 1 < length rest" "k = Suc (k - 1)" using False Suc.prems(3) ms by auto
    have "map m_id (take k rest) = map m_id (take (k - 1) rest) @ [m_id (rest ! (k - 1))]"
      using k by (metis list.simps(8,9) map_append take_Suc_conv_app_nth)
    moreover from this have "m_id (rest ! (k - 1)) \<notin> m_id ` set (take (k - 1) rest)"
      using Suc.prems(1) distinct_take [of "map m_id rest" k] by (simp add: ms take_map)
    ultimately show ?thesis
      using Suc False k by (simp add: ms observe_all_append observe_def nth_Cons')
  qed simp
qed simp

lemma good_join_success:
  assumes "i \<noteq> 0"
  shows "good p (feed_join_success i a p)"
proof (rule goodI)
  assume ok: "members_ok p"
  define p1 where "p1 = (if p_id p \<noteq> 0 \<and> p_id p \<noteq> i then post (make_event EvLeft 0 0 [] 0) (remote_members_leave p) else p)"
  define p2 where "p2 = p1\<lparr>p_joining := False, p_joining_id := 0, p_stash := [], p_locked := False, p_lock_asked := None,
                 p_id := i, p_owner := a, p_members := []\<rparr>"
  define p3 where "p3 = add_member (p_self p2) None p2"
  define p4 where "p4 = (if p_owner p3 \<noteq> p_self p3 then add_member (p_owner p3) None p3 else p3)"
  define p5 where "p5 = p4\<lparr>p_data := None\<rparr>"
  define p6 where "p6 = (if p_held p5 = p_id p5 then fold admit_held (p_held_members p5) (p5\<lparr>p_data := p_held_data p5\<rparr>) else p5)"
  define p7 where "p7 = post (make_event EvJoined 0 0 [] 0) (forget_held_data p6)"
  have eq: "feed_join_success i a p = announce_members p7"
    by (simp only: feed_join_success_def Let_def p1_def p2_def p3_def p4_def p5_def p6_def p7_def)
  have self1: "p_self p1 = p_self p" by (simp add: p1_def remote_members_leave_eq)
  obtain es where es: "p_events p1 = p_events p @ es" "observe_all (remotes p) es \<noteq> None"
  proof (cases "p_id p \<noteq> 0 \<and> p_id p \<noteq> i")
    case True
    then show ?thesis using observe_leave [OF ok]
      by (intro that [of "map (\<lambda>m. make_event EvMemberLeft 0 (m_id m) (m_name m) 0) (rev (tl (p_members p))) @ [make_event EvLeft 0 0 [] 0]"])
        (simp_all add: p1_def remote_members_leave_eq observe_all_append observe_def)
  next
    case False
    then show ?thesis by (intro that [of "[]"]) (auto simp: p1_def)
  qed
  have "built p2 p5"
    by (auto simp: built_def p5_def p4_def p3_def) (simp_all add: p2_def)
  then have "built p2 (p5\<lparr>p_data := p_held_data p5\<rparr>)" by (simp add: built_def)
  with \<open>built p2 p5\<close> have b: "built p2 p6" by (simp add: p6_def built_fold)
  have "members_ok p7" using b assms by (auto simp: p7_def forget_held_data_def members_ok_ids built_def p2_def self1)
  then show "members_ok (feed_join_success i a p)" by (simp add: eq announce_eq members_ok_def)
  have mem: "p_members p7 = p_members p6" "p_events p7 = p_events p @ es @ [make_event EvJoined 0 0 [] 0]"
    using b es(1) by (simp_all add: p7_def forget_held_data_def built_def p2_def)
  have ids: "distinct (map m_id (p_members p7))" "0 < length (p_members p7)"
    using b by (auto simp: mem built_def)
  obtain ys where "observe_all (remotes p) es = Some ys" using es(2) by auto
  moreover have "observe ys (make_event EvJoined 0 0 [] 0) = Some []" by (simp add: observe_def)
  ultimately show "tells p (feed_join_success i a p)"
    using observe_joining [OF ids(1) ids(2)] ids(2) by (simp add: tells_def eq announce_eq mem(2) observe_all_append remotes_def)
qed

lemma good_join_failure: "good p (feed_join_failure c p)"
  unfolding feed_join_failure_def by (intro good_post_after good_same) (simp_all add: same_party_def forget_held_data_def)

lemma good_join_notify: "p_id p \<noteq> 0 \<Longrightarrow> good p (feed_join_notify a p)"
  by (auto simp: feed_join_notify_def intro: good_refl good_joined)

lemma good_kick_notify: "good p (feed_kick_notify a p)"
  by (auto simp: feed_kick_notify_def Let_def intro: good_remove good_clear good_clear_post)

lemma good_invite: "good p (feed_invite i s t p)"
proof -
  obtain n q where n: "name_locked s p = (n, q)" by fastforce
  then obtain u where q: "q = p\<lparr>p_unnamed := u\<rparr>" using name_locked_sel by blast
  show ?thesis unfolding feed_invite_def n prod.case Let_def
    by (intro good_post_after good_same) (simp_all add: same_party_def q)
qed

lemma good_locked: "good p (feed_locked l p)"
  unfolding feed_locked_def by (intro good_post_after good_same) (simp_all add: same_party_def)

lemma good_update_member: "good p (feed_update_member a p)"
proof (cases "find_member a (p_members p)")
  case (Some i)
  have i: "i < length (p_members p)" "m_id (p_members p ! i) = a" using find_member_Some [OF Some] by simp_all
  then have "observe (remotes p) (make_event EvMemberUpdated i a [] 0) = Some (remotes p)"
    by (cases "p_members p"; cases i) (auto simp: observe_def remotes_def)
  then show ?thesis
    by (intro goodI) (auto simp: feed_update_member_def Some tells_def)
qed (simp add: feed_update_member_def good_refl)


lemma if_cases_good: "(c \<Longrightarrow> good p q) \<Longrightarrow> (\<not> c \<Longrightarrow> good p r) \<Longrightarrow> good p (if c then q else r)"
  by simp

lemma good_feed_named:
  assumes "length b < 16 \<or> feed_u64 b 0 \<noteq> 0"
  shows "good p (snd (feed_named n b t w p))"
proof -
  let ?len = "length b" and ?ours = "feed_u64 b 0 = p_id p"
  have pass: "good p (post (make_event EvHostChanged 0 0 [] 0) (p\<lparr>p_owner := x\<rparr>))" for x
    by (rule good_post_after [OF good_same]) (simp_all add: same_party_def)
  have upd: "good p (post (make_event EvUpdated 0 0 [] 0) p)" by (rule good_post) simp
  have notify: "good p (feed_join_notify x p)" if "16 \<le> ?len" ?ours for x
    using that assms by (intro good_join_notify) auto
  have create: "good p (snd (feed_create_success (feed_u64 b 0) x w p))"
    and join: "good p (feed_join_success (feed_u64 b 0) x p)" if "16 \<le> ?len" for x
    using that assms by (auto intro!: good_create_success good_join_success)
  show ?thesis
    unfolding feed_named_def Let_def if_distrib [of snd] snd_conv
    by (intro if_cases_good) (simp_all add: pass upd notify create join good_create_failure good_join_failure good_remove
        good_kick_notify good_locked good_update_member good_invite good_refl)
qed

lemma good_feed: "call_ok (FeedParty s b t w) p \<Longrightarrow> good p (snd (feed_party s b t w p))"
  using good_feed_named [of _ p _ t w]
  by (cases b; cases "reply_name s") (auto simp: feed_party_def good_refl Let_def split_def)

text \<open>The operations that touch neither the members nor the events.\<close>

lemma same_simple:
  "same_party p (snd (take_unnamed p))" "same_party p (snd (send_invite a p))" "same_party p (snd (create_party p))"
  "same_party p (abandon_join i p)" "same_party p (snd (abandon_create p))" "same_party p (forget_lock_request p)"
  "same_party p (snd (expire_lock_request l p))" "same_party p (snd (set_locked l p))"
  "same_party p (snd (set_join_policy c p))" "same_party p (note_friends_viewed t p)"
  "same_party p (snd (share_data k j p))"
  by (simp_all add: same_party_def take_unnamed_def send_invite_def create_party_def abandon_join_def forget_join_def
      abandon_create_def forget_lock_request_def expire_lock_request_def set_locked_def set_join_policy_def
      note_friends_viewed_def share_data_def Let_def)

lemmas good_simple = same_simple [THEN good_same]

lemma good_step: "call_ok c p \<Longrightarrow> good p (party_step c p)"
proof (cases c)
  case (FeedParty s b t w)
  assume "call_ok c p"
  with FeedParty show ?thesis using good_feed by simp
qed (simp_all add: good_set_self good_set_name good_begin_join good_join good_abandon_joining good_kick good_pass
      good_leave good_reset good_dismiss good_tab_open good_poll good_receive_data good_simple)

subsection \<open>Sessions\<close>

text \<open>A session interleaves calls with drains; it keeps every event drained so far.\<close>

datatype session_call = Call party_call | Drain

type_synonym session = "party_event list \<times> party"

fun session_step :: "session_call \<Rightarrow> session \<Rightarrow> session" where
  "session_step (Call c) (d, p) = (d, party_step c p)"
| "session_step Drain (d, p) = (d @ fst (drain_events p), snd (drain_events p))"

fun session_ok :: "session_call \<Rightarrow> session \<Rightarrow> bool" where
  "session_ok (Call c) s \<longleftrightarrow> call_ok c (snd s)"
| "session_ok Drain s \<longleftrightarrow> True"

definition session_inv :: "session \<Rightarrow> bool" where
  "session_inv s \<longleftrightarrow> (case s of (d, p) \<Rightarrow> members_ok p \<and> observe_all [] (d @ p_events p) = Some (remotes p))"

interpretation party: contract_system session_step session_ok session_inv
proof
  fix s c
  assume inv: "session_inv s" and ok: "session_ok c s"
  obtain d p where s: "s = (d, p)" by fastforce
  show "session_inv (session_step c s)"
  proof (cases c)
    case (Call pc)
    have "good p (party_step pc p)" using ok by (intro good_step) (simp add: s Call)
    then show ?thesis
      using inv observe_all_append [of "[]" "d @ p_events p"] by (auto simp: s Call session_inv_def good_def tells_def)
  next
    case Drain
    then show ?thesis
      using inv by (auto simp: s session_inv_def drain_events_def members_ok_def remotes_def)
  qed
qed

lemma session_start: "session_inv ([], new_party)"
  by (simp add: session_inv_def new_party_def members_ok_def remotes_def)


definition trial_session :: "session_call list" where
  "trial_session = [Call (SetSelf 5 [] 4),
     Call (FeedParty 0xb57a32de4552e00b (Some [7, 0, 0, 0, 0, 0, 0, 0, 9, 0, 0, 0, 0, 0, 0, 0]) 0 True), Drain,
     Call (FeedParty 0xcc38103e64879e53 (Some [7, 0, 0, 0, 0, 0, 0, 0, 8, 0, 0, 0, 0, 0, 0, 0]) 0 True),
     Call (FeedParty 0x05315abefc8f804b (Some [7, 0, 0, 0, 0, 0, 0, 0, 9, 0, 0, 0, 0, 0, 0, 0]) 0 True)]"

lemma trial_u64: "feed_u64 (7 # 0 # 0 # 0 # 0 # 0 # 0 # 0 # bs) 0 = 7"
  by (simp add: feed_u64_def le_value_def upt_rec)

lemma trial_admissible: "admissible session_step session_ok trial_session ([], new_party)"
  by (simp add: trial_session_def trial_u64 new_party_def)


end
