(* ===== verification/Party_Invites.thy ===== *)
theory Party_Invites
  imports Party_Runs
begin

section \<open>Invites, joins and friend refreshes\<close>

text \<open>
  What the party state promises about invites (one per sender, given back by a join that is abandoned, queued
  until the party exists) and about how often it asks for the friend list.
\<close>

subsection \<open>One invite per sender\<close>

definition senders :: "party \<Rightarrow> u64 list" where
  "senders p = map in_sender (p_invites p)"

text \<open>An abandoned join puts stashed invites back; the other calls are free.\<close>

definition stash_ok :: "party_call \<Rightarrow> party \<Rightarrow> bool" where
  "stash_ok c p \<longleftrightarrow> (c = AbandonJoining \<longrightarrow> distinct (map in_sender (p_stash p)))"

definition one_each :: "party \<Rightarrow> bool" where
  "one_each p \<longleftrightarrow> distinct (senders p)"

lemma invites_post_clear [simp]:
  "p_invites (clear_party p) = p_invites p" "p_invites (remote_members_leave p) = p_invites p"
  by (simp_all add: clear_party_def forget_held_data_def remote_members_leave_eq)

lemma senders_rename [simp]: "senders (rename_locked a n p) = senders p"
proof -
  have "map in_sender (map (\<lambda>i. if in_sender i = a then i\<lparr>in_name := n\<rparr> else i) is) = map in_sender is" for "is"
    by simp
  then show ?thesis by (simp add: senders_def rename_locked_def del: map_map)
qed

lemma invites_add [simp]: "p_invites (add_member a d p) = p_invites p"
  using add_member_eq [of a d p] by auto

lemma invites_set_data [simp]: "p_invites (set_member_data i d p) = p_invites p"
  by (simp add: set_member_data_def)

lemma invites_fold_admit [simp]: "p_invites (fold admit_held hs p) = p_invites p"
proof (induction hs arbitrary: p)
  case (Cons h hs)
  have "p_invites (admit_held h p) = p_invites p" by (simp add: admit_held_def split: option.split)
  with Cons show ?case by simp
qed simp

lemma invites_announce [simp]: "p_invites (announce_members p) = p_invites p"
  by (simp add: announce_eq)

lemma invites_remove [simp]: "p_invites (remove_member a p) = p_invites p"
  by (simp add: remove_member_def Let_def split: option.split)

lemma invites_stash [simp]: "p_invites (stash_invite i p) = p_invites p"
  by (simp add: stash_invite_def)

lemma invites_begin [simp]: "p_invites (begin_join_invite pid i p) = p_invites p"
  by (simp add: begin_join_invite_def)

lemma invites_fold_stash [simp]: "p_invites (fold stash_invite is p) = p_invites p"
  by (induction "is" arbitrary: p) simp_all

lemma invites_fold_begin [simp]: "p_invites (fold (begin_join_invite pid) is p) = p_invites p"
  by (induction "is" arbitrary: p) simp_all

lemma invites_drop: "p_invites (drop_invites pid p) = filter (\<lambda>i. in_party i \<noteq> pid) (p_invites p)"
  by (simp add: drop_invites_def)

lemma invites_forget [simp]: "p_invites (forget_join pid p) = p_invites p"
  by (simp add: forget_join_def Let_def)

lemma one_each_filter: "distinct (map in_sender is) \<Longrightarrow> distinct (map in_sender (filter P is))"
  by (induction "is") auto

lemma one_each_set: "senders (set_self a n f p) = senders p" "senders (set_name a n p) = senders p"
  by (auto simp: set_self_def set_name_def Let_def) (simp_all add: senders_def)

lemma invites_feed_invite:
  "p_invites (feed_invite i s t p) = filter (\<lambda>k. in_sender k \<noteq> s) (p_invites p)
     @ [\<lparr>in_party = i, in_sender = s, in_name = fst (name_locked s p), in_time = t\<rparr>]"
proof -
  obtain n q where n: "name_locked s p = (n, q)" by fastforce
  then obtain u where "q = p\<lparr>p_unnamed := u\<rparr>" using name_locked_sel by blast
  with n show ?thesis by (simp add: feed_invite_def)
qed

lemma one_each_feed_invite: "one_each p \<Longrightarrow> one_each (feed_invite i s t p)"
  using one_each_filter [of "p_invites p" "\<lambda>k. in_sender k \<noteq> s"] by (auto simp: one_each_def senders_def invites_feed_invite)

lemma invites_feed:
  "p_invites (snd (feed_create_success i a w p)) = p_invites p"
  "p_invites (feed_create_failure p) = p_invites p"
  "p_invites (feed_join_failure c p) = p_invites p"
  "p_invites (feed_join_notify a p) = p_invites p"
  "p_invites (feed_kick_notify a p) = p_invites p"
  "p_invites (feed_locked l p) = p_invites p"
  "p_invites (feed_update_member a p) = p_invites p"
  by (simp_all add: feed_create_success_def feed_create_failure_def feed_join_failure_def forget_held_data_def
      feed_join_notify_def member_joined_def feed_kick_notify_def feed_locked_def feed_update_member_def Let_def
      split: option.split)

lemma invites_join_success: "p_invites (feed_join_success i a p) = p_invites p"
  by (simp add: feed_join_success_def Let_def forget_held_data_def)

lemma one_each_same: "p_invites q = p_invites p \<Longrightarrow> one_each p \<Longrightarrow> one_each q"
  by (simp add: one_each_def senders_def)

lemma if_one_each: "(c \<Longrightarrow> one_each q) \<Longrightarrow> (\<not> c \<Longrightarrow> one_each r) \<Longrightarrow> one_each (if c then q else r)"
  by simp

lemma one_each_feed_named:
  assumes "one_each p"
  shows "one_each (snd (feed_named n b t w p))"
  unfolding feed_named_def Let_def if_distrib [of snd] snd_conv
  by (intro if_one_each one_each_feed_invite assms one_each_same [OF _ assms])
    (simp_all add: invites_feed invites_join_success)

lemma one_each_feed: "one_each p \<Longrightarrow> one_each (snd (feed_party s b t w p))"
  using one_each_feed_named [of p _ _ t w]
  by (cases b; cases "reply_name s") (auto simp: feed_party_def Let_def split_def)

lemma one_each_restore:
  assumes "one_each p" and "distinct (map in_sender (p_stash p))"
  shows "one_each (restore_invites p)"
  using assms one_each_filter [OF assms(2)]
  by (auto simp: restore_invites_def one_each_def senders_def)

lemma one_each_take: "one_each p \<Longrightarrow> one_each (snd (take_invite i p))"
  by (simp add: take_invite_def one_each_def senders_def map_erase_at distinct_erase Let_def)

lemma one_each_join: "one_each p \<Longrightarrow> one_each (snd (join_party i p))"
  by (auto simp: join_party_def Let_def one_each_def senders_def invites_drop intro: one_each_filter)

lemma one_each_begin: "one_each p \<Longrightarrow> one_each (snd (begin_join i p))"
  by (auto simp: begin_join_def Let_def one_each_def senders_def invites_drop intro: one_each_filter)

lemma invites_receive: "p_invites (snd (receive_data i a j p)) = p_invites p"
  by (auto simp: receive_data_def Let_def member_joined_def hold_member_def split: option.split)

text \<open>The calls that leave the invites alone.\<close>

lemma invites_simple:
  "p_invites (snd (take_unnamed p)) = p_invites p" "p_invites (snd (send_invite a p)) = p_invites p"
  "p_invites (snd (create_party p)) = p_invites p" "p_invites (abandon_join i p) = p_invites p"
  "p_invites (snd (abandon_create p)) = p_invites p" "p_invites (forget_lock_request p) = p_invites p"
  "p_invites (snd (expire_lock_request l p)) = p_invites p" "p_invites (snd (set_locked l p)) = p_invites p"
  "p_invites (snd (set_join_policy c p)) = p_invites p" "p_invites (note_friends_viewed t p) = p_invites p"
  "p_invites (snd (share_data k j p)) = p_invites p" "p_invites (snd (reset_party p)) = p_invites p"
  "p_invites (snd (leave_party p)) = p_invites p" "p_invites (snd (kick m p)) = p_invites p"
  "p_invites (snd (pass_lead m p)) = p_invites p" "p_invites (snd (refresh_friends_limited t p)) = p_invites p"
  by (simp_all add: take_unnamed_def send_invite_def create_party_def abandon_join_def
      abandon_create_def forget_lock_request_def expire_lock_request_def set_locked_def set_join_policy_def
      note_friends_viewed_def share_data_def reset_party_def leave_party_def kick_def pass_lead_def
      refresh_friends_limited_def Let_def)

lemma one_each_step:
  assumes "one_each p" and "stash_ok c p"
  shows "one_each (party_step c p)"
proof (cases c)
  case AbandonJoining
  have "one_each (post (make_event EvJoinFailed 0 0 [] 0) (restore_invites (p\<lparr>p_joining := False, p_joining_id := 0\<rparr>)))"
    if "distinct (map in_sender (p_stash p))"
    using one_each_restore [of "p\<lparr>p_joining := False, p_joining_id := 0\<rparr>"] assms(1) that
    by (simp add: one_each_def senders_def)
  then show ?thesis using assms by (simp add: AbandonJoining abandon_joining_def stash_ok_def)
next
  case (Dismiss n)
  have "p_invites (snd (dismiss n p)) = p_invites (snd (take_invite n p))"
    by (simp add: dismiss_def split_def split: option.split)
  then show ?thesis using one_each_take [OF assms(1), of n] by (simp add: Dismiss one_each_def senders_def)
next
  case (PollFriends t)
  show ?thesis
    by (rule one_each_same [OF _ assms(1)]) (simp add: PollFriends poll_friends_while_open_def invites_simple Let_def)
qed (use assms(1) one_each_feed [OF assms(1)] one_each_join [OF assms(1)] one_each_begin [OF assms(1)] in
    \<open>simp_all add: one_each_def refresh_friends_on_tab_open_def one_each_set\<close>,
    simp_all add: senders_def invites_simple invites_receive)

interpretation invites: contract_system party_step stash_ok one_each
  by unfold_locales (rule one_each_step)


text \<open>An invite frame from \<open>sender\<close> to \<open>party\<close>, small numbers both.\<close>

definition invite_frame :: "u8 \<Rightarrow> u8 \<Rightarrow> party_call" where
  "invite_frame party sender = FeedParty 0x218f721f09026dab
     (Some [party, 0, 0, 0, 0, 0, 0, 0, sender, 0, 0, 0, 0, 0, 0, 0]) 100 True"

lemma invite_frame_step [simp]:
  "party_step (invite_frame i a) p = feed_invite (ucast i) (ucast a) 100 p"
  by (simp add: invite_frame_def feed_party_def reply_name_def reply_table_def feed_named_def feed_u64_def le_value_def
      upt_rec Let_def)

definition trial_invites :: "party_call list" where
  "trial_invites = [SetSelf 5 [] 4, invite_frame 7 9, invite_frame 7 10, BeginJoin 7, JoinParty 7, AbandonJoining]"

lemmas join_defs = set_self_def feed_invite_def name_locked_def begin_join_def invites_to_def begin_join_invite_def
  stash_invite_def drop_invites_def join_party_def forget_join_def abandon_joining_def restore_invites_def post_def
  new_party_def Let_def


text \<open>
  Two invites to one party come back from an abandoned join in the other order; the older one is then the
  newest of the list.
\<close>

lemma abandoned_join_reverses:
  "map in_sender (p_invites (fold party_step trial_invites new_party)) = [10, 9]"
  by (simp add: trial_invites_def join_defs)

text \<open>
  Outside that contract: a sender who invites to a second party while the first join is in flight is stashed
  twice, and both invites come back.
\<close>

lemma abandoned_join_doubles_sender:
  "map in_sender (p_invites (fold party_step [SetSelf 5 [] 4, invite_frame 7 9, BeginJoin 7, JoinParty 7,
     invite_frame 8 9, BeginJoin 8, AbandonJoining] new_party)) = [9, 9]"
  by (simp add: join_defs)

end
