(* ===== verification/Party_Joins.thy ===== *)
theory Party_Joins
  imports Party_Invites "HOL-Library.Multiset"
begin

section \<open>Joins from invites, queued invites, the friend list\<close>

text \<open>
  What a join does with the invites it came from, how invites wait for a party to exist, and how often the
  friend list is asked for.
\<close>

subsection \<open>An abandoned join gives its invites back\<close>

lemma fold_stash_all:
  "distinct (map in_sender is) \<Longrightarrow> \<forall>i\<in>set is. in_sender i \<notin> in_sender ` set (p_stash p)
    \<Longrightarrow> fold stash_invite is p = p\<lparr>p_stash := p_stash p @ is\<rparr>"
proof (induction "is" arbitrary: p)
  case (Cons i "is")
  have "stash_invite i p = p\<lparr>p_stash := p_stash p @ [i]\<rparr>" 
  proof -
    have "in_sender i \<notin> in_sender ` set (p_stash p)" using Cons.prems(2) by simp
    then have "\<not> (\<exists>k\<in>set (p_stash p). in_party k = in_party i \<and> in_sender k = in_sender i)" by (metis imageI)
    then show ?thesis by (simp only: stash_invite_def if_False)
  qed
  moreover have "\<forall>j\<in>set is. in_sender j \<notin> in_sender ` set (p_stash (p\<lparr>p_stash := p_stash p @ [i]\<rparr>))"
    using Cons.prems by simp (metis imageI)
  moreover have "distinct (map in_sender is)" using Cons.prems(1) by simp
  ultimately show ?case using Cons.IH [of "p\<lparr>p_stash := p_stash p @ [i]\<rparr>"] by simp
qed simp

lemma fold_begin_pid: "p_invite_party p = pid \<Longrightarrow> fold (begin_join_invite pid) is p = fold stash_invite is p"
proof (induction "is" arbitrary: p)
  case (Cons i "is")
  have "p_invite_party (stash_invite i p) = pid" using Cons.prems by (simp add: stash_invite_def)
  with Cons show ?case by (simp add: begin_join_invite_def)
qed simp

lemma fold_begin:
  assumes "distinct (map in_sender is)" and "p_stash p = []" and "p_invite_party p \<noteq> pid"
  shows "fold (begin_join_invite pid) is p =
    (case is of [] \<Rightarrow> p | i # _ \<Rightarrow> p\<lparr>p_invite_party := pid, p_inviter := in_sender i, p_stash := is\<rparr>)"
proof (cases "is")
  case (Cons i rest)
  define q where "q = p\<lparr>p_invite_party := pid, p_inviter := in_sender i, p_stash := [i]\<rparr>"
  have 1: "begin_join_invite pid i p = q" using assms by (simp add: begin_join_invite_def stash_invite_def q_def)
  have "fold stash_invite rest q = q\<lparr>p_stash := p_stash q @ rest\<rparr>"
    using assms(1) by (intro fold_stash_all) (simp_all add: Cons q_def, metis imageI)
  moreover have "fold (begin_join_invite pid) rest q = fold stash_invite rest q"
    by (rule fold_begin_pid) (simp add: q_def)
  ultimately have "fold (begin_join_invite pid) is p = q\<lparr>p_stash := p_stash q @ rest\<rparr>"
    by (simp add: Cons 1)
  then show ?thesis by (simp add: Cons q_def)
qed simp

lemma invites_to_drop: "invites_to pid (drop_invites pid p) = []"
  by (simp add: invites_to_def drop_invites_def filter_empty_conv)


definition invited :: party where
  "invited = fold party_step [SetSelf 5 [] 4, invite_frame 7 9, invite_frame 8 11, invite_frame 7 10] new_party"


subsection \<open>Invites wait for the party\<close>

fun invite_all :: "u64 list \<Rightarrow> party \<Rightarrow> party_message list \<times> party" where
  "invite_all [] p = ([], p)"
| "invite_all (t # ts) p = (let (m, p1) = send_invite t p; (ms, p2) = invite_all ts p1 in (m @ ms, p2))"

text \<open>Every target once, where it was first asked for.\<close>

definition first_asked :: "u64 list \<Rightarrow> u64 list" where
  "first_asked ts = rev (remdups (rev ts))"

definition queue :: "u64 list \<Rightarrow> u64 \<Rightarrow> u64 list" where
  "queue ts t = (if t \<in> set ts then ts else ts @ [t])"

lemma foldl_queue: "foldl queue [] ts = first_asked ts"
proof (induction ts rule: rev_induct)
  case (snoc t ts)
  have "set (first_asked ts) = set ts" by (simp add: first_asked_def)
  with snoc show ?case by (simp add: queue_def first_asked_def)
qed (simp add: first_asked_def)

lemma invite_all_creating:
  "p_id p = 0 \<Longrightarrow> p_creating p \<Longrightarrow> invite_all ts p = ([], p\<lparr>p_pending := foldl queue (p_pending p) ts\<rparr>)"
proof (induction ts arbitrary: p)
  case (Cons t ts)
  have "send_invite t p = ([], p\<lparr>p_pending := queue (p_pending p) t\<rparr>)"
    using Cons.prems by (simp add: send_invite_def queue_def Let_def)
  with Cons show ?case by simp
qed simp

text \<open>Friends invited before there is a party are invited once each when it exists. However many invites are asked for,
  in any order and with repeats, one create request goes out; when the server confirms the party every target gets
  exactly one invite, in the order first asked for, after the join policy if it is not the default one.\<close>

theorem queued_invites_are_sent:
  assumes "p_id p = 0" and "\<not> p_creating p" and "p_pending p = []" and "ts \<noteq> []" and "invite_all ts p = (ms, q)"
  shows "ms = [standard_msg k_create_request (self_uuid p) 0] \<and> p_creating q
    \<and> fst (feed_create_success i a True q) =
        (if p_policy p = k_join_policy_everyone then []
         else [standard_msg k_set_join_policy_request (self_uuid p) (ucast (p_policy p))])
        @ map (standard_msg k_invite_request (self_uuid p)) (first_asked ts)
    \<and> p_pending (snd (feed_create_success i a True q)) = [] \<and> \<not> p_creating (snd (feed_create_success i a True q))"
proof -
  obtain t us where ts: "ts = t # us" using assms(4) by (cases ts) auto
  define p1 where "p1 = p\<lparr>p_pending := [t], p_creating := True\<rparr>"
  have "send_invite t p = ([standard_msg k_create_request (self_uuid p) 0], p1)"
    using assms(1-3) by (simp add: send_invite_def Let_def p1_def self_uuid_def)
  moreover have "foldl queue [t] us = first_asked ts"
    using foldl_queue [of ts] by (simp add: ts queue_def)
  ultimately have q: "ms = [standard_msg k_create_request (self_uuid p) 0]" "q = p1\<lparr>p_pending := first_asked ts\<rparr>"
    using assms(1,5) invite_all_creating [of p1 us] by (simp_all add: ts p1_def)
  have plat: "p_platform (add_member b d r) = p_platform r" "p_creating (add_member b d r) = p_creating r" for b d r
    using add_member_eq [of b d r] by auto
  show ?thesis
    by (simp add: q p1_def feed_create_success_def Let_def self_uuid_def post_def plat)
qed

lemma queued_invites_are_sent_witness:
  "fst (feed_create_success 7 5 True (snd (invite_all [8, 9, 8] new_party)))
    = map (standard_msg k_invite_request (self_uuid new_party)) [8, 9]"
  using queued_invites_are_sent [of new_party "[8, 9, 8]" "fst (invite_all [8, 9, 8] new_party)" "snd (invite_all [8, 9, 8] new_party)" 7 5]
  by (simp add: new_party_def first_asked_def)

subsection \<open>The friend list is asked for no more than every five seconds\<close>

datatype tab_event = OpenAt u64 | PollAt u64

fun at_time :: "tab_event \<Rightarrow> u64" where
  "at_time (OpenAt t) = t"
| "at_time (PollAt t) = t"

fun tab_step :: "tab_event \<Rightarrow> party \<Rightarrow> party_message list \<times> party" where
  "tab_step (OpenAt t) p = refresh_friends_on_tab_open t p"
| "tab_step (PollAt t) p = poll_friends_while_open t p"

text \<open>The times at which a request went out.\<close>

fun refresh_times :: "tab_event list \<Rightarrow> party \<Rightarrow> nat list" where
  "refresh_times [] p = []"
| "refresh_times (e # es) p = (let (ms, p1) = tab_step e p
     in (if ms = [] then [] else [unat (at_time e)]) @ refresh_times es p1)"

lemma limited_cases:
  assumes "refresh_friends_limited t p = (ms, q)" and "p_refresh_sent p \<Longrightarrow> p_last_refresh p \<le> t"
  shows "if ms = [] then q = p \<and> p_refresh_sent p
    else p_refresh_sent q \<and> p_last_refresh q = t \<and> (p_refresh_sent p \<longrightarrow> unat (p_last_refresh p) + 5 \<le> unat t)"
proof (cases "p_refresh_sent p \<and> t \<ge> p_last_refresh p \<and> t - p_last_refresh p < friend_refresh_min")
  case True
  then show ?thesis using assms by (auto simp: refresh_friends_limited_def)
next
  case False
  then have "unat (p_last_refresh p) + 5 \<le> unat t" if "p_refresh_sent p"
    using that assms(2) by (simp add: friend_refresh_min_def word_less_nat_alt word_le_nat_alt unat_sub)
  with False assms(1) show ?thesis by (auto simp: refresh_friends_limited_def Let_def)
qed

lemma tab_step_cases:
  assumes "tab_step e p = (ms, q)" and "p_refresh_sent p \<Longrightarrow> p_last_refresh p \<le> at_time e"
  shows "if ms = [] then p_refresh_sent q = p_refresh_sent p \<and> p_last_refresh q = p_last_refresh p
    else p_refresh_sent q \<and> p_last_refresh q = at_time e \<and> (p_refresh_sent p \<longrightarrow> unat (p_last_refresh p) + 5 \<le> unat (at_time e))"
proof (cases e)
  case (OpenAt t)
  have "refresh_friends_limited t (note_friends_viewed t p) = (ms, q)"
    using assms(1) by (simp add: OpenAt refresh_friends_on_tab_open_def)
  from limited_cases [OF this] assms(2) show ?thesis
    by (auto simp: OpenAt note_friends_viewed_def split: if_splits)
next
  case (PollAt t)
  show ?thesis
  proof (cases "refresh_friends_limited t p = (ms, q)")
    case True
    from limited_cases [OF this] assms(2) show ?thesis by (auto simp: PollAt split: if_splits)
  next
    case False
    with assms(1) have "ms = [] \<and> q = p"
      by (auto simp: PollAt poll_friends_while_open_def Let_def split: if_splits)
    then show ?thesis by simp
  qed
qed

lemma refresh_times_gap:
  "sorted (map at_time es) \<Longrightarrow> (p_refresh_sent p \<Longrightarrow> \<forall>e\<in>set es. p_last_refresh p \<le> at_time e) \<Longrightarrow>
    sorted_wrt (\<lambda>a b. a + 5 \<le> b) (refresh_times es p)
    \<and> (p_refresh_sent p \<longrightarrow> (\<forall>s\<in>set (refresh_times es p). unat (p_last_refresh p) + 5 \<le> s))"
proof (induction es arbitrary: p)
  case (Cons e es)
  obtain ms q where st: "tab_step e p = (ms, q)" by fastforce
  note c = tab_step_cases [OF st]
  show ?case
  proof (cases "ms = []")
    case True
    then have q: "p_refresh_sent q = p_refresh_sent p" "p_last_refresh q = p_last_refresh p" using c Cons.prems(2) by auto
    with Cons.IH [of q] Cons.prems True show ?thesis by (simp add: st)
  next
    case False
    then have q: "p_refresh_sent q" "p_last_refresh q = at_time e"
      "p_refresh_sent p \<longrightarrow> unat (p_last_refresh p) + 5 \<le> unat (at_time e)" using c Cons.prems(2) by auto
    have "sorted_wrt (\<lambda>a b. a + 5 \<le> b) (refresh_times es q) \<and> (\<forall>s\<in>set (refresh_times es q). unat (at_time e) + 5 \<le> s)"
      using Cons.IH [of q] Cons.prems(1) q by auto
    then show ?thesis using False q(3) by (fastforce simp: st)
  qed
qed simp

text \<open>However often the friends tab is opened and polled, two requests for the friend list are at least five seconds
  apart, as long as the caller's clock does not go back.\<close>

theorem friend_refreshes_are_spaced:
  assumes "sorted (map at_time es)" and "\<not> p_refresh_sent p"
  shows "sorted_wrt (\<lambda>a b. a + 5 \<le> b) (refresh_times es p)"
  using refresh_times_gap [of es p] assms by simp

lemma friend_refreshes_are_spaced_witness:
  "sorted_wrt (\<lambda>a b. a + 5 \<le> b) (refresh_times [OpenAt 10, OpenAt 12, PollAt 20, OpenAt 40, PollAt 70] new_party)"
  by (rule friend_refreshes_are_spaced) (simp_all add: new_party_def)

end
