(* ===== verification/Sha256.thy ===== *)
theory Sha256
  imports Ws_Accept
begin

section \<open>SHA-256 of the data packs\<close>

text \<open>
  \<^verbatim>\<open>src/quest/data/sha256.cpp\<close>: the streaming digest the downloads, packs and plans are pinned by. The
  buffer keeps its 64 bytes, stale tail included, as in the code.
\<close>

unbundle bit_operations_syntax

type_synonym sha256_hash = "u32 \<times> u32 \<times> u32 \<times> u32 \<times> u32 \<times> u32 \<times> u32 \<times> u32"

record sha256 =
  s2_state :: sha256_hash
  s2_total :: u64
  s2_buffer :: bytes
  s2_buffered :: nat

text \<open>The round constants, one row of the table at a time.\<close>

definition k_row0 :: "u32 list" where
  "k_row0 = [0x428a2f98, 0x71374491, 0xb5c0fbcf, 0xe9b5dba5, 0x3956c25b, 0x59f111f1, 0x923f82a4, 0xab1c5ed5]"

definition k_row1 :: "u32 list" where
  "k_row1 = [0xd807aa98, 0x12835b01, 0x243185be, 0x550c7dc3, 0x72be5d74, 0x80deb1fe, 0x9bdc06a7, 0xc19bf174]"

definition k_row2 :: "u32 list" where
  "k_row2 = [0xe49b69c1, 0xefbe4786, 0x0fc19dc6, 0x240ca1cc, 0x2de92c6f, 0x4a7484aa, 0x5cb0a9dc, 0x76f988da]"

definition k_row3 :: "u32 list" where
  "k_row3 = [0x983e5152, 0xa831c66d, 0xb00327c8, 0xbf597fc7, 0xc6e00bf3, 0xd5a79147, 0x06ca6351, 0x14292967]"

definition k_row4 :: "u32 list" where
  "k_row4 = [0x27b70a85, 0x2e1b2138, 0x4d2c6dfc, 0x53380d13, 0x650a7354, 0x766a0abb, 0x81c2c92e, 0x92722c85]"

definition k_row5 :: "u32 list" where
  "k_row5 = [0xa2bfe8a1, 0xa81a664b, 0xc24b8b70, 0xc76c51a3, 0xd192e819, 0xd6990624, 0xf40e3585, 0x106aa070]"

definition k_row6 :: "u32 list" where
  "k_row6 = [0x19a4c116, 0x1e376c08, 0x2748774c, 0x34b0bcb5, 0x391c0cb3, 0x4ed8aa4a, 0x5b9cca4f, 0x682e6ff3]"

definition k_row7 :: "u32 list" where
  "k_row7 = [0x748f82ee, 0x78a5636f, 0x84c87814, 0x8cc70208, 0x90befffa, 0xa4506ceb, 0xbef9a3f7, 0xc67178f2]"

definition k_round :: "u32 list" where
  "k_round = concat [k_row0, k_row1, k_row2, k_row3, k_row4, k_row5, k_row6, k_row7]"

definition rotr :: "u32 \<Rightarrow> nat \<Rightarrow> u32" where
  "rotr x n = drop_bit n x OR push_bit (32 - n) x"

definition sha256_iv :: sha256_hash where
  "sha256_iv = (0x6a09e667, 0xbb67ae85, 0x3c6ef372, 0xa54ff53a, 0x510e527f, 0x9b05688c, 0x1f83d9ab, 0x5be0cd19)"

text \<open>\<^verbatim>\<open>Reset\<close> leaves the buffer's bytes where they are.\<close>

definition sha256_reset :: "sha256 \<Rightarrow> sha256" where
  "sha256_reset s = s\<lparr>s2_state := sha256_iv, s2_total := 0, s2_buffered := 0\<rparr>"

definition sha256_schedule :: "bytes \<Rightarrow> u32 list" where
  "sha256_schedule b =
     foldl (\<lambda>w i. let s0 = rotr (w ! (i - 15)) 7 XOR rotr (w ! (i - 15)) 18 XOR drop_bit 3 (w ! (i - 15));
                      s1 = rotr (w ! (i - 2)) 17 XOR rotr (w ! (i - 2)) 19 XOR drop_bit 10 (w ! (i - 2))
                  in w @ [w ! (i - 16) + s0 + w ! (i - 7) + s1])
       (map (\<lambda>i. be32 b (4 * i)) [0..<16]) [16..<64]"

definition sha256_round :: "u32 list \<Rightarrow> sha256_hash \<Rightarrow> nat \<Rightarrow> sha256_hash" where
  "sha256_round w s i =
     (case s of (a, b, c, d, e, f, g, h) \<Rightarrow>
       let big1 = rotr e 6 XOR rotr e 11 XOR rotr e 25;
           ch = (e AND f) XOR (NOT e AND g);
           t1 = h + big1 + ch + k_round ! i + w ! i;
           big0 = rotr a 2 XOR rotr a 13 XOR rotr a 22;
           maj = (a AND b) XOR (a AND c) XOR (b AND c);
           t2 = big0 + maj
       in (t1 + t2, a, b, c, d + t1, e, f, g))"

definition sha256_compress :: "sha256_hash \<Rightarrow> bytes \<Rightarrow> sha256_hash" where
  "sha256_compress s blk =
     (case (s, foldl (sha256_round (sha256_schedule blk)) s [0..<64]) of
       ((s0, s1, s2, s3, s4, s5, s6, s7), (a, b, c, d, e, f, g, h)) \<Rightarrow>
         (s0 + a, s1 + b, s2 + c, s3 + d, s4 + e, s5 + f, s6 + g, s7 + h))"

text \<open>\<^verbatim>\<open>memcpy\<close> into the buffer.\<close>

definition copy_at :: "bytes \<Rightarrow> nat \<Rightarrow> bytes \<Rightarrow> bytes" where
  "copy_at buf i bs = take i buf @ bs @ drop (i + length bs) buf"

text \<open>The loop over whole blocks and what is left of the input.\<close>

definition sha256_rest :: "sha256 \<Rightarrow> bytes \<Rightarrow> sha256" where
  "sha256_rest s p =
     (let (h, rest) = md_blocks sha256_compress (s2_state s) p; s1 = s\<lparr>s2_state := h\<rparr>
      in if rest \<noteq> [] then s1\<lparr>s2_buffer := copy_at (s2_buffer s1) 0 rest, s2_buffered := length rest\<rparr> else s1)"

definition sha256_update :: "sha256 \<Rightarrow> bytes \<Rightarrow> sha256" where
  "sha256_update s p =
     (let s1 = s\<lparr>s2_total := s2_total s + word_of_nat (length p)\<rparr>
      in if s2_buffered s1 \<noteq> 0
         then let n = (if 64 - s2_buffered s1 < length p then 64 - s2_buffered s1 else length p);
                  s2 = s1\<lparr>s2_buffer := copy_at (s2_buffer s1) (s2_buffered s1) (take n p), s2_buffered := s2_buffered s1 + n\<rparr>
              in if s2_buffered s2 < 64 then s2
                 else sha256_rest (s2\<lparr>s2_state := sha256_compress (s2_state s2) (s2_buffer s2), s2_buffered := 0\<rparr>) (drop n p)
         else sha256_rest s1 p)"

definition sha256_bytes :: "sha256_hash \<Rightarrow> bytes" where
  "sha256_bytes s = (case s of (a, b, c, d, e, f, g, h) \<Rightarrow>
     concat (map (\<lambda>w. map (\<lambda>j. ucast (drop_bit (24 - 8 * j) w)) [0..<4]) [a, b, c, d, e, f, g, h]))"

definition sha256_hex :: "sha256 \<Rightarrow> bytes \<times> sha256" where
  "sha256_hex s =
     (let bits = s2_total s * 8;
          pad_length = (if s2_buffered s < 56 then 56 - s2_buffered s else 120 - s2_buffered s);
          pad = (0x80 # replicate (pad_length - 1) 0) @ map (\<lambda>i. ucast (drop_bit (56 - 8 * i) bits)) [0..<8];
          s1 = sha256_update s pad
      in (hex_encode (sha256_bytes (s2_state s1)), sha256_reset s1))"

definition sha256_start :: "bytes \<Rightarrow> sha256" where
  "sha256_start buf = sha256_reset \<lparr>s2_state = sha256_iv, s2_total = 0, s2_buffer = buf, s2_buffered = 0\<rparr>"

definition sha256_hex_of :: "bytes \<Rightarrow> bytes" where
  "sha256_hex_of p = fst (sha256_hex (sha256_update (sha256_start (replicate 64 0)) p))"

subsection \<open>SHA-256 is a streaming block hash\<close>

definition sha256_pending :: "sha256 \<Rightarrow> bytes" where
  "sha256_pending s = take (s2_buffered s) (s2_buffer s)"

definition sha256_ok :: "sha256 \<Rightarrow> bool" where
  "sha256_ok s \<longleftrightarrow> length (s2_buffer s) = 64 \<and> s2_buffered s < 64"

lemma length_copy_at: "i + length bs \<le> length buf \<Longrightarrow> length (copy_at buf i bs) = length buf"
  by (simp add: copy_at_def)

lemma take_copy_at: "i \<le> length buf \<Longrightarrow> take (i + length bs) (copy_at buf i bs) = take i buf @ bs"
  by (simp add: copy_at_def)

lemma sha256_rest_blocks:
  assumes "length (s2_buffer s) = 64" and "s2_buffered s = 0"
  shows "sha256_ok (sha256_rest s p)
    \<and> (s2_state (sha256_rest s p), sha256_pending (sha256_rest s p)) = md_blocks sha256_compress (s2_state s) p
    \<and> s2_total (sha256_rest s p) = s2_total s"
proof -
  obtain h rest where b: "md_blocks sha256_compress (s2_state s) p = (h, rest)" by fastforce
  have len: "length rest < 64" using md_blocks_pending [of sha256_compress "s2_state s" p] by (simp add: b)
  show ?thesis
  proof (cases "rest = []")
    case True
    then show ?thesis using assms by (simp add: sha256_rest_def b sha256_ok_def sha256_pending_def)
  next
    case False
    then show ?thesis
      using assms len length_copy_at [of 0 rest "s2_buffer s"] take_copy_at [of 0 "s2_buffer s" rest]
      by (simp add: sha256_rest_def b sha256_ok_def sha256_pending_def)
  qed
qed

lemma sha256_update_step:
  assumes ok: "sha256_ok s"
  shows "sha256_ok (sha256_update s p)
    \<and> (s2_state (sha256_update s p), sha256_pending (sha256_update s p))
        = md_blocks sha256_compress (s2_state s) (sha256_pending s @ p)
    \<and> s2_total (sha256_update s p) = s2_total s + word_of_nat (length p)"
proof -
  define s1 where "s1 = s\<lparr>s2_total := s2_total s + word_of_nat (length p)\<rparr>"
  have s1: "length (s2_buffer s1) = 64" "s2_buffered s1 < 64" "sha256_pending s1 = sha256_pending s" "s2_state s1 = s2_state s"
    using ok by (simp_all add: s1_def sha256_ok_def sha256_pending_def)
  show ?thesis
  proof (cases "s2_buffered s1 = 0")
    case True
    then have "sha256_update s p = sha256_rest s1 p" by (simp add: sha256_update_def s1_def)
    moreover have "sha256_pending s = []" using True by (simp add: sha256_pending_def s1_def)
    ultimately show ?thesis using sha256_rest_blocks [OF s1(1) True, of p] s1(4) by (simp add: s1_def)
  next
    case False
    define n where "n = (if 64 - s2_buffered s1 < length p then 64 - s2_buffered s1 else length p)"
    define s2 where "s2 = s1\<lparr>s2_buffer := copy_at (s2_buffer s1) (s2_buffered s1) (take n p), s2_buffered := s2_buffered s1 + n\<rparr>"
    have n: "n \<le> length p" "s2_buffered s1 + n \<le> 64" using s1(2) by (auto simp: n_def)
    have len: "length (take n p) = n" using n(1) by simp
    have buf: "length (s2_buffer s2) = 64"
      using length_copy_at [of "s2_buffered s1" "take n p" "s2_buffer s1"] s1 n by (simp add: s2_def)
    have pend: "take (s2_buffered s1 + n) (s2_buffer s2) = sha256_pending s @ take n p"
      using take_copy_at [of "s2_buffered s1" "s2_buffer s1" "take n p"] s1 n by (simp add: s2_def sha256_pending_def)
    have eq: "sha256_update s p = (if s2_buffered s2 < 64 then s2
        else sha256_rest (s2\<lparr>s2_state := sha256_compress (s2_state s2) (s2_buffer s2), s2_buffered := 0\<rparr>) (drop n p))"
      using False unfolding sha256_update_def Let_def s1_def [symmetric] n_def [symmetric] s2_def [symmetric] by simp
    show ?thesis
    proof (cases "s2_buffered s2 < 64")
      case True
      then have "n = length p" by (auto simp: s2_def n_def split: if_splits)
      then show ?thesis using True buf pend eq s1(4)
        by (simp add: sha256_ok_def sha256_pending_def s2_def s1_def)
    next
      case full: False
      define s3 where "s3 = s2\<lparr>s2_state := sha256_compress (s2_state s2) (s2_buffer s2), s2_buffered := 0\<rparr>"
      have all: "s2_buffer s2 = sha256_pending s @ take n p"
        using pend full n(2) buf by (simp add: s2_def)
      have "md_blocks sha256_compress (s2_state s) (s2_buffer s2 @ drop n p)
          = md_blocks sha256_compress (sha256_compress (s2_state s) (s2_buffer s2)) (drop n p)"
        using buf by (rule md_blocks_block)
      then have "md_blocks sha256_compress (s2_state s) (sha256_pending s @ p)
          = md_blocks sha256_compress (sha256_compress (s2_state s) (s2_buffer s2)) (drop n p)"
        by (simp add: all)
      moreover have "s2_state s3 = sha256_compress (s2_state s) (s2_buffer s2)" "length (s2_buffer s3) = 64" "s2_buffered s3 = 0"
        "s2_total s3 = s2_total s + word_of_nat (length p)"
        using buf s1(4) by (simp_all add: s3_def s2_def s1_def)
      moreover have "sha256_update s p = sha256_rest s3 (drop n p)" using eq full by (simp add: s3_def)
      ultimately show ?thesis using sha256_rest_blocks [of s3 "drop n p"] by simp
    qed
  qed
qed

interpretation sha256: block_hash sha256_compress sha256_update s2_state sha256_pending sha256_ok
proof unfold_locales
  fix s bs assume ok: "sha256_ok s"
  show "sha256_ok (sha256_update s bs)" using sha256_update_step [OF ok, of bs] by (rule conjunct1)
  show "(s2_state (sha256_update s bs), sha256_pending (sha256_update s bs))
      = md_blocks sha256_compress (s2_state s) (sha256_pending s @ bs)"
    using sha256_update_step [OF ok, of bs, THEN conjunct2] by (rule conjunct1)
  show "length (sha256_pending s) < 64" using ok by (simp add: sha256_pending_def sha256_ok_def)
qed

lemma sha256_total: "sha256_ok s \<Longrightarrow> s2_total (foldl sha256_update s pieces) = s2_total s + word_of_nat (length (concat pieces))"
proof (induction pieces arbitrary: s)
  case (Cons p pieces)
  then show ?case using sha256_update_step [OF Cons.prems, of p] by (simp add: algebra_simps)
qed simp

definition sha256_fresh :: "sha256 \<Rightarrow> bool" where
  "sha256_fresh s \<longleftrightarrow> sha256_ok s \<and> s2_state s = sha256_iv \<and> s2_total s = 0 \<and> s2_buffered s = 0"

lemma sha256_hex_digest:
  assumes "sha256_fresh s"
  shows "fst (sha256_hex (foldl sha256_update s pieces)) = hex_encode (sha256_bytes (md_digest sha256_compress sha256_iv (concat pieces)))
    \<and> sha256_fresh (snd (sha256_hex (foldl sha256_update s pieces)))"
proof -
  let ?t = "foldl sha256_update s pieces" and ?m = "concat pieces"
  have ok: "sha256_ok s" "sha256_pending s = []" "s2_state s = sha256_iv"
    using assms by (simp_all add: sha256_fresh_def sha256_pending_def)
  have t: "sha256_ok ?t" "(s2_state ?t, sha256_pending ?t) = md_blocks sha256_compress sha256_iv ?m"
    using sha256.fold_update [OF ok(1), of pieces] ok by simp_all
  have len: "length (sha256_pending ?t) = s2_buffered ?t" using t(1) by (simp add: sha256_ok_def sha256_pending_def)
  have bits: "s2_total ?t * 8 = 8 * word_of_nat (length ?m)"
    using sha256_total [OF ok(1)] assms by (simp add: sha256_fresh_def)
  define pad where "pad = (0x80 :: u8) # replicate (pad_zeros (s2_buffered ?t)) 0 @ be64_bytes (8 * word_of_nat (length ?m))"
  have "map (\<lambda>i. ucast (drop_bit (56 - 8 * i) w)) [0..<8] = be64_bytes w" for w :: u64
    by (simp add: be64_bytes_def upt_rec)
  moreover have "(if s2_buffered ?t < 56 then 56 - s2_buffered ?t else 120 - s2_buffered ?t) - 1 = pad_zeros (s2_buffered ?t)"
    using t(1) by (simp add: pad_zeros_def sha256_ok_def)
  ultimately have hex: "sha256_hex ?t = (hex_encode (sha256_bytes (s2_state (sha256_update ?t pad))), sha256_reset (sha256_update ?t pad))"
    by (simp add: sha256_hex_def Let_def bits pad_def)
  have "s2_state (sha256_update ?t pad) = md_digest sha256_compress sha256_iv ?m"
    using sha256.chain_update [OF t(1), of pad] md_digest_pending [OF t(2)] len by (simp add: pad_def)
  moreover have "sha256_fresh (sha256_reset (sha256_update ?t pad))"
    using sha256.update_ok [OF t(1), of pad] by (simp add: sha256_fresh_def sha256_reset_def sha256_ok_def)
  ultimately show ?thesis by (simp add: hex)
qed

subsection \<open>Properties\<close>

text \<open>C30: the streaming SHA-256 is SHA-256 of the whole input, and the object can be used again: fed any pieces, finished,
  and fed any other pieces, it gives for each the hex of the padded message compressed block by block.\<close>

theorem sha256_streams:
  assumes "length buf = 64"
  shows "fst (sha256_hex (foldl sha256_update (sha256_start buf) pieces))
      = hex_encode (sha256_bytes (md_digest sha256_compress sha256_iv (concat pieces)))
    \<and> fst (sha256_hex (foldl sha256_update (snd (sha256_hex (foldl sha256_update (sha256_start buf) pieces))) pieces2))
      = hex_encode (sha256_bytes (md_digest sha256_compress sha256_iv (concat pieces2)))"
proof -
  have "sha256_fresh (sha256_start buf)"
    using assms by (simp add: sha256_fresh_def sha256_start_def sha256_reset_def sha256_ok_def)
  from sha256_hex_digest [OF this, of pieces] show ?thesis using sha256_hex_digest by blast
qed

lemma sha256_streams_witness:
  "fst (sha256_hex (foldl sha256_update (snd (sha256_hex (foldl sha256_update (sha256_start (replicate 64 0)) [[1], [2, 3]]))) [[4]]))
    = hex_encode (sha256_bytes (md_digest sha256_compress sha256_iv (concat [[4]])))"
  using sha256_streams [of "replicate 64 0" "[[1], [2, 3]]" "[[4]]"] by simp

end
