(* ===== verification/Zip_Listing.thy ===== *)
theory Zip_Listing
  imports Fat16_Directory "HOL-Library.List_Lexorder"
begin

section \<open>Listing the game-data zip\<close>

text \<open>
  \<^verbatim>\<open>src/quest/data/zip.cpp\<close>, the reader of the central directory. A file is what \<^verbatim>\<open>fstat\<close> and
  \<^verbatim>\<open>PreadAll\<close> say of it: its size, and reads that either give the whole range or fail. Header fields are
  numbers; every sum of them fits 64 bits. The \<^verbatim>\<open>detail\<close> of a refusal is for the log and not modelled.
\<close>

unbundle bit_operations_syntax

datatype zip_status =
    ZOpenFailed | ZNoEndRecord | ZZip64 | ZMultiDisk | ZBadCentralDirectory | ZEncrypted | ZUnsupportedMethod
  | ZSpecialFile | ZTooManyEntries | ZBadEntryPath | ZConflict | ZOffsetOutOfRange | ZSizeLimit | ZBadLocalHeader
  | ZDestExists | ZWriteFailed | ZReadFailed | ZInflateFailed | ZSizeMismatch | ZCrcMismatch

record zip_file =
  zf_size :: "nat option"                          \<comment> \<open>\<open>None\<close>: \<^verbatim>\<open>fstat\<close> failed\<close>
  zf_read :: "nat \<Rightarrow> nat \<Rightarrow> bytes option"           \<comment> \<open>offset, length\<close>

record zip_limits =
  max_entries :: nat
  max_entry_bytes :: nat
  max_total_bytes :: nat

record zip_entry =
  z_name :: bytes
  z_method :: nat
  z_crc :: u32
  z_csize :: nat
  z_size :: nat
  z_local :: nat

definition end_sig :: u32 where "end_sig = 0x06054b50"
definition central_sig :: u32 where "central_sig = 0x02014b50"
definition local_sig :: u32 where "local_sig = 0x04034b50"
definition zip64_locator_sig :: u32 where "zip64_locator_sig = 0x07064b50"
definition end_size :: nat where "end_size = 22"
definition central_fixed :: nat where "central_fixed = 46"
definition local_fixed :: nat where "local_fixed = 30"

abbreviation rd16 :: "bytes \<Rightarrow> nat \<Rightarrow> nat" where "rd16 p i \<equiv> unat (le16 p i)"
abbreviation rd32 :: "bytes \<Rightarrow> nat \<Rightarrow> nat" where "rd32 p i \<equiv> unat (le32 p i)"

definition is_dir_entry :: "zip_entry \<Rightarrow> bool" where
  "is_dir_entry e \<longleftrightarrow> z_name e \<noteq> [] \<and> last (z_name e) = slash"

definition fold_case :: "bytes \<Rightarrow> bytes" where
  "fold_case name = map (\<lambda>c. if 0x41 \<le> c \<and> c \<le> 0x5A then c - 0x41 + 0x61 else c) name"

definition strip_slash :: "bytes \<Rightarrow> bytes" where
  "strip_slash name = (if name \<noteq> [] \<and> last name = slash then butlast name else name)"

definition part_ok :: "bytes \<Rightarrow> bool" where
  "part_ok part \<longleftrightarrow> \<not> (part = [] \<or> part = bytes_of ''.'' \<or> part = bytes_of ''..'' \<or> length part > 255)
     \<and> (\<forall>u\<in>set part. \<not> (u = backslash \<or> u < 0x20 \<or> u = 0x7F))
     \<and> \<not> (length part \<ge> 2 \<and> part ! 1 = 0x3A)"

text \<open>The loop over the components: \<open>n\<close> of them are done.\<close>

function safe_parts :: "nat \<Rightarrow> bytes \<Rightarrow> bool" where
  "safe_parts n rest = (case find_ch slash rest of
      None \<Rightarrow> part_ok rest \<and> n + 1 \<le> 16
    | Some k \<Rightarrow> part_ok (take k rest) \<and> n + 1 \<le> 16 \<and> safe_parts (n + 1) (drop (k + 1) rest))"
  by pat_completeness auto
termination
  by (relation "measure (\<lambda>(n, rest). length rest)") (auto dest: find_ch_Some)

declare safe_parts.simps [simp del]

definition safe_entry_name :: "bytes \<Rightarrow> bool" where
  "safe_entry_name name =
     (if name = [] \<or> length name > 512 then False
      else if hd name = slash then False
      else let body = strip_slash name in if body = [] then False else safe_parts 0 body)"

subsection \<open>The end record and the central directory\<close>

definition find_end :: "bytes \<Rightarrow> nat option" where
  "find_end tail = find (\<lambda>i. le32 tail i = end_sig \<and> i + end_size + rd16 tail (i + 20) = length tail)
     (rev [0..<length tail - end_size + 1])"

definition special_mode :: "u32 \<Rightarrow> u32 \<Rightarrow> bool" where
  "special_mode made_by external \<longleftrightarrow>
     drop_bit 8 made_by = 3 \<and>
     (let mode = drop_bit 16 external
      in mode \<noteq> 0 \<and> mode AND 0xF000 \<noteq> 0x8000 \<and> mode AND 0xF000 \<noteq> 0x4000)"

record listing =
  l_pos :: nat
  l_sum :: nat
  l_names :: "bytes list"
  l_entries :: "zip_entry list"

text \<open>One turn of the loop over the central directory \<open>dir\<close>.\<close>

definition list_one :: "zip_limits \<Rightarrow> nat \<Rightarrow> bytes \<Rightarrow> listing \<Rightarrow> zip_status + listing" where
  "list_one lim cd_offset dir l =
     (let p = l_pos l
      in if p + central_fixed > length dir \<or> le32 dir p \<noteq> central_sig then Inl ZBadCentralDirectory
      else let flags = le16 dir (p + 8); meth = rd16 dir (p + 10); csize = rd32 dir (p + 20); usize = rd32 dir (p + 24);
               name_len = rd16 dir (p + 28); extra_len = rd16 dir (p + 30); comment_len = rd16 dir (p + 32);
               local_offset = rd32 dir (p + 42);
               next_p = p + central_fixed + name_len + extra_len + comment_len
      in if next_p > length dir then Inl ZBadCentralDirectory
      else let e = \<lparr>z_name = take name_len (drop (p + central_fixed) dir), z_method = meth, z_crc = le32 dir (p + 16),
                    z_csize = csize, z_size = usize, z_local = local_offset\<rparr>
      in if flags AND 0x1 \<noteq> 0 \<or> flags AND 0x40 \<noteq> 0 \<or> flags AND 0x2000 \<noteq> 0 then Inl ZEncrypted
      else if csize = 0xFFFFFFFF \<or> usize = 0xFFFFFFFF \<or> local_offset = 0xFFFFFFFF then Inl ZZip64
      else if meth \<noteq> 0 \<and> meth \<noteq> 8 then Inl ZUnsupportedMethod
      else if meth = 0 \<and> csize \<noteq> usize then Inl ZBadCentralDirectory
      else if special_mode (le16 dir (p + 4)) (le32 dir (p + 38)) then Inl ZSpecialFile
      else if \<not> safe_entry_name (z_name e) then Inl ZBadEntryPath
      else if is_dir_entry e \<and> (csize \<noteq> 0 \<or> usize \<noteq> 0) then Inl ZBadCentralDirectory
      else if usize > max_entry_bytes lim then Inl ZSizeLimit
      else if l_sum l + usize > max_total_bytes lim then Inl ZSizeLimit
      else if local_offset + local_fixed + csize > cd_offset then Inl ZOffsetOutOfRange
      else let folded = fold_case (strip_slash (z_name e))
      in if folded \<in> set (l_names l) then Inl ZConflict
      else Inr \<lparr>l_pos = next_p, l_sum = l_sum l + usize, l_names = folded # l_names l, l_entries = l_entries l @ [e]\<rparr>)"

fun list_entries :: "zip_limits \<Rightarrow> nat \<Rightarrow> bytes \<Rightarrow> nat \<Rightarrow> listing \<Rightarrow> zip_status + listing" where
  "list_entries lim cd_offset dir 0 l = Inr l"
| "list_entries lim cd_offset dir (Suc n) l = (case list_one lim cd_offset dir l of
      Inl s \<Rightarrow> Inl s | Inr l1 \<Rightarrow> list_entries lim cd_offset dir n l1)"

text \<open>\<^verbatim>\<open>std::set::lower_bound\<close>: the least name that is not below the key.\<close>

definition lower_bound :: "bytes \<Rightarrow> bytes list \<Rightarrow> bytes option" where
  "lower_bound key names = (case filter (\<lambda>x. \<not> x < key) names of [] \<Rightarrow> None | y # ys \<Rightarrow> Some (foldl min y ys))"

definition file_is_directory :: "bytes list \<Rightarrow> zip_entry \<Rightarrow> bool" where
  "file_is_directory names e \<longleftrightarrow> \<not> is_dir_entry e \<and>
     (let key = fold_case (z_name e) @ [slash]
      in case lower_bound key names of None \<Rightarrow> False | Some x \<Rightarrow> take (length key) x = key)"

definition read_zip_listing :: "zip_file option \<Rightarrow> zip_limits \<Rightarrow> zip_status + zip_entry list" where
  "read_zip_listing file lim = (case file of None \<Rightarrow> Inl ZOpenFailed | Some f \<Rightarrow>
     (case zf_size f of None \<Rightarrow> Inl ZNoEndRecord | Some file_size \<Rightarrow>
     if file_size < end_size then Inl ZNoEndRecord
     else let tail_size = min file_size (end_size + 65535)
     in case zf_read f (file_size - tail_size) tail_size of None \<Rightarrow> Inl ZReadFailed | Some tail \<Rightarrow>
     (case find_end tail of None \<Rightarrow> Inl ZNoEndRecord | Some end_at \<Rightarrow>
     let end_offset = file_size - tail_size + end_at
     in if end_at \<ge> 20 \<and> le32 tail (end_at - 20) = zip64_locator_sig then Inl ZZip64
     else let disk = rd16 tail (end_at + 4); cd_disk = rd16 tail (end_at + 6); on_disk = rd16 tail (end_at + 8);
              tot = rd16 tail (end_at + 10); cd_size = rd32 tail (end_at + 12); cd_offset = rd32 tail (end_at + 16)
     in if tot = 0xFFFF \<or> cd_size = 0xFFFFFFFF \<or> cd_offset = 0xFFFFFFFF then Inl ZZip64
     else if disk \<noteq> 0 \<or> cd_disk \<noteq> 0 \<or> on_disk \<noteq> tot then Inl ZMultiDisk
     else if tot > max_entries lim then Inl ZTooManyEntries
     else if cd_offset + cd_size > end_offset then Inl ZBadCentralDirectory
     else case (if cd_size \<noteq> 0 then zf_read f cd_offset cd_size else Some []) of None \<Rightarrow> Inl ZReadFailed | Some dir \<Rightarrow>
     (case list_entries lim cd_offset dir tot \<lparr>l_pos = 0, l_sum = 0, l_names = [], l_entries = []\<rparr> of
        Inl s \<Rightarrow> Inl s
      | Inr l \<Rightarrow>
          if l_pos l \<noteq> length dir then Inl ZBadCentralDirectory
          else if \<exists>e\<in>set (l_entries l). file_is_directory (l_names l) e then Inl ZConflict
          else Inr (l_entries l)))))"

definition find_zip_entry :: "zip_entry list \<Rightarrow> bytes \<Rightarrow> zip_entry option" where
  "find_zip_entry es name = find (\<lambda>e. z_name e = name) es"

subsection \<open>An accepted name is a safe path\<close>

definition joined :: "bytes list \<Rightarrow> bytes" where
  "joined parts = hd parts @ concat (map (Cons slash) (tl parts))"

lemma foldl_join: "p \<noteq> [] \<Longrightarrow> foldl join_path p cs = p @ concat (map (Cons slash) cs)"
  by (induction cs arbitrary: p) (simp_all add: join_path_def)

lemma joined_join: "parts \<noteq> [] \<Longrightarrow> hd parts \<noteq> [] \<Longrightarrow> foldl join_path [] parts = joined parts"
  by (cases parts) (simp_all add: joined_def foldl_join join_path_def)

definition zip_component :: "bytes \<Rightarrow> bool" where
  "zip_component c \<longleftrightarrow> component c \<and> length c \<le> 255 \<and> (\<forall>u\<in>set c. 0x20 \<le> u \<and> u \<noteq> 0x7F)"

lemma part_ok_component: "part_ok c \<Longrightarrow> slash \<notin> set c \<Longrightarrow> zip_component c"
  by (auto simp: part_ok_def zip_component_def component_def slash_def backslash_def not_less)

lemma safe_parts_joined:
  "safe_parts n rest \<Longrightarrow> \<exists>parts. parts \<noteq> [] \<and> n + length parts \<le> 16 \<and> (\<forall>c\<in>set parts. zip_component c) \<and> rest = joined parts"
proof (induction n rest rule: safe_parts.induct)
  case (1 n rest)
  show ?case
  proof (cases "find_ch slash rest")
    case None
    then have "part_ok rest" "n + 1 \<le> 16" "slash \<notin> set rest"
      using "1.prems" find_ch_None [of slash rest] by (simp_all add: safe_parts.simps [of n rest])
    then show ?thesis by (intro exI [of _ "[rest]"]) (simp add: part_ok_component joined_def)
  next
    case (Some k)
    note k = find_ch_Some [OF Some]
    have ok: "part_ok (take k rest)" "safe_parts (n + 1) (drop (k + 1) rest)"
      using "1.prems" Some by (simp_all add: safe_parts.simps [of n rest])
    from "1.IH" [OF Some ok(2)] obtain parts where p: "parts \<noteq> []" "n + 1 + length parts \<le> 16"
      "\<forall>c\<in>set parts. zip_component c" "drop (k + 1) rest = joined parts" by auto
    have "rest = take k rest @ slash # drop (k + 1) rest" using k by (metis Suc_eq_plus1 id_take_nth_drop)
    then have "rest = joined (take k rest # parts)" using p(1,4) by (cases parts) (simp_all add: joined_def)
    moreover have "zip_component (take k rest)" using ok(1) k by (intro part_ok_component) auto
    ultimately show ?thesis using p by (intro exI [of _ "take k rest # parts"]) simp
  qed
qed

text \<open>A path of one to sixteen plain components.\<close>

definition zip_path :: "bytes \<Rightarrow> bool" where
  "zip_path p \<longleftrightarrow> (\<exists>parts. parts \<noteq> [] \<and> length parts \<le> 16 \<and> (\<forall>c\<in>set parts. zip_component c) \<and> p = joined parts)"

lemma zip_path_safe: "zip_path p \<Longrightarrow> safe_path 16 p"
  unfolding zip_path_def safe_path_def
proof (elim exE conjE)
  fix parts :: "bytes list"
  assume a: "parts \<noteq> []" "length parts \<le> 16" "\<forall>c\<in>set parts. zip_component c" "p = joined parts"
  then have "hd parts \<noteq> []" by (cases parts) (auto simp: zip_component_def component_def)
  with a show "\<exists>names. names \<noteq> [] \<and> length names \<le> 16 \<and> (\<forall>c\<in>set names. component c) \<and> p = foldl join_path [] names"
    by (intro exI [of _ parts]) (simp add: joined_join zip_component_def)
qed

lemma safe_entry_name_path: "safe_entry_name name \<Longrightarrow> zip_path (strip_slash name) \<and> length name \<le> 512"
  using safe_parts_joined [of 0 "strip_slash name"]
  by (auto simp: safe_entry_name_def zip_path_def Let_def split: if_splits)

subsection \<open>What a listing promises\<close>

definition entry_ok :: "zip_limits \<Rightarrow> nat \<Rightarrow> zip_entry \<Rightarrow> bool" where
  "entry_ok lim cd e \<longleftrightarrow> zip_path (strip_slash (z_name e)) \<and> length (z_name e) \<le> 512
     \<and> z_size e \<le> max_entry_bytes lim \<and> (z_method e = 0 \<and> z_csize e = z_size e \<or> z_method e = 8)
     \<and> z_local e + local_fixed + z_csize e \<le> cd
     \<and> (is_dir_entry e \<longrightarrow> z_size e = 0 \<and> z_csize e = 0)"

definition key_of :: "zip_entry \<Rightarrow> bytes" where
  "key_of e = fold_case (strip_slash (z_name e))"

definition listing_ok :: "zip_limits \<Rightarrow> nat \<Rightarrow> listing \<Rightarrow> bool" where
  "listing_ok lim cd l \<longleftrightarrow> (\<forall>e\<in>set (l_entries l). entry_ok lim cd e) \<and> l_sum l = sum_list (map z_size (l_entries l))
     \<and> l_names l = rev (map key_of (l_entries l)) \<and> distinct (l_names l)
     \<and> (l_entries l \<noteq> [] \<longrightarrow> l_sum l \<le> max_total_bytes lim)"

lemma if_Inl_eq_Inr: "((if b then Inl s else t) = Inr x) = (\<not> b \<and> t = Inr x)"
  by simp

lemma list_one_ok:
  assumes "list_one lim cd dir l = Inr l1" and ok: "listing_ok lim cd l"
  shows "listing_ok lim cd l1 \<and> length (l_entries l1) = Suc (length (l_entries l))"
proof -
  define e where "e = \<lparr>z_name = take (rd16 dir (l_pos l + 28)) (drop (l_pos l + central_fixed) dir),
    z_method = rd16 dir (l_pos l + 10), z_crc = le32 dir (l_pos l + 16), z_csize = rd32 dir (l_pos l + 20),
    z_size = rd32 dir (l_pos l + 24), z_local = rd32 dir (l_pos l + 42)\<rparr>"
  have sel: "z_method e = rd16 dir (l_pos l + 10)" "z_csize e = rd32 dir (l_pos l + 20)"
    "z_size e = rd32 dir (l_pos l + 24)" "z_local e = rd32 dir (l_pos l + 42)" by (simp_all add: e_def)
  have "\<exists>q. Inr \<lparr>l_pos = q, l_sum = l_sum l + z_size e, l_names = key_of e # l_names l, l_entries = l_entries l @ [e]\<rparr> = (Inr l1 :: zip_status + listing)
      \<and> safe_entry_name (z_name e) \<and> \<not> z_size e > max_entry_bytes lim \<and> \<not> (z_method e \<noteq> 0 \<and> z_method e \<noteq> 8)
      \<and> \<not> (z_method e = 0 \<and> z_csize e \<noteq> z_size e) \<and> \<not> z_local e + local_fixed + z_csize e > cd
      \<and> \<not> (is_dir_entry e \<and> (z_csize e \<noteq> 0 \<or> z_size e \<noteq> 0)) \<and> key_of e \<notin> set (l_names l)
      \<and> \<not> l_sum l + z_size e > max_total_bytes lim"
    using assms(1) unfolding list_one_def Let_def
    unfolding e_def [symmetric] unfolding sel [symmetric] unfolding key_of_def [symmetric] if_Inl_eq_Inr not_not
    by (elim conjE, intro exI conjI)
  then obtain q where e: "l1 = \<lparr>l_pos = q, l_sum = l_sum l + z_size e, l_names = key_of e # l_names l, l_entries = l_entries l @ [e]\<rparr>"
    "safe_entry_name (z_name e)" "z_size e \<le> max_entry_bytes lim" "z_method e = 0 \<and> z_csize e = z_size e \<or> z_method e = 8"
    "z_local e + local_fixed + z_csize e \<le> cd" "is_dir_entry e \<longrightarrow> z_size e = 0 \<and> z_csize e = 0"
    "key_of e \<notin> set (l_names l)" "l_sum l + z_size e \<le> max_total_bytes lim" by (auto simp: not_less)
  then have "entry_ok lim cd e" using safe_entry_name_path by (simp add: entry_ok_def)
  with e(1,7,8) show ?thesis using ok by (auto simp: listing_ok_def)
qed

lemma list_entries_ok:
  "list_entries lim cd dir n l = Inr l1 \<Longrightarrow> listing_ok lim cd l \<Longrightarrow>
    listing_ok lim cd l1 \<and> length (l_entries l1) = length (l_entries l) + n"
proof (induction n arbitrary: l)
  case (Suc n)
  from Suc.prems(1) obtain l2 where l2: "list_one lim cd dir l = Inr l2" "list_entries lim cd dir n l2 = Inr l1"
    by (auto split: sum.splits)
  with list_one_ok [OF l2(1) Suc.prems(2)] Suc.IH [OF l2(2)] show ?case by simp
qed simp

lemma foldl_min_le: "foldl min y ys \<le> (y :: bytes) \<and> (\<forall>x\<in>set ys. foldl min y ys \<le> x)"
proof (induction ys arbitrary: y)
  case (Cons a ys)
  from Cons [of "min y a"] show ?case by (auto intro: order_trans)
qed simp

lemma foldl_min_in: "foldl min y ys \<in> insert (y :: bytes) (set ys)"
proof (induction ys arbitrary: y)
  case (Cons a ys)
  from Cons [of "min y a"] show ?case by (auto simp: min_def split: if_splits)
qed simp

lemma prefix_le: "(key :: bytes) \<le> key @ t"
  by (induction key) simp_all

lemma between_prefix: "m \<le> (key :: bytes) @ t \<Longrightarrow> key \<le> m \<Longrightarrow> take (length key) m = key"
proof (induction key arbitrary: m)
  case (Cons c key)
  then show ?case by (cases m) auto
qed simp

lemma lower_bound_prefix:
  assumes "x \<in> set names" and "take (length key) x = key"
  shows "\<exists>y. lower_bound key names = Some y \<and> take (length key) y = key"
proof -
  obtain t where x: "x = key @ t" using assms(2) by (metis append_take_drop_id)
  have nlt: "\<not> x < key" by (simp add: x not_less self_append_conv prefix_le)
  then obtain y ys where f: "filter (\<lambda>x. \<not> x < key) names = y # ys"
    using assms(1) by (cases "filter (\<lambda>x. \<not> x < key) names") (auto simp: filter_empty_conv)
  define m where "m = foldl min y ys"
  have "x \<in> set (y # ys)" using assms(1) nlt by (simp flip: f)
  then have "m \<le> x" using foldl_min_le [of y ys] by (auto simp: m_def intro: order_trans)
  moreover have "m \<in> set (y # ys)" using foldl_min_in [of y ys] by (auto simp: m_def)
  then have "key \<le> m" by (simp flip: f add: not_less)
  ultimately have "take (length key) m = key" unfolding x by (rule between_prefix)
  then show ?thesis by (simp add: lower_bound_def f m_def)
qed

subsection \<open>The whole listing\<close>

text \<open>A file whose reads give as many bytes as were asked for.\<close>

definition whole_reads :: "zip_file \<Rightarrow> bool" where
  "whole_reads f \<longleftrightarrow> (\<forall>off n b. zf_read f off n = Some b \<longrightarrow> length b = n)"

definition sound_listing :: "zip_limits \<Rightarrow> nat \<Rightarrow> zip_entry list \<Rightarrow> bool" where
  "sound_listing lim file_size es \<longleftrightarrow> length es \<le> max_entries lim \<and> sum_list (map z_size es) \<le> max_total_bytes lim
     \<and> (\<forall>e\<in>set es. entry_ok lim file_size e) \<and> distinct (map key_of es)
     \<and> (\<forall>e\<in>set es. \<forall>d\<in>set es. is_dir_entry e \<or> take (length (key_of e) + 1) (key_of d) \<noteq> key_of e @ [slash])"

lemma entry_ok_mono: "entry_ok lim a e \<Longrightarrow> a \<le> b \<Longrightarrow> entry_ok lim b e"
  by (auto simp: entry_ok_def)

lemma find_end_bound: "find_end t = Some i \<Longrightarrow> i + end_size \<le> length t"
  unfolding find_end_def find_Some_iff by auto


lemma listing_end:
  assumes "listing_ok lim cd l" "cd \<le> fs" "length (l_entries l) \<le> max_entries lim"
    and "\<not> (\<exists>e\<in>set (l_entries l). file_is_directory (l_names l) e)"
  shows "sound_listing lim fs (l_entries l)"
proof -
  have "is_dir_entry e \<or> take (length (key_of e) + 1) (key_of d) \<noteq> key_of e @ [slash]"
    if e: "e \<in> set (l_entries l)" and d: "d \<in> set (l_entries l)" for e d
  proof (cases "is_dir_entry e")
    case False
    then have key: "fold_case (z_name e) = key_of e" by (auto simp: key_of_def strip_slash_def is_dir_entry_def)
    have "key_of d \<in> set (l_names l)" using assms(1) d by (simp add: listing_ok_def)
    moreover have "\<not> file_is_directory (l_names l) e" using assms(4) e by blast
    ultimately show ?thesis
      using lower_bound_prefix [of "key_of d" "l_names l" "key_of e @ [slash]"] False
      by (auto simp: file_is_directory_def Let_def key)
  qed simp
  moreover have "distinct (map key_of (l_entries l))" using assms(1) unfolding listing_ok_def by (metis distinct_rev)
  moreover have "sum_list (map z_size (l_entries l)) \<le> max_total_bytes lim"
    using assms(1) by (cases "l_entries l = []") (auto simp: listing_ok_def)
  moreover have "\<forall>e\<in>set (l_entries l). entry_ok lim fs e"
    using assms(1,2) entry_ok_mono by (auto simp: listing_ok_def)
  ultimately show ?thesis using assms(3) unfolding sound_listing_def by blast
qed

lemma listing_accepts:
  assumes "read_zip_listing (Some f) lim = Inr es" "zf_size f = Some fs"
  obtains tail i cd l where "zf_read f (fs - min fs (end_size + 65535)) (min fs (end_size + 65535)) = Some tail"
    "find_end tail = Some i" "cd \<le> fs - min fs (end_size + 65535) + i" "listing_ok lim cd l"
    "length (l_entries l) \<le> max_entries lim" "\<not> (\<exists>e\<in>set (l_entries l). file_is_directory (l_names l) e)" "es = l_entries l"
proof -
  let ?n = "min fs (end_size + 65535)"
  define l0 where "l0 = \<lparr>l_pos = 0, l_sum = 0, l_names = [], l_entries = []\<rparr>"
  obtain tail where tail: "zf_read f (fs - ?n) ?n = Some tail"
    using assms by (auto simp: read_zip_listing_def Let_def split: if_splits option.splits)
  obtain i where i: "find_end tail = Some i"
    using assms tail by (auto simp: read_zip_listing_def Let_def split: if_splits option.splits)
  let ?tot = "rd16 tail (i + 10)" and ?cd = "rd32 tail (i + 16)" and ?sz = "rd32 tail (i + 12)"
  have "\<not> ?tot > max_entries lim \<and> \<not> ?cd + ?sz > fs - ?n + i \<and>
      (case (if ?sz \<noteq> 0 then zf_read f ?cd ?sz else Some []) of None \<Rightarrow> Inl ZReadFailed | Some dir \<Rightarrow>
        (case list_entries lim ?cd dir ?tot l0 of Inl s \<Rightarrow> Inl s | Inr l \<Rightarrow> if l_pos l \<noteq> length dir then Inl ZBadCentralDirectory
          else if \<exists>e\<in>set (l_entries l). file_is_directory (l_names l) e then Inl ZConflict else Inr (l_entries l))) = Inr es"
    using assms unfolding read_zip_listing_def l0_def [symmetric]
    by (simp only: Let_def option.case tail i assms(2) if_Inl_eq_Inr) blast
  then obtain dir where dir: "?tot \<le> max_entries lim" "?cd + ?sz \<le> fs - ?n + i"
    and e: "(case list_entries lim ?cd dir ?tot l0 of Inl s \<Rightarrow> Inl s | Inr l \<Rightarrow> if l_pos l \<noteq> length dir then Inl ZBadCentralDirectory
          else if \<exists>e\<in>set (l_entries l). file_is_directory (l_names l) e then Inl ZConflict else Inr (l_entries l)) = Inr es"
    by (elim conjE) (simp only: not_less split: option.split_asm, auto)
  then obtain l where l: "list_entries lim ?cd dir ?tot l0 = Inr l" "es = l_entries l"
    "\<not> (\<exists>e\<in>set (l_entries l). file_is_directory (l_names l) e)"
    by (auto split: sum.splits if_splits)
  have "listing_ok lim ?cd l0" by (simp add: l0_def listing_ok_def)
  from list_entries_ok [OF l(1) this] have "listing_ok lim ?cd l" "length (l_entries l) = ?tot" by (simp_all add: l0_def)
  with that [OF tail i, of ?cd l] dir l show thesis by simp
qed



definition sample_dir :: bytes where
  "sample_dir = [0x50, 0x4b, 1, 2, 20, 0, 20, 0, 0, 0, 0, 0, 0, 0, 0, 0, 1, 2, 3, 4, 2, 0, 0, 0, 2, 0, 0, 0,
     3, 0, 0, 0, 0, 0, 0, 0, 0, 0, 0, 0, 0, 0, 0, 0, 0, 0, 0x64, 0x2F, 0x66]"

definition sample_end :: bytes where
  "sample_end = [0x50, 0x4b, 5, 6, 0, 0, 0, 0, 1, 0, 1, 0, 49, 0, 0, 0, 40, 0, 0, 0, 0, 0]"

definition file_of :: "bytes \<Rightarrow> zip_file" where
  "file_of c = \<lparr>zf_size = Some (length c),
     zf_read = (\<lambda>off n. if off + n \<le> length c then Some (take n (drop off c)) else None)\<rparr>"

lemma file_of_simps [simp]:
  "zf_size (file_of c) = Some (length c)"
  "zf_read (file_of c) off n = (if off + n \<le> length c then Some (take n (drop off c)) else None)"
  by (simp_all add: file_of_def)

lemma file_of_whole: "whole_reads (file_of c)"
  by (simp add: whole_reads_def)

lemma find_end_at_tail:
  assumes "22 \<le> length t" "le32 t (length t - 22) = end_sig" "rd16 t (length t - 2) = 0"
  shows "find_end t = Some (length t - 22)"
proof -
  have "rev [0..<length t - 22 + 1] = (length t - 22) # rev [0..<length t - 22]" by simp
  then show ?thesis using assms by (simp add: find_end_def end_size_def)
qed

definition sample_limits :: zip_limits where
  "sample_limits = \<lparr>max_entries = 64, max_entry_bytes = 100, max_total_bytes = 1000\<rparr>"

definition sample_entry :: zip_entry where
  "sample_entry = \<lparr>z_name = bytes_of ''d/f'', z_method = 0, z_crc = 0x04030201, z_csize = 2, z_size = 2, z_local = 0\<rparr>"

lemma safe_entry_name_sample: "safe_entry_name [0x64, 0x2F, 0x66]"
  by code_simp

definition sample_zip :: "bytes \<Rightarrow> bytes" where
  "sample_zip local = local @ sample_dir @ sample_end"

lemma le_append:
  "length a \<le> i \<Longrightarrow> le32 (a @ b) i = le32 b (i - length a)"
  "length a \<le> i \<Longrightarrow> le16 (a @ b) i = le16 b (i - length a)"
  by (simp_all add: le32_def le16_def nth_append Suc_diff_le)

lemma sample_dir_length [simp]: "length sample_dir = 49" and sample_end_length [simp]: "length sample_end = 22"
  by (simp_all add: sample_dir_def sample_end_def)

lemma sample_dir_fields:
  "le32 sample_dir 0 = central_sig" "le16 sample_dir 4 = 20" "le16 sample_dir 8 = 0" "le16 sample_dir 10 = 0" 
  "le32 sample_dir 16 = 0x04030201"  "le32 sample_dir 20 = 2" "le32 sample_dir 24 = 2" "le16 sample_dir 28 = 3"
  "le16 sample_dir 30 = 0" "le16 sample_dir 32 = 0" "le32 sample_dir 38 = 0" "le32 sample_dir 42 = 0"
  by (simp_all add: sample_dir_def le32_def le16_def central_sig_def)

lemma sample_end_fields:
  "le32 sample_end 0 = end_sig" "le16 sample_end 4 = 0" "le16 sample_end 6 = 0" "le16 sample_end 8 = 1" 
  "le16 sample_end 10 = 1"  "le32 sample_end 12 = 49" "le32 sample_end 16 = 40" "le16 sample_end 20 = 0"
  by (simp_all add: sample_end_def le32_def le16_def end_sig_def)

lemma sample_list_one:
  "list_one sample_limits 40 sample_dir \<lparr>l_pos = 0, l_sum = 0, l_names = [], l_entries = []\<rparr> =
    Inr \<lparr>l_pos = 49, l_sum = 2, l_names = [key_of sample_entry], l_entries = [sample_entry]\<rparr>"
proof -
  have n: "take 3 (drop 46 sample_dir) = [0x64, 0x2F, 0x66]" by (simp add: sample_dir_def)
  have d: "\<lparr>z_name = [0x64, 0x2F, 0x66], z_method = 0, z_crc = 0x04030201, z_csize = 2, z_size = 2, z_local = 0\<rparr> = sample_entry"
    by (simp add: sample_entry_def bytes_of_def)
  show ?thesis
    by (simp add: list_one_def Let_def sample_dir_fields central_fixed_def n d special_mode_def key_of_def sample_limits_def
        local_fixed_def) (simp add: sample_entry_def safe_entry_name_sample bytes_of_def is_dir_entry_def slash_def)
qed

lemma sample_conflict: "\<not> file_is_directory [key_of sample_entry] sample_entry"
  by code_simp

lemma sample_read:
  assumes "length local = 40"
  shows "read_zip_listing (Some (file_of (sample_zip local))) sample_limits = Inr [sample_entry]"
proof -
  let ?z = "sample_zip local"
  have n: "length ?z = 111" using assms by (simp add: sample_zip_def)
  have f: "le32 ?z (89 + i) = le32 sample_end i" "le16 ?z (89 + i) = le16 sample_end i" for i
    using assms by (simp_all add: sample_zip_def le_append)
  have e: "find_end ?z = Some 89"
    using find_end_at_tail [of ?z] f [of 0] f [of 20] n by (simp add: sample_end_fields)
  have d: "take 49 (drop 40 ?z) = sample_dir" using assms by (simp add: sample_zip_def)
  have m: "max_entries sample_limits = 64" by (simp add: sample_limits_def)
  have "le32 ?z 69 = le32 (sample_dir @ sample_end) 29" using assms by (simp add: sample_zip_def le_append)
  also have "\<dots> = 0" by (simp add: le32_def le16_def nth_append) (simp add: sample_dir_def)
  finally have z: "le32 ?z 69 \<noteq> zip64_locator_sig" by (simp add: zip64_locator_sig_def)
  show ?thesis
    using f [of 4] f [of 6] f [of 8] f [of 10] f [of 12] f [of 16]
    by (simp add: read_zip_listing_def Let_def n e d z m sample_end_fields sample_list_one sample_conflict end_size_def)
qed


end
