(* ===== verification/Zip_Extract.thy ===== *)
theory Zip_Extract
  imports Zip_Listing
begin

section \<open>Extracting entries\<close>

text \<open>
  The second half of \<^verbatim>\<open>src/quest/data/zip.cpp\<close>. zlib is a parameter: \<open>crc\<close> is \<^verbatim>\<open>crc32(crc, p, n)\<close>, and
  \<open>inflate\<close> takes a stream state and the unread input and gives the return code, how many input bytes it
  used, the bytes it wrote to the output buffer (at most its 256 KiB) and the new state. A sink is a state
  passing function that says whether it took the bytes. \<open>None\<close> as a status is \<^verbatim>\<open>kOk\<close>.
\<close>

datatype z_code = ZOk | ZStreamEnd | ZError

type_synonym 'z inflater = "'z \<Rightarrow> bytes \<Rightarrow> z_code \<times> nat \<times> bytes \<times> 'z"
type_synonym 's zip_sink = "'s \<Rightarrow> bytes \<Rightarrow> bool \<times> 's"

record 'z zlib =
  zl_crc :: "u32 \<Rightarrow> bytes \<Rightarrow> u32"
  zl_init :: "bool \<times> 'z"                           \<comment> \<open>\<^verbatim>\<open>inflateInit2\<close>: its success and the stream\<close>
  zl_inflate :: "'z inflater"

record ('z, 's) extraction =
  x_produced :: nat
  x_crc :: u32
  x_end :: bool
  x_z :: 'z
  x_sink :: 's

definition in_size :: nat where "in_size = 64 * 1024"

text \<open>The bytes of one turn go to the sink: the checksum covers them whether the sink takes them or not.\<close>

definition take_bytes :: "'z zlib \<Rightarrow> 's zip_sink \<Rightarrow> bytes \<Rightarrow> ('z, 's) extraction \<Rightarrow> bool \<times> ('z, 's) extraction" where
  "take_bytes zl snk b x = (let (ok, s) = snk (x_sink x) b
     in (ok, x\<lparr>x_crc := zl_crc zl (x_crc x) b, x_sink := s\<rparr>))"

text \<open>One turn of the inner loop: a status that stops it, or the rest of the input to go on with.\<close>

datatype ('z, 's) turn = Stop "zip_status option" "('z, 's) extraction" | Again bytes "('z, 's) extraction"

definition inflate_turn ::
    "'z zlib \<Rightarrow> 's zip_sink \<Rightarrow> zip_entry \<Rightarrow> bytes \<Rightarrow> ('z, 's) extraction \<Rightarrow> ('z, 's) turn" where
  "inflate_turn zl snk e input x =
     (let (rc, used, made, z) = zl_inflate zl (x_z x) input; rest = drop used input;
          x1 = x\<lparr>x_z := z, x_produced := x_produced x + length made\<rparr>
      in if made \<noteq> [] \<and> x_produced x1 > z_size e then Stop (Some ZSizeMismatch) x1
      else let (ok, x2) = (if made \<noteq> [] then take_bytes zl snk made x1 else (True, x1))
      in if \<not> ok then Stop (Some ZWriteFailed) x2
      else case rc of
          ZStreamEnd \<Rightarrow> Stop (if rest \<noteq> [] then Some ZSizeMismatch else None) (x2\<lparr>x_end := True\<rparr>)
        | ZError \<Rightarrow> Stop (Some ZInflateFailed) x2
        | ZOk \<Rightarrow> Again rest x2)"

partial_function (option) inflate_input ::
    "'z zlib \<Rightarrow> 's zip_sink \<Rightarrow> zip_entry \<Rightarrow> bytes \<Rightarrow> ('z, 's) extraction \<Rightarrow> (zip_status option \<times> ('z, 's) extraction) option" where
  "inflate_input zl snk e input x =
     (if input = [] then Some (None, x)
      else case inflate_turn zl snk e input x of
          Stop st x1 \<Rightarrow> Some (st, x1)
        | Again rest x1 \<Rightarrow> inflate_input zl snk e rest x1)"

text \<open>The outer loop: \<open>n\<close> bytes of the entry's data are consumed, and a turn reads the next block of them.\<close>

definition block_want :: "zip_entry \<Rightarrow> nat \<Rightarrow> nat" where
  "block_want e n = min in_size (z_csize e - n)"

definition extract_block ::
    "'z zlib \<Rightarrow> 's zip_sink \<Rightarrow> zip_file \<Rightarrow> zip_entry \<Rightarrow> nat \<Rightarrow> nat \<Rightarrow> ('z, 's) extraction
      \<Rightarrow> (zip_status option \<times> ('z, 's) extraction) option" where
  "extract_block zl snk zf e off n x =
     (case zf_read zf (off + n) (block_want e n) of
        None \<Rightarrow> Some (Some ZReadFailed, x)
      | Some b \<Rightarrow>
          if z_method e \<noteq> 8 then
            (let (ok, x1) = take_bytes zl snk b (x\<lparr>x_produced := x_produced x + block_want e n\<rparr>)
             in Some (if ok then None else Some ZWriteFailed, x1))
          else inflate_input zl snk e b x)"

function extract_blocks ::
    "'z zlib \<Rightarrow> 's zip_sink \<Rightarrow> zip_file \<Rightarrow> zip_entry \<Rightarrow> nat \<Rightarrow> nat \<Rightarrow> ('z, 's) extraction
      \<Rightarrow> (zip_status option \<times> ('z, 's) extraction) option" where
  "extract_blocks zl snk zf e off n x =
     (if n \<ge> z_csize e then Some (None, x)
      else case extract_block zl snk zf e off n x of
          None \<Rightarrow> None
        | Some (Some s, x1) \<Rightarrow> Some (Some s, x1)
        | Some (None, x1) \<Rightarrow> extract_blocks zl snk zf e off (n + block_want e n) x1)"
  by pat_completeness auto
termination
  by (relation "measure (\<lambda>(zl, snk, zf, e, off, n, x). z_csize e - n)") (auto simp: in_size_def block_want_def)

declare extract_blocks.simps [simp del]

definition extract_data ::
    "'z zlib \<Rightarrow> 's zip_sink \<Rightarrow> zip_file \<Rightarrow> zip_entry \<Rightarrow> nat \<Rightarrow> 's \<Rightarrow> (zip_status option \<times> 's) option" where
  "extract_data zl snk zf e off s =
     (let deflated = z_method e = 8
      in if deflated \<and> \<not> fst (zl_init zl) then Some (Some ZInflateFailed, s)
      else case extract_blocks zl snk zf e off 0
            \<lparr>x_produced = 0, x_crc = 0, x_end = \<not> deflated, x_z = snd (zl_init zl), x_sink = s\<rparr> of
          None \<Rightarrow> None
        | Some (st, x) \<Rightarrow> Some (
            (if st \<noteq> None then st
             else if \<not> x_end x then Some ZInflateFailed
             else if x_produced x \<noteq> z_size e then Some ZSizeMismatch
             else if x_crc x \<noteq> z_crc e then Some ZCrcMismatch else None), x_sink x))"

subsection \<open>The loops end\<close>

text \<open>What zlib documents of \<^verbatim>\<open>inflate\<close>: with input to read, \<^verbatim>\<open>Z_OK\<close> means that it read some or wrote some.\<close>

definition inflate_progress :: "'z zlib \<Rightarrow> bool" where
  "inflate_progress zl \<longleftrightarrow> (\<forall>z input used made z1.
     zl_inflate zl z input = (ZOk, used, made, z1) \<and> input \<noteq> [] \<longrightarrow> used > 0 \<or> made \<noteq> [])"

lemma take_bytes_eq:
  "take_bytes zl snk b x = (ok, x1) \<longleftrightarrow>
     (\<exists>s. snk (x_sink x) b = (ok, s) \<and> x1 = x\<lparr>x_crc := zl_crc zl (x_crc x) b, x_sink := s\<rparr>)"
  by (auto simp: take_bytes_def split: prod.splits)

text \<open>What a turn leaves, when it does not fail: the bytes made were taken and still fit the recorded size.\<close>

definition turn_made :: "'z zlib \<Rightarrow> 's zip_sink \<Rightarrow> zip_entry \<Rightarrow> bytes \<Rightarrow> ('z, 's) extraction \<Rightarrow> ('z, 's) extraction \<Rightarrow> bool" where
  "turn_made zl snk e made x x1 \<longleftrightarrow> x_produced x1 = x_produced x + length made \<and>
     (made = [] \<and> x_crc x1 = x_crc x \<and> x_sink x1 = x_sink x \<or>
      x_produced x1 \<le> z_size e \<and> x_crc x1 = zl_crc zl (x_crc x) made \<and> snk (x_sink x) made = (True, x_sink x1))"

lemma inflate_turn_again:
  assumes "inflate_turn zl snk e input x = Again rest x1"
  obtains used made z where "zl_inflate zl (x_z x) input = (ZOk, used, made, z)" "rest = drop used input"
    "turn_made zl snk e made x x1"
  using assms
  by (auto simp: inflate_turn_def Let_def take_bytes_eq turn_made_def split: prod.splits z_code.splits if_splits)

lemma inflate_turn_done:
  assumes "inflate_turn zl snk e input x = Stop None x1"
  shows "\<exists>made. turn_made zl snk e made x x1"
proof -
  obtain rc used made z where "zl_inflate zl (x_z x) input = (rc, used, made, z)" by (cases "zl_inflate zl (x_z x) input")
  then have "turn_made zl snk e made x x1"
    using assms by (auto simp: inflate_turn_def Let_def take_bytes_eq turn_made_def split: prod.splits z_code.splits if_splits)
  then show ?thesis ..
qed

lemma inflate_input_returns:
  assumes "inflate_progress zl"
  shows "\<exists>st x1. inflate_input zl snk e input x = Some (st, x1)"
proof (induction "length input + (z_size e - x_produced x)" arbitrary: input x rule: less_induct)
  case less
  show ?case
  proof (cases "input = []")
    case False
    show ?thesis
    proof (cases "inflate_turn zl snk e input x")
      case (Again rest x1)
      from inflate_turn_again [OF this] obtain used made z
        where t: "zl_inflate zl (x_z x) input = (ZOk, used, made, z)" "rest = drop used input"
          "turn_made zl snk e made x x1" .
      have "used > 0 \<or> made \<noteq> []" using assms t(1) False unfolding inflate_progress_def by blast
      then have "length rest < length input \<or> length rest \<le> length input \<and> 0 < length made"
        using t(2) False by (cases input) auto
      moreover have "x_produced x1 = x_produced x + length made" "length made = 0 \<or> x_produced x1 \<le> z_size e"
        using t(3) by (auto simp: turn_made_def)
      ultimately have "length rest + (z_size e - x_produced x1) < length input + (z_size e - x_produced x)"
        by linarith
      from less [OF this] show ?thesis by (simp add: inflate_input.simps [of zl snk e input] False Again)
    qed (simp add: inflate_input.simps False)
  qed (simp add: inflate_input.simps)
qed

lemma extract_block_returns:
  "inflate_progress zl \<Longrightarrow> \<exists>st x1. extract_block zl snk zf e off n x = Some (st, x1)"
  using inflate_input_returns [of zl snk e _ x]
  by (auto simp: extract_block_def Let_def split: option.splits prod.splits)

lemma extract_blocks_returns:
  "inflate_progress zl \<Longrightarrow> \<exists>st x1. extract_blocks zl snk zf e off n x = Some (st, x1)"
proof (induction zl snk zf e off n x rule: extract_blocks.induct)
  case (1 zl snk zf e off n x)
  obtain st x1 where b: "extract_block zl snk zf e off n x = Some (st, x1)"
    using extract_block_returns [OF "1.prems"] by blast
  show ?case
  proof (cases "n \<ge> z_csize e \<or> st \<noteq> None")
    case True
    then show ?thesis by (cases st) (auto simp: extract_blocks.simps [of zl snk zf e off n x] b)
  next
    case False
    then have "extract_blocks zl snk zf e off n x = extract_blocks zl snk zf e off (n + block_want e n) x1"
      by (simp add: extract_blocks.simps [of zl snk zf e off n x] b)
    with "1.IH" [OF _ b refl _ "1.prems"] False show ?thesis by simp
  qed
qed

lemma extract_data_returns: "inflate_progress zl \<Longrightarrow> \<exists>r. extract_data zl snk zf e off s = Some r"
  using extract_blocks_returns [of zl snk zf e off 0
    "\<lparr>x_produced = 0, x_crc = 0, x_end = z_method e \<noteq> 8, x_z = snd (zl_init zl), x_sink = s\<rparr>"]
  by (auto simp: extract_data_def Let_def)

subsection \<open>An entry that is extracted is exact\<close>

text \<open>A sink that keeps what it takes: \<open>content\<close> reads back the bytes in its state.\<close>

definition keeps_bytes :: "'s zip_sink \<Rightarrow> ('s \<Rightarrow> bytes) \<Rightarrow> bool" where
  "keeps_bytes snk content \<longleftrightarrow> (\<forall>s b s1. snk s b = (True, s1) \<longrightarrow> content s1 = content s @ b)"

definition crc_streams :: "'z zlib \<Rightarrow> bool" where
  "crc_streams zl \<longleftrightarrow> (\<forall>c. zl_crc zl c [] = c) \<and> (\<forall>c a b. zl_crc zl c (a @ b) = zl_crc zl (zl_crc zl c a) b)"

definition exact_so_far :: "'z zlib \<Rightarrow> ('s \<Rightarrow> bytes) \<Rightarrow> bytes \<Rightarrow> bytes \<Rightarrow> ('z, 's) extraction \<Rightarrow> bool" where
  "exact_so_far zl content before d x \<longleftrightarrow> content (x_sink x) = before @ d \<and> x_produced x = length d \<and> x_crc x = zl_crc zl 0 d"

lemma turn_made_exact:
  assumes "turn_made zl snk e made x x1" "crc_streams zl" "keeps_bytes snk content" "exact_so_far zl content before d x"
  shows "exact_so_far zl content before (d @ made) x1"
  using assms by (cases "made = []") (auto simp: turn_made_def crc_streams_def keeps_bytes_def exact_so_far_def)


lemma inflate_input_induct [consumes 1, case_names nil stop again]:
  assumes "inflate_input zl snk e input x = Some (st, x1)"
    and "\<And>x. P [] x None x"
    and "\<And>input x st x1. input \<noteq> [] \<Longrightarrow> inflate_turn zl snk e input x = Stop st x1 \<Longrightarrow> P input x st x1"
    and "\<And>input x rest x1 st x2. input \<noteq> [] \<Longrightarrow> inflate_turn zl snk e input x = Again rest x1 \<Longrightarrow> P rest x1 st x2 \<Longrightarrow> P input x st x2"
  shows "P input x st x1"
proof -
  have "zl1 = zl \<and> snk1 = snk \<and> e1 = e \<longrightarrow> P input x (fst y) (snd y)"
    if "inflate_input zl1 snk1 e1 input x = Some y" for zl1 snk1 e1 input x y
    by (rule inflate_input.raw_induct
        [where P = "\<lambda>zl1 snk1 e1 input x y. zl1 = zl \<and> snk1 = snk \<and> e1 = e \<longrightarrow> P input x (fst y) (snd y)"
          and xa = "((((zl1, snk1), e1), input), x)" and y = y, simplified])
      (use assms(2-4) that in \<open>auto split: if_splits turn.splits\<close>)
  with assms(1) show ?thesis by fastforce
qed

lemma inflate_input_exact:
  assumes "inflate_input zl snk e input x = Some (None, x1)" "crc_streams zl" "keeps_bytes snk content"
    "exact_so_far zl content before d x"
  shows "\<exists>d1. exact_so_far zl content before d1 x1"
proof -
  have "st = None \<longrightarrow> (\<forall>d. exact_so_far zl content before d x \<longrightarrow> (\<exists>d1. exact_so_far zl content before d1 x1))"
    if "inflate_input zl snk e input x = Some (st, x1)" for st
    using that
  proof (induction rule: inflate_input_induct)
    case (stop input x st x1)
    then show ?case using inflate_turn_done turn_made_exact [OF _ assms(2,3)] by metis
  next
    case (again input x rest x1 st x2)
    then show ?case using turn_made_exact [OF _ assms(2,3)] by (metis inflate_turn_again)
  qed blast
  with assms(1,4) show ?thesis by blast
qed

lemma extract_blocks_exact:
  "extract_blocks zl snk zf e off n x = Some (None, x1) \<Longrightarrow> crc_streams zl \<Longrightarrow> keeps_bytes snk content \<Longrightarrow> whole_reads zf \<Longrightarrow>
    exact_so_far zl content before d x \<Longrightarrow> \<exists>d1. exact_so_far zl content before d1 x1"
proof (induction zl snk zf e off n x arbitrary: d rule: extract_blocks.induct)
  case (1 zl snk zf e off n x)
  show ?case
  proof (cases "n \<ge> z_csize e")
    case False
    with "1.prems"(1) obtain x2 where b: "extract_block zl snk zf e off n x = Some (None, x2)"
      "extract_blocks zl snk zf e off (n + block_want e n) x2 = Some (None, x1)"
      by (auto simp: extract_blocks.simps [of zl snk zf e off n x] split: option.splits)
    have "\<exists>d1. exact_so_far zl content before d1 x2"
    proof -
      obtain b1 where r: "zf_read zf (off + n) (block_want e n) = Some b1"
        using b(1) by (auto simp: extract_block_def split: option.splits)
      then have "length b1 = block_want e n" using "1.prems"(4) by (auto simp: whole_reads_def)
      with r b(1) "1.prems"(2,3,5) have "z_method e \<noteq> 8 \<Longrightarrow> exact_so_far zl content before (d @ b1) x2"
        by (auto simp: extract_block_def Let_def take_bytes_eq crc_streams_def keeps_bytes_def exact_so_far_def split: prod.splits if_splits)
      moreover have "z_method e = 8 \<Longrightarrow> inflate_input zl snk e b1 x = Some (None, x2)"
        using r b(1) by (simp add: extract_block_def)
      ultimately show ?thesis using inflate_input_exact "1.prems"(2,3,5) by metis
    qed
    then show ?thesis using "1.IH" [OF False b(1) refl refl b(2) "1.prems"(2-4)] by blast
  qed (use "1.prems" in \<open>auto simp: extract_blocks.simps [of zl snk zf e off n x]\<close>)
qed

text \<open>C18: An entry that is extracted without an error wrote exactly the recorded number of bytes to its sink, and
  their CRC-32 is the recorded one, stored or deflated.\<close>

theorem extracted_entry_is_exact:
  assumes "extract_data zl snk zf e off s = Some (None, s1)"
    and "crc_streams zl" and "keeps_bytes snk content" and "whole_reads zf"
  shows "\<exists>d. content s1 = content s @ d \<and> length d = z_size e \<and> zl_crc zl 0 d = z_crc e"
proof -
  define x where "x = \<lparr>x_produced = 0, x_crc = 0, x_end = z_method e \<noteq> 8, x_z = snd (zl_init zl), x_sink = s\<rparr>"
  obtain x1 where x1: "extract_blocks zl snk zf e off 0 x = Some (None, x1)" "x_produced x1 = z_size e" "x_crc x1 = z_crc e"
    "s1 = x_sink x1"
    using assms(1) by (auto simp: extract_data_def x_def Let_def split: if_splits option.splits)
  have "exact_so_far zl content (content s) [] x" using assms(2) by (simp add: exact_so_far_def x_def crc_streams_def)
  from extract_blocks_exact [OF x1(1) assms(2-4) this] x1(2-4) show ?thesis by (auto simp: exact_so_far_def)
qed


subsection \<open>Where the data is, and reading one entry\<close>

definition local_header_matches :: "zip_file \<Rightarrow> zip_entry \<Rightarrow> bytes \<Rightarrow> bool" where
  "local_header_matches f e h =
     (let flags = le16 h 6; meth = rd16 h 8; name_len = rd16 h 26
      in if meth \<noteq> z_method e \<or> flags AND 0x2041 \<noteq> 0 then False
      else if flags AND 0x8 = 0 \<and> (le32 h 14 \<noteq> z_crc e \<or> rd32 h 18 \<noteq> z_csize e \<or> rd32 h 22 \<noteq> z_size e) then False
      else (if name_len = 0 then Some [] else zf_read f (z_local e + local_fixed) name_len) = Some (z_name e))"

definition locate_data :: "zip_file \<Rightarrow> zip_entry \<Rightarrow> zip_status + nat" where
  "locate_data f e = (case zf_read f (z_local e) local_fixed of
      None \<Rightarrow> Inl ZBadLocalHeader
    | Some h \<Rightarrow>
        if le32 h 0 \<noteq> local_sig then Inl ZBadLocalHeader
        else if \<not> local_header_matches f e h then Inl ZBadLocalHeader
        else let off = z_local e + local_fixed + rd16 h 26 + rd16 h 28
        in case zf_size f of
            None \<Rightarrow> Inl ZOffsetOutOfRange
          | Some fs \<Rightarrow> if off + z_csize e > fs then Inl ZOffsetOutOfRange else Inr off)"

definition read_zip_entry ::
    "'z zlib \<Rightarrow> 's zip_sink \<Rightarrow> zip_file option \<Rightarrow> zip_entry \<Rightarrow> 's \<Rightarrow> (zip_status option \<times> 's) option" where
  "read_zip_entry zl snk file e s =
     (if is_dir_entry e then Some (Some ZBadEntryPath, s)
      else case file of
          None \<Rightarrow> Some (Some ZOpenFailed, s)
        | Some f \<Rightarrow> (case locate_data f e of
              Inl st \<Rightarrow> Some (Some st, s)
            | Inr off \<Rightarrow> extract_data zl snk f e off s))"

lemma read_zip_entry_accepts:
  assumes "read_zip_entry zl snk (Some f) e s = Some (None, s1)"
  obtains off where "locate_data f e = Inr off" "extract_data zl snk f e off s = Some (None, s1)"
  using assms by (auto simp: read_zip_entry_def split: if_splits sum.splits)

text \<open>Reading one entry always ends with a status, when zlib makes the progress it documents.\<close>

theorem entry_read_ends:
  assumes "inflate_progress zl"
  shows "\<exists>st s1. read_zip_entry zl snk file e s = Some (st, s1)"
  using extract_data_returns [OF assms] by (auto simp: read_zip_entry_def split: option.splits sum.splits)

subsection \<open>Stored entries are copied\<close>

lemma stored_block:
  assumes "z_method e \<noteq> 8" "extract_block zl snk (file_of c) e off n x = Some (None, x1)" "keeps_bytes snk content"
  shows "content (x_sink x1) = content (x_sink x) @ take (block_want e n) (drop (off + n) c)"
  using assms by (auto simp: extract_block_def Let_def take_bytes_eq keeps_bytes_def split: prod.splits option.splits if_splits)

lemma stored_blocks:
  "extract_blocks zl snk (file_of c) e off n x = Some (None, x1) \<Longrightarrow> z_method e \<noteq> 8 \<Longrightarrow> keeps_bytes snk content \<Longrightarrow>
    content (x_sink x1) = content (x_sink x) @ take (z_csize e - n) (drop (off + n) c)"
proof (induction zl snk "file_of c" e off n x rule: extract_blocks.induct)
  case (1 zl snk e off n x)
  show ?case
  proof (cases "n \<ge> z_csize e")
    case False
    with "1.prems"(1) obtain x2 where b: "extract_block zl snk (file_of c) e off n x = Some (None, x2)"
      "extract_blocks zl snk (file_of c) e off (n + block_want e n) x2 = Some (None, x1)"
      by (auto simp: extract_blocks.simps [of zl snk "file_of c" e off n x] split: option.splits)
    have n: "z_csize e - n = block_want e n + (z_csize e - (n + block_want e n))" by (simp add: block_want_def)
    show ?thesis
      unfolding n take_add
      using "1.hyps" [OF False b(1) refl refl b(2) "1.prems"(2,3)] stored_block [OF "1.prems"(2) b(1) "1.prems"(3)]
      by (simp add: ac_simps)
  qed (use "1.prems" in \<open>auto simp: extract_blocks.simps [of zl snk "file_of c" e off n x]\<close>)
qed

text \<open>A stored entry that is read without an error is copied: the sink gets the bytes of the archive right after the
  local header, its name and its extra field.\<close>

theorem stored_entry_is_copied:
  assumes "read_zip_entry zl snk (Some (file_of c)) e s = Some (None, s1)"
    and "z_method e = 0" and "keeps_bytes snk content"
  shows "\<exists>off. locate_data (file_of c) e = Inr off \<and> content s1 = content s @ take (z_csize e) (drop off c)"
proof -
  obtain off where off: "locate_data (file_of c) e = Inr off" "extract_data zl snk (file_of c) e off s = Some (None, s1)"
    by (rule read_zip_entry_accepts [OF assms(1)])
  define x where "x = \<lparr>x_produced = 0, x_crc = 0, x_end = z_method e \<noteq> 8, x_z = snd (zl_init zl), x_sink = s\<rparr>"
  obtain x1 where x1: "extract_blocks zl snk (file_of c) e off 0 x = Some (None, x1)" "s1 = x_sink x1"
    using off(2) by (auto simp: extract_data_def x_def Let_def split: if_splits option.splits)
  have "content s1 = content s @ take (z_csize e) (drop off c)"
    using stored_blocks [OF x1(1) _ assms(3)] assms(2) x1(2) by (simp add: x_def)
  with off(1) show ?thesis by blast
qed

subsection \<open>A sample archive\<close>

definition sample_local :: bytes where
  "sample_local = [0x50, 0x4b, 3, 4, 20, 0, 0, 0, 0, 0, 0, 0, 0, 0, 1, 2, 3, 4, 2, 0, 0, 0, 2, 0, 0, 0, 3, 0, 5, 0,
     0x64, 0x2F, 0x66, 0, 0, 0, 0, 0, 2, 1]"

abbreviation sample_archive :: zip_file where "sample_archive \<equiv> file_of (sample_zip sample_local)"

text \<open>A checksum and an inflater with the documented laws: the inflater copies its input.\<close>

definition sample_zlib :: "unit zlib" where
  "sample_zlib = \<lparr>zl_crc = foldl (\<lambda>c x. c * 0x02018100 + ucast x), zl_init = (True, ()),
     zl_inflate = (\<lambda>z input. (ZOk, length input, input, z))\<rparr>"

definition sample_sink :: "bytes zip_sink" where "sample_sink s b = (True, s @ b)"

lemma sample_laws:
  "crc_streams sample_zlib" "inflate_progress sample_zlib" "keeps_bytes sample_sink id" "whole_reads sample_archive"
  by (simp_all add: crc_streams_def inflate_progress_def keeps_bytes_def sample_zlib_def sample_sink_def file_of_whole)

lemma sample_local_fields:
  "length sample_local = 40" "take 30 (sample_local @ b) = take 30 sample_local"
  "take 3 (drop 30 (sample_local @ b)) = [0x64, 0x2F, 0x66]" "take 2 (drop 38 (sample_local @ b)) = [2, 1]"
  "take 3 (drop 30 sample_local) = [0x64, 0x2F, 0x66]" "drop 38 sample_local = [2, 1]"
  "le32 (take 30 sample_local) 0 = local_sig" "le16 (take 30 sample_local) 6 = 0" "le16 (take 30 sample_local) 8 = 0"
  "le32 (take 30 sample_local) 14 = 0x04030201" "le32 (take 30 sample_local) 18 = 2" "le32 (take 30 sample_local) 22 = 2"
  "le16 (take 30 sample_local) 26 = 3" "le16 (take 30 sample_local) 28 = 5"
  by (simp_all add: sample_local_def le32_def le16_def local_sig_def)

lemma sample_located: "locate_data sample_archive sample_entry = Inr 38"
  by (simp add: locate_data_def local_header_matches_def sample_local_fields sample_zip_def sample_entry_def local_fixed_def
      Let_def bytes_of_def)

lemma sample_extracted: "extract_data sample_zlib sample_sink sample_archive sample_entry 38 [] = Some (None, [2, 1])"
  by (simp add: extract_data_def extract_blocks.simps extract_block_def block_want_def in_size_def sample_local_fields sample_zip_def
      sample_entry_def take_bytes_def sample_sink_def sample_zlib_def Let_def)

lemma sample_entry_read:
  "read_zip_entry sample_zlib sample_sink (Some sample_archive) sample_entry [] = Some (None, [2, 1])"
  by (simp add: read_zip_entry_def sample_located sample_extracted) (simp add: is_dir_entry_def sample_entry_def bytes_of_def slash_def)


theorem extracted_entry_is_exact_witness:
  "length [2, 1 :: 8 word] = z_size sample_entry \<and> zl_crc sample_zlib 0 [2, 1] = z_crc sample_entry"
  using extracted_entry_is_exact [OF sample_extracted sample_laws(1,3,4)] by simp

theorem entry_read_ends_witness:
  "\<exists>st s1. read_zip_entry sample_zlib sample_sink (Some sample_archive) sample_entry [] = Some (st, s1)"
  by (rule entry_read_ends [OF sample_laws(2)])

theorem stored_entry_is_copied_witness:
  "\<exists>off. locate_data sample_archive sample_entry = Inr off
    \<and> [2, 1] = take (z_csize sample_entry) (drop off (sample_zip sample_local))"
  using stored_entry_is_copied [OF sample_entry_read _ sample_laws(3)] by (simp add: sample_entry_def)

end
