(* ===== verification/Zip_Archive.thy ===== *)
theory Zip_Archive
  imports Zip_Extract
begin

section \<open>Extracting the archive below a directory\<close>

text \<open>
  \<^verbatim>\<open>ExtractZip\<close> and \<^verbatim>\<open>MakeDirsBelow\<close> of \<^verbatim>\<open>src/quest/data/zip.cpp\<close>. The file system is a parameter: a state and the five
  calls the code makes on it. The lemmas show that only the directory and paths of plain components below it are touched,
  that the extraction ends, and what it reports.
\<close>

subsection \<open>The directory and the entries\<close>

text \<open>The file system is a state and the calls made on it.\<close>

datatype mkdir_result = MkOk | MkExists | MkFails

record 'w zip_os =
  os_mkdir :: "bytes \<Rightarrow> 'w \<Rightarrow> mkdir_result \<times> 'w"
  os_is_dir :: "bytes \<Rightarrow> 'w \<Rightarrow> bool"                      \<comment> \<open>\<^verbatim>\<open>lstat\<close> and \<^verbatim>\<open>S_ISDIR\<close>\<close>
  os_create :: "bytes \<Rightarrow> 'w \<Rightarrow> bool \<times> 'w"                   \<comment> \<open>\<^verbatim>\<open>O_CREAT | O_EXCL | O_NOFOLLOW\<close>\<close>
  os_append :: "bytes \<Rightarrow> 'w zip_sink"                     \<comment> \<open>\<^verbatim>\<open>WriteAll\<close> to the file made there\<close>
  os_fsync :: "bytes \<Rightarrow> 'w \<Rightarrow> bool \<times> 'w"

definition make_dir :: "'w zip_os \<Rightarrow> bytes \<Rightarrow> 'w \<Rightarrow> bool \<times> 'w" where
  "make_dir os path w = (let (r, w1) = os_mkdir os path w
     in (r \<noteq> MkFails \<and> os_is_dir os path w1, w1))"

function make_dirs :: "'w zip_os \<Rightarrow> bytes \<Rightarrow> bytes \<Rightarrow> 'w \<Rightarrow> bool \<times> 'w" where
  "make_dirs os path rest w = (case find_ch slash rest of
      None \<Rightarrow> make_dir os (path @ slash # rest) w
    | Some k \<Rightarrow> (let path1 = path @ slash # take k rest; (ok, w1) = make_dir os path1 w
        in if ok then make_dirs os path1 (drop (k + 1) rest) w1 else (False, w1)))"
  by pat_completeness auto
termination
  by (relation "measure (\<lambda>(os, path, rest, w). length rest)") (auto dest: find_ch_Some)

declare make_dirs.simps [simp del]

definition make_dirs_below :: "'w zip_os \<Rightarrow> bytes \<Rightarrow> bytes \<Rightarrow> 'w \<Rightarrow> bool \<times> 'w" where
  "make_dirs_below os base rel w = (if rel = [] then (True, w) else make_dirs os base rel w)"

definition last_slash :: "bytes \<Rightarrow> nat option" where
  "last_slash rel = find (\<lambda>i. rel ! i = slash) (rev [0..<length rel])"

definition entry_rel :: "bytes \<Rightarrow> zip_entry \<Rightarrow> bytes" where
  "entry_rel prefix e = strip_slash (drop (length prefix) (z_name e))"

definition extract_file ::
    "'z zlib \<Rightarrow> 'w zip_os \<Rightarrow> zip_file \<Rightarrow> bytes \<Rightarrow> bytes \<Rightarrow> zip_entry \<Rightarrow> 'w \<Rightarrow> (zip_status option \<times> 'w) option" where
  "extract_file zl os zf dest rel e w =
     (let (dirs, w1) = (case last_slash rel of None \<Rightarrow> (True, w) | Some k \<Rightarrow> make_dirs_below os dest (take k rel) w)
      in if \<not> dirs then Some (Some ZWriteFailed, w1)
      else case locate_data zf e of Inl st \<Rightarrow> Some (Some st, w1) | Inr off \<Rightarrow>
      let target = dest @ slash # rel; (made, w2) = os_create os target w1
      in if \<not> made then Some (Some ZWriteFailed, w2)
      else case extract_data zl (os_append os target) zf e off w2 of
          None \<Rightarrow> None
        | Some (Some st, w3) \<Rightarrow> Some (Some st, w3)
        | Some (None, w3) \<Rightarrow> (let (synced, w4) = os_fsync os target w3
            in Some (if synced then None else Some ZWriteFailed, w4)))"

definition extract_entry ::
    "'z zlib \<Rightarrow> 'w zip_os \<Rightarrow> zip_file \<Rightarrow> bytes \<Rightarrow> bytes \<Rightarrow> zip_entry \<Rightarrow> 'w \<Rightarrow> (zip_status option \<times> nat \<times> 'w) option" where
  "extract_entry zl os zf dest prefix e w =
     (let rel = entry_rel prefix e
      in if rel = [] then Some (None, 0, w)
      else if is_dir_entry e then
        (let (ok, w1) = make_dirs_below os dest rel w in Some (if ok then None else Some ZWriteFailed, 0, w1))
      else case extract_file zl os zf dest rel e w of
          None \<Rightarrow> None
        | Some (st, w1) \<Rightarrow> Some (st, if st = None then z_size e else 0, w1))"

fun extract_entries ::
    "'z zlib \<Rightarrow> 'w zip_os \<Rightarrow> zip_file \<Rightarrow> bytes \<Rightarrow> bytes \<Rightarrow> zip_entry list \<Rightarrow> nat \<Rightarrow> 'w \<Rightarrow> (zip_status option \<times> nat \<times> 'w) option" where
  "extract_entries zl os zf dest prefix [] n w = Some (None, n, w)"
| "extract_entries zl os zf dest prefix (e # es) n w = (case extract_entry zl os zf dest prefix e w of
      None \<Rightarrow> None
    | Some (Some st, _, w1) \<Rightarrow> Some (Some st, n, w1)
    | Some (None, k, w1) \<Rightarrow> extract_entries zl os zf dest prefix es (n + k) w1)"

text \<open>The archive is opened once to list it and once to read it.\<close>

definition extract_zip ::
    "'z zlib \<Rightarrow> 'w zip_os \<Rightarrow> zip_file option \<Rightarrow> zip_file option \<Rightarrow> bytes \<Rightarrow> bytes \<Rightarrow> zip_limits \<Rightarrow> 'w
      \<Rightarrow> (zip_status option \<times> nat \<times> 'w) option" where
  "extract_zip zl os listed opened dest prefix lim w =
     (case read_zip_listing listed lim of Inl st \<Rightarrow> Some (Some st, 0, w) | Inr es \<Rightarrow>
      if \<exists>e\<in>set es. take (length prefix) (z_name e) \<noteq> prefix then Some (Some ZBadEntryPath, 0, w)
      else case opened of None \<Rightarrow> Some (Some ZOpenFailed, 0, w) | Some zf \<Rightarrow>
      (let (r, w1) = os_mkdir os dest w
       in case r of
           MkExists \<Rightarrow> Some (Some ZDestExists, 0, w1)
         | MkFails \<Rightarrow> Some (Some ZWriteFailed, 0, w1)
         | MkOk \<Rightarrow> extract_entries zl os zf dest prefix es 0 w1))"


lemma extract_file_returns:
  assumes "inflate_progress zl"
  shows "\<exists>r. extract_file zl os zf dest rel e w = Some r"
proof -
  let ?t = "dest @ slash # rel"
  obtain dirs w1 where d: "(case last_slash rel of None \<Rightarrow> (True, w) | Some k \<Rightarrow> make_dirs_below os dest (take k rel) w) = (dirs, w1)"
    by fastforce
  obtain made w2 where m: "os_create os ?t w1 = (made, w2)" by fastforce
  show ?thesis
  proof (cases "locate_data zf e")
    case (Inr off)
    obtain st w3 where x: "extract_data zl (os_append os ?t) zf e off w2 = Some (st, w3)"
      using extract_data_returns [OF assms] by (metis surj_pair)
    show ?thesis by (cases dirs; cases made; cases st) (simp_all add: extract_file_def d m x Inr Let_def split: prod.split)
  qed (cases dirs; simp add: extract_file_def d Let_def)
qed

lemma extract_entry_returns: "inflate_progress zl \<Longrightarrow> \<exists>r. extract_entry zl os zf dest prefix e w = Some r"
  using extract_file_returns [of zl os zf dest "entry_rel prefix e" e w]
  by (auto simp: extract_entry_def Let_def split: option.splits prod.splits)

lemma extract_entries_return: "inflate_progress zl \<Longrightarrow> \<exists>r. extract_entries zl os zf dest prefix es n w = Some r"
proof (induction es arbitrary: n w)
  case (Cons e es)
  from extract_entry_returns [OF Cons.prems] obtain st k w1 where "extract_entry zl os zf dest prefix e w = Some (st, k, w1)"
    by (metis prod_cases3)
  with Cons show ?case by (cases st) auto
qed simp

lemma extract_zip_returns:
  assumes "inflate_progress zl"
  shows "\<exists>st n w1. extract_zip zl os listed opened dest prefix lim w = Some (st, n, w1)"
  using extract_entries_return [OF assms]
  by (auto simp: extract_zip_def Let_def split: option.splits sum.splits prod.splits mkdir_result.splits)

text \<open>Extracting an archive always ends with a status, when zlib makes the progress it documents.\<close>

theorem extraction_ends:
  assumes "inflate_progress zl"
  shows "\<exists>st n w1. extract_zip zl os listed opened dest prefix lim w = Some (st, n, w1)"
  using assms by (rule extract_zip_returns)

subsection \<open>Extraction stays below its directory\<close>

definition below :: "bytes \<Rightarrow> bytes \<Rightarrow> bool" where
  "below dest p \<longleftrightarrow> (\<exists>parts. (\<forall>c\<in>set parts. zip_component c) \<and> p = dest @ concat (map (Cons slash) parts))"

text \<open>What holds of the file system, and goes on to hold whatever is done to a path below \<open>dest\<close>.\<close>

definition kept_below :: "'w zip_os \<Rightarrow> bytes \<Rightarrow> ('w \<Rightarrow> bool) \<Rightarrow> bool" where
  "kept_below os dest I \<longleftrightarrow> (\<forall>p w b. below dest p \<and> I w \<longrightarrow>
     I (snd (os_mkdir os p w)) \<and> I (snd (os_create os p w)) \<and> I (snd (os_append os p w b)) \<and> I (snd (os_fsync os p w)))"

lemma kept_belowD:
  assumes "kept_below os dest I" "below dest p" "I w"
  shows "I (snd (os_mkdir os p w))" "I (snd (os_create os p w))" "I (snd (os_append os p w b))" "I (snd (os_fsync os p w))"
  using assms by (auto simp: kept_below_def)

definition plain_path :: "bytes \<Rightarrow> bool" where
  "plain_path p \<longleftrightarrow> (\<exists>parts. parts \<noteq> [] \<and> (\<forall>c\<in>set parts. zip_component c) \<and> p = joined parts)"

lemma slash_joined: "parts \<noteq> [] \<Longrightarrow> slash # joined parts = concat (map (Cons slash) parts)"
  by (cases parts) (simp_all add: joined_def)

lemma zip_component_no_slash: "zip_component c \<Longrightarrow> slash \<notin> set c"
  by (auto simp: zip_component_def component_def slash_def)

lemma joined_split:
  "joined parts = a @ slash # b \<Longrightarrow> parts \<noteq> [] \<Longrightarrow> \<forall>c\<in>set parts. zip_component c \<Longrightarrow>
    \<exists>ps qs. parts = ps @ qs \<and> ps \<noteq> [] \<and> qs \<noteq> [] \<and> a = joined ps \<and> b = joined qs"
proof (induction parts arbitrary: a)
  case (Cons c parts)
  have ns: "slash \<notin> set c" using Cons.prems(3) zip_component_no_slash by simp
  have j: "joined (c # parts) = c @ concat (map (Cons slash) parts)" by (simp add: joined_def)
  show ?case
  proof (cases parts)
    case Nil
    with Cons.prems(1) j ns show ?thesis by (auto simp: append_eq_append_conv2)
  next
    case (Cons d ds)
    then have c: "c @ slash # joined parts = a @ slash # b"
      using Cons.prems(1) j slash_joined [of parts] by simp
    show ?thesis
    proof (cases "a = c")
      case True
      with c have "b = joined parts" by simp
      with True Cons show ?thesis
        by (intro exI [of _ "[c]"] exI [of _ parts]) (simp add: joined_def)
    next
      case False
      from c ns have "\<exists>a1. a = c @ slash # a1 \<and> joined parts = a1 @ slash # b"
        using False by (auto simp: append_eq_append_conv2 append_eq_Cons_conv Cons_eq_append_conv)
      then obtain a1 where a1: "a = c @ slash # a1" "joined parts = a1 @ slash # b" by blast
      from Cons.IH [OF a1(2)] Cons Cons.prems(3) obtain ps qs where
        "parts = ps @ qs" "ps \<noteq> []" "qs \<noteq> []" "a1 = joined ps" "b = joined qs" by auto
      then show ?thesis using a1(1) slash_joined [of ps]
        by (intro exI [of _ "c # ps"] exI [of _ qs]) (simp add: joined_def)
    qed
  qed
qed simp

lemma plain_path_split:
  assumes "plain_path (a @ slash # b)"
  shows "plain_path a" "plain_path b"
proof -
  from assms obtain parts where "joined parts = a @ slash # b" "parts \<noteq> []" "\<forall>c\<in>set parts. zip_component c"
    by (auto simp: plain_path_def)
  from joined_split [OF this] this(3) show "plain_path a" "plain_path b" by (auto simp: plain_path_def)
qed

lemma plain_path_no_slash:
  assumes "plain_path a" "slash \<notin> set a"
  shows "zip_component a"
proof -
  from assms(1) obtain c cs where "a = joined (c # cs)" "zip_component c" by (auto simp: plain_path_def neq_Nil_conv)
  with assms(2) show ?thesis by (cases cs) (simp_all add: joined_def)
qed

lemma below_plain: "plain_path p \<Longrightarrow> below dest (dest @ slash # p)"
  using slash_joined by (auto simp: plain_path_def below_def)

lemma below_self: "below dest dest"
  unfolding below_def by (rule exI [of _ "[]"]) simp

lemma below_trans: "below dest p \<Longrightarrow> below p q \<Longrightarrow> below dest q"
proof -
  assume "below dest p" "below p q"
  then obtain ps qs where "\<forall>c\<in>set ps. zip_component c" "p = dest @ concat (map (Cons slash) ps)"
    "\<forall>c\<in>set qs. zip_component c" "q = p @ concat (map (Cons slash) qs)" unfolding below_def by blast
  then show ?thesis unfolding below_def by (intro exI [of _ "ps @ qs"]) auto
qed

lemma make_dir_kept: "kept_below os dest I \<Longrightarrow> below dest p \<Longrightarrow> I w \<Longrightarrow> I (snd (make_dir os p w))"
  using kept_belowD(1) by (fastforce simp: make_dir_def Let_def split: prod.splits)

lemma make_dirs_kept:
  "kept_below os dest I \<Longrightarrow> plain_path rest \<Longrightarrow> below dest path \<Longrightarrow> I w \<Longrightarrow> I (snd (make_dirs os path rest w))"
proof (induction os path rest w rule: make_dirs.induct)
  case (1 os path rest w)
  show ?case
  proof (cases "find_ch slash rest")
    case None
    then show ?thesis using make_dir_kept [OF "1.prems"(1) _ "1.prems"(4)] below_trans [OF "1.prems"(3) below_plain [OF "1.prems"(2)]]
      by (simp add: make_dirs.simps [of os path rest w])
  next
    case (Some k)
    note k = find_ch_Some [OF Some]
    then have "rest = take k rest @ slash # drop (k + 1) rest" by (metis Suc_eq_plus1 id_take_nth_drop)
    with "1.prems"(2) have pl: "plain_path (take k rest)" "plain_path (drop (k + 1) rest)"
      using plain_path_split by metis+
    let ?p = "path @ slash # take k rest"
    have bl: "below dest ?p" using below_trans [OF "1.prems"(3) below_plain [OF pl(1)]] .
    obtain ok w1 where d: "make_dir os ?p w = (ok, w1)" by fastforce
    then have "I w1" using make_dir_kept [OF "1.prems"(1) bl "1.prems"(4)] by simp
    then show ?thesis using "1.IH" [OF Some refl d [symmetric] refl _ "1.prems"(1) pl(2) bl] d Some
      by (simp add: make_dirs.simps [of os path rest w] Let_def)
  qed
qed


definition sink_keeps :: "'s zip_sink \<Rightarrow> ('s \<Rightarrow> bool) \<Rightarrow> bool" where
  "sink_keeps snk I \<longleftrightarrow> (\<forall>w b. I w \<longrightarrow> I (snd (snk w b)))"

lemma take_bytes_kept:
  assumes "sink_keeps snk I" "I (x_sink x)" "take_bytes zl snk b x = (ok, x1)"
  shows "I (x_sink x1)"
proof -
  from assms(3) obtain s where s: "snk (x_sink x) b = (ok, s)" "x_sink x1 = s" by (auto simp: take_bytes_eq)
  have "I (snd (snk (x_sink x) b))" using assms(1,2) unfolding sink_keeps_def by blast
  with s show ?thesis by simp
qed

lemma inflate_turn_kept:
  assumes "sink_keeps snk I" "I (x_sink x)"
  shows "case inflate_turn zl snk e input x of Stop st x1 \<Rightarrow> I (x_sink x1) | Again rest x1 \<Rightarrow> I (x_sink x1)"
proof -
  obtain rc used made z where i: "zl_inflate zl (x_z x) input = (rc, used, made, z)" by (cases "zl_inflate zl (x_z x) input")
  let ?x = "x\<lparr>x_z := z, x_produced := x_produced x + length made\<rparr>"
  obtain ok x2 where t: "take_bytes zl snk made ?x = (ok, x2)" by fastforce
  have "I (x_sink x2)" by (rule take_bytes_kept [OF assms(1) _ t]) (simp add: assms(2))
  then show ?thesis using assms(2)
    by (cases rc) (simp_all add: inflate_turn_def i t Let_def)
qed

lemma inflate_input_kept:
  assumes "inflate_input zl snk e input x = Some (st, x1)" "sink_keeps snk I"
  shows "I (x_sink x) \<longrightarrow> I (x_sink x1)"
  using assms(1)
proof (induction rule: inflate_input_induct)
  case (stop input x st x1)
  then show ?case using inflate_turn_kept [OF assms(2), of x zl e input] by simp
next
  case (again input x rest x1 st x2)
  then show ?case using inflate_turn_kept [OF assms(2), of x zl e input] by simp
qed blast

lemma extract_blocks_kept:
  assumes "sink_keeps snk I"
  shows "extract_blocks zl snk zf e off n x = Some (st, x1) \<Longrightarrow> I (x_sink x) \<Longrightarrow> I (x_sink x1)"
proof (induction n arbitrary: x rule: measure_induct_rule [of "\<lambda>n. z_csize e - n"])
  case (less n)
  have block: "I (x_sink x2)" if "extract_block zl snk zf e off n x = Some (st2, x2)" for st2 x2
    using that less.prems(2) inflate_input_kept [OF _ assms, of zl e _ x]
      take_bytes_kept [OF assms, of "x\<lparr>x_produced := x_produced x + block_want e n\<rparr>" zl]
    by (auto simp: extract_block_def Let_def split: option.splits if_splits prod.splits)
  show ?case
  proof (cases "n \<ge> z_csize e")
    case False
    then obtain st2 x2 where b: "extract_block zl snk zf e off n x = Some (st2, x2)"
      using less.prems(1) by (cases "extract_block zl snk zf e off n x") (auto simp: extract_blocks.simps [of zl snk zf e off n x])
    show ?thesis
    proof (cases st2)
      case None
      then have "extract_blocks zl snk zf e off (n + block_want e n) x2 = Some (st, x1)"
        using less.prems(1) b False by (simp add: extract_blocks.simps [of zl snk zf e off n x])
      moreover have "z_csize e - (n + block_want e n) < z_csize e - n" using False by (simp add: block_want_def in_size_def)
      ultimately show ?thesis using less.IH block [OF b] by blast
    qed (use less.prems b False block in \<open>auto simp: extract_blocks.simps [of zl snk zf e off n x]\<close>)
  qed (use less.prems in \<open>auto simp: extract_blocks.simps [of zl snk zf e off n x]\<close>)
qed

lemma extract_data_kept:
  assumes "sink_keeps snk I" "extract_data zl snk zf e off s = Some (st, s1)" "I s"
  shows "I s1"
  using assms(2,3) extract_blocks_kept [OF assms(1)]
  by (fastforce simp: extract_data_def Let_def split: if_splits option.splits prod.splits)


lemma make_dirs_below_kept:
  "kept_below os dest I \<Longrightarrow> plain_path rel \<Longrightarrow> I w \<Longrightarrow> I (snd (make_dirs_below os dest rel w))"
  by (simp add: make_dirs_below_def make_dirs_kept [OF _ _ below_self])

lemma last_slash_Some:
  assumes "last_slash rel = Some k"
  shows "rel = take k rel @ slash # drop (k + 1) rel"
proof -
  have "k < length rel" "rel ! k = slash" using assms unfolding last_slash_def find_Some_iff by (auto simp: rev_nth)
  then show ?thesis using id_take_nth_drop [of k rel] by simp
qed

lemma parent_dirs_kept:
  assumes "kept_below os dest I" "plain_path rel" "I w"
  shows "I (snd (case last_slash rel of None \<Rightarrow> (True, w) | Some k \<Rightarrow> make_dirs_below os dest (take k rel) w))"
proof (cases "last_slash rel")
  case (Some k)
  have "plain_path (take k rel @ slash # drop (k + 1) rel)" using last_slash_Some [OF Some] assms(2) by simp
  from make_dirs_below_kept [OF assms(1) plain_path_split(1) [OF this] assms(3)] Some show ?thesis by simp
qed (simp add: assms(3))

lemma extract_file_kept:
  assumes k: "kept_below os dest I" and p: "plain_path rel" and "I w"
    and r: "extract_file zl os zf dest rel e w = Some (st, w1)"
  shows "I w1"
proof -
  let ?t = "dest @ slash # rel"
  note t = below_plain [OF p, of dest]
  have snk: "sink_keeps (os_append os ?t) I" using kept_belowD(3) [OF k t] by (simp add: sink_keeps_def)
  obtain dirs wa where d: "(case last_slash rel of None \<Rightarrow> (True, w) | Some k \<Rightarrow> make_dirs_below os dest (take k rel) w) = (dirs, wa)"
    by fastforce
  with parent_dirs_kept [OF k p \<open>I w\<close>] have wa: "I wa" by simp
  obtain made wb where m: "os_create os ?t wa = (made, wb)" by fastforce
  with kept_belowD(2) [OF k t wa] have wb: "I wb" by simp
  show ?thesis
  proof (cases "dirs \<and> made \<and> \<not> isl (locate_data zf e)")
    case True
    then obtain off where off: "locate_data zf e = Inr off" by (cases "locate_data zf e") auto
    obtain st1 wc where x: "extract_data zl (os_append os ?t) zf e off wb = Some (st1, wc)"
      using r True by (cases "extract_data zl (os_append os ?t) zf e off wb") (auto simp: extract_file_def d m off Let_def)
    have wc: "I wc" by (rule extract_data_kept [OF snk x wb])
    obtain synced wd where f: "os_fsync os ?t wc = (synced, wd)" by fastforce
    with kept_belowD(4) [OF k t wc] have "I wd" by simp
    then show ?thesis using r wc True by (cases st1) (auto simp: extract_file_def d m x f off Let_def)
  next
    case False
    then show ?thesis using r wa wb
      by (cases "locate_data zf e") (auto simp: extract_file_def d m Let_def split: if_splits)
  qed
qed

lemma extract_entry_kept:
  assumes "kept_below os dest I" "entry_rel prefix e = [] \<or> plain_path (entry_rel prefix e)" "I w"
    and "extract_entry zl os zf dest prefix e w = Some (st, n, w1)"
  shows "I w1"
  using assms make_dirs_below_kept [OF assms(1) _ assms(3), of "entry_rel prefix e"] extract_file_kept [OF assms(1) _ assms(3)]
  by (fastforce simp: extract_entry_def Let_def split: if_splits option.splits prod.splits)

lemma extract_entries_kept:
  "extract_entries zl os zf dest prefix es n w = Some (st, m, w1) \<Longrightarrow> kept_below os dest I \<Longrightarrow>
    \<forall>e\<in>set es. entry_rel prefix e = [] \<or> plain_path (entry_rel prefix e) \<Longrightarrow> I w \<Longrightarrow> I w1"
proof (induction es arbitrary: n w)
  case (Cons e es)
  then obtain st2 k w2 where e: "extract_entry zl os zf dest prefix e w = Some (st2, k, w2)"
    by (cases "extract_entry zl os zf dest prefix e w") auto
  have "I w2" by (rule extract_entry_kept [OF Cons.prems(2) _ Cons.prems(4) e]) (use Cons.prems(3) in simp)
  with Cons e show ?case by (cases st2) auto
qed simp

lemma entry_rel_plain:
  assumes "zip_path (strip_slash (z_name e))" "take (length prefix) (z_name e) = prefix" "prefix = [] \<or> last prefix = slash"
  shows "entry_rel prefix e = [] \<or> plain_path (entry_rel prefix e)"
proof (cases "prefix = []")
  case True
  with assms(1) show ?thesis by (auto simp: entry_rel_def zip_path_def plain_path_def)
next
  case False
  then obtain p where p: "prefix = p @ [slash]" using assms(3) by (metis append_butlast_last_id)
  obtain r where n: "z_name e = p @ slash # r" using assms(2) p by (metis append.assoc append_Cons append_Nil append_take_drop_id)
  have r: "entry_rel prefix e = strip_slash r" by (simp add: entry_rel_def n p)
  show ?thesis
  proof (cases "r = []")
    case False
    then have "strip_slash (z_name e) = p @ slash # strip_slash r" by (simp add: n strip_slash_def butlast_append)
    then have "plain_path (p @ slash # strip_slash r)" using assms(1) by (auto simp: zip_path_def plain_path_def)
    then show ?thesis using plain_path_split(2) r by simp
  qed (simp add: r strip_slash_def)
qed

lemma listed_names:
  assumes "read_zip_listing listed lim = Inr es"
  shows "\<forall>e\<in>set es. zip_path (strip_slash (z_name e))"
proof -
  obtain f where f: "listed = Some f" using assms by (auto simp: read_zip_listing_def split: option.splits)
  obtain fs where fs: "zf_size f = Some fs" using assms f by (auto simp: read_zip_listing_def split: option.splits)
  obtain t i cd l where l: "listing_ok lim cd l" "es = l_entries l" by (rule listing_accepts [OF assms [unfolded f] fs])
  then show ?thesis by (auto simp: listing_ok_def entry_ok_def)
qed

lemma extract_zip_kept:
  assumes "kept_below os dest I" and "I w" and "prefix = [] \<or> last prefix = slash"
  shows "case extract_zip zl os listed opened dest prefix lim w of None \<Rightarrow> True | Some (_, _, w1) \<Rightarrow> I w1"
proof (cases "read_zip_listing listed lim")
  case (Inr es)
  obtain r w1 where m: "os_mkdir os dest w = (r, w1)" by fastforce
  have w1: "I w1" using kept_belowD(1) [OF assms(1) below_self assms(2)] m by simp
  show ?thesis
  proof (cases "\<exists>e\<in>set es. take (length prefix) (z_name e) \<noteq> prefix")
    case False
    then have "\<forall>e\<in>set es. entry_rel prefix e = [] \<or> plain_path (entry_rel prefix e)"
      using listed_names [OF Inr] entry_rel_plain [OF _ _ assms(3)] by blast
    from extract_entries_kept [OF _ assms(1) this w1] show ?thesis
      using assms(2) w1 False
      by (auto simp: extract_zip_def Inr m split: option.splits mkdir_result.splits)
  qed (simp add: extract_zip_def Inr assms(2))
qed (simp add: extract_zip_def assms(2))

text \<open>C3: Extraction stays below its directory: whatever holds of the file system and cannot be broken at the directory
  itself or at a path of plain components below it holds afterwards, however the extraction ends. The prefix that is removed
  from the names is empty or ends with a slash, as \<^verbatim>\<open>_data/\<close> does.\<close>

theorem extraction_stays_below:
  assumes "kept_below os dest I" and "I w" and "prefix = [] \<or> last prefix = slash"
  shows "case extract_zip zl os listed opened dest prefix lim w of None \<Rightarrow> True | Some (_, _, w1) \<Rightarrow> I w1"
  using assms by (rule extract_zip_kept)

lemma extract_entries_total:
  "extract_entries zl os zf dest prefix es n w = Some (None, m, w1) \<Longrightarrow>
    m = n + sum_list (map z_size (filter (\<lambda>e. entry_rel prefix e \<noteq> [] \<and> \<not> is_dir_entry e) es))"
proof (induction es arbitrary: n w)
  case (Cons e es)
  then obtain k w2 where e: "extract_entry zl os zf dest prefix e w = Some (None, k, w2)"
    "extract_entries zl os zf dest prefix es (n + k) w2 = Some (None, m, w1)"
    by (auto split: option.splits)
  then have "k = (if entry_rel prefix e \<noteq> [] \<and> \<not> is_dir_entry e then z_size e else 0)"
    by (auto simp: extract_entry_def Let_def split: if_splits option.splits prod.splits)
  with Cons.IH [OF e(2)] show ?case by simp
qed simp


text \<open>When an archive is extracted without an error, the number of bytes it reports is the sum of the recorded sizes
  of the files it wrote.\<close>

theorem extraction_reports_its_bytes:
  assumes "extract_zip zl os listed opened dest prefix lim w = Some (None, n, w1)"
  shows "\<exists>es. read_zip_listing listed lim = Inr es \<and>
    n = sum_list (map z_size (filter (\<lambda>e. entry_rel prefix e \<noteq> [] \<and> \<not> is_dir_entry e) es))"
  using assms extract_entries_total [of zl os _ dest prefix _ 0]
  by (auto simp: extract_zip_def Let_def split: sum.splits if_splits option.splits prod.splits mkdir_result.splits)

subsection \<open>A recorded run\<close>

text \<open>A file system that records the paths it is asked for.\<close>

definition trace_os :: "bytes list zip_os" where
  "trace_os = \<lparr>os_mkdir = (\<lambda>p w. (MkOk, w @ [p])), os_is_dir = (\<lambda>p w. True), os_create = (\<lambda>p w. (True, w @ [p])),
     os_append = (\<lambda>p w b. (True, w @ [p])), os_fsync = (\<lambda>p w. (True, w @ [p]))\<rparr>"

lemma trace_kept: "kept_below trace_os dest (list_all (below dest))"
  by (simp add: kept_below_def trace_os_def)

theorem extraction_ends_witness:
  "\<exists>st n w1. extract_zip sample_zlib trace_os (Some sample_archive) (Some sample_archive) (bytes_of ''out'') [] sample_limits []
    = Some (st, n, w1)"
  by (rule extraction_ends [OF sample_laws(2)])

lemma sample_extraction:
  "extract_zip sample_zlib trace_os (Some sample_archive) (Some sample_archive) [0x6F] [0x64, slash] sample_limits []
    = Some (None, 2, [[0x6F], [0x6F, slash, 0x66], [0x6F, slash, 0x66], [0x6F, slash, 0x66]])"
proof -
  have n: "z_name sample_entry = [0x64, slash, 0x66]" by (simp add: sample_entry_def bytes_of_def slash_def)
  have r: "entry_rel [0x64, slash] sample_entry = [0x66]" "\<not> is_dir_entry sample_entry"
    by (simp_all add: entry_rel_def n strip_slash_def slash_def is_dir_entry_def)
  have l: "last_slash [0x66] = None" by (simp add: last_slash_def slash_def)
  have x: "extract_data sample_zlib (\<lambda>w b. (True, w @ [p])) sample_archive sample_entry 38 w = Some (None, w @ [p])" for w :: "bytes list" and p
    by (simp add: extract_data_def extract_blocks.simps extract_block_def block_want_def in_size_def sample_local_fields sample_zip_def
        sample_entry_def take_bytes_def sample_zlib_def Let_def)
  have z: "z_size sample_entry = 2" by (simp add: sample_entry_def)
  show ?thesis
    by (simp add: extract_zip_def sample_read sample_local_fields n extract_entry_def extract_file_def r l x z sample_located Let_def trace_os_def)
qed

theorem extraction_reports_its_bytes_witness:
  "\<exists>es. read_zip_listing (Some sample_archive) sample_limits = Inr es \<and>
    2 = sum_list (map z_size (filter (\<lambda>e. entry_rel [0x64, slash] e \<noteq> [] \<and> \<not> is_dir_entry e) es))"
  by (rule extraction_reports_its_bytes [OF sample_extraction])

theorem extraction_stays_below_witness:
  "list_all (below [0x6F]) [[0x6F], [0x6F, slash, 0x66], [0x6F, slash, 0x66], [0x6F, slash, 0x66]]"
  using extraction_stays_below [OF trace_kept, where w = "[]" and prefix = "[0x64, slash]" and dest = "[0x6F]" and zl = sample_zlib
      and listed = "Some sample_archive" and opened = "Some sample_archive" and lim = sample_limits]
  by (simp add: sample_extraction)

end
