(* ===== verification/Evr_Codec.thy ===== *)
theory Evr_Codec
  imports Party_Wire
begin

section \<open>The game's message codec\<close>

text \<open>
  \<^verbatim>\<open>src/runtime/compat/evr_codec.cpp\<close>: the frames every connection of the bridge and of the Quest router carries,
  the login messages, and the policy of a login. A pointer into a frame is the bytes from it to the end of the frame.
  The lemmas show that reading a frame is exactly the inverse of building one.
\<close>

unbundle bit_operations_syntax

definition header_size :: nat where "header_size = 24"
definition uuid_size :: nat where "uuid_size = 16"
definition login_removed_fixed :: nat where "login_removed_fixed = 0x18"

definition sym_login_request :: u64 where "sym_login_request = 0xbdb41ea9e67b200a"
definition sym_login_success :: u64 where "sym_login_success = 0xa5acc1a90d0cce47"
definition sym_login_failure :: u64 where "sym_login_failure = 0xa5b9d5a3021ccf51"
definition sym_remote_log_set :: u64 where "sym_remote_log_set = 0x244b47685187eae1"
definition sym_login_removed_notify :: u64 where "sym_login_removed_notify = 0x73c0a8cbf5c697ab"
definition sym_friend_list_subscribe :: u64 where "sym_friend_list_subscribe = 0xcdc02fd1dbee3aaa"

definition read_le64 :: "bytes \<Rightarrow> nat \<Rightarrow> u64" where
  "read_le64 p off = foldl (\<lambda>v i. push_bit 8 v OR ucast (p ! (off + i))) 0 (rev [0..<8])"

definition append_le64 :: "bytes \<Rightarrow> u64 \<Rightarrow> bytes" where
  "append_le64 buf v = buf @ map (\<lambda>i. ucast (drop_bit (8 * i) v AND 0xFF)) [0..<8]"

definition append_le32 :: "bytes \<Rightarrow> u32 \<Rightarrow> bytes" where
  "append_le32 buf v = buf @ map (\<lambda>i. ucast (drop_bit (8 * i) v AND 0xFF)) [0..<4]"

subsection \<open>Building\<close>

definition build_message :: "u64 \<Rightarrow> bytes \<Rightarrow> bytes" where
  "build_message symbol payload = append_le64 (append_le64 frame_marker symbol) (word_of_nat (length payload)) @ payload"

definition zeros :: "nat \<Rightarrow> bytes" where
  "zeros n = replicate n 0"

definition build_login_request :: "u64 \<Rightarrow> u64 \<Rightarrow> bytes \<Rightarrow> bytes option" where
  "build_login_request platform account json =
     (if 0 \<in> set json then None
      else Some (build_message sym_login_request (append_le64 (append_le64 (zeros uuid_size) platform) account @ json @ [0])))"

definition build_login_success :: "u64 \<Rightarrow> u64 \<Rightarrow> bytes" where
  "build_login_success platform account =
     build_message sym_login_success (append_le64 (append_le64 (bytes_of ''NEVRSRVR'' @ zeros 8) platform) account)"

definition build_login_failure :: "u64 \<Rightarrow> bytes \<Rightarrow> bytes option" where
  "build_login_failure status text_bytes =
     (if 0 \<in> set text_bytes then None
      else Some (build_message sym_login_failure (append_le64 (zeros uuid_size) status @ text_bytes @ [0])))"

record user_id =
  platform_code :: u64
  account_id :: u64

definition login_removed_swapped :: bool where "login_removed_swapped = False"
definition login_removed_word :: u32 where "login_removed_word = 0"

definition build_login_removed :: "user_id \<Rightarrow> u8 \<Rightarrow> bytes \<Rightarrow> bytes" where
  "build_login_removed user reason json =
     (let p = (if login_removed_swapped then append_le64 (append_le64 [] (account_id user)) (platform_code user)
               else append_le64 (append_le64 [] (platform_code user)) (account_id user));
          p1 = append_le32 p login_removed_word @ [reason];
          p2 = p1 @ zeros (login_removed_fixed - length p1)
      in build_message sym_login_removed_notify (p2 @ json))"

text \<open>The log strings as the game's string table: the offset of each string among the NUL-terminated strings.\<close>

fun log_offsets :: "bytes \<Rightarrow> u32 \<Rightarrow> bytes list \<Rightarrow> bytes" where
  "log_offsets p off [] = p"
| "log_offsets p off (l # ls) = log_offsets (append_le32 p off) (off + word_of_nat (length l + 1)) ls"

fun log_strings :: "bytes \<Rightarrow> bytes list \<Rightarrow> bytes" where
  "log_strings p [] = p"
| "log_strings p (l # ls) = log_strings (p @ l @ [0]) ls"

definition build_remote_log_set :: "user_id \<Rightarrow> u64 \<Rightarrow> bytes list \<Rightarrow> bytes" where
  "build_remote_log_set user level logs =
     (let p = append_le64 (append_le64 [] (platform_code user)) (account_id user);
          p1 = append_le64 (append_le64 (append_le64 (append_le64 p 0) 0) 0) 0;
          p2 = append_le32 (append_le64 p1 level) (word_of_nat (length logs))
      in build_message sym_remote_log_set (log_strings (log_offsets p2 0 logs) logs))"

definition build_friend_list_subscribe :: bytes where
  "build_friend_list_subscribe = build_message sym_friend_list_subscribe (zeros 0x20)"

subsection \<open>Reading\<close>

datatype read_status = ReadOk | ReadEnd | ReadBadMarker | ReadTruncated

record evr_message =
  em_symbol :: u64
  em_length :: u64
  em_payload :: "bytes option"

definition no_message :: evr_message where
  "no_message = \<lparr>em_symbol = 0, em_length = 0, em_payload = None\<rparr>"

definition read_message_at :: "bytes \<Rightarrow> read_status \<times> evr_message" where
  "read_message_at d =
     (if length d < header_size then (ReadEnd, no_message)
      else if take 8 d \<noteq> frame_marker then (ReadBadMarker, no_message)
      else let m = no_message\<lparr>em_symbol := read_le64 d 8, em_length := read_le64 d 16\<rparr>
      in if unat (em_length m) > length d - header_size then (ReadTruncated, m)
      else (ReadOk, m\<lparr>em_payload := Some (drop header_size d)\<rparr>))"

definition read_message :: "bytes \<Rightarrow> nat \<Rightarrow> read_status \<times> evr_message" where
  "read_message frame offset =
     (if offset > length frame then (ReadEnd, no_message) else read_message_at (drop offset frame))"

definition first_symbol :: "bytes \<Rightarrow> u64" where
  "first_symbol frame = (if length frame < header_size then 0 else read_le64 frame 8)"

definition parse_login_success :: "bytes \<Rightarrow> user_id option" where
  "parse_login_success frame = (case read_message frame 0 of (st, m) \<Rightarrow>
     if st \<noteq> ReadOk \<or> em_symbol m \<noteq> sym_login_success \<or> unat (em_length m) < uuid_size + 16 then None
     else case em_payload m of None \<Rightarrow> None
       | Some p \<Rightarrow> Some \<lparr>platform_code = read_le64 p uuid_size, account_id = read_le64 p (uuid_size + 8)\<rparr>)"

record login_failure =
  status_code :: u64
  message_bytes :: nat

definition parse_login_failure :: "bytes \<Rightarrow> login_failure option" where
  "parse_login_failure frame =
     (if length frame < header_size then None
      else let symbol = read_le64 frame 8; n = unat (read_le64 frame 16)
      in if symbol \<noteq> sym_login_failure \<or> n \<le> 24 \<or> n > 2 ^ 64 - 1 - header_size then None
      else if n > length frame - header_size then None
      else Some \<lparr>status_code = read_le64 frame (header_size + 16), message_bytes = n - 24\<rparr>)"

subsection \<open>Login policy\<close>

definition platform_prefix :: "u64 \<Rightarrow> bytes" where
  "platform_prefix pc = bytes_of (if pc = 1 then ''STM'' else if pc = 2 then ''DSC'' else if pc = 3 then ''XBX''
     else if pc = 4 then ''OVR-ORG'' else if pc = 5 then ''OVR'' else if pc = 6 then ''BOT''
     else if pc = 7 then ''DMO'' else ''UNK'')"

definition select_platform_code :: "bool \<Rightarrow> bool \<Rightarrow> u64" where
  "select_platform_code has_url_credentials no_vr = (if no_vr then 7 else 4)"

definition select_remote_bearer :: "bool \<Rightarrow> bytes \<Rightarrow> bytes \<Rightarrow> bytes" where
  "select_remote_bearer has_url_credentials jwt server_key = (if has_url_credentials then server_key else jwt)"

definition is_bearer_replacing_path :: "bytes \<Rightarrow> bool" where
  "is_bearer_replacing_path url =
     (let host = (case find_sub (bytes_of ''://'') url of None \<Rightarrow> 0 | Some k \<Rightarrow> k + 3)
      in case find_ch 0x2F (drop host url) of None \<Rightarrow> False
         | Some k \<Rightarrow> takeWhile (\<lambda>c. c \<noteq> 0x3F \<and> c \<noteq> 0x23) (drop (host + k) url) = bytes_of ''/ws'')"

subsection \<open>A frame is its messages\<close>

lemma append_le64_eq: "append_le64 buf v = buf @ le_bytes v 8"
  by (simp add: append_le64_def le_bytes_def ucast_mask_byte)

lemma read_le64_at: "off = length pre \<Longrightarrow> read_le64 (pre @ le_bytes w 8 @ post) off = w"
  using le_value_8 [of off pre w post] by (simp add: read_le64_def le_value_def)

lemma build_message_eq: "build_message s p = frame_marker @ le_bytes s 8 @ le_bytes (word_of_nat (length p)) 8 @ p"
  by (simp add: build_message_def append_le64_eq)

lemma length_marker [simp]: "length frame_marker = 8"
  by (simp add: frame_marker_def)

lemma length_build_message [simp]: "length (build_message s p) = header_size + length p"
  by (simp add: build_message_eq header_size_def)

lemma read_message_at_build:
  assumes "length p < 2 ^ 64"
  shows "read_message_at (build_message s p @ rest) = (ReadOk, \<lparr>em_symbol = s, em_length = word_of_nat (length p), em_payload = Some (p @ rest)\<rparr>)"
proof -
  have "read_le64 (build_message s p @ rest) 8 = s" "read_le64 (build_message s p @ rest) 16 = word_of_nat (length p)"
    using read_le64_at [of 8 frame_marker s] read_le64_at [of 16 "frame_marker @ le_bytes s 8" "word_of_nat (length p)"]
    by (simp_all add: build_message_eq)
  moreover have "unat (word_of_nat (length p) :: u64) = length p" using assms by (simp add: unat_of_nat)
  ultimately show ?thesis
    by (simp add: read_message_at_def Let_def no_message_def header_size_def) (simp add: build_message_eq)
qed

lemma le_fold_bytes:
  fixes f :: "nat \<Rightarrow> u8"
  defines "g n \<equiv> foldl (\<lambda>v i. push_bit 8 v OR ucast (f i)) (0 :: u64) (rev [0..<n])"
  shows "n \<le> 8 \<Longrightarrow> (\<forall>k. bit (g n) k \<longrightarrow> k < 8 * n) \<and> (\<forall>i<n. ucast (drop_bit (8 * i) (g n)) = f i)"
proof (induction n)
  case 0
  then show ?case by (simp add: g_def)
next
  case (Suc n)
  have g: "g (Suc n) = push_bit (8 * n) (ucast (f n)) OR g n"
    using le_fold [of f "ucast (f n)" n] by (simp add: g_def)
  have low: "bit (g n) k \<Longrightarrow> k < 8 * n" for k using Suc by simp
  have "ucast (drop_bit (8 * i) (g (Suc n))) = f i" if "i < Suc n" for i
  proof (cases "i = n")
    case True
    show ?thesis unfolding True g
      by (rule bit_word_eqI) (use low Suc.prems in \<open>auto simp: bit_simps dest: bit_imp_le_length\<close>)
  next
    case False
    have "ucast (drop_bit (8 * i) (push_bit (8 * n) (ucast (f n) :: u64) OR g n)) = (ucast (drop_bit (8 * i) (g n)) :: u8)"
      by (rule bit_word_eqI) (use that False in \<open>auto simp: bit_simps dest: bit_imp_le_length\<close>)
    then show ?thesis using Suc that False by (simp add: g)
  qed
  moreover have "k < 8 * Suc n" if "bit (g (Suc n)) k" for k
    using that low [of k] unfolding g by (auto simp: bit_simps dest: bit_imp_le_length)
  ultimately show ?case by blast
qed

lemma le_bytes_of_read:
  assumes "off + 8 \<le> length d"
  shows "le_bytes (read_le64 d off) 8 = take 8 (drop off d)"
proof (rule nth_equalityI)
  fix i assume "i < length (le_bytes (read_le64 d off) 8)"
  then have "i < 8" by simp
  then show "le_bytes (read_le64 d off) 8 ! i = take 8 (drop off d) ! i"
    using le_fold_bytes [of 8 "\<lambda>i. d ! (off + i)"] assms by (simp add: le_bytes_def read_le64_def add.commute)
qed (use assms in simp)

lemma read_message_at_Ok:
  assumes "read_message_at d = (ReadOk, m)"
  obtains p rest where "d = build_message (em_symbol m) p @ rest" "em_payload m = Some (p @ rest)"
    "em_length m = word_of_nat (length p)" "length p < 2 ^ 64"
proof -
  from assms have d: "header_size \<le> length d" "take 8 d = frame_marker" "unat (read_le64 d 16) \<le> length d - header_size"
    and m: "m = \<lparr>em_symbol = read_le64 d 8, em_length = read_le64 d 16, em_payload = Some (drop header_size d)\<rparr>"
    by (auto simp: read_message_at_def Let_def no_message_def split: if_splits)
  define n where "n = unat (read_le64 d 16)"
  have l: "length (take n (drop header_size d)) = n" using d by (simp add: n_def)
  have n: "n < 2 ^ 64" unfolding n_def using unsigned_less [of "read_le64 d 16"] by simp
  have "d = take 8 d @ take 8 (drop 8 d) @ take 8 (drop 16 d) @ drop header_size d"
    using append_take_drop_id [of 8 d] append_take_drop_id [of 8 "drop 8 d"] append_take_drop_id [of 8 "drop 16 d"]
    by (simp add: header_size_def)
  moreover have "take n (drop 24 d) @ drop (n + 24) d = drop 24 d" using append_take_drop_id [of n "drop 24 d"] by simp
  ultimately have "d = build_message (em_symbol m) (take n (drop header_size d)) @ drop n (drop header_size d)"
    using d le_bytes_of_read [of 8 d] le_bytes_of_read [of 16 d] l
    by (simp add: build_message_eq m header_size_def n_def)
  moreover have "drop header_size d = take n (drop header_size d) @ drop n (drop header_size d)"
    by (simp only: append_take_drop_id)
  ultimately show thesis
    using that [of "take n (drop header_size d)" "drop n (drop header_size d)"] l n by (simp add: m n_def del: append_take_drop_id drop_drop)
qed

text \<open>The walk over a frame: the messages, and the status that stops it.\<close>

function read_messages :: "bytes \<Rightarrow> nat \<Rightarrow> (u64 \<times> bytes) list \<times> read_status" where
  "read_messages frame offset = (case read_message frame offset of (st, m) \<Rightarrow>
     if st \<noteq> ReadOk then ([], st)
     else case em_payload m of None \<Rightarrow> ([], st)
       | Some p \<Rightarrow> (let n = unat (em_length m); (ms, st2) = read_messages frame (offset + header_size + n)
           in ((em_symbol m, take n p) # ms, st2)))"
  by pat_completeness auto
termination
  by (relation "measure (\<lambda>(frame, offset). length frame - offset)")
    (auto simp: read_message_def read_message_at_def header_size_def Let_def split: if_splits)

declare read_messages.simps [simp del]

abbreviation build_messages :: "(u64 \<times> bytes) list \<Rightarrow> bytes" where
  "build_messages ms \<equiv> concat (map (\<lambda>(s, p). build_message s p) ms)"

lemma read_message_append: "read_message (pre @ d) (length pre) = read_message_at d"
  by (simp add: read_message_def)

lemma read_messages_build:
  "(\<forall>(s, p)\<in>set ms. length p < 2 ^ 64) \<Longrightarrow> read_messages (pre @ build_messages ms @ rest) (length pre)
     = (case read_messages (pre @ build_messages ms @ rest) (length (pre @ build_messages ms)) of (ms1, st) \<Rightarrow> (ms @ ms1, st))"
proof (induction ms arbitrary: pre)
  case (Cons m ms)
  obtain s p where m: "m = (s, p)" by fastforce
  have l: "length p < 2 ^ 64" using Cons.prems m by simp
  then have u: "unat (word_of_nat (length p) :: u64) = length p" by (simp add: unat_of_nat)
  let ?f = "pre @ build_messages (m # ms) @ rest"
  have f: "?f = (pre @ build_message s p) @ build_messages ms @ rest" by (simp add: m)
  have "read_message ?f (length pre) = (ReadOk, \<lparr>em_symbol = s, em_length = word_of_nat (length p), em_payload = Some (p @ build_messages ms @ rest)\<rparr>)"
    using read_message_append [of pre] read_message_at_build [OF l, of s "build_messages ms @ rest"] by (simp add: m)
  moreover have "read_messages ?f (length pre + header_size + length p)
    = (case read_messages ?f (length (pre @ build_messages (m # ms))) of (ms1, st) \<Rightarrow> (ms @ ms1, st))"
    using Cons.IH [of "pre @ build_message s p"] Cons.prems by (simp add: m ac_simps)
  ultimately show ?case
    by (subst read_messages.simps) (simp add: u Let_def m split: prod.splits)
qed (simp split: prod.splits)

text \<open>What stops the walk at \<open>rest\<close>.\<close>

definition stops_at :: "bytes \<Rightarrow> read_status \<Rightarrow> bool" where
  "stops_at rest st \<longleftrightarrow> st \<noteq> ReadOk \<and> fst (read_message_at rest) = st"

lemma read_messages_sound:
  "read_messages frame offset = (ms, st) \<Longrightarrow> offset \<le> length frame \<Longrightarrow>
    \<exists>rest. drop offset frame = build_messages ms @ rest \<and> stops_at rest st \<and> (\<forall>(s, p)\<in>set ms. length p < 2 ^ 64)"
proof (induction "length frame - offset" arbitrary: offset ms rule: less_induct)
  case less
  let ?d = "drop offset frame"
  have r: "read_message frame offset = read_message_at ?d" using less.prems(2) by (simp add: read_message_def)
  obtain st1 m where m: "read_message_at ?d = (st1, m)" by fastforce
  show ?case
  proof (cases "st1 = ReadOk")
    case False
    with less.prems(1) have "ms = []" "st = st1" by (simp_all add: read_messages.simps [of frame offset] r m)
    with False m show ?thesis by (auto simp: stops_at_def)
  next
    case True
    from read_message_at_Ok [OF m [unfolded True]] obtain p rest where p: "?d = build_message (em_symbol m) p @ rest"
      "em_payload m = Some (p @ rest)" "em_length m = word_of_nat (length p)" "length p < 2 ^ 64" .
    have n: "unat (em_length m) = length p" using p(3,4) by (simp add: unat_of_nat)
    obtain ms2 st2 where rec: "read_messages frame (offset + header_size + length p) = (ms2, st2)" by fastforce
    with less.prems(1) True m r p(2) n have ms: "ms = (em_symbol m, p) # ms2" "st = st2"
      by (simp_all add: read_messages.simps [of frame offset] Let_def)
    have len: "offset + header_size + length p \<le> length frame"
      using arg_cong [OF p(1), of length] less.prems(2) by simp
    have "drop (offset + header_size + length p) frame = drop (header_size + length p) ?d" by (simp add: ac_simps)
    also have "\<dots> = rest" by (simp add: p(1))
    finally have d: "drop (offset + header_size + length p) frame = rest" .
    have "length frame - (offset + header_size + length p) < length frame - offset" using len by (simp add: header_size_def)
    from less.hyps [OF this rec [folded ms(2)] len] d
    obtain rest2 where "rest = build_messages ms2 @ rest2" "stops_at rest2 st" "\<forall>(s, p)\<in>set ms2. length p < 2 ^ 64"
      by auto
    with p(1,4) ms(1) show ?thesis by auto
  qed
qed

text \<open>C10: Reading a frame is the inverse of building one: the walk over any frame gives messages and a status exactly when
  the frame is those messages as they are built, one after another, and then bytes that stop the reader with that status.\<close>

theorem frame_is_its_messages:
  "read_messages frame 0 = (ms, st) \<longleftrightarrow>
     (\<exists>rest. frame = build_messages ms @ rest \<and> stops_at rest st \<and> list_all (\<lambda>(s, p). length p < 2 ^ 64) ms)"
proof
  assume "read_messages frame 0 = (ms, st)"
  from read_messages_sound [OF this] show "\<exists>rest. frame = build_messages ms @ rest \<and> stops_at rest st
      \<and> list_all (\<lambda>(s, p). length p < 2 ^ 64) ms"
    by (simp add: list_all_iff)
next
  assume "\<exists>rest. frame = build_messages ms @ rest \<and> stops_at rest st \<and> list_all (\<lambda>(s, p). length p < 2 ^ 64) ms"
  then obtain rest where r: "frame = [] @ build_messages ms @ rest" "stops_at rest st" "\<forall>(s, p)\<in>set ms. length p < 2 ^ 64"
    by (auto simp: list_all_iff)
  have "read_messages frame (length (build_messages ms)) = ([], st)"
    using r(2) by (subst read_messages.simps) (auto simp: r(1) read_message_append stops_at_def split: prod.splits)
  then show "read_messages frame 0 = (ms, st)" using read_messages_build [OF r(3), of "[]" rest] r(1) by simp
qed


subsection \<open>Login answers\<close>

lemma read_first_build:
  "length p < 2 ^ 64 \<Longrightarrow> read_message (build_message s p @ rest) 0
     = (ReadOk, \<lparr>em_symbol = s, em_length = word_of_nat (length p), em_payload = Some (p @ rest)\<rparr>)"
  by (simp add: read_message_def read_message_at_build)

text \<open>A login success that is built names the account it was built for, and a login failure gives back its status and the
  length of its text, terminator included; what follows in the frame does not matter.\<close>

theorem login_answers_read_back:
  assumes "build_login_failure status t = Some f" and "length t + 100 < 2 ^ 64"
  shows "parse_login_success (build_login_success platform account @ rest) = Some \<lparr>platform_code = platform, account_id = account\<rparr>
    \<and> parse_login_failure (f @ rest) = Some \<lparr>status_code = status, message_bytes = length t + 1\<rparr>"
proof
  let ?p = "append_le64 (append_le64 (bytes_of ''NEVRSRVR'' @ zeros 8) platform) account"
  have p: "?p = (bytes_of ''NEVRSRVR'' @ zeros 8) @ le_bytes platform 8 @ le_bytes account 8" by (simp add: append_le64_eq)
  then have l: "length ?p = 32" by (simp add: zeros_def)
  have "read_le64 (?p @ rest) 16 = platform" "read_le64 (?p @ rest) 24 = account"
    using read_le64_at [of 16 "bytes_of ''NEVRSRVR'' @ zeros 8" platform "le_bytes account 8 @ rest"]
      read_le64_at [of 24 "(bytes_of ''NEVRSRVR'' @ zeros 8) @ le_bytes platform 8" account rest]
    unfolding p by (simp_all add: zeros_def)
  then show "parse_login_success (build_login_success platform account @ rest) = Some \<lparr>platform_code = platform, account_id = account\<rparr>"
    using read_first_build [of ?p sym_login_success rest] l
    by (simp add: parse_login_success_def build_login_success_def uuid_size_def)
next
  let ?p = "zeros 16 @ le_bytes status 8 @ t @ [0]"
  have f: "f = build_message sym_login_failure ?p"
    using assms(1) by (auto simp: build_login_failure_def append_le64_eq uuid_size_def split: if_splits)
  have l: "length ?p = 25 + length t" by (simp add: zeros_def)
  have "f @ rest = frame_marker @ le_bytes sym_login_failure 8 @ le_bytes (word_of_nat (length ?p)) 8 @ ?p @ rest"
    by (simp add: f build_message_eq)
  moreover have fl: "length f = 49 + length t" by (simp add: f header_size_def zeros_def)
  ultimately have r: "read_le64 (f @ rest) 8 = sym_login_failure" "read_le64 (f @ rest) 16 = word_of_nat (length ?p)"
    "read_le64 (f @ rest) 40 = status"
    using read_le64_at [of 8 frame_marker sym_login_failure] read_le64_at [of 16 "frame_marker @ le_bytes sym_login_failure 8" "word_of_nat (length ?p)"]
      read_le64_at [of 40 "frame_marker @ le_bytes sym_login_failure 8 @ le_bytes (word_of_nat (length ?p)) 8 @ zeros 16" status]
    by (simp_all add: zeros_def)
  have "unat (word_of_nat (25 + length t) :: u64) = 25 + length t"
    unfolding unat_of_nat using assms(2) by simp
  then show "parse_login_failure (f @ rest) = Some \<lparr>status_code = status, message_bytes = length t + 1\<rparr>"
    using assms(2) fl l by (simp add: parse_login_failure_def r Let_def header_size_def)
qed

lemma login_answers_read_back_witness:
  "parse_login_success (build_login_success 4 7 @ []) = Some \<lparr>platform_code = 4, account_id = 7\<rparr>
    \<and> parse_login_failure (build_message sym_login_failure (append_le64 (zeros uuid_size) 401 @ [0x6E, 0x6F] @ [0]) @ [])
      = Some \<lparr>status_code = 401, message_bytes = length [0x6E :: u8, 0x6F] + 1\<rparr>"
  by (rule login_answers_read_back) (simp_all add: build_login_failure_def)

end
