(* ===== verification/Evr_Config.thy ===== *)
theory Evr_Config
  imports Evr_Codec
begin

section \<open>Config requests and their replies\<close>

text \<open>
  The second half of \<^verbatim>\<open>src/runtime/compat/evr_codec.cpp\<close>: the symbol of a resource name, the JSON scanner that reads two
  string fields as the service's decoder fills them, and the keys that match a config reply to its request. A cursor is the
  bytes from it to the end of the text; a scanner that fails is \<open>None\<close>, for no caller goes on after a failure.
\<close>

unbundle bit_operations_syntax

subsection \<open>Symbols\<close>

definition csymbol_polynomial :: u64 where "csymbol_polynomial = 0x95ac9329ac4bc9b5"
definition csymbol_seed :: u64 where "csymbol_seed = 0xFFFFFFFFFFFFFFFF"

definition csymbol_entry :: "u32 \<Rightarrow> u64" where
  "csymbol_entry i =
     (let crc = (if i AND 0x80 \<noteq> 0 then 0x2b5926535897936a else 0);
          crc = (if i AND 0x40 \<noteq> 0 \<and> i AND 0x80 = 0 then 0x95ac9329ac4bc9b5
                 else if i AND 0x40 \<noteq> 0 \<and> i AND 0x80 \<noteq> 0 then 0xbef5b57af4dc5adf else crc);
          crc = foldl (\<lambda>c b. let c2 = c * 2 in if i AND b \<noteq> 0 then c2 XOR csymbol_polynomial else c2) crc
            [0x20, 0x10, 0x08, 0x04, 0x02, 0x01]
      in crc * 2)"

definition csymbol_table :: "u64 list" where
  "csymbol_table = map (\<lambda>i. csymbol_entry (word_of_nat i)) [0..<256]"

definition csymbol_step :: "u64 \<Rightarrow> u8 \<Rightarrow> u64" where
  "csymbol_step hash b =
     (let c = (if b - 0x41 \<le> 25 then b + 32 else b)
      in (ucast (c XOR 0x80) - 0x80) XOR csymbol_table ! unat (drop_bit 56 hash AND 0xFF) XOR push_bit 8 hash)"

definition csymbol64_hash :: "bytes \<Rightarrow> u64 \<Rightarrow> u64" where
  "csymbol64_hash str seed = foldl csymbol_step seed (takeWhile (\<lambda>c. c \<noteq> 0) str)"

definition hex_digit_value :: "u8 \<Rightarrow> nat option" where
  "hex_digit_value c =
     (if 0x30 \<le> c \<and> c \<le> 0x39 then Some (unat (c - 0x30))
      else if 0x61 \<le> c \<and> c \<le> 0x66 then Some (unat (c - 0x61) + 10)
      else if 0x41 \<le> c \<and> c \<le> 0x46 then Some (unat (c - 0x41) + 10) else None)"

fun hex_value :: "bytes \<Rightarrow> nat \<Rightarrow> nat option" where
  "hex_value [] v = Some v"
| "hex_value (c # cs) v = (case hex_digit_value c of None \<Rightarrow> None | Some d \<Rightarrow> hex_value cs (16 * v + d))"

definition config_symbol :: "bytes \<Rightarrow> u64" where
  "config_symbol s =
     (if s = [] then 0
      else case (if length s = 18 \<and> s ! 0 = 0x30 \<and> s ! 1 = 0x78 then hex_value (drop 2 s) 0 else None) of
          Some v \<Rightarrow> word_of_nat v
        | None \<Rightarrow> foldl csymbol_step csymbol_seed s)"

subsection \<open>The JSON scanner\<close>

definition quote_ch :: u8 where "quote_ch = 0x22"
definition escape_ch :: u8 where "escape_ch = 0x5C"
definition open_brace :: u8 where "open_brace = 0x7B"
definition close_brace :: u8 where "close_brace = 0x7D"
definition open_bracket :: u8 where "open_bracket = 0x5B"
definition close_bracket :: u8 where "close_bracket = 0x5D"
definition comma_ch :: u8 where "comma_ch = 0x2C"
definition colon_ch :: u8 where "colon_ch = 0x3A"

definition skip_space :: "bytes \<Rightarrow> bytes" where
  "skip_space s = dropWhile (\<lambda>c. c = 0x20 \<or> c = 0x09 \<or> c = 0x0A \<or> c = 0x0D) s"

definition append_utf8 :: "bytes \<Rightarrow> u32 \<Rightarrow> bytes" where
  "append_utf8 out cp =
     (if cp < 0x80 then out @ [ucast cp]
      else if cp < 0x800 then out @ [ucast (0xC0 OR drop_bit 6 cp), ucast (0x80 OR (cp AND 0x3F))]
      else if cp < 0x10000 then out @ [ucast (0xE0 OR drop_bit 12 cp), ucast (0x80 OR (drop_bit 6 cp AND 0x3F)), ucast (0x80 OR (cp AND 0x3F))]
      else out @ [ucast (0xF0 OR drop_bit 18 cp), ucast (0x80 OR (drop_bit 12 cp AND 0x3F)),
        ucast (0x80 OR (drop_bit 6 cp AND 0x3F)), ucast (0x80 OR (cp AND 0x3F))])"

definition read_hex4 :: "bytes \<Rightarrow> u32 option" where
  "read_hex4 s = (if length s < 4 then None else map_option word_of_nat (hex_value (take 4 s) 0))"

definition utf8_continues :: "nat \<Rightarrow> u32 \<Rightarrow> bytes \<Rightarrow> u32 option" where
  "utf8_continues n lead s = foldl (\<lambda>r i. case r of None \<Rightarrow> None | Some cp \<Rightarrow>
     (let b = s ! i in if b AND 0xC0 \<noteq> 0x80 then None else Some (push_bit 6 cp OR ucast (b AND 0x3F)))) (Some lead) [1..<n]"

definition utf8_length :: "bytes \<Rightarrow> nat" where
  "utf8_length s =
     (let b0 = s ! 0
      in if b0 < 0x80 then 1
      else case (if 0xC2 \<le> b0 \<and> b0 \<le> 0xDF then Some (2, ucast (b0 AND 0x1F))
                 else if 0xE0 \<le> b0 \<and> b0 \<le> 0xEF then Some (3, ucast (b0 AND 0x0F))
                 else if 0xF0 \<le> b0 \<and> b0 \<le> 0xF4 then Some (4, ucast (b0 AND 0x07)) else None) of
          None \<Rightarrow> 0
        | Some (n, lead) \<Rightarrow>
            if length s < n then 0
            else case utf8_continues n lead s of None \<Rightarrow> 0 | Some cp \<Rightarrow>
              if n = 3 \<and> (cp < 0x800 \<or> 0xD800 \<le> cp \<and> cp \<le> 0xDFFF) then 0
              else if n = 4 \<and> (cp < 0x10000 \<or> cp > 0x10FFFF) then 0 else n)"

text \<open>After \<^verbatim>\<open>\u\<close>: the code point, with the low half of a surrogate pair, and the rest.\<close>

definition read_unicode :: "bytes \<Rightarrow> (u32 \<times> bytes) option" where
  "read_unicode s = (case read_hex4 s of None \<Rightarrow> None | Some cp \<Rightarrow>
     let t = drop 4 s
     in if 0xD800 \<le> cp \<and> cp < 0xDC00 then
          (case (if length t \<ge> 6 \<and> t ! 0 = escape_ch \<and> t ! 1 = 0x75 then read_hex4 (drop 2 t) else None) of
             Some low \<Rightarrow> if 0xDC00 \<le> low \<and> low < 0xE000
                then Some (0x10000 + push_bit 10 (cp - 0xD800) + (low - 0xDC00), drop 6 t) else Some (0xFFFD, t)
           | None \<Rightarrow> Some (0xFFFD, t))
        else Some (if 0xDC00 \<le> cp \<and> cp < 0xE000 then 0xFFFD else cp, t))"

definition simple_escape :: "u8 \<Rightarrow> u8 option" where
  "simple_escape e = map_of [(0x22, 0x22), (0x5C, 0x5C), (0x2F, 0x2F), (0x62, 0x08), (0x66, 0x0C), (0x6E, 0x0A), (0x72, 0x0D), (0x74, 0x09)] e"

lemma read_unicode_shorter: "read_unicode s = Some (cp, t) \<Longrightarrow> length t \<le> length s"
  by (auto simp: read_unicode_def Let_def split: option.splits if_splits)

text \<open>Inside a string: one turn of the loop, which ends the string or decodes a piece of it.\<close>

datatype json_piece = JsonEnd bytes | JsonPiece bytes bytes

definition escape_piece :: "bytes \<Rightarrow> json_piece option" where
  "escape_piece t = (case t of [] \<Rightarrow> None | e # u \<Rightarrow>
     (case simple_escape e of
        Some c \<Rightarrow> Some (JsonPiece [c] u)
      | None \<Rightarrow> if e \<noteq> 0x75 then None else map_option (\<lambda>(cp, v). JsonPiece (append_utf8 [] cp) v) (read_unicode u)))"

definition string_piece :: "bytes \<Rightarrow> json_piece option" where
  "string_piece s = (case s of [] \<Rightarrow> None | ch # t \<Rightarrow>
     if ch = quote_ch then Some (JsonEnd t)
     else if ch < 0x20 then None
     else if ch = escape_ch then escape_piece t
     else if ch < 0x80 then Some (JsonPiece [ch] t)
     else let n = utf8_length s in if n = 0 then Some (JsonPiece (append_utf8 [] 0xFFFD) t) else Some (JsonPiece (take n s) (drop n s)))"

lemma string_piece_shorter:
  "string_piece s = Some (JsonEnd t) \<Longrightarrow> length t < length s"
  "string_piece s = Some (JsonPiece b t) \<Longrightarrow> length t < length s"
  by (auto simp: string_piece_def escape_piece_def Let_def split: list.splits if_splits option.splits dest!: read_unicode_shorter)

function json_string_body :: "bytes \<Rightarrow> bytes \<Rightarrow> (bytes \<times> bytes) option" where
  "json_string_body out s = (case string_piece s of
      None \<Rightarrow> None
    | Some (JsonEnd t) \<Rightarrow> Some (out, t)
    | Some (JsonPiece b t) \<Rightarrow> json_string_body (out @ b) t)"
  by pat_completeness auto
termination
  by (relation "measure (\<lambda>(out, s). length s)") (auto dest: string_piece_shorter)

declare json_string_body.simps [simp del]

definition parse_json_string :: "bytes \<Rightarrow> (bytes \<times> bytes) option" where
  "parse_json_string s = (case s of [] \<Rightarrow> None | c # t \<Rightarrow> if c \<noteq> quote_ch then None else json_string_body [] t)"

text \<open>A key of an object and its colon.\<close>

definition read_key :: "bytes \<Rightarrow> (bytes \<times> bytes) option" where
  "read_key s = (case parse_json_string (skip_space s) of None \<Rightarrow> None | Some (key, t) \<Rightarrow>
     (case skip_space t of [] \<Rightarrow> None | c # u \<Rightarrow> if c \<noteq> colon_ch then None else Some (key, u)))"

definition scalar_ch :: "u8 \<Rightarrow> bool" where
  "scalar_ch c \<longleftrightarrow> 0x30 \<le> c \<and> c \<le> 0x39 \<or> 0x41 \<le> c \<and> c \<le> 0x5A \<or> 0x61 \<le> c \<and> c \<le> 0x7A \<or> c = 0x2D \<or> c = 0x2B \<or> c = 0x2E"

lemma json_string_shorter: "json_string_body out s = Some (res, r) \<Longrightarrow> length r < length s"
proof (induction out s rule: json_string_body.induct)
  case (1 out s)
  from "1.prems" show ?case
    unfolding json_string_body.simps [of out s]
    by (auto split: option.split_asm json_piece.split_asm dest: string_piece_shorter "1.IH" intro: less_trans)
qed

lemma skip_space_shorter: "length (skip_space s) \<le> length s"
  by (simp add: skip_space_def length_dropWhile_le)

lemma skip_space_Cons: "skip_space s = c # t \<Longrightarrow> length t < length s"
  using skip_space_shorter [of s] by simp

lemma parse_string_shorter: "parse_json_string s = Some (res, r) \<Longrightarrow> length r < length s"
  by (auto simp: parse_json_string_def split: list.splits if_splits dest: json_string_shorter)

lemma read_key_shorter: "read_key s = Some (k, r) \<Longrightarrow> length r < length s"
proof -
  assume "read_key s = Some (k, r)"
  then obtain t where t: "parse_json_string (skip_space s) = Some (k, t)" "skip_space t = colon_ch # r"
    by (auto simp: read_key_def split: option.splits list.splits if_splits)
  from parse_string_shorter [OF t(1)] skip_space_shorter [of t] skip_space_shorter [of s] t(2) show ?thesis by simp
qed

definition before_value :: "bool \<Rightarrow> bytes \<Rightarrow> bytes option" where
  "before_value obj s = (if obj then map_option snd (read_key s) else Some s)"

lemma before_value_shorter: "before_value obj s = Some r \<Longrightarrow> length r \<le> length s"
  by (auto simp: before_value_def split: if_splits dest: read_key_shorter)

function skip_json_value :: "nat \<Rightarrow> bytes \<Rightarrow> bytes option"
  and skip_json_members :: "bool \<Rightarrow> nat \<Rightarrow> bytes \<Rightarrow> bytes option" where
  "skip_json_value depth s =
     (if depth > 32 then None
      else case skip_space s of [] \<Rightarrow> None | ch # t \<Rightarrow>
        if ch = quote_ch then map_option snd (parse_json_string (ch # t))
        else if ch = open_brace \<or> ch = open_bracket then
          (case skip_space t of [] \<Rightarrow> None | c # u \<Rightarrow>
             if c = (if ch = open_brace then close_brace else close_bracket) then Some u
             else skip_json_members (ch = open_brace) depth (c # u))
        else let r = dropWhile scalar_ch (ch # t) in if r = ch # t then None else Some r)"
| "skip_json_members obj depth s =
     (case before_value obj s of None \<Rightarrow> None | Some s1 \<Rightarrow>
      (case skip_json_value (depth + 1) s1 of None \<Rightarrow> None | Some s2 \<Rightarrow>
       (case skip_space s2 of [] \<Rightarrow> None | c # s3 \<Rightarrow>
          if c = comma_ch then skip_json_members obj depth s3
          else if c = (if obj then close_brace else close_bracket) then Some s3 else None)))"
  by pat_completeness auto


lemma skip_json_shorter:
  "skip_json_value_skip_json_members_dom (Inl (depth, s)) \<Longrightarrow> skip_json_value depth s = Some r \<Longrightarrow> length r < length s"
  "skip_json_value_skip_json_members_dom (Inr (obj, depth1, s1)) \<Longrightarrow> skip_json_members obj depth1 s1 = Some r1 \<Longrightarrow> length r1 < length s1"
proof (induction depth s and obj depth1 s1 arbitrary: r and r1 rule: skip_json_value_skip_json_members.pinduct)
  case (1 depth s)
  obtain ch t where t: "skip_space s = ch # t" "depth \<le> 32"
    using "1.prems" by (auto simp: skip_json_value.psimps [OF "1.hyps"] split: if_splits list.splits)
  note shorter = skip_space_Cons [OF t(1)]
  consider (str) "ch = quote_ch" | (group) "ch \<noteq> quote_ch" "ch = open_brace \<or> ch = open_bracket"
    | (scalar) "ch \<noteq> quote_ch" "\<not> (ch = open_brace \<or> ch = open_bracket)" by blast
  then show ?case
  proof cases
    case str
    then have "map_option snd (parse_json_string (ch # t)) = Some r"
      using "1.prems" t by (simp add: skip_json_value.psimps [OF "1.hyps"])
    then obtain res where "parse_json_string (ch # t) = Some (res, r)" by auto
    from parse_string_shorter [OF this] shorter show ?thesis by simp
  next
    case group
    then obtain c u where u: "skip_space t = c # u" using "1.prems" t
      by (auto simp: skip_json_value.psimps [OF "1.hyps"] split: list.splits)
    note su = skip_space_Cons [OF u]
    show ?thesis
    proof (cases "c = (if ch = open_brace then close_brace else close_bracket)")
      case True
      then have "r = u" using "1.prems" t u group by (simp add: skip_json_value.psimps [OF "1.hyps"])
      with su shorter show ?thesis by simp
    next
      case False
      then have "skip_json_members (ch = open_brace) depth (c # u) = Some r"
        using "1.prems" t u group by (simp add: skip_json_value.psimps [OF "1.hyps"])
      from "1.IH" [OF _ t(1) group(1) group(2) u False this] t(2) su shorter show ?thesis by simp
    qed
  next
    case scalar
    then have "r = dropWhile scalar_ch (ch # t)" "r \<noteq> ch # t"
      using "1.prems" t by (auto simp: skip_json_value.psimps [OF "1.hyps"] Let_def split: if_splits)
    then have "length r < length (ch # t)"
      by (metis length_dropWhile_le dropWhile_eq_self_iff dropWhile.simps(2) le_imp_less_Suc length_Cons)
    with shorter show ?thesis by simp
  qed
next
  case (2 obj depth s)
  obtain s1 s2 c s3 where s: "before_value obj s = Some s1" "skip_json_value (depth + 1) s1 = Some s2" "skip_space s2 = c # s3"
    using "2.prems" by (auto simp: skip_json_members.psimps [OF "2.hyps"] split: option.splits list.splits)
  have l: "length s2 < length s1" "length s1 \<le> length s" "length s3 < length s2"
    using "2.IH"(1) [OF s(1,2)] before_value_shorter [OF s(1)] skip_space_Cons [OF s(3)] by simp_all
  show ?case
  proof (cases "c = comma_ch")
    case True
    then have "skip_json_members obj depth s3 = Some r1" using "2.prems" s by (simp add: skip_json_members.psimps [OF "2.hyps"])
    from "2.IH"(2) [OF s True this] l show ?thesis by simp
  next
    case False
    then have "r1 = s3" using "2.prems" s by (auto simp: skip_json_members.psimps [OF "2.hyps"] split: if_splits)
    with l show ?thesis by simp
  qed
qed

lemma skip_json_dom: "All skip_json_value_skip_json_members_dom"
  by (relation "measure (\<lambda>x. case x of Inl (depth, s) \<Rightarrow> 2 * length s | Inr (obj, depth, s) \<Rightarrow> 2 * length s + 1)")
    (auto dest!: skip_json_shorter(1) skip_space_Cons before_value_shorter)

termination skip_json_value
  by (rule skip_json_dom)


declare skip_json_value.simps [simp del] skip_json_members.simps [simp del]

definition fold_byte :: "u8 \<Rightarrow> u8" where
  "fold_byte c = (if 0x41 \<le> c \<and> c \<le> 0x5A then c + 32 else c)"

definition fold_equal :: "bytes \<Rightarrow> bytes \<Rightarrow> bool" where
  "fold_equal a b \<longleftrightarrow> length a = length b \<and> map fold_byte a = map fold_byte b"

text \<open>The value of a named field: a string, or null, which leaves the field as it was.\<close>

definition read_field :: "bytes \<Rightarrow> bytes \<Rightarrow> (bytes \<times> bytes) option" where
  "read_field old s =
     (if s \<noteq> [] \<and> hd s = quote_ch then parse_json_string s
      else if length s \<ge> 4 \<and> take 4 s = bytes_of ''null'' then Some (old, drop 4 s) else None)"

definition read_member :: "bytes \<Rightarrow> bytes \<Rightarrow> bytes \<times> bytes \<Rightarrow> bytes \<Rightarrow> ((bytes \<times> bytes) \<times> bytes) option" where
  "read_member first second ab s = (case read_key s of None \<Rightarrow> None | Some (key, t) \<Rightarrow>
     let u = skip_space t
     in if fold_equal key first then map_option (\<lambda>(v, r). ((v, snd ab), r)) (read_field (fst ab) u)
     else if fold_equal key second then map_option (\<lambda>(v, r). ((fst ab, v), r)) (read_field (snd ab) u)
     else map_option (\<lambda>r. (ab, r)) (skip_json_value 0 u))"

lemma read_member_shorter:
  assumes "read_member first second ab s = Some (ab1, r)"
  shows "length r \<le> length s"
proof -
  have f: "length v \<le> length u" if "read_field old u = Some (x, v)" for old u x v
    using that by (auto simp: read_field_def split: if_splits dest: parse_string_shorter)
  from assms obtain key t where k: "read_key s = Some (key, t)" by (auto simp: read_member_def split: option.splits)
  have "length r \<le> length (skip_space t)"
    using assms k skip_json_shorter(1) [OF skip_json_dom [rule_format]]
    by (auto simp: read_member_def Let_def split: if_splits dest: f less_imp_le)
  with read_key_shorter [OF k] skip_space_shorter [of t] show ?thesis by simp
qed

function read_members :: "bytes \<Rightarrow> bytes \<Rightarrow> bytes \<times> bytes \<Rightarrow> bytes \<Rightarrow> (bytes \<times> bytes) option" where
  "read_members first second ab s = (case read_member first second ab s of
      None \<Rightarrow> None
    | Some (ab1, t) \<Rightarrow> (case skip_space t of [] \<Rightarrow> None | c # u \<Rightarrow>
        if c = comma_ch then read_members first second ab1 u
        else if c = close_brace then Some ab1 else None))"
  by pat_completeness auto
termination
  by (relation "measure (\<lambda>(first, second, ab, s). length s)") (auto dest!: read_member_shorter skip_space_Cons)

declare read_members.simps [simp del]

definition extract_string_fields :: "bytes \<Rightarrow> bytes \<Rightarrow> bytes \<Rightarrow> (bytes \<times> bytes) option" where
  "extract_string_fields json first second = (case skip_space json of [] \<Rightarrow> None | c # t \<Rightarrow>
     if c \<noteq> open_brace then None
     else let u = skip_space t
     in if u \<noteq> [] \<and> hd u = close_brace then Some ([], []) else read_members first second ([], []) u)"

subsection \<open>Keys\<close>

record config_key =
  ck_type :: u64
  ck_id :: u64

definition sym_config_success :: u64 where "sym_config_success = 0xb9cdaf586f7bd012"
definition sym_config_failure :: u64 where "sym_config_failure = 0x9e687a63dddd3870"

definition key_of_names :: "bytes \<times> bytes \<Rightarrow> config_key" where
  "key_of_names ab = \<lparr>ck_type = config_symbol (fst ab), ck_id = config_symbol (snd ab)\<rparr>"

definition parse_config_request_key :: "bytes \<Rightarrow> config_key option" where
  "parse_config_request_key payload =
     (if payload = [] then None
      else case (if hd payload = open_brace then extract_string_fields payload (bytes_of ''type'') (bytes_of ''id'') else None) of
          Some ab \<Rightarrow> Some (key_of_names ab)
        | None \<Rightarrow> map_option key_of_names (extract_string_fields (tl payload) (bytes_of ''type'') (bytes_of ''id'')))"

definition parse_config_reply_key :: "u64 \<Rightarrow> bytes \<Rightarrow> config_key option" where
  "parse_config_reply_key symbol payload =
     (if length payload < 16 then None
      else if symbol = sym_config_success then Some \<lparr>ck_type = read_le64 payload 0, ck_id = read_le64 payload 8\<rparr>
      else if symbol = sym_config_failure
        then map_option key_of_names (extract_string_fields (drop 16 payload) (bytes_of ''type'') (bytes_of ''identifier''))
      else None)"


subsection \<open>Names written as JSON are read back\<close>

definition hex_char :: "nat \<Rightarrow> u8" where
  "hex_char n = (if n < 10 then 0x30 + of_nat n else 0x57 + of_nat n)"

text \<open>A byte of a name in a JSON string: quotes and backslashes escaped, control characters as \<^verbatim>\<open>\u00XX\<close>.\<close>

definition json_char :: "u8 \<Rightarrow> bytes" where
  "json_char c =
     (if c = quote_ch \<or> c = escape_ch then [escape_ch, c]
      else if c < 0x20 then [escape_ch, 0x75, 0x30, 0x30, hex_char (unat c div 16), hex_char (unat c mod 16)]
      else [c])"

definition json_quote :: "bytes \<Rightarrow> bytes" where
  "json_quote s = quote_ch # concat (map json_char s) @ [quote_ch]"

lemma hex_char_value: "n < 16 \<Longrightarrow> hex_digit_value (hex_char n) = Some n"
proof -
  assume "n < 16"
  then have "n \<in> set [0..<16]" by simp
  moreover have "\<forall>n\<in>set [0..<16]. hex_digit_value (hex_char n) = Some n" by code_simp
  ultimately show ?thesis by blast
qed

lemma unicode_escape_char:
  assumes "(c :: u8) < 0x20"
  shows "read_unicode (0x30 # 0x30 # hex_char (unat c div 16) # hex_char (unat c mod 16) # rest) = Some (ucast c, rest)"
proof -
  have c: "unat c < 32" using assms by (simp add: word_less_nat_alt)
  then have h: "hex_digit_value (hex_char (unat c div 16)) = Some (unat c div 16)"
    "hex_digit_value (hex_char (unat c mod 16)) = Some (unat c mod 16)" by (simp_all add: hex_char_value)
  have z: "hex_digit_value 0x30 = Some 0" by (simp add: hex_digit_value_def)
  have v: "hex_value [0x30, 0x30, hex_char (unat c div 16), hex_char (unat c mod 16)] 0 = Some (unat c)"
    by (simp add: h z)
  have w: "(word_of_nat (unat c) :: u32) = ucast c" by simp
  have s: "\<not> 0xD800 \<le> (ucast c :: u32)" "\<not> 0xDC00 \<le> (ucast c :: u32)"
    using c by (simp_all add: word_le_nat_alt unat_ucast_u8_u32)
  have "read_hex4 (0x30 # 0x30 # hex_char (unat c div 16) # hex_char (unat c mod 16) # rest) = Some (ucast c)"
    using v by (simp add: read_hex4_def w del: hex_value.simps)
  then show ?thesis by (simp add: read_unicode_def s Let_def)
qed

lemma string_piece_char:
  assumes "c < 0x80"
  shows "string_piece (json_char c @ rest) = Some (JsonPiece [c] rest)"
proof (cases "c < 0x20")
  case True
  then have c: "c \<noteq> quote_ch" "c \<noteq> escape_ch" by (auto simp: quote_ch_def escape_ch_def)
  have "(ucast c :: u32) < 0x80" using assms by (simp add: word_less_nat_alt unat_ucast_u8_u32)
  moreover have "(ucast (ucast c :: u32) :: u8) = c"
    by (rule bit_word_eqI) (auto simp: bit_simps dest: bit_imp_le_length)
  ultimately have "append_utf8 [] (ucast c) = [c]" by (simp add: append_utf8_def)
  with True c show ?thesis
    by (simp add: json_char_def string_piece_def escape_piece_def)
      (simp add: quote_ch_def escape_ch_def simple_escape_def unicode_escape_char)
next
  case False
  show ?thesis
  proof (cases "c = quote_ch \<or> c = escape_ch")
    case True
    then have "json_char c = [escape_ch, c]" by (simp add: json_char_def)
    moreover have "simple_escape c = Some c" using True by (auto simp: simple_escape_def quote_ch_def escape_ch_def)
    moreover have "escape_ch \<noteq> quote_ch" "\<not> escape_ch < 0x20" by (simp_all add: quote_ch_def escape_ch_def)
    ultimately show ?thesis by (simp add: string_piece_def escape_piece_def)
  next
    case no: False
    with False assms show ?thesis by (simp add: json_char_def string_piece_def)
  qed
qed

lemma string_body_chars:
  "list_all (\<lambda>c. c < 0x80) s \<Longrightarrow> json_string_body out (concat (map json_char s) @ quote_ch # rest) = Some (out @ s, rest)"
proof (induction s arbitrary: out)
  case Nil
  then show ?case by (simp add: json_string_body.simps string_piece_def)
next
  case (Cons c s)
  then show ?case using string_piece_char [of c "concat (map json_char s) @ quote_ch # rest"]
    by (simp add: json_string_body.simps [of out])
qed

lemma parse_json_quote: "list_all (\<lambda>c. c < 0x80) s \<Longrightarrow> parse_json_string (json_quote s @ rest) = Some (s, rest)"
  using string_body_chars [of s "[]" rest] by (simp add: json_quote_def parse_json_string_def)

lemma skip_space_quote: "skip_space (json_quote s @ rest) = json_quote s @ rest"
  by (simp add: skip_space_def json_quote_def quote_ch_def)

lemma read_key_quote: "list_all (\<lambda>c. c < 0x80) s \<Longrightarrow> read_key (json_quote s @ colon_ch # rest) = Some (s, rest)"
  by (simp add: read_key_def skip_space_quote parse_json_quote) (simp add: skip_space_def colon_ch_def)

lemma read_field_quote: "list_all (\<lambda>c. c < 0x80) s \<Longrightarrow> read_field old (json_quote s @ rest) = Some (s, rest)"
  using parse_json_quote [of s rest] by (simp add: read_field_def) (simp add: json_quote_def)

definition json_pair :: "bytes \<Rightarrow> bytes \<Rightarrow> bytes \<Rightarrow> bytes \<Rightarrow> bytes" where
  "json_pair f1 v1 f2 v2 = open_brace # json_quote f1 @ colon_ch # json_quote v1 @ comma_ch # json_quote f2 @ colon_ch # json_quote v2 @ [close_brace]"

lemma extract_json_pair:
  assumes "list_all (\<lambda>c. c < 0x80) v1" "list_all (\<lambda>c. c < 0x80) v2" "list_all (\<lambda>c. c < 0x80) f1" "list_all (\<lambda>c. c < 0x80) f2"
    and "\<not> fold_equal f2 f1"
  shows "extract_string_fields (json_pair f1 v1 f2 v2 @ rest) f1 f2 = Some (v1, v2)"
proof -
  have eq: "fold_equal f f" for f by (simp add: fold_equal_def)
  let ?r2 = "json_quote f2 @ colon_ch # json_quote v2 @ close_brace # rest"
  have m1: "read_member f1 f2 ([], []) (json_quote f1 @ colon_ch # json_quote v1 @ comma_ch # ?r2) = Some ((v1, []), comma_ch # ?r2)"
    using assms by (simp add: read_member_def read_key_quote skip_space_quote read_field_quote eq Let_def)
  have m2: "read_member f1 f2 (v1, []) ?r2 = Some ((v1, v2), close_brace # rest)"
    using assms by (simp add: read_member_def read_key_quote skip_space_quote read_field_quote eq Let_def)
  have sp: "skip_space (comma_ch # r) = comma_ch # r" "skip_space (close_brace # r) = close_brace # r"
    "skip_space (open_brace # r) = open_brace # r" for r
    by (simp_all add: skip_space_def comma_ch_def close_brace_def open_brace_def)
  have ne: "close_brace \<noteq> comma_ch" "quote_ch \<noteq> close_brace" by (simp_all add: close_brace_def comma_ch_def quote_ch_def)
  have q: "json_quote f1 = quote_ch # tl (json_quote f1)" by (simp add: json_quote_def)
  have "read_members f1 f2 ([], []) (json_quote f1 @ colon_ch # json_quote v1 @ comma_ch # ?r2) = Some (v1, v2)"
    by (simp add: read_members.simps [of f1 f2 "([], [])"] m1 sp) (simp add: read_members.simps m2 sp ne)
  then show ?thesis
    using ne by (simp add: extract_string_fields_def json_pair_def sp skip_space_quote Let_def) (simp add: json_quote_def)
qed




subsection \<open>The symbol of a name\<close>

lemma csymbol_table_nth: "n < 256 \<Longrightarrow> csymbol_table ! n = csymbol_entry (word_of_nat n)"
  by (simp add: csymbol_table_def)

text \<open>The service's symbol of a plain name is the game's hash of it, and neither sees the case of ASCII letters.\<close>

lemma config_symbol_hash:
  assumes "s \<noteq> []" "0 \<notin> set s" "\<not> (length s = 18 \<and> s ! 0 = 0x30)"
  shows "config_symbol s = csymbol64_hash s csymbol_seed"
proof -
  have "takeWhile (\<lambda>c. c \<noteq> 0) s = s" using assms(2) by (auto simp: takeWhile_eq_all_conv)
  then have "csymbol64_hash s csymbol_seed = foldl csymbol_step csymbol_seed s" by (simp only: csymbol64_hash_def)
  then show ?thesis using assms by (auto simp: config_symbol_def)
qed

lemma serverdb_symbol: "csymbol64_hash (bytes_of ''serverdb'') csymbol_seed = 0x25e886012ced8064"
  by (simp add: csymbol64_hash_def bytes_of_def csymbol_seed_def csymbol_step_def csymbol_table_nth csymbol_entry_def
      csymbol_polynomial_def Let_def)

end
