(* ===== verification/Evr_Utf8.thy ===== *)
theory Evr_Utf8
  imports Evr_Config
begin

section \<open>A decoded JSON string is UTF-8\<close>

text \<open>
  Whatever bytes the scanner of \<^verbatim>\<open>src/runtime/compat/evr_codec.cpp\<close> is given, a string it decodes is a sequence of encoded
  Unicode scalar values: ill-formed bytes and lone surrogate escapes have become U+FFFD.
\<close>

unbundle bit_operations_syntax

definition scalar_value :: "u32 \<Rightarrow> bool" where
  "scalar_value cp \<longleftrightarrow> cp \<le> 0x10FFFF \<and> \<not> (0xD800 \<le> cp \<and> cp \<le> 0xDFFF)"

definition utf8_text :: "bytes \<Rightarrow> bool" where
  "utf8_text s \<longleftrightarrow> (\<exists>cps. list_all scalar_value cps \<and> s = concat (map (append_utf8 []) cps))"

lemma utf8_text_append: "utf8_text a \<Longrightarrow> utf8_text b \<Longrightarrow> utf8_text (a @ b)"
  unfolding utf8_text_def by (metis concat_append list_all_append map_append)

lemma utf8_text_nil: "utf8_text []"
  unfolding utf8_text_def by (rule exI [of _ "[]"]) simp

lemma utf8_text_scalar: "scalar_value cp \<Longrightarrow> utf8_text (append_utf8 [] cp)"
  unfolding utf8_text_def by (rule exI [of _ "[cp]"]) simp

lemma utf8_text_ascii:
  assumes "c < 0x80"
  shows "utf8_text [c]"
proof -
  have u: "unat c < 128" using assms by (simp add: word_less_nat_alt)
  then have "scalar_value (ucast c)" "(ucast c :: u32) < 0x80"
    by (simp_all add: scalar_value_def word_less_nat_alt word_le_nat_alt unat_ucast_u8_u32)
  moreover have "(ucast (ucast c :: u32) :: u8) = c"
    by (rule bit_word_eqI) (auto simp: bit_simps dest: bit_imp_le_length)
  ultimately show ?thesis using utf8_text_scalar [of "ucast c"] by (simp add: append_utf8_def)
qed

lemma byte_eqI:
  assumes "bit a 0 = bit b 0" "bit a 1 = bit b 1" "bit a 2 = bit b 2" "bit a 3 = bit b 3"
    "bit a 4 = bit b 4" "bit a 5 = bit b 5" "bit a 6 = bit b 6" "bit a 7 = bit b 7"
  shows "a = (b :: u8)"
proof (rule bit_word_eqI)
  fix n assume "n < LENGTH(8)"
  then have "n \<in> {0, 1, 2, 3, 4, 5, 6, 7}" by auto
  with assms show "bit a n = bit b n" by blast
qed

lemma byte_range: "a \<le> b \<Longrightarrow> b \<le> c \<Longrightarrow> \<exists>k\<in>set [unat a..<Suc (unat c)]. (b :: u8) = word_of_nat k"
  by (rule bexI [of _ "unat b"]) (auto simp: word_le_nat_alt)

lemma lead2: "0xC2 \<le> b \<Longrightarrow> b \<le> 0xDF \<Longrightarrow> bit b 7 \<and> bit b 6 \<and> \<not> bit (b :: u8) 5 \<and> 2 \<le> unat b mod 32"
proof -
  have "\<forall>k\<in>set [0xC2..<Suc 0xDF]. bit (word_of_nat k :: u8) 7 \<and> bit (word_of_nat k :: u8) 6 \<and> \<not> bit (word_of_nat k :: u8) 5
      \<and> 2 \<le> unat (word_of_nat k :: u8) mod 32" by code_simp
  then show "0xC2 \<le> b \<Longrightarrow> b \<le> 0xDF \<Longrightarrow> ?thesis" using byte_range [of "0xC2" b "0xDF"] by auto
qed

lemma lead3: "0xE0 \<le> b \<Longrightarrow> b \<le> 0xEF \<Longrightarrow> bit b 7 \<and> bit b 6 \<and> bit b 5 \<and> \<not> bit (b :: u8) 4"
proof -
  have "\<forall>k\<in>set [0xE0..<Suc 0xEF]. bit (word_of_nat k :: u8) 7 \<and> bit (word_of_nat k :: u8) 6 \<and> bit (word_of_nat k :: u8) 5
      \<and> \<not> bit (word_of_nat k :: u8) 4" by code_simp
  then show "0xE0 \<le> b \<Longrightarrow> b \<le> 0xEF \<Longrightarrow> ?thesis" using byte_range [of "0xE0" b "0xEF"] by auto
qed

lemma lead4: "0xF0 \<le> b \<Longrightarrow> b \<le> 0xF4 \<Longrightarrow> bit b 7 \<and> bit b 6 \<and> bit b 5 \<and> bit b 4 \<and> \<not> bit (b :: u8) 3"
proof -
  have "\<forall>k\<in>set [0xF0..<Suc 0xF4]. bit (word_of_nat k :: u8) 7 \<and> bit (word_of_nat k :: u8) 6 \<and> bit (word_of_nat k :: u8) 5
      \<and> bit (word_of_nat k :: u8) 4 \<and> \<not> bit (word_of_nat k :: u8) 3" by code_simp
  then show "0xF0 \<le> b \<Longrightarrow> b \<le> 0xF4 \<Longrightarrow> ?thesis" using byte_range [of "0xF0" b "0xF4"] by auto
qed

lemma continuation: "b AND 0xC0 = 0x80 \<Longrightarrow> bit b 7 \<and> \<not> bit (b :: u8) 6"
proof -
  assume e: "b AND 0xC0 = 0x80"
  have "bit (b AND 0xC0) 7 = bit (0x80 :: u8) 7" "bit (b AND 0xC0) 6 = bit (0x80 :: u8) 6" by (simp_all only: e)
  then show ?thesis by (simp add: bit_simps)
qed


lemma low_bits: "unat (ucast (b AND 0x3F) :: u32) = unat (b :: u8) mod 64"
proof -
  have "b AND 0x3F = take_bit 6 b" by (simp add: take_bit_eq_mask mask_numeral)
  then show ?thesis by (simp add: unat_ucast_u8_u32 take_bit_eq_mod unat_mod)
qed

lemma next_six:
  fixes a :: u32 and b :: u8
  assumes "unat a < 2 ^ 20"
  shows "unat (push_bit 6 a OR ucast (b AND 0x3F)) = 64 * unat a + unat b mod 64"
proof -
  have "bit (ucast (b AND 0x3F) :: u32) i \<Longrightarrow> i < 6" for i
  proof (rule ccontr)
    assume "bit (ucast (b AND 0x3F) :: u32) i" "\<not> i < 6"
    moreover have "b AND 0x3F = take_bit 6 b" by (simp add: take_bit_eq_mask mask_numeral)
    ultimately show False by (simp add: bit_simps)
  qed
  then have "push_bit 6 a OR ucast (b AND 0x3F) = ucast (b AND 0x3F) + push_bit 6 a"
    using or_push_add [of "ucast (b AND 0x3F)" 6 a] by (simp add: or.commute)
  then show ?thesis
    using assms by (simp add: push_bit_eq_mult unat_word_ariths low_bits)
qed

lemma lead_bits: "unat (ucast (b AND 0x1F) :: u32) = unat (b :: u8) mod 32" "unat (ucast (b AND 0x0F) :: u32) = unat (b :: u8) mod 16"
  "unat (ucast (b AND 0x07) :: u32) = unat (b :: u8) mod 8"
proof -
  have "b AND 0x1F = take_bit 5 b" "b AND 0x0F = take_bit 4 b" "b AND 0x07 = take_bit 3 b"
    by (simp_all add: take_bit_eq_mask mask_numeral)
  then show "unat (ucast (b AND 0x1F) :: u32) = unat b mod 32" "unat (ucast (b AND 0x0F) :: u32) = unat b mod 16"
    "unat (ucast (b AND 0x07) :: u32) = unat b mod 8"
    by (simp_all add: unat_ucast_u8_u32 take_bit_eq_mod unat_mod)
qed

abbreviation join6 :: "u32 \<Rightarrow> u8 \<Rightarrow> u32" where "join6 a b \<equiv> push_bit 6 a OR ucast (b AND 0x3F)"

lemma two_bytes:
  assumes "0xC2 \<le> b0" "b0 \<le> 0xDF" "b1 AND 0xC0 = 0x80"
  shows "utf8_text [b0, b1]"
proof -
  let ?cp = "join6 (ucast (b0 AND 0x1F)) b1"
  have n: "unat ?cp = 64 * (unat b0 mod 32) + unat b1 mod 64" using next_six [of "ucast (b0 AND 0x1F)" b1] by (simp add: lead_bits)
  note l = lead2 [OF assms(1,2)] and c = continuation [OF assms(3)]
  have "unat b0 mod 32 < 32" "unat b1 mod 64 < 64" "2 \<le> unat b0 mod 32" using l by simp_all
  then have r: "0x80 \<le> unat ?cp" "unat ?cp < 0x800" unfolding n by linarith+
  have "ucast (0xC0 OR drop_bit 6 ?cp) = b0" by (rule byte_eqI) (use l in \<open>simp_all add: bit_simps\<close>)
  moreover have "ucast (0x80 OR (?cp AND 0x3F)) = b1" by (rule byte_eqI) (use c in \<open>simp_all add: bit_simps\<close>)
  ultimately have "append_utf8 [] ?cp = [b0, b1]" using r by (simp add: append_utf8_def word_less_nat_alt)
  moreover have "scalar_value ?cp" using r by (simp add: scalar_value_def word_le_nat_alt)
  ultimately show ?thesis using utf8_text_scalar by metis
qed


lemma three_bytes:
  fixes b0 b1 b2 :: u8
  defines "cp \<equiv> join6 (join6 (ucast (b0 AND 0x0F)) b1) b2"
  assumes "0xE0 \<le> b0" "b0 \<le> 0xEF" "b1 AND 0xC0 = 0x80" "b2 AND 0xC0 = 0x80"
    and "\<not> cp < 0x800" "\<not> (0xD800 \<le> cp \<and> cp \<le> 0xDFFF)"
  shows "utf8_text [b0, b1, b2]"
proof -
  let ?c1 = "join6 (ucast (b0 AND 0x0F)) b1"
  have lead: "unat (ucast (b0 AND 0x0F) :: u32) < 16" by (simp add: lead_bits)
  have b: "unat b1 mod 64 < 64" "unat b2 mod 64 < 64" by simp_all
  have n1: "unat ?c1 = 64 * unat (ucast (b0 AND 0x0F) :: u32) + unat b1 mod 64" by (rule next_six) (use lead in simp)
  have n: "unat cp = 64 * unat ?c1 + unat b2 mod 64" unfolding cp_def by (rule next_six) (use n1 lead b in simp)
  have r: "unat cp < 0x10000" using n n1 lead b by linarith
  note l = lead3 [OF assms(2,3)] and c1 = continuation [OF assms(4)] and c2 = continuation [OF assms(5)]
  have "ucast (0xE0 OR drop_bit 12 cp) = b0" unfolding cp_def by (rule byte_eqI) (use l in \<open>simp_all add: bit_simps\<close>)
  moreover have "ucast (0x80 OR (drop_bit 6 cp AND 0x3F)) = b1" unfolding cp_def by (rule byte_eqI) (use c1 in \<open>simp_all add: bit_simps\<close>)
  moreover have "ucast (0x80 OR (cp AND 0x3F)) = b2" unfolding cp_def by (rule byte_eqI) (use c2 in \<open>simp_all add: bit_simps\<close>)
  ultimately have "append_utf8 [] cp = [b0, b1, b2]" using r assms(6) by (simp add: append_utf8_def word_less_nat_alt)
  moreover have "scalar_value cp" using r assms(7) by (simp add: scalar_value_def word_le_nat_alt)
  ultimately show ?thesis using utf8_text_scalar by metis
qed

lemma four_bytes:
  fixes b0 b1 b2 b3 :: u8
  defines "cp \<equiv> join6 (join6 (join6 (ucast (b0 AND 0x07)) b1) b2) b3"
  assumes "0xF0 \<le> b0" "b0 \<le> 0xF4" "b1 AND 0xC0 = 0x80" "b2 AND 0xC0 = 0x80" "b3 AND 0xC0 = 0x80"
    and "\<not> cp < 0x10000" "\<not> cp > 0x10FFFF"
  shows "utf8_text [b0, b1, b2, b3]"
proof -
  note l = lead4 [OF assms(2,3)] and c1 = continuation [OF assms(4)] and c2 = continuation [OF assms(5)] and c3 = continuation [OF assms(6)]
  have "ucast (0xF0 OR drop_bit 18 cp) = b0" unfolding cp_def by (rule byte_eqI) (use l in \<open>simp_all add: bit_simps\<close>)
  moreover have "ucast (0x80 OR (drop_bit 12 cp AND 0x3F)) = b1" unfolding cp_def by (rule byte_eqI) (use c1 in \<open>simp_all add: bit_simps\<close>)
  moreover have "ucast (0x80 OR (drop_bit 6 cp AND 0x3F)) = b2" unfolding cp_def by (rule byte_eqI) (use c2 in \<open>simp_all add: bit_simps\<close>)
  moreover have "ucast (0x80 OR (cp AND 0x3F)) = b3" unfolding cp_def by (rule byte_eqI) (use c3 in \<open>simp_all add: bit_simps\<close>)
  ultimately have "append_utf8 [] cp = [b0, b1, b2, b3]" using assms(7) by (simp add: append_utf8_def word_less_nat_alt)
  moreover have "scalar_value cp" using assms(7,8) by (simp add: scalar_value_def word_le_nat_alt word_less_nat_alt)
  ultimately show ?thesis using utf8_text_scalar by metis
qed


subsection \<open>Every piece of a string\<close>

lemma continues:
  "utf8_continues 2 lead (b0 # b1 # u) = (if b1 AND 0xC0 = 0x80 then Some (join6 lead b1) else None)"
  "utf8_continues 3 lead (b0 # b1 # b2 # u) =
     (if b1 AND 0xC0 = 0x80 \<and> b2 AND 0xC0 = 0x80 then Some (join6 (join6 lead b1) b2) else None)"
  "utf8_continues 4 lead (b0 # b1 # b2 # b3 # u) =
     (if b1 AND 0xC0 = 0x80 \<and> b2 AND 0xC0 = 0x80 \<and> b3 AND 0xC0 = 0x80
      then Some (join6 (join6 (join6 lead b1) b2) b3) else None)"
proof -
  have u: "[1..<2] = [1 :: nat]" "[1..<3] = [1, 2 :: nat]" "[1..<4] = [1, 2, 3 :: nat]" by (simp_all add: upt_rec)
  show "utf8_continues 2 lead (b0 # b1 # u) = (if b1 AND 0xC0 = 0x80 then Some (join6 lead b1) else None)"
    "utf8_continues 3 lead (b0 # b1 # b2 # u) =
     (if b1 AND 0xC0 = 0x80 \<and> b2 AND 0xC0 = 0x80 then Some (join6 (join6 lead b1) b2) else None)"
    "utf8_continues 4 lead (b0 # b1 # b2 # b3 # u) =
     (if b1 AND 0xC0 = 0x80 \<and> b2 AND 0xC0 = 0x80 \<and> b3 AND 0xC0 = 0x80
      then Some (join6 (join6 (join6 lead b1) b2) b3) else None)"
    unfolding utf8_continues_def u by (simp_all add: Let_def)
qed

lemma sequence_text:
  assumes "utf8_length s \<noteq> 0" "s \<noteq> []" "\<not> hd s < 0x80"
  shows "utf8_text (take (utf8_length s) s)"
proof -
  obtain b0 t where s: "s = b0 # t" using assms(2) by (cases s) auto
  have hi: "\<not> b0 < 0x80" using assms(3) s by simp
  consider (two) "0xC2 \<le> b0 \<and> b0 \<le> 0xDF" | (three) "0xE0 \<le> b0 \<and> b0 \<le> 0xEF" "\<not> (0xC2 \<le> b0 \<and> b0 \<le> 0xDF)"
    | (four) "0xF0 \<le> b0 \<and> b0 \<le> 0xF4" "\<not> (0xC2 \<le> b0 \<and> b0 \<le> 0xDF)" "\<not> (0xE0 \<le> b0 \<and> b0 \<le> 0xEF)"
    using assms(1) hi by (auto simp: utf8_length_def s Let_def split: if_splits)
  then show ?thesis
  proof cases
    case two
    then obtain b1 u where t: "t = b1 # u" using assms(1) hi
      by (cases t) (auto simp: utf8_length_def s Let_def split: if_splits)
    have "b1 AND 0xC0 = 0x80" "utf8_length s = 2"
      using assms(1) hi two by (auto simp: utf8_length_def continues s t Let_def split: if_splits option.splits)
    with two_bytes two show ?thesis by (simp add: s t)
  next
    case three
    then obtain b1 b2 u where t: "t = b1 # b2 # u" using assms(1) hi
      by (cases t rule: remdups_adj.cases) (auto simp: utf8_length_def s Let_def split: if_splits)
    have c: "b1 AND 0xC0 = 0x80" "b2 AND 0xC0 = 0x80" "utf8_length s = 3"
      "\<not> join6 (join6 (ucast (b0 AND 0x0F)) b1) b2 < 0x800"
      "\<not> (0xD800 \<le> join6 (join6 (ucast (b0 AND 0x0F)) b1) b2 \<and> join6 (join6 (ucast (b0 AND 0x0F)) b1) b2 \<le> 0xDFFF)"
      using assms(1) hi three by (auto simp: utf8_length_def continues s t Let_def split: if_splits option.splits)
    from three_bytes [OF _ _ c(1,2,4,5)] three c(3) show ?thesis by (simp add: s t)
  next
    case four
    then obtain b1 b2 b3 u where t: "t = b1 # b2 # b3 # u" using assms(1) hi
      by (cases t rule: remdups_adj.cases; cases "tl (tl t)") (auto simp: utf8_length_def s Let_def split: if_splits)
    have c: "b1 AND 0xC0 = 0x80" "b2 AND 0xC0 = 0x80" "b3 AND 0xC0 = 0x80" "utf8_length s = 4"
      "\<not> join6 (join6 (join6 (ucast (b0 AND 0x07)) b1) b2) b3 < 0x10000"
      "\<not> join6 (join6 (join6 (ucast (b0 AND 0x07)) b1) b2) b3 > 0x10FFFF"
      using assms(1) hi four by (auto simp: utf8_length_def continues s t Let_def split: if_splits option.splits)
    from four_bytes [OF _ _ c(1,2,3,5,6)] four c(4) show ?thesis by (simp add: s t)
  qed
qed


lemma hex_value_bound: "hex_value cs v = Some w \<Longrightarrow> w < 16 ^ length cs * (v + 1)"
proof (induction cs v rule: hex_value.induct)
  case (2 c cs v)
  then obtain d where d: "hex_digit_value c = Some d" "hex_value cs (16 * v + d) = Some w"
    by (auto split: option.splits)
  have "d < 16"
    using d(1) by (auto simp: hex_digit_value_def word_le_nat_alt unat_sub_if' split: if_splits)
  moreover have "w < 16 ^ length cs * (16 * v + d + 1)" using "2.IH" [OF d] by simp
  moreover have "16 ^ length cs * (16 * v + d + 1) \<le> 16 ^ length cs * (16 * v + 16)" if "d < 16"
    by (rule mult_le_mono2) (use that in simp)
  ultimately have "w < 16 ^ length cs * (16 * v + 16)" by simp
  then show ?case by (simp add: algebra_simps)
qed simp

lemma read_hex4_bound: "read_hex4 s = Some cp \<Longrightarrow> unat cp < 0x10000"
proof -
  assume "read_hex4 s = Some cp"
  then obtain v where v: "4 \<le> length s" "hex_value (take 4 s) 0 = Some v" "cp = word_of_nat v"
    by (auto simp: read_hex4_def split: if_splits)
  from hex_value_bound [OF v(2)] v(1,3) show ?thesis by (simp add: unat_of_nat)
qed

lemma surrogates:
  fixes cp low :: u32
  assumes "0xD800 \<le> cp" "cp < 0xDC00" "0xDC00 \<le> low" "low < 0xE000"
  shows "scalar_value (0x10000 + push_bit 10 (cp - 0xD800) + (low - 0xDC00))"
proof -
  have c: "unat (cp - 0xD800) < 0x400" "unat (low - 0xDC00) < 0x400"
    using assms by (simp_all add: word_le_nat_alt word_less_nat_alt unat_sub_if')
  have "unat (0x10000 + push_bit 10 a + b) = 0x10000 + 1024 * unat a + unat b" if "unat a < 0x400" "unat b < 0x400" for a b :: u32
    using that by (simp add: push_bit_eq_mult unat_word_ariths)
  from this [OF c] have "unat (0x10000 + push_bit 10 (cp - 0xD800) + (low - 0xDC00)) = 0x10000 + 1024 * unat (cp - 0xD800) + unat (low - 0xDC00)" .
  with c show ?thesis by (simp add: scalar_value_def word_le_nat_alt)
qed

lemma read_unicode_scalar:
  assumes "read_unicode s = Some (cp, t)"
  shows "scalar_value cp"
proof -
  obtain c where c: "read_hex4 s = Some c" using assms by (auto simp: read_unicode_def split: option.splits)
  have r: "scalar_value 0xFFFD" by (simp add: scalar_value_def)
  have "c \<le> 0x10FFFF" using read_hex4_bound [OF c] by (simp add: word_le_nat_alt)
  then have n: "scalar_value c" if "\<not> (0xD800 \<le> c \<and> c < 0xDC00)" "\<not> (0xDC00 \<le> c \<and> c < 0xE000)"
    using that by (auto simp: scalar_value_def word_le_nat_alt word_less_nat_alt)
  show ?thesis
    using assms c r n surrogates [of c] by (auto simp: read_unicode_def Let_def split: if_splits option.splits)
qed

lemma string_piece_text:
  assumes "string_piece s = Some (JsonPiece b t)"
  shows "utf8_text b"
proof -
  obtain ch u where s: "s = ch # u" using assms by (cases s) (auto simp: string_piece_def)
  show ?thesis
  proof (cases "ch = escape_ch")
    case True
    then have "escape_piece u = Some (JsonPiece b t)"
      using assms by (auto simp: string_piece_def s quote_ch_def escape_ch_def)
    then obtain e v where e: "u = e # v" "(\<exists>c. simple_escape e = Some c \<and> b = [c]) \<or> (\<exists>cp. b = append_utf8 [] cp \<and> read_unicode v = Some (cp, t))"
      by (auto simp: escape_piece_def split: list.splits option.splits if_splits)
    have "c < 0x80" if "simple_escape e = Some c" for c
      using that by (auto simp: simple_escape_def split: if_splits)
    with e(2) read_unicode_scalar show ?thesis by (auto intro: utf8_text_ascii utf8_text_scalar)
  next
    case False
    have r: "utf8_text (append_utf8 [] 0xFFFD)" by (rule utf8_text_scalar) (simp add: scalar_value_def)
    show ?thesis
      using assms False r sequence_text [of s]
      by (auto simp: string_piece_def s Let_def intro: utf8_text_ascii split: if_splits)
  qed
qed

lemma string_body_text: "json_string_body out s = Some (res, r) \<Longrightarrow> utf8_text out \<Longrightarrow> utf8_text res"
proof (induction out s rule: json_string_body.induct)
  case (1 out s)
  from "1.prems" show ?case
    unfolding json_string_body.simps [of out s]
    by (auto split: option.split_asm json_piece.split_asm dest: "1.IH" string_piece_text intro: utf8_text_append)
qed

text \<open>C24: Whatever bytes the JSON scanner reads, a string it decodes is well-formed UTF-8: the encodings of Unicode scalar values,
  one after another.\<close>

theorem json_string_is_utf8:
  assumes "parse_json_string s = Some (res, rest)"
  shows "utf8_text res"
  using assms string_body_text [OF _ utf8_text_nil]
  by (auto simp: parse_json_string_def split: list.splits if_splits)

lemma json_string_is_utf8_witness: "utf8_text (append_utf8 [] 0xFFFD)"
proof -
  have "parse_json_string [quote_ch, 0xFF, quote_ch] = Some (append_utf8 [] 0xFFFD, [])"
    by (simp add: parse_json_string_def json_string_body.simps string_piece_def) (simp add: quote_ch_def escape_ch_def utf8_length_def json_string_body.simps string_piece_def)
  then show ?thesis by (rule json_string_is_utf8)
qed

end
