(* ===== verification/Lobby_Frame.thy ===== *)
theory Lobby_Frame
  imports Evr_Codec
begin

section \<open>The lobby records of a client\<close>

text \<open>
  \<^verbatim>\<open>src/runtime/compat/lobby_frame.h\<close>: the decode of the four lobby messages, the text of their records, the limit on how
  many a run writes, and the request an answer belongs to. Both the bridge and the Quest router log through it. Times are
  the caller's clock in milliseconds, 64 bits wide.
\<close>

unbundle bit_operations_syntax

datatype lobby_kind = KFind | KJoin | KSuccess | KFailure

definition sym_find_session :: u64 where "sym_find_session = 0x312c2a01819aa3f5"
definition sym_join_session :: u64 where "sym_join_session = 0x2f03468f77ffb211"
definition sym_session_success :: u64 where "sym_session_success = 0x6d4de3650ee3110f"
definition sym_session_failure :: u64 where "sym_session_failure = 0x4ae8365ebc45f96c"

definition max_entrants :: nat where "max_entrants = 16"
definition guid_size :: nat where "guid_size = 16"
definition entrant_size :: nat where "entrant_size = 16"
definition failure_message_at :: nat where "failure_message_at = 8 + guid_size + 4 + 4"
definition failure_message_size :: nat where "failure_message_size = 64"

definition kind_of :: "u64 \<Rightarrow> bool \<Rightarrow> lobby_kind option" where
  "kind_of symbol from_server =
     (if \<not> from_server then
        (if symbol = sym_find_session then Some KFind else if symbol = sym_join_session then Some KJoin else None)
      else if symbol = sym_session_success then Some KSuccess
      else if symbol = sym_session_failure then Some KFailure else None)"

definition kind_name :: "lobby_kind \<Rightarrow> bytes" where
  "kind_name k = bytes_of (case k of KFind \<Rightarrow> ''find request'' | KJoin \<Rightarrow> ''join request''
     | KSuccess \<Rightarrow> ''session success'' | KFailure \<Rightarrow> ''session failure'')"

definition kind_token :: "lobby_kind \<Rightarrow> bytes" where
  "kind_token k = bytes_of (case k of KFind \<Rightarrow> ''find'' | KJoin \<Rightarrow> ''join'' | KSuccess \<Rightarrow> ''success'' | KFailure \<Rightarrow> ''failure'')"

subsection \<open>The decode\<close>

record entrant =
  en_platform :: u64
  en_account :: u64

record lobby_message =
  lm_kind :: lobby_kind
  lm_mode :: u64
  lm_lobby :: bytes
  lm_current :: bytes
  lm_group :: bytes
  lm_entrants :: "entrant list"
  lm_code :: u32
  lm_message_bytes :: nat

definition nil_guid :: bytes where "nil_guid = replicate 16 0"

definition no_lobby_message :: "lobby_kind \<Rightarrow> lobby_message" where
  "no_lobby_message k = \<lparr>lm_kind = k, lm_mode = 0, lm_lobby = nil_guid, lm_current = nil_guid, lm_group = nil_guid,
     lm_entrants = [], lm_code = 0, lm_message_bytes = 0\<rparr>"

definition read_guid :: "bytes \<Rightarrow> nat \<Rightarrow> bytes" where
  "read_guid p off = take guid_size (drop off p)"

definition read_entrants :: "bytes \<Rightarrow> nat \<Rightarrow> nat \<Rightarrow> entrant list option" where
  "read_entrants p settings_at n =
     (if n > max_entrants \<or> settings_at > length p then None
      else case find_ch 0 (drop settings_at p) of None \<Rightarrow> None | Some k \<Rightarrow>
        (let at = settings_at + k + 1
         in if length p - at < n * entrant_size then None
            else Some (map (\<lambda>i. \<lparr>en_platform = read_le64 p (at + i * entrant_size), en_account = read_le64 p (at + i * entrant_size + 8)\<rparr>) [0..<n])))"

definition field_text_bytes :: "bytes \<Rightarrow> nat \<Rightarrow> nat \<Rightarrow> nat" where
  "field_text_bytes p at n =
     (if at \<ge> length p then 0
      else let held = (if length p - at < n then length p - at else n)
      in case find_ch 0 (take held (drop at p)) of None \<Rightarrow> held | Some k \<Rightarrow> k)"

definition decode_lobby :: "lobby_kind \<Rightarrow> bytes \<Rightarrow> lobby_message option" where
  "decode_lobby kind p = (let m = no_lobby_message kind in case kind of
      KFind \<Rightarrow> (let fixed = 8 * 4 + guid_size + 1 + 4 + 3 + guid_size + guid_size
        in if length p < fixed then None
        else map_option (\<lambda>es. m\<lparr>lm_mode := read_le64 p 8,
            lm_current := read_guid p (8 * 4 + guid_size + 1 + 4 + 3),
            lm_group := read_guid p (8 * 4 + guid_size + 1 + 4 + 3 + guid_size), lm_entrants := es\<rparr>)
          (read_entrants p fixed (unat (p ! (8 * 4 + guid_size)))))
    | KJoin \<Rightarrow> (let flags_at = guid_size + 8 + 8 + guid_size; fixed = flags_at + 4 + 4 + 8
        in if length p < fixed then None
        else map_option (\<lambda>es. m\<lparr>lm_lobby := read_guid p 0, lm_entrants := es\<rparr>)
          (read_entrants p fixed (unat (p ! flags_at))))
    | KSuccess \<Rightarrow> if length p < 8 + guid_size + guid_size then None
        else Some (m\<lparr>lm_mode := read_le64 p 0, lm_lobby := read_guid p 8, lm_group := read_guid p (8 + guid_size)\<rparr>)
    | KFailure \<Rightarrow> if length p < 8 + guid_size + 4 then None
        else Some (m\<lparr>lm_mode := read_le64 p 0, lm_group := read_guid p 8, lm_code := le32 p (8 + guid_size),
          lm_message_bytes := field_text_bytes p failure_message_at failure_message_size\<rparr>))"

subsection \<open>Text\<close>

definition hex_upper :: "u8 \<Rightarrow> bytes" where
  "hex_upper b = map (\<lambda>n. if n < 10 then 0x30 + word_of_nat n else 0x37 + word_of_nat n) [unat b div 16, unat b mod 16]"

definition dash :: bytes where "dash = [0x2D]"

definition format_guid :: "bytes \<Rightarrow> bytes" where
  "format_guid g = (let h = (\<lambda>is. concat (map (\<lambda>i. hex_upper (g ! i)) is))
     in h [3, 2, 1, 0] @ dash @ h [5, 4] @ dash @ h [7, 6] @ dash @ h [8, 9] @ dash @ h [10, 11, 12, 13, 14, 15])"

definition is_nil_guid :: "bytes \<Rightarrow> bool" where
  "is_nil_guid g \<longleftrightarrow> list_all (\<lambda>b. b = 0) g"

definition format_guid_or_none :: "bytes \<Rightarrow> bytes" where
  "format_guid_or_none g = (if is_nil_guid g then bytes_of ''none'' else format_guid g)"

definition format_accounts :: "entrant list \<Rightarrow> bytes" where
  "format_accounts es = foldl (\<lambda>text_so_far e. (if text_so_far \<noteq> [] then text_so_far @ [0x2C] else text_so_far)
     @ platform_prefix (en_platform e) @ dash @ decimal (unat (en_account e))) [] es"

definition failure_reason :: "u32 \<Rightarrow> bytes" where
  "failure_reason c = bytes_of (let names = [''unspecified'', ''unsupported_version'', ''bad_request'', ''timeout'',
       ''lobby_invalid'', ''lobby_incompatible'', ''lobby_no_crossplay'', ''lobby_locked'', ''lobby_full'', ''internal_error'',
       ''missing_entitlement'', ''banned'', ''kicked'', ''access_denied'']
     in if unat c < length names then names ! unat c else ''unknown'')"

subsection \<open>The limit on records\<close>

definition window_ms :: u64 where "window_ms = 10000"
definition record_burst :: nat where "record_burst = 10"

record limit_slot =
  ls_open :: bool
  ls_start :: u64
  ls_logged :: nat
  ls_suppressed :: u64

definition fresh_slot :: limit_slot where
  "fresh_slot = \<lparr>ls_open = False, ls_start = 0, ls_logged = 0, ls_suppressed = 0\<rparr>"

type_synonym record_limiter = "lobby_kind \<Rightarrow> limit_slot"

record limit_verdict =
  lv_log :: bool
  lv_flushed :: "lobby_kind \<Rightarrow> u64"

definition window_ended :: "u64 \<Rightarrow> limit_slot \<Rightarrow> bool" where
  "window_ended now s \<longleftrightarrow> ls_open s \<and> now - ls_start s \<ge> window_ms"

definition end_window :: "u64 \<Rightarrow> limit_slot \<Rightarrow> limit_slot" where
  "end_window now s = (if window_ended now s then fresh_slot else s)"

definition admit_slot :: "u64 \<Rightarrow> limit_slot \<Rightarrow> bool \<times> limit_slot" where
  "admit_slot now s =
     (let s1 = (if \<not> ls_open s then s\<lparr>ls_open := True, ls_start := now\<rparr> else s)
      in if ls_logged s1 < record_burst then (True, s1\<lparr>ls_logged := ls_logged s1 + 1\<rparr>)
         else (False, s1\<lparr>ls_suppressed := ls_suppressed s1 + 1\<rparr>))"

definition admit_record :: "lobby_kind \<Rightarrow> u64 \<Rightarrow> record_limiter \<Rightarrow> limit_verdict \<times> record_limiter" where
  "admit_record kind now slots =
     (let flushed = (\<lambda>k. if window_ended now (slots k) then ls_suppressed (slots k) else 0);
          slots1 = (\<lambda>k. end_window now (slots k)); (wr, s) = admit_slot now (slots1 kind)
      in (\<lparr>lv_log = wr, lv_flushed = flushed\<rparr>, slots1(kind := s)))"

definition fresh_limiter :: record_limiter where
  "fresh_limiter = (\<lambda>k. fresh_slot)"

subsection \<open>The request an answer takes\<close>

record request_context =
  rc_sent :: bool
  rc_kind :: lobby_kind
  rc_age :: u64
  rc_outstanding :: bool

record request_tracker =
  rt_sent :: bool
  rt_answered :: bool
  rt_kind :: lobby_kind
  rt_at :: u64

definition fresh_tracker :: request_tracker where
  "fresh_tracker = \<lparr>rt_sent = False, rt_answered = False, rt_kind = KFind, rt_at = 0\<rparr>"

definition no_request :: request_context where
  "no_request = \<lparr>rc_sent = False, rc_kind = KFind, rc_age = 0, rc_outstanding = False\<rparr>"

definition track_sent :: "lobby_kind \<Rightarrow> u64 \<Rightarrow> request_tracker \<Rightarrow> request_tracker" where
  "track_sent kind now t = \<lparr>rt_sent = True, rt_answered = False, rt_kind = kind, rt_at = now\<rparr>"

definition track_answer :: "u64 \<Rightarrow> request_tracker \<Rightarrow> request_context \<times> request_tracker" where
  "track_answer now t =
     (if \<not> rt_sent t then (no_request, t)
      else (\<lparr>rc_sent = True, rc_kind = rt_kind t, rc_age = (if now \<ge> rt_at t then now - rt_at t else 0),
             rc_outstanding = \<not> rt_answered t\<rparr>, t\<lparr>rt_answered := True\<rparr>))"

definition is_request :: "lobby_kind \<Rightarrow> bool" where
  "is_request k \<longleftrightarrow> k = KFind \<or> k = KJoin"

record lobby_records =
  lr_limiter :: record_limiter
  lr_tracker :: request_tracker

record lobby_admission =
  la_verdict :: limit_verdict
  la_request :: request_context

definition fresh_records :: lobby_records where
  "fresh_records = \<lparr>lr_limiter = fresh_limiter, lr_tracker = fresh_tracker\<rparr>"

definition records_requested :: "lobby_kind \<Rightarrow> u64 \<Rightarrow> lobby_records \<Rightarrow> lobby_records" where
  "records_requested kind now r = (if is_request kind then r\<lparr>lr_tracker := track_sent kind now (lr_tracker r)\<rparr> else r)"

definition records_admit :: "lobby_kind \<Rightarrow> u64 \<Rightarrow> lobby_records \<Rightarrow> lobby_admission \<times> lobby_records" where
  "records_admit kind now r =
     (let (v, lim) = admit_record kind now (lr_limiter r)
      in if is_request kind
         then (\<lparr>la_verdict = v, la_request = no_request\<rparr>, \<lparr>lr_limiter = lim, lr_tracker = track_sent kind now (lr_tracker r)\<rparr>)
         else let (q, t) = track_answer now (lr_tracker r)
              in (\<lparr>la_verdict = v, la_request = q\<rparr>, \<lparr>lr_limiter = lim, lr_tracker = t\<rparr>))"

definition records_reset :: "lobby_records \<Rightarrow> lobby_records" where
  "records_reset r = fresh_records"


subsection \<open>The record lines\<close>

definition int_text :: "int \<Rightarrow> bytes" where
  "int_text i = (if i < 0 then dash @ decimal (nat (- i)) else decimal (nat i))"

abbreviation word_text :: "u64 \<Rightarrow> bytes" where "word_text w \<equiv> decimal (unat w)"

definition format_request_fields :: "request_context \<Rightarrow> bytes" where
  "format_request_fields q =
     (if \<not> rc_sent q then bytes_of ''last_request=none last_request_age_ms=none request_outstanding=no''
      else bytes_of ''last_request='' @ kind_token (rc_kind q) @ bytes_of '' last_request_age_ms='' @ word_text (rc_age q)
        @ bytes_of '' request_outstanding='' @ bytes_of (if rc_outstanding q then ''yes'' else ''no''))"

definition format_party_fields :: "u64 \<Rightarrow> u64 \<Rightarrow> u64 \<Rightarrow> u64 \<Rightarrow> bytes" where
  "format_party_fields party members owner self =
     (if party = 0 then bytes_of ''party_id=none party_size=0 party_leader=no''
      else let leader = (if owner \<noteq> 0 \<and> self \<noteq> 0 then (if owner = self then ''yes'' else ''no'') else ''unknown'')
      in bytes_of ''party_id='' @ word_text party @ bytes_of '' party_size='' @ word_text members
         @ bytes_of '' party_leader='' @ bytes_of leader)"

definition record_prefix :: bytes where "record_prefix = bytes_of ''[NEVR.WS] ''"

record party_context =
  pc_party :: u64
  pc_members :: u64
  pc_owner :: u64
  pc_self :: u64

definition format_party_context :: "party_context option \<Rightarrow> bytes" where
  "format_party_context c = (case c of
      None \<Rightarrow> bytes_of ''party_id=unknown party_size=unknown party_leader=unknown''
    | Some p \<Rightarrow> format_party_fields (pc_party p) (pc_members p) (pc_owner p) (pc_self p))"

definition format_session_record :: "lobby_message \<Rightarrow> int \<Rightarrow> party_context option \<Rightarrow> request_context \<Rightarrow> bytes" where
  "format_session_record d conn party request =
     (let tail_text = format_party_context party @ bytes_of '' '' @ format_request_fields request in
      if lm_kind d = KSuccess then record_prefix @ bytes_of ''lobby session success conn='' @ int_text conn
        @ bytes_of '' lobby='' @ format_guid (lm_lobby d) @ bytes_of '' group='' @ format_guid (lm_group d) @ bytes_of '' '' @ tail_text
      else if lm_kind d = KFailure then record_prefix @ bytes_of ''lobby session failure conn='' @ int_text conn
        @ bytes_of '' code='' @ decimal (unat (lm_code d)) @ bytes_of '' reason='' @ failure_reason (lm_code d)
        @ bytes_of '' group='' @ format_guid (lm_group d) @ bytes_of '' message_bytes='' @ decimal (lm_message_bytes d)
        @ bytes_of '' '' @ tail_text
      else [])"

definition format_suppressed_notice :: "lobby_kind \<Rightarrow> u64 \<Rightarrow> bytes" where
  "format_suppressed_notice kind n = record_prefix @ bytes_of ''lobby frame records suppressed kind='' @ kind_token kind
     @ bytes_of '' count='' @ word_text n @ bytes_of '' window_ms='' @ word_text window_ms
     @ bytes_of '' limit='' @ decimal record_burst
     @ bytes_of '' (these frames were handled, only their records were not written)''"

definition format_unreadable :: "lobby_kind \<Rightarrow> int \<Rightarrow> u64 \<Rightarrow> bytes" where
  "format_unreadable kind conn n = record_prefix @ bytes_of ''lobby '' @ kind_name kind @ bytes_of '' could not be read conn=''
     @ int_text conn @ bytes_of '' payload_bytes='' @ word_text n"

subsection \<open>Every record is written or counted, and few are written\<close>

fun admit_all :: "record_limiter \<Rightarrow> (lobby_kind \<times> u64) list \<Rightarrow> (lobby_kind \<times> limit_verdict) list \<times> record_limiter" where
  "admit_all r [] = ([], r)"
| "admit_all r ((k, t) # cs) = (let (v, r1) = admit_record k t r; (vs, r2) = admit_all r1 cs in ((k, v) # vs, r2))"

definition asked :: "lobby_kind \<Rightarrow> (lobby_kind \<times> u64) list \<Rightarrow> nat" where
  "asked k cs = length (filter (\<lambda>c. fst c = k) cs)"

definition written :: "lobby_kind \<Rightarrow> (lobby_kind \<times> limit_verdict) list \<Rightarrow> nat" where
  "written k vs = length (filter (\<lambda>c. fst c = k \<and> lv_log (snd c)) vs)"

definition reported :: "lobby_kind \<Rightarrow> (lobby_kind \<times> limit_verdict) list \<Rightarrow> u64" where
  "reported k vs = sum_list (map (\<lambda>c. lv_flushed (snd c) k) vs)"

lemma counts_Cons [simp]:
  "asked k ((j, t) # cs) = (if j = k then 1 else 0) + asked k cs"
  "written k ((j, v) # vs) = (if j = k \<and> lv_log v then 1 else 0) + written k vs"
  "reported k ((j, v) # vs) = lv_flushed v k + reported k vs"
  by (simp_all add: asked_def written_def reported_def)

text \<open>One call, seen from one kind: a count of the records written, the reported ones and the pending ones.\<close>

lemma admit_record_slot:
  assumes "admit_record j t r = (v, r1)"
  shows "lv_flushed v k + ls_suppressed (r1 k) + (if j = k \<and> lv_log v then 1 else 0) = ls_suppressed (r k) + (if j = k then 1 else 0)"
    and "r1 k = (if j = k then snd (admit_slot t (end_window t (r k))) else end_window t (r k))"
    and "j = k \<Longrightarrow> lv_log v \<longleftrightarrow> fst (admit_slot t (end_window t (r k)))"
  using assms by (auto simp: admit_record_def admit_slot_def end_window_def fresh_slot_def Let_def split: if_splits)

lemma count_step:
  fixes f s0 s1 a x u w :: u64
  assumes "f + s1 + x = s0 + a" "u + s1 = w"
  shows "a + u + s0 = x + f + w"
proof -
  have "a + u + s0 = u + (s0 + a)" by (simp add: ac_simps)
  also have "\<dots> = x + f + (u + s1)" unfolding assms(1) [symmetric] by (simp add: ac_simps)
  finally show ?thesis using assms(2) by simp
qed

lemma admit_all_counted:
  "word_of_nat (asked k cs) + ls_suppressed (r k)
     = word_of_nat (written k (fst (admit_all r cs))) + reported k (fst (admit_all r cs)) + ls_suppressed (snd (admit_all r cs) k)"
proof (induction cs arbitrary: r)
  case Nil
  then show ?case by (simp add: asked_def written_def reported_def)
next
  case (Cons c cs)
  obtain j t where c: "c = (j, t)" by fastforce
  obtain v r1 where v: "admit_record j t r = (v, r1)" by fastforce
  obtain vs r2 where vs: "admit_all r1 cs = (vs, r2)" by fastforce
  show ?case using count_step [OF admit_record_slot(1) [OF v, of k] Cons.IH [of r1]]
    by (simp add: c v vs ac_simps split: if_splits)
qed


text \<open>
  From a fresh limiter at time \<open>first\<close>: each window that has ended took ten seconds, and in none were more than ten records
  written. \<open>w\<close> counts the ended windows of a kind and \<open>n\<close> its records.
\<close>

definition limit_inv :: "nat \<Rightarrow> u64 \<Rightarrow> nat \<Rightarrow> limit_slot \<Rightarrow> bool" where
  "limit_inv start now n s \<longleftrightarrow> ls_logged s \<le> record_burst \<and> (\<exists>w. n \<le> record_burst * w + ls_logged s \<and>
     (if ls_open s then start + 10000 * w \<le> unat (ls_start s) \<and> ls_start s \<le> now
      else ls_logged s = 0 \<and> start + 10000 * w \<le> unat now))"

lemma limit_inv_later: "limit_inv start now n s \<Longrightarrow> now \<le> later \<Longrightarrow> limit_inv start later n s"
  unfolding limit_inv_def word_le_nat_alt by (auto split: if_splits intro: order_trans)

lemma limit_inv_end:
  assumes "limit_inv start now n s"
  shows "limit_inv start now n (end_window now s)"
proof (cases "window_ended now s")
  case True
  then obtain w where w: "n \<le> record_burst * w + ls_logged s" "ls_logged s \<le> record_burst" "start + 10000 * w \<le> unat (ls_start s)"
    "ls_start s \<le> now" using assms by (auto simp: limit_inv_def window_ended_def)
  have "10000 \<le> unat (now - ls_start s)" using True by (simp add: window_ended_def window_ms_def word_le_nat_alt)
  then have "start + 10000 * (w + 1) \<le> unat now"
    using w(3,4) by (simp add: unat_sub_if' word_le_nat_alt)
  moreover have "n \<le> record_burst * (w + 1)" using w(1,2) by simp
  ultimately show ?thesis using True by (auto simp: limit_inv_def end_window_def fresh_slot_def intro!: exI [of _ "w + 1"])
qed (use assms in \<open>simp add: end_window_def\<close>)

lemma limit_inv_admit:
  assumes "limit_inv start now n s" "admit_slot now s = (wr, s1)"
  shows "limit_inv start now (if wr then n + 1 else n) s1"
  using assms by (auto simp: limit_inv_def admit_slot_def Let_def split: if_splits)

lemma admit_all_limited:
  "sorted (map (unat \<circ> snd) cs) \<Longrightarrow> limit_inv start now n (r k) \<Longrightarrow> \<forall>c\<in>set cs. now \<le> snd c \<Longrightarrow>
    limit_inv start (if cs = [] then now else snd (last cs)) (n + written k (fst (admit_all r cs))) (snd (admit_all r cs) k)"
proof (induction cs arbitrary: r now n)
  case Nil
  then show ?case by (simp add: written_def)
next
  case (Cons c cs)
  obtain j t where c: "c = (j, t)" by fastforce
  obtain v r1 where v: "admit_record j t r = (v, r1)" by fastforce
  obtain vs r2 where vs: "admit_all r1 cs = (vs, r2)" by fastforce
  have "now \<le> t" using Cons.prems(3) c by simp
  note e = limit_inv_end [OF limit_inv_later [OF Cons.prems(2) this]]
  have "limit_inv start t (n + (if j = k \<and> lv_log v then 1 else 0)) (r1 k)"
    using e limit_inv_admit [OF e, of "fst (admit_slot t (end_window t (r k)))" "snd (admit_slot t (end_window t (r k)))"]
      admit_record_slot(2,3) [OF v, of k] by (auto split: if_splits)
  from Cons.IH [where r = r1, OF _ this] Cons.prems(1) show ?case
    by (auto simp: c v vs word_le_nat_alt ac_simps split: if_splits)
qed

lemma limit_inv_total:
  assumes "limit_inv start now n s"
  shows "\<exists>w. n \<le> 10 * w + 10 \<and> start + 10000 * w \<le> unat now"
proof -
  from assms obtain w where w: "ls_logged s \<le> 10" "n \<le> 10 * w + ls_logged s"
    "if ls_open s then start + 10000 * w \<le> unat (ls_start s) \<and> unat (ls_start s) \<le> unat now
      else ls_logged s = 0 \<and> start + 10000 * w \<le> unat now"
    unfolding limit_inv_def record_burst_def word_le_nat_alt by blast
  then have "n \<le> 10 * w + 10 \<and> start + 10000 * w \<le> unat now" by (cases "ls_open s") auto
  then show ?thesis ..
qed



end
