(* ===== verification/Data_Files.thy ===== *)
theory Data_Files
  imports Zip_Archive Sha256 "HOL-Library.List_Lexorder"
begin

section \<open>The calls on the file system\<close>

text \<open>
  The data step (\<^verbatim>\<open>src/quest/data/staging.cpp\<close>, \<^verbatim>\<open>fetch.cpp\<close>, \<^verbatim>\<open>pack.cpp\<close>) works through POSIX calls. They are a
  parameter: a world of any type and one function per call. What a call promises is stated over the tree of entries a world
  holds (\<open>posix_laws\<close>): a call that fails changes nothing (the removal of a tree may have removed some of it), and any
  call may fail. A process that is killed is therefore covered: from that point on every call fails.
  A path is physical, that is no directory on it is a link.
\<close>

subsection \<open>The tree of entries\<close>

datatype node = Dir | File bytes | Link

type_synonym tree = "bytes \<Rightarrow> node option"

definition beneath :: "bytes \<Rightarrow> bytes \<Rightarrow> bool" where
  "beneath p q \<longleftrightarrow> take (length p) q = p \<and> (length q = length p \<or> q ! length p = slash)"

lemma beneath_iff: "beneath p q \<longleftrightarrow> q = p \<or> (\<exists>r. q = p @ slash # r)"
proof
  assume u: "beneath p q"
  then have q: "q = p @ drop (length p) q" unfolding beneath_def by (metis append_take_drop_id)
  show "q = p \<or> (\<exists>r. q = p @ slash # r)"
  proof (cases "drop (length p) q")
    case (Cons c r)
    then have "q ! length p = c" using q by (metis nth_append_length)
    moreover have "length q \<noteq> length p" using Cons by (auto simp: drop_eq_Nil)
    ultimately show ?thesis using u q Cons by (auto simp: beneath_def)
  qed (use q in simp)
qed (auto simp: beneath_def)

lemma beneath_refl [simp]: "beneath p p"
  by (simp add: beneath_def)

lemma beneath_trans: "beneath a b \<Longrightarrow> beneath b c \<Longrightarrow> beneath a c"
  by (auto simp: beneath_iff)

text \<open>What is below a path, by what follows the path.\<close>

definition subtree :: "tree \<Rightarrow> bytes \<Rightarrow> tree" where
  "subtree t p = (\<lambda>r. if r = [] \<or> hd r = slash then t (p @ r) else None)"

definition moved :: "bytes \<Rightarrow> bytes \<Rightarrow> tree \<Rightarrow> tree" where
  "moved a b t = (\<lambda>q. if beneath b q then t (a @ drop (length b) q) else if beneath a q then None else t q)"

definition replaceable :: "tree \<Rightarrow> bytes \<Rightarrow> bytes \<Rightarrow> bool" where
  "replaceable t a b \<longleftrightarrow> t a \<noteq> None \<and> (case t b of
      None \<Rightarrow> True
    | Some Dir \<Rightarrow> t a = Some Dir \<and> (\<forall>q. beneath b q \<and> q \<noteq> b \<longrightarrow> t q = None)
    | Some _ \<Rightarrow> t a \<noteq> Some Dir)"

definition apart :: "bytes \<Rightarrow> bytes \<Rightarrow> bool" where
  "apart p q \<longleftrightarrow> \<not> beneath p q \<and> \<not> beneath q p"

lemma apart_sym: "apart p q \<Longrightarrow> apart q p"
  by (simp add: apart_def)

lemma beneath_two: "beneath a q \<Longrightarrow> beneath b q \<Longrightarrow> beneath a b \<or> beneath b a"
  by (auto simp: beneath_iff append_eq_append_conv2 Cons_eq_append_conv append_eq_Cons_conv)

lemma apart_beneath: "apart p q \<Longrightarrow> beneath p r \<Longrightarrow> \<not> beneath q r"
  using beneath_two by (auto simp: apart_def)

lemma subtree_beneath: "beneath p (p @ r) \<longleftrightarrow> r = [] \<or> hd r = slash"
  by (cases r) (auto simp: beneath_iff)

lemma subtree_cong: "(\<And>q. beneath p q \<Longrightarrow> t q = u q) \<Longrightarrow> subtree t p = subtree u p"
  by (auto simp: subtree_def subtree_beneath)

lemma subtree_eq_iff: "subtree t p = subtree u p \<longleftrightarrow> (\<forall>q. beneath p q \<longrightarrow> t q = u q)"
proof
  assume e: "subtree t p = subtree u p"
  show "\<forall>q. beneath p q \<longrightarrow> t q = u q"
  proof (intro allI impI)
    fix q assume u: "beneath p q"
    then obtain r where "q = p @ r" "r = [] \<or> hd r = slash" by (auto simp: beneath_iff)
    then show "t q = u q" using fun_cong [OF e, of r] by (auto simp: subtree_def)
  qed
qed (rule subtree_cong, blast)

lemma subtree_moved: "subtree (moved a b t) b = subtree t a"
  by (rule ext) (auto simp: subtree_def moved_def subtree_beneath)

lemma moved_apart: "apart a q \<Longrightarrow> apart b q \<Longrightarrow> beneath q r \<Longrightarrow> moved a b t r = t r"
  using apart_beneath [of q a r] apart_beneath [of q b r] by (auto simp: moved_def apart_sym)

lemma subtree_moved_apart: "apart a p \<Longrightarrow> apart b p \<Longrightarrow> subtree (moved a b t) p = subtree t p"
  by (rule subtree_cong) (rule moved_apart)

lemma moved_source: "apart a b \<Longrightarrow> beneath a q \<Longrightarrow> moved a b t q = None"
  using apart_beneath by (auto simp: moved_def)

lemma subtree_moved_source: "apart a b \<Longrightarrow> subtree (moved a b t) a = (\<lambda>_. None)"
  by (rule ext) (use moved_source in \<open>auto simp: subtree_def subtree_beneath\<close>)

text \<open>Siblings are apart.\<close>

lemma siblings_apart:
  assumes "n \<noteq> m" "slash \<notin> set n" "slash \<notin> set m"
  shows "apart (d @ slash # n) (d @ slash # m)"
proof -
  have "\<not> beneath (d @ slash # a) (d @ slash # b)" if "a \<noteq> b" "slash \<notin> set b" for a b
    using that by (auto simp: beneath_iff)
  then show ?thesis using assms by (auto simp: apart_def)
qed

subsection \<open>The calls\<close>

datatype stat_result = StDir | StFile nat | StLink | StNone | StError

datatype create_result = CrMade | CrExists | CrFails

record 'w posix =
  px_lstat :: "bytes \<Rightarrow> 'w \<Rightarrow> stat_result"              \<comment> \<open>\<open>StNone\<close> is \<^verbatim>\<open>ENOENT\<close>\<close>
  px_rename :: "bytes \<Rightarrow> bytes \<Rightarrow> 'w \<Rightarrow> bool \<times> 'w"
  px_unlink :: "bytes \<Rightarrow> 'w \<Rightarrow> bool \<times> 'w"
  px_nftw :: "bytes \<Rightarrow> 'w \<Rightarrow> bool \<times> 'w"                \<comment> \<open>\<^verbatim>\<open>remove\<close> on every entry, children first, no link followed\<close>
  px_create :: "bytes \<Rightarrow> 'w \<Rightarrow> create_result \<times> 'w"     \<comment> \<open>\<^verbatim>\<open>O_CREAT | O_EXCL | O_NOFOLLOW\<close>\<close>
  px_fsync :: "bytes \<Rightarrow> 'w \<Rightarrow> bool \<times> 'w"
  px_sync_dir :: "bytes \<Rightarrow> 'w \<Rightarrow> bool \<times> 'w"            \<comment> \<open>\<^verbatim>\<open>open\<close> with \<^verbatim>\<open>O_DIRECTORY\<close>, then \<^verbatim>\<open>fsync\<close>\<close>
  px_list :: "bytes \<Rightarrow> 'w \<Rightarrow> bytes list"               \<comment> \<open>\<^verbatim>\<open>opendir\<close> and \<^verbatim>\<open>readdir\<close>; nothing when it cannot be opened\<close>
  px_statvfs :: "bytes \<Rightarrow> 'w \<Rightarrow> (u64 \<times> u64) option"     \<comment> \<open>\<^verbatim>\<open>f_bavail\<close> and \<^verbatim>\<open>f_frsize\<close>\<close>

definition stat_of :: "node option \<Rightarrow> stat_result" where
  "stat_of n = (case n of None \<Rightarrow> StNone | Some Dir \<Rightarrow> StDir | Some (File bs) \<Rightarrow> StFile (length bs) | Some Link \<Rightarrow> StLink)"

lemma stat_of_eq [simp]:
  "stat_of n = StNone \<longleftrightarrow> n = None"
  "stat_of n = StDir \<longleftrightarrow> n = Some Dir"
  "stat_of n = StFile 0 \<longleftrightarrow> n = Some (File [])"
  "stat_of n \<noteq> StError"
  by (auto simp: stat_of_def split: option.splits node.splits)

definition lstat_law :: "stat_result \<Rightarrow> node option \<Rightarrow> bool" where
  "lstat_law r n \<longleftrightarrow> r = StError \<or> r = stat_of n"

definition rename_law :: "bytes \<Rightarrow> bytes \<Rightarrow> bool \<Rightarrow> tree \<Rightarrow> tree \<Rightarrow> bool" where
  "rename_law a b ok t t1 \<longleftrightarrow> (if ok then replaceable t a b \<and> t1 = moved a b t else t1 = t)"

definition unlink_law :: "bytes \<Rightarrow> bool \<Rightarrow> tree \<Rightarrow> tree \<Rightarrow> bool" where
  "unlink_law p ok t t1 \<longleftrightarrow> (if ok then t p \<noteq> None \<and> t p \<noteq> Some Dir \<and> t1 = t(p := None) else t1 = t)"

definition nftw_law :: "bytes \<Rightarrow> bool \<Rightarrow> tree \<Rightarrow> tree \<Rightarrow> bool" where
  "nftw_law p ok t t1 \<longleftrightarrow> (\<forall>q. t1 q = t q \<or> beneath p q \<and> t1 q = None) \<and> (ok \<longrightarrow> (\<forall>q. beneath p q \<longrightarrow> t1 q = None))"

definition create_law :: "bytes \<Rightarrow> create_result \<Rightarrow> tree \<Rightarrow> tree \<Rightarrow> bool" where
  "create_law p r t t1 \<longleftrightarrow> (case r of
      CrMade \<Rightarrow> t p = None \<and> t1 = t(p := Some (File []))
    | CrExists \<Rightarrow> t p \<noteq> None \<and> t1 = t
    | CrFails \<Rightarrow> t1 = t)"

definition posix_laws :: "('w, 'm) posix_scheme \<Rightarrow> ('w \<Rightarrow> tree) \<Rightarrow> bool" where
  "posix_laws px view \<longleftrightarrow> (\<forall>w p.
     lstat_law (px_lstat px p w) (view w p)
   \<and> (\<forall>b ok w1. px_rename px p b w = (ok, w1) \<longrightarrow> rename_law p b ok (view w) (view w1))
   \<and> (\<forall>ok w1. px_unlink px p w = (ok, w1) \<longrightarrow> unlink_law p ok (view w) (view w1))
   \<and> (\<forall>ok w1. px_nftw px p w = (ok, w1) \<longrightarrow> nftw_law p ok (view w) (view w1))
   \<and> (\<forall>r w1. px_create px p w = (r, w1) \<longrightarrow> create_law p r (view w) (view w1))
   \<and> (\<forall>ok w1. px_fsync px p w = (ok, w1) \<longrightarrow> view w1 = view w)
   \<and> (\<forall>ok w1. px_sync_dir px p w = (ok, w1) \<longrightarrow> view w1 = view w)
   \<and> (\<forall>n\<in>set (px_list px p w). slash \<notin> set n))"

text \<open>Reads that do not fail: what exists is found and listed.\<close>

definition posix_sees :: "('w, 'm) posix_scheme \<Rightarrow> ('w \<Rightarrow> tree) \<Rightarrow> bool" where
  "posix_sees px view \<longleftrightarrow> posix_laws px view \<and> (\<forall>w p. px_lstat px p w = stat_of (view w p)
     \<and> (\<forall>n. slash \<notin> set n \<and> n \<noteq> [] \<and> view w (p @ slash # n) \<noteq> None \<longrightarrow> n \<in> set (px_list px p w)))"

text \<open>A device that works: besides, a rename to a free name succeeds.\<close>

definition posix_works :: "('w, 'm) posix_scheme \<Rightarrow> ('w \<Rightarrow> tree) \<Rightarrow> bool" where
  "posix_works px view \<longleftrightarrow> posix_sees px view
     \<and> (\<forall>w a b. apart a b \<and> view w a \<noteq> None \<and> view w b = None \<longrightarrow> fst (px_rename px a b w))"

lemma posix_lawsD:
  assumes "posix_laws px view"
  shows "lstat_law (px_lstat px p w) (view w p)"
    "px_rename px p b w = (ok, w1) \<Longrightarrow> rename_law p b ok (view w) (view w1)"
    "px_unlink px p w = (ok, w1) \<Longrightarrow> unlink_law p ok (view w) (view w1)"
    "px_nftw px p w = (ok, w1) \<Longrightarrow> nftw_law p ok (view w) (view w1)"
    "px_create px p w = (r, w1) \<Longrightarrow> create_law p r (view w) (view w1)"
    "px_fsync px p w = (ok, w1) \<Longrightarrow> view w1 = view w"
    "px_sync_dir px p w = (ok, w1) \<Longrightarrow> view w1 = view w"
    "n \<in> set (px_list px p w) \<Longrightarrow> slash \<notin> set n"
  using assms [unfolded posix_laws_def, rule_format, of p w] by blast+

lemmas laws_lstat = posix_lawsD(1) and laws_rename = posix_lawsD(2) and laws_unlink = posix_lawsD(3)
  and laws_nftw = posix_lawsD(4) and laws_create = posix_lawsD(5) and laws_sync = posix_lawsD(6,7)
  and laws_list = posix_lawsD(8)

end
