(* ===== verification/Data_Disk.thy ===== *)
theory Data_Disk
  imports Data_Files
begin

section \<open>A disk in memory, and a process that is killed\<close>

text \<open>
  A concrete world for the calls of \<open>posix\<close>: the entries of a disk, and how many more changes the process lives to make.
  It shows that the laws can hold. \<open>disk True\<close> is the device seen by a process that dies when its changes are used up,
  \<open>disk False\<close> by one that lives.
\<close>

record disk =
  d_life :: nat
  d_known :: "bytes list"
  d_tree :: tree

definition disk_view :: "disk \<Rightarrow> tree" where
  "disk_view d = (\<lambda>q. if q \<in> set (d_known d) then d_tree d q else None)"

definition put_view :: "bytes list \<Rightarrow> tree \<Rightarrow> disk \<Rightarrow> disk" where
  "put_view ks t d = d\<lparr>d_known := ks, d_tree := t\<rparr>"

definition change :: "bool \<Rightarrow> bool \<Rightarrow> disk \<Rightarrow> disk \<Rightarrow> bool \<times> disk" where
  "change mortal allowed d d1 =
     (if allowed \<and> (mortal \<longrightarrow> d_life d > 0) then (True, d1\<lparr>d_life := d_life d - 1\<rparr>) else (False, d))"

definition disk_rename :: "bool \<Rightarrow> bytes \<Rightarrow> bytes \<Rightarrow> disk \<Rightarrow> bool \<times> disk" where
  "disk_rename mortal a b d = change mortal
     (disk_view d a \<noteq> None \<and> (case disk_view d b of None \<Rightarrow> True | Some Dir \<Rightarrow> False | Some _ \<Rightarrow> disk_view d a \<noteq> Some Dir)) d
     (put_view (d_known d @ map (\<lambda>q. b @ drop (length a) q) (d_known d)) (moved a b (disk_view d)) d)"

definition disk_unlink :: "bool \<Rightarrow> bytes \<Rightarrow> disk \<Rightarrow> bool \<times> disk" where
  "disk_unlink mortal p d = change mortal (disk_view d p \<noteq> None \<and> disk_view d p \<noteq> Some Dir) d
     (put_view (d_known d) ((d_tree d)(p := None)) d)"

definition disk_nftw :: "bool \<Rightarrow> bytes \<Rightarrow> disk \<Rightarrow> bool \<times> disk" where
  "disk_nftw mortal p d = change mortal True d (put_view (filter (\<lambda>q. \<not> beneath p q) (d_known d)) (d_tree d) d)"

definition disk_create :: "bool \<Rightarrow> bytes \<Rightarrow> disk \<Rightarrow> create_result \<times> disk" where
  "disk_create mortal p d =
     (if disk_view d p \<noteq> None then (CrExists, d)
      else let (ok, d1) = change mortal True d (put_view (p # d_known d) ((disk_view d)(p := Some (File []))) d)
           in (if ok then CrMade else CrFails, d1))"

definition disk_list :: "bytes \<Rightarrow> disk \<Rightarrow> bytes list" where
  "disk_list p d = filter (\<lambda>n. slash \<notin> set n \<and> disk_view d (p @ slash # n) \<noteq> None) (map (drop (length p + 1)) (d_known d))"

definition disk :: "bool \<Rightarrow> disk posix" where
  "disk mortal = \<lparr>px_lstat = (\<lambda>p d. stat_of (disk_view d p)), px_rename = disk_rename mortal, px_unlink = disk_unlink mortal,
     px_nftw = disk_nftw mortal, px_create = disk_create mortal, px_fsync = (\<lambda>p d. (True, d)), px_sync_dir = (\<lambda>p d. (True, d)),
     px_list = disk_list, px_statvfs = (\<lambda>p d. Some (0, 0))\<rparr>"

lemma disk_view_put [simp]:
  "disk_view (put_view ks t d) = (\<lambda>q. if q \<in> set ks then t q else None)"
  "disk_view (d\<lparr>d_life := n\<rparr>) = disk_view d"
  by (auto simp: disk_view_def put_view_def)

lemma moved_known:
  "(\<lambda>q. if q \<in> set (d_known d @ map (\<lambda>q. b @ drop (length a) q) (d_known d)) then moved a b (disk_view d) q else None)
    = moved a b (disk_view d)"
proof (rule ext)
  fix q
  have "q \<in> (\<lambda>q. b @ drop (length a) q) ` set (d_known d)"
    if "beneath b q" "a @ drop (length b) q \<in> set (d_known d)"
    using that by (intro image_eqI [of _ _ "a @ drop (length b) q"]) (auto simp: beneath_iff)
  then show "(if q \<in> set (d_known d @ map (\<lambda>q. b @ drop (length a) q) (d_known d)) then moved a b (disk_view d) q else None)
      = moved a b (disk_view d) q"
    by (auto simp: moved_def disk_view_def)
qed

lemma disk_laws: "posix_laws (disk mortal) disk_view"
  unfolding posix_laws_def
proof (intro allI conjI ballI impI)
  fix w p
  show "lstat_law (px_lstat (disk mortal) p w) (disk_view w p)" by (simp add: lstat_law_def disk_def)
  show "rename_law p b ok (disk_view w) (disk_view w1)" if "px_rename (disk mortal) p b w = (ok, w1)" for b ok w1
    using that by (auto simp: rename_law_def disk_def disk_rename_def change_def moved_known replaceable_def
        simp del: set_append set_map split: if_splits option.splits node.splits)
  show "unlink_law p ok (disk_view w) (disk_view w1)" if "px_unlink (disk mortal) p w = (ok, w1)" for ok w1
    using that by (auto simp: unlink_law_def disk_def disk_unlink_def change_def disk_view_def put_view_def split: if_splits)
  show "nftw_law p ok (disk_view w) (disk_view w1)" if "px_nftw (disk mortal) p w = (ok, w1)" for ok w1
    using that by (auto simp: nftw_law_def disk_def disk_nftw_def change_def disk_view_def put_view_def split: if_splits)
  show "create_law p r (disk_view w) (disk_view w1)" if "px_create (disk mortal) p w = (r, w1)" for r w1
    using that by (auto simp: create_law_def disk_def disk_create_def change_def disk_view_def put_view_def Let_def split: if_splits)
  show "disk_view w1 = disk_view w" if "px_fsync (disk mortal) p w = (ok, w1)" for ok w1 using that by (simp add: disk_def)
  show "disk_view w1 = disk_view w" if "px_sync_dir (disk mortal) p w = (ok, w1)" for ok w1 using that by (simp add: disk_def)
  show "slash \<notin> set n" if "n \<in> set (px_list (disk mortal) p w)" for n using that by (simp add: disk_def disk_list_def)
qed

lemma disk_sees: "posix_sees (disk mortal) disk_view"
proof -
  have "n \<in> drop (Suc (length p)) ` set (d_known d)" if "disk_view d (p @ slash # n) \<noteq> None" for p n d
    using that by (intro image_eqI [of _ _ "p @ slash # n"]) (auto simp: disk_view_def split: if_splits)
  then show ?thesis using disk_laws by (auto simp: posix_sees_def disk_def disk_list_def)
qed

lemma disk_works: "posix_works (disk False) disk_view"
  using disk_sees by (simp add: posix_works_def disk_def disk_rename_def change_def)

end
