(* ===== verification/Data_Swap.thy ===== *)
theory Data_Swap
  imports Data_Staging Data_Disk
begin

section \<open>The data survives the swap\<close>

text \<open>
  What the renames of \<^verbatim>\<open>InstallStaged\<close> and \<^verbatim>\<open>RecoverReplaced\<close> do to the trees of the old and the new data. Calls may
  fail anywhere, so a process killed at any point is one of the runs.
\<close>

subsection \<open>Siblings in the data root\<close>

named_theorems name_defs

lemmas [name_defs] = data_name_def part_name_def staging_prefix_def replaced_prefix_def owner_suffix_def slash_def bytes_of_def

lemma file_in_apart: "n \<noteq> m \<Longrightarrow> slash \<notin> set n \<Longrightarrow> slash \<notin> set m \<Longrightarrow> apart (file_in d n) (file_in d m)"
  unfolding file_in_def by (rule siblings_apart)

lemma file_in_inject [simp]: "file_in d n = file_in d m \<longleftrightarrow> n = m"
  by (simp add: file_in_def)

lemma owner_marker_file_in: "owner_marker (file_in d n) = file_in d (n @ owner_suffix)"
  by (simp add: owner_marker_def file_in_def)

lemma no_slash_names [simp]:
  "slash \<notin> set data_name" "slash \<notin> set part_name" "slash \<notin> set staging_prefix" "slash \<notin> set replaced_prefix" "slash \<notin> set owner_suffix"
  by (simp_all add: name_defs)

lemma names_differ [simp]:
  "data_name \<noteq> staging_prefix @ x" "data_name \<noteq> replaced_prefix @ x" "staging_prefix @ x \<noteq> replaced_prefix @ y"
  "data_name \<noteq> part_name" "part_name \<noteq> staging_prefix @ x" "part_name \<noteq> replaced_prefix @ x"
  by (simp_all add: name_defs)

lemma suffixed_differ [simp]: "n @ owner_suffix \<noteq> n"
  by (simp add: name_defs)

lemma data_not_marker [simp]: "data_name \<noteq> x @ owner_suffix"
proof
  assume "data_name = x @ owner_suffix"
  from arg_cong [OF this, of length] show False by (simp add: name_defs)
qed

lemma apart_neq: "apart p q \<Longrightarrow> p \<noteq> q"
  by (auto simp: apart_def)

text \<open>A change at one path only.\<close>

definition only_at :: "bytes \<Rightarrow> tree \<Rightarrow> tree \<Rightarrow> bool" where
  "only_at m t u \<longleftrightarrow> (\<forall>q. q \<noteq> m \<longrightarrow> u q = t q)"

lemma only_at_refl [simp]: "only_at m t t"
  by (simp add: only_at_def)

lemma only_at_subtree: "only_at m t u \<Longrightarrow> apart m p \<Longrightarrow> subtree u p = subtree t p"
  by (rule subtree_cong) (auto simp: only_at_def apart_def)

lemma only_at_apart: "only_at m t u \<Longrightarrow> apart m p \<Longrightarrow> u p = t p"
  by (metis apart_neq only_at_def)

lemma unlink_only_at: "posix_laws px view \<Longrightarrow> only_at p (view w) (view (snd (px_unlink px p w)))"
  using laws_unlink [of px view p w] by (cases "px_unlink px p w") (auto simp: unlink_law_def only_at_def split: if_splits)

lemma sync_view [simp]: "posix_laws px view \<Longrightarrow> view (snd (px_sync_dir px p w)) = view w"
  using laws_sync(2) [of px view p w] by (cases "px_sync_dir px p w") auto

lemma fsync_view [simp]: "posix_laws px view \<Longrightarrow> view (snd (px_fsync px p w)) = view w"
  using laws_sync(1) [of px view p w] by (cases "px_fsync px p w") auto

lemma lstat_known: "posix_laws px view \<Longrightarrow> px_lstat px p w = s \<Longrightarrow> s \<noteq> StError \<Longrightarrow> stat_of (view w p) = s"
  using laws_lstat [of px view p w] by (auto simp: lstat_law_def)

lemma is_marker_view: "posix_laws px view \<Longrightarrow> is_marker_file px p w \<Longrightarrow> view w p = Some (File [])"
  unfolding is_marker_file_def by (drule lstat_known, assumption) simp_all

lemma is_owned_view: "posix_laws px view \<Longrightarrow> is_owned px item w \<Longrightarrow> view w (owner_marker item) = Some (File [])"
  by (simp add: is_owned_def is_marker_view)

lemma mark_owned_view:
  assumes laws: "posix_laws px view" and "mark_owned px item w = (ok, w1)"
  shows "only_at (owner_marker item) (view w) (view w1)" "ok \<Longrightarrow> view w1 (owner_marker item) = Some (File [])"
proof -
  obtain r w2 where c: "px_create px (owner_marker item) w = (r, w2)" by fastforce
  note cl = laws_create [OF laws c]
  have "only_at (owner_marker item) (view w) (view w1) \<and> (ok \<longrightarrow> view w1 (owner_marker item) = Some (File []))"
  proof (cases r)
    case CrMade
    obtain s w3 where f: "px_fsync px (owner_marker item) w2 = (s, w3)" by fastforce
    have "view w1 = view w2"
      using assms(2) laws_sync(1) [OF laws f] laws_sync(2) [OF laws, of "dir_of (owner_marker item)" w3]
      by (cases "px_sync_dir px (dir_of (owner_marker item)) w3") (auto simp: mark_owned_def Let_def c f CrMade split: if_splits)
    with cl show ?thesis by (auto simp: create_law_def CrMade only_at_def)
  next
    case CrExists
    then show ?thesis using assms(2) cl is_marker_view [OF laws, of "owner_marker item" w2]
      by (auto simp: mark_owned_def c create_law_def)
  qed (use assms(2) cl in \<open>auto simp: mark_owned_def c create_law_def\<close>)
  then show "only_at (owner_marker item) (view w) (view w1)" "ok \<Longrightarrow> view w1 (owner_marker item) = Some (File [])" by blast+
qed

subsection \<open>The swap\<close>

text \<open>The data is where the game looks for it, or it is aside, recognisable by its marker, with its place free.\<close>

definition data_aside :: "bytes \<Rightarrow> bytes \<Rightarrow> tree \<Rightarrow> tree \<Rightarrow> bool" where
  "data_aside root stamp old t \<longleftrightarrow> subtree t (file_in root data_name) = (\<lambda>_. None)
     \<and> subtree t (aside_path root stamp) = old \<and> t (owner_marker (aside_path root stamp)) = Some (File [])"

definition data_kept :: "bytes \<Rightarrow> bytes \<Rightarrow> tree \<Rightarrow> tree \<Rightarrow> bool" where
  "data_kept root stamp old t \<longleftrightarrow> subtree t (file_in root data_name) = old \<or> data_aside root stamp old t"

definition swapped :: "bytes \<Rightarrow> bytes \<Rightarrow> tree \<Rightarrow> tree \<Rightarrow> stage_status \<Rightarrow> bytes \<Rightarrow> tree \<Rightarrow> bool" where
  "swapped root stamp old new st replaced t \<longleftrightarrow>
     (if st = StageOk then subtree t (file_in root data_name) = new
        \<and> (replaced = [] \<or> replaced = aside_path root stamp \<and> subtree t (aside_path root stamp) = old)
      else data_kept root stamp old t)"

lemma put_in_place_fresh:
  assumes laws: "posix_laws px view" and "slash \<notin> set x"
    and "put_in_place px root (file_in root (staging_prefix @ x)) None w = (st, replaced, w1)"
  shows "swapped root stamp (subtree (view w) (file_in root data_name)) (subtree (view w) (file_in root (staging_prefix @ x)))
    st replaced (view w1)"
proof -
  let ?s = "file_in root (staging_prefix @ x)" and ?d = "file_in root data_name"
  obtain ok w2 where r: "px_rename px ?s ?d w = (ok, w2)" by fastforce
  note rl = laws_rename [OF laws r]
  have ap: "apart (owner_marker ?s) ?d" using assms(2) by (auto simp: owner_marker_file_in intro!: file_in_apart dest: sym)
  show ?thesis
  proof (cases ok)
    case True
    have "subtree (view w1) ?d = subtree (view w2) ?d"
      using assms(3) only_at_subtree [OF unlink_only_at [OF laws] ap] laws by (auto simp: put_in_place_def r True Let_def)
    then show ?thesis using rl True assms(3)
      by (auto simp: swapped_def rename_law_def subtree_moved put_in_place_def r Let_def)
  qed (use rl assms(3) in \<open>auto simp: swapped_def data_kept_def rename_law_def put_in_place_def r Let_def\<close>)
qed

lemma put_in_place_back:
  assumes laws: "posix_laws px view" and x: "slash \<notin> set x" "slash \<notin> set stamp"
    and aside: "data_aside root stamp old (view w)"
    and put: "put_in_place px root (file_in root (staging_prefix @ x)) (Some (aside_path root stamp, marked)) w = (st, replaced, w1)"
  shows "swapped root stamp old (subtree (view w) (file_in root (staging_prefix @ x))) st replaced (view w1)"
proof -
  let ?s = "file_in root (staging_prefix @ x)" and ?d = "file_in root data_name" and ?a = "aside_path root stamp"
  have ap: "apart (owner_marker ?s) ?d" "apart (owner_marker ?a) ?d" "apart ?a ?d" "apart ?s ?a" "apart ?d ?a" "apart (owner_marker ?s) ?a"
    using x by (auto simp: owner_marker_file_in aside_path_def intro!: file_in_apart dest: sym)
  obtain ok w2 where r: "px_rename px ?s ?d w = (ok, w2)" by fastforce
  note rl = laws_rename [OF laws r]
  show ?thesis
  proof (cases ok)
    case True
    have "subtree (view w1) p = subtree (view w2) p" if "p = ?d \<or> p = ?a" for p
      using that put only_at_subtree [OF unlink_only_at [OF laws], of "owner_marker ?s" p] ap laws
      by (auto simp: put_in_place_def r True Let_def)
    moreover have "subtree (view w2) ?d = subtree (view w) ?s" "subtree (view w2) ?a = old"
      using rl True aside by (auto simp: rename_law_def subtree_moved subtree_moved_apart ap data_aside_def)
    ultimately show ?thesis using put by (auto simp: swapped_def put_in_place_def r True Let_def)
  next
    case False
    have w2: "view w2 = view w" using rl False by (simp add: rename_law_def)
    obtain undone w3 where b: "px_rename px ?a ?d w2 = (undone, w3)" by fastforce
    note bl = laws_rename [OF laws b]
    show ?thesis
    proof (cases undone)
      case True
      have "subtree (view w1) ?d = subtree (view w3) ?d"
        using put False only_at_subtree [OF unlink_only_at [OF laws] ap(2)] laws
        by (auto simp: put_in_place_def r b True Let_def)
      moreover have "subtree (view w3) ?d = old"
        using bl True w2 aside by (simp add: rename_law_def subtree_moved data_aside_def)
      moreover have "st \<noteq> StageOk" using put False by (auto simp: put_in_place_def r b True Let_def)
      ultimately show ?thesis by (simp add: swapped_def data_kept_def)
    qed (use put False bl aside w2 in \<open>auto simp: swapped_def data_kept_def rename_law_def put_in_place_def r b Let_def\<close>)
  qed
qed

lemma install_staged_swaps:
  assumes laws: "posix_laws px view" and x: "slash \<notin> set x" "slash \<notin> set stamp"
    and inst: "install_staged px root (file_in root (staging_prefix @ x)) stamp w = (st, replaced, w1)"
  shows "swapped root stamp (subtree (view w) (file_in root data_name)) (subtree (view w) (file_in root (staging_prefix @ x)))
    st replaced (view w1)"
proof (cases "lexists px (file_in root data_name) w")
  case False
  then show ?thesis using inst put_in_place_fresh [OF laws x(1)] by (simp add: install_staged_def)
next
  case there: True
  let ?s = "file_in root (staging_prefix @ x)" and ?d = "file_in root data_name" and ?a = "aside_path root stamp"
  have ap: "apart (owner_marker ?a) ?d" "apart (owner_marker ?a) ?s" "apart ?d ?a" "apart ?d ?s" "apart ?a ?s" "apart ?d (owner_marker ?a)" "apart ?a (owner_marker ?a)"
    using x by (auto simp: owner_marker_file_in aside_path_def intro!: file_in_apart dest: sym) (auto simp: name_defs)
  obtain m w2 where m: "mark_owned px ?a w = (m, w2)" by fastforce
  note ml = mark_owned_view [OF laws m]
  have t2: "subtree (view w2) ?d = subtree (view w) ?d" "subtree (view w2) ?s = subtree (view w) ?s"
    using only_at_subtree [OF ml(1)] ap by blast+
  obtain ok w3 where r: "px_rename px ?d ?a w2 = (ok, w3)" by fastforce
  note rl = laws_rename [OF laws r]
  consider (unmarked) "\<not> m" | (kept) "m" "\<not> ok" | (gone) "m" "ok" by blast
  then show ?thesis
  proof cases
    case unmarked
    then show ?thesis using inst there t2 by (auto simp: install_staged_def m Let_def swapped_def data_kept_def)
  next
    case kept
    have "subtree (view w1) ?d = subtree (view w3) ?d" "st \<noteq> StageOk"
      using inst there kept only_at_subtree [OF unlink_only_at [OF laws] ap(1)] by (auto simp: install_staged_def m r Let_def)
    then show ?thesis using rl kept t2 by (simp add: swapped_def data_kept_def rename_law_def)
  next
    case gone
    have w3: "view w3 = moved ?d ?a (view w2)" using rl gone by (simp add: rename_law_def)
    have "data_aside root stamp (subtree (view w) ?d) (view w3)"
      using ml(2) gone t2 moved_apart [OF ap(6,7), of "owner_marker ?a" "view w2"]
      by (simp add: data_aside_def w3 subtree_moved subtree_moved_source ap)
    moreover have "subtree (view w3) ?s = subtree (view w) ?s" using t2 by (simp add: w3 subtree_moved_apart ap)
    moreover have "put_in_place px root ?s (Some (?a, is_owned px ?a w)) (snd (px_sync_dir px root w3)) = (st, replaced, w1)"
      using inst there gone by (simp add: install_staged_def m r Let_def)
    ultimately show ?thesis using put_in_place_back [OF laws x, of root _ "snd (px_sync_dir px root w3)"] laws by simp
  qed
qed

subsection \<open>The recovery\<close>

lemma newest_from:
  fixes b :: bytes
  shows "fold (\<lambda>name best. if name > best then name else best) names b \<in> insert b (set names)"
    and "n \<in> insert b (set names) \<Longrightarrow> n \<le> fold (\<lambda>name best. if name > best then name else best) names b"
proof (induction names arbitrary: b n)
  case (Cons a names)
  let ?f = "fold (\<lambda>name best. if name > best then name else best) names"
  { case 1 show ?case using Cons.IH(1) [of a] Cons.IH(1) [of b] by (cases "b < a") auto }
  { case 2
    let ?b = "if a > b then a else b"
    have le: "a \<le> ?b" "b \<le> ?b" using less_imp_le [of b a] order_refl [of a] order_refl [of b] linear [of a b] by auto
    have "?b \<le> ?f ?b" using Cons.IH(2) [of ?b ?b] by simp
    then have "n \<le> ?f ?b"
      using 2 Cons.IH(2) [of n ?b] order_trans [OF le(1)] order_trans [OF le(2)] by auto
    then show ?case by simp }
qed simp_all

lemma newest_is:
  assumes "n \<in> set names" "\<And>m. m \<in> set names \<Longrightarrow> m \<le> n"
  shows "newest names = n"
proof (rule antisym)
  show "n \<le> newest names" unfolding newest_def using assms(1) by (intro newest_from(2)) simp
  have "newest names \<in> insert [] (set names)" unfolding newest_def by (rule newest_from(1))
  then show "newest names \<le> n" using assms(2) by auto
qed

lemma sees_lstat: "posix_sees px view \<Longrightarrow> px_lstat px p w = stat_of (view w p)"
  by (simp add: posix_sees_def)

lemma sees_laws: "posix_sees px view \<Longrightarrow> posix_laws px view"
  by (simp add: posix_sees_def)

lemma sees_lexists: "posix_sees px view \<Longrightarrow> lexists px p w \<longleftrightarrow> view w p \<noteq> None"
  by (simp add: lexists_def sees_lstat)

text \<open>No data set aside carries a later stamp.\<close>

definition latest_stamp :: "bytes \<Rightarrow> bytes \<Rightarrow> tree \<Rightarrow> bool" where
  "latest_stamp root stamp t \<longleftrightarrow> slash \<notin> set stamp \<and> \<not> ends_with (replaced_prefix @ stamp) owner_suffix
     \<and> (\<forall>n. slash \<notin> set n \<and> starts_with n replaced_prefix \<and> \<not> ends_with n owner_suffix \<and> t (file_in root n) = Some Dir
          \<and> t (owner_marker (file_in root n)) = Some (File []) \<longrightarrow> n \<le> replaced_prefix @ stamp)"

lemma subtree_root: "subtree t p [] = t p"
  by (simp add: subtree_def)

lemma recoverable_view: "posix_sees px view \<Longrightarrow> recoverable px root w n \<longleftrightarrow>
    starts_with n replaced_prefix \<and> \<not> ends_with n owner_suffix
    \<and> view w (owner_marker (file_in root n)) = Some (File []) \<and> view w (file_in root n) = Some Dir"
  by (simp add: recoverable_def is_owned_def is_marker_file_def is_real_directory_def sees_lstat)

lemma aside_is_newest:
  assumes sees: "posix_sees px view" and "data_aside root stamp old (view w)" "old [] = Some Dir" "latest_stamp root stamp (view w)"
  shows "newest (filter (recoverable px root w) (px_list px root w)) = replaced_prefix @ stamp"
proof (rule newest_is)
  let ?n = "replaced_prefix @ stamp"
  have dir: "view w (file_in root ?n) = Some Dir" "view w (owner_marker (file_in root ?n)) = Some (File [])"
    using assms(2,3) subtree_root [of "view w" "aside_path root stamp"] by (auto simp: data_aside_def aside_path_def)
  have l: "slash \<notin> set ?n" "\<not> ends_with ?n owner_suffix" using assms(4) by (auto simp: latest_stamp_def)
  have "?n \<in> set (px_list px root w)"
    using sees dir(1) l(1) unfolding posix_sees_def file_in_def by (auto simp: name_defs)
  then show "?n \<in> set (filter (recoverable px root w) (px_list px root w))"
    using dir l by (simp add: recoverable_view [OF sees] starts_with_def)
  show "m \<le> ?n" if "m \<in> set (filter (recoverable px root w) (px_list px root w))" for m
    using that assms(4) laws_list [OF sees_laws [OF sees]] by (auto simp: latest_stamp_def recoverable_view [OF sees])
qed

lemma recover_moves_aside:
  assumes sees: "posix_sees px view" and aside: "data_aside root stamp old (view w)" "old [] = Some Dir" "latest_stamp root stamp (view w)"
    and run: "recover_replaced px root w = (src, w1)"
  shows "data_kept root stamp old (view w1) \<and> (posix_works px view \<longrightarrow> subtree (view w1) (file_in root data_name) = old)"
proof -
  let ?d = "file_in root data_name" and ?a = "aside_path root stamp"
  note laws = sees_laws [OF sees]
  have st: "slash \<notin> set stamp" using aside(3) by (simp add: latest_stamp_def)
  have ap: "apart (owner_marker ?a) ?d" "apart ?a ?d"
    using st by (auto simp: owner_marker_file_in aside_path_def intro!: file_in_apart dest: sym)
  have free: "view w ?d = None" "view w ?a = Some Dir"
    using aside(1,2) subtree_root [of "view w" ?d] subtree_root [of "view w" ?a] by (auto simp: data_aside_def)
  have ne: "replaced_prefix \<noteq> []" by (simp add: name_defs)
  obtain ok w2 where r: "px_rename px ?a ?d w = (ok, w2)" by fastforce
  note rl = laws_rename [OF laws r]
  have run1: "(if \<not> ok then (None, w2) else (Some ?a, snd (px_sync_dir px root (snd (px_unlink px (owner_marker ?a) (snd (px_sync_dir px root w2)))))))
      = (src, w1)"
    using run free(1) ne
    by (cases ok) (simp_all add: recover_replaced_def sees_lexists [OF sees] aside_is_newest [OF sees aside] Let_def
      r [unfolded aside_path_def] aside_path_def)
  show ?thesis
  proof (cases ok)
    case True
    have "subtree (view w1) ?d = subtree (view w2) ?d"
      using run1 True only_at_subtree [OF unlink_only_at [OF laws] ap(1)] laws by auto
    then show ?thesis using rl True aside(1) by (simp add: rename_law_def subtree_moved data_kept_def data_aside_def)
  next
    case False
    have "\<not> posix_works px view" using False r ap(2) free unfolding posix_works_def by (metis fst_conv option.distinct(1))
    moreover have "view w1 = view w"
      using run1 False rl by (auto simp: rename_law_def)
    ultimately show ?thesis using aside(1) by (simp add: data_kept_def)
  qed
qed

text \<open>With the data in its place the recovery does nothing.\<close>

lemma recover_leaves_data: "posix_sees px view \<Longrightarrow> view w (file_in root data_name) \<noteq> None \<Longrightarrow> recover_replaced px root w = (None, w)"
  by (simp add: recover_replaced_def sees_lexists)

lemma recover_keeps_data:
  assumes "posix_sees px view" "data_kept root stamp old (view w)" "old [] = Some Dir" "latest_stamp root stamp (view w)"
    and "recover_replaced px root w = (src, w1)"
  shows "data_kept root stamp old (view w1) \<and> (posix_works px view \<longrightarrow> subtree (view w1) (file_in root data_name) = old)"
proof (cases "subtree (view w) (file_in root data_name) = old")
  case True
  then have "view w (file_in root data_name) = Some Dir" using assms(3) subtree_root [of "view w"] by metis
  then have "recover_replaced px root w = (None, w)" using recover_leaves_data [OF assms(1)] by simp
  then show ?thesis using assms(2,5) True by simp
next
  case False
  then have "data_aside root stamp old (view w)" using assms(2) by (simp add: data_kept_def)
  from recover_moves_aside [OF assms(1) this assms(3,4,5)] show ?thesis .
qed

subsection \<open>Nothing else in the root is touched\<close>

lemma ends_with_append [simp]: "ends_with (n @ suf) suf"
  by (simp add: ends_with_def)

lemma rename_elsewhere: "posix_laws px view \<Longrightarrow> \<not> beneath a q \<Longrightarrow> \<not> beneath b q \<Longrightarrow> view (snd (px_rename px a b w)) q = view w q"
  using laws_rename [of px view a b w] by (cases "px_rename px a b w") (auto simp: rename_law_def moved_def split: if_splits)

lemma unlink_elsewhere: "posix_laws px view \<Longrightarrow> q \<noteq> p \<Longrightarrow> view (snd (px_unlink px p w)) q = view w q"
  using unlink_only_at [of px view p w] by (simp add: only_at_def)

lemma mark_elsewhere: "posix_laws px view \<Longrightarrow> q \<noteq> owner_marker item \<Longrightarrow> view (snd (mark_owned px item w)) q = view w q"
  using mark_owned_view(1) [of px view item w] by (cases "mark_owned px item w") (auto simp: only_at_def)

lemma put_in_place_elsewhere:
  assumes laws: "posix_laws px view" and q: "\<not> beneath (file_in root data_name) q" "\<not> beneath staging q" "q \<noteq> owner_marker staging"
    and a: "\<And>a m. aside = Some (a, m) \<Longrightarrow> \<not> beneath a q \<and> q \<noteq> owner_marker a"
  shows "view (snd (snd (put_in_place px root staging aside w))) q = view w q"
proof (cases aside)
  case None
  then show ?thesis using q laws
    by (simp add: put_in_place_def case_prod_beta Let_def rename_elsewhere [OF laws] unlink_elsewhere [OF laws])
next
  case (Some p)
  obtain a m where "aside = Some (a, m)" using Some by (cases p) auto
  with a [OF this] q laws show ?thesis
    by (simp add: put_in_place_def case_prod_beta Let_def rename_elsewhere [OF laws] unlink_elsewhere [OF laws])
qed

lemma install_elsewhere:
  assumes laws: "posix_laws px view" and q: "\<not> beneath (file_in root data_name) q" "\<not> beneath staging q" "q \<noteq> owner_marker staging"
    "\<not> beneath (aside_path root stamp) q" "q \<noteq> owner_marker (aside_path root stamp)"
  shows "view (snd (snd (install_staged px root staging stamp w))) q = view w q"
proof -
  have fresh: "view (snd (snd (put_in_place px root staging None v))) q = view v q"
    and old: "view (snd (snd (put_in_place px root staging (Some (aside_path root stamp, m)) v))) q = view v q" for v m
    using q by (auto intro!: put_in_place_elsewhere [OF laws])
  show ?thesis using q laws
    by (simp add: install_staged_def case_prod_beta Let_def fresh old rename_elsewhere [OF laws] unlink_elsewhere [OF laws] mark_elsewhere [OF laws])
qed

lemma beneath_sibling: "slash \<notin> set n \<Longrightarrow> slash \<notin> set m \<Longrightarrow> beneath (file_in d n) (file_in d m) \<longleftrightarrow> n = m"
  using file_in_apart [of n m d] by (auto simp: apart_def)

lemma install_latest_stamp:
  assumes laws: "posix_laws px view" and x: "slash \<notin> set x" and latest: "latest_stamp root stamp (view w)"
  shows "latest_stamp root stamp (view (snd (snd (install_staged px root (file_in root (staging_prefix @ x)) stamp w))))"
proof -
  let ?w = "snd (snd (install_staged px root (file_in root (staging_prefix @ x)) stamp w))"
  have st: "slash \<notin> set stamp" "\<not> ends_with (replaced_prefix @ stamp) owner_suffix" using latest by (auto simp: latest_stamp_def)
  have same: "view ?w (file_in root n) = view w (file_in root n)" "view ?w (owner_marker (file_in root n)) = view w (owner_marker (file_in root n))"
    if n: "slash \<notin> set n" "starts_with n replaced_prefix" "\<not> ends_with n owner_suffix" "n \<noteq> replaced_prefix @ stamp" for n
  proof -
    have s: "n @ owner_suffix \<noteq> replaced_prefix @ stamp" using st(2) ends_with_append [of n owner_suffix] by metis
    have p: "n \<noteq> data_name" "n \<noteq> staging_prefix @ y" "n @ owner_suffix \<noteq> staging_prefix @ y" "n @ owner_suffix \<noteq> data_name" for y
      using n(2) by (auto simp: starts_with_def name_defs append_eq_append_conv2 append_eq_Cons_conv)
    have e: "n \<noteq> replaced_prefix @ stamp @ owner_suffix" using n(3) ends_with_append [of "replaced_prefix @ stamp" owner_suffix] by auto
    show "view ?w (file_in root n) = view w (file_in root n)"
      using n st x p e by (intro install_elsewhere [OF laws])
        (auto simp: beneath_sibling aside_path_def owner_marker_file_in dest: sym)
    show "view ?w (owner_marker (file_in root n)) = view w (owner_marker (file_in root n))"
      using n st x p e s by (intro install_elsewhere [OF laws])
        (auto simp: beneath_sibling aside_path_def owner_marker_file_in dest: sym)
  qed
  show ?thesis unfolding latest_stamp_def
  proof (intro conjI allI impI st)
    fix n assume "slash \<notin> set n \<and> starts_with n replaced_prefix \<and> \<not> ends_with n owner_suffix \<and> view ?w (file_in root n) = Some Dir
       \<and> view ?w (owner_marker (file_in root n)) = Some (File [])"
    then show "n \<le> replaced_prefix @ stamp"
      using same [of n] latest by (cases "n = replaced_prefix @ stamp") (auto simp: latest_stamp_def)
  qed
qed

subsection \<open>A crash at any point\<close>

text \<open>C4: the player's data survives the swap. Let the swap of a staged directory for the data run on a device where any call
  may fail, or where the process is killed at any point, and let the next start recover on a device that works. Then the
  data in place is the old tree or the complete new one, and it is the new one when the swap reported success.\<close>

theorem data_survives_swap:
  assumes "posix_laws px view" "posix_works px2 view" "slash \<notin> set x" "latest_stamp root stamp (view w)"
    and "subtree (view w) (file_in root data_name) = old" "old [] = Some Dir"
    and "subtree (view w) (file_in root (staging_prefix @ x)) = new" "new [] = Some Dir"
    and "install_staged px root (file_in root (staging_prefix @ x)) stamp w = (st, replaced, w1)"
    and "recover_replaced px2 root w1 = (src, w2)"
  shows "subtree (view w2) (file_in root data_name) = (if st = StageOk then new else old)"
proof -
  have sees: "posix_sees px2 view" using assms(2) by (simp add: posix_works_def)
  have "swapped root stamp old new st replaced (view w1)"
    using install_staged_swaps [OF assms(1,3) _ assms(9)] assms(4,5,7) by (auto simp: latest_stamp_def)
  moreover have "latest_stamp root stamp (view w1)"
    using install_latest_stamp [OF assms(1,3,4)] assms(9) by simp
  moreover have "recover_replaced px2 root w1 = (None, w1)" if "subtree (view w1) (file_in root data_name) = new"
    using that assms(8) subtree_root [of "view w1" "file_in root data_name"] by (intro recover_leaves_data [OF sees]) (metis option.distinct(1))
  ultimately show ?thesis
    using recover_keeps_data [where view = view and old = old and w = w1, OF sees _ assms(6) _ assms(10)] assms(2,10) by (auto simp: swapped_def)
qed

text \<open>A process that lives for the marker and the first rename only.\<close>

definition swap_root :: bytes where "swap_root = [0x72]"
definition swap_staging :: bytes where "swap_staging = file_in swap_root (staging_prefix @ [0x61])"
definition swap_stamp :: bytes where "swap_stamp = [0x32]"

definition swap_disk :: disk where
  "swap_disk = \<lparr>d_life = 2, d_known = [file_in swap_root data_name, swap_staging],
     d_tree = (\<lambda>q. if q = file_in swap_root data_name \<or> q = swap_staging then Some Dir else None)\<rparr>"

definition swap_crash :: "stage_status \<times> bytes \<times> disk" where
  "swap_crash = install_staged (disk True) swap_root swap_staging swap_stamp swap_disk"

lemma swap_crash_status: "fst swap_crash = RenameFailed"
  by code_simp

lemma swap_names:
  "slash \<notin> set [0x61 :: u8]" "slash \<notin> set swap_stamp" "\<not> ends_with (replaced_prefix @ swap_stamp) owner_suffix"
  by (simp_all add: ends_with_def swap_stamp_def name_defs)

lemma swap_disk_latest: "latest_stamp swap_root swap_stamp (disk_view swap_disk)"
proof -
  have "disk_view swap_disk (file_in swap_root n @ owner_suffix) = None" for n
    by (auto simp: disk_view_def swap_disk_def swap_staging_def file_in_def dest: sym) (auto simp: name_defs append_eq_append_conv2)
  then show ?thesis using swap_names by (simp add: latest_stamp_def owner_marker_def)
qed

lemma swap_disk_there:
  "disk_view swap_disk (file_in swap_root data_name) = Some Dir" "disk_view swap_disk swap_staging = Some Dir"
  by (simp_all add: disk_view_def swap_disk_def)

theorem data_survives_swap_witness:
  "subtree (disk_view (snd (recover_replaced (disk False) swap_root (snd (snd swap_crash))))) (file_in swap_root data_name)
    = subtree (disk_view swap_disk) (file_in swap_root data_name)"
proof -
  have s: "swap_staging = file_in swap_root (staging_prefix @ [0x61])" by (simp add: swap_staging_def)
  obtain st rep w1 where c: "swap_crash = (st, rep, w1)" by (cases swap_crash) auto
  obtain src w2 where r: "recover_replaced (disk False) swap_root w1 = (src, w2)" by fastforce
  show ?thesis
    using data_survives_swap [OF disk_laws disk_works swap_names(1) swap_disk_latest refl _ refl _ c [unfolded swap_crash_def s] r]
      swap_crash_status swap_disk_there by (simp add: c r subtree_root s)
qed

end
