(* ===== verification/Data_Sweep.thy ===== *)
theory Data_Sweep
  imports Data_Swap
begin

section \<open>The sweep deletes only what is ours\<close>

text \<open>
  \<^verbatim>\<open>CleanLeftovers\<close> and \<^verbatim>\<open>CleanPackLeftovers\<close>: whatever fails, an entry that is gone afterwards lay in a staging
  directory or in a temporary of a pack that had its marker, or was such a marker; nothing is created or changed.
\<close>

definition lost_only :: "(bytes \<Rightarrow> bool) \<Rightarrow> tree \<Rightarrow> tree \<Rightarrow> bool" where
  "lost_only P t u \<longleftrightarrow> (\<forall>q. u q = t q \<or> u q = None \<and> P q)"

lemma lost_only_refl [simp]: "lost_only P t t"
  by (simp add: lost_only_def)

lemma lost_only_had: "lost_only P t u \<Longrightarrow> u q = Some n \<Longrightarrow> t q = Some n"
  unfolding lost_only_def by (metis option.distinct(1))

lemma lost_only_trans: "lost_only P t u \<Longrightarrow> lost_only P u v \<Longrightarrow> lost_only P t v"
  unfolding lost_only_def by metis

lemma unlink_lost: "posix_laws px view \<Longrightarrow> P p \<Longrightarrow> lost_only P (view w) (view (snd (px_unlink px p w)))"
  using laws_unlink [of px view p w] by (cases "px_unlink px p w") (auto simp: unlink_law_def lost_only_def split: if_splits)

lemma remove_tree_lost:
  assumes laws: "posix_laws px view" and "\<And>q. beneath p q \<Longrightarrow> P q"
  shows "lost_only P (view w) (view (snd (remove_tree px p w)))"
proof -
  have "lost_only P (view w) (view (snd (px_nftw px p w)))"
    using laws_nftw [OF laws, of p w] assms(2) by (cases "px_nftw px p w") (auto simp: nftw_law_def lost_only_def)
  then show ?thesis using unlink_lost [OF laws, of P p w] assms(2) [OF beneath_refl]
    by (auto simp: remove_tree_def split: stat_result.splits)
qed

lemma sweep_item_lost:
  assumes laws: "posix_laws px view" and "\<And>q. beneath p q \<Longrightarrow> P q" "P (owner_marker p)"
  shows "lost_only P (view w) (view (snd (snd (sweep_item px p (r, f, w)))))"
  using lost_only_trans [OF remove_tree_lost [where P = P, OF laws assms(2)] unlink_lost [where P = P, OF laws assms(3)]]
    remove_tree_lost [where P = P, OF laws assms(2)]
  by (auto simp: sweep_item_def Let_def case_prod_beta)

lemma fold_keeps: "(\<And>x s. x \<in> set xs \<Longrightarrow> I s \<Longrightarrow> I (f x s)) \<Longrightarrow> I s \<Longrightarrow> I (fold f xs s)"
  by (induction xs arbitrary: s) auto

lemma starts_with_append: "starts_with n p \<Longrightarrow> starts_with (n @ x) p"
  unfolding starts_with_def by (metis append_assoc append_eq_conv_conj append_take_drop_id)

subsection \<open>What is ours\<close>

definition marked :: "tree \<Rightarrow> bytes \<Rightarrow> bool" where
  "marked t p \<longleftrightarrow> t (owner_marker p) = Some (File [])"

definition pack_dir :: "bytes \<Rightarrow> bytes \<Rightarrow> bytes \<Rightarrow> bytes" where
  "pack_dir root version sub = file_in (file_in (file_in (file_in (file_in root data_name) version) rad15_name) android_name) sub"

definition our_marker :: "bytes \<Rightarrow> bool" where
  "our_marker name \<longleftrightarrow> ends_with name owner_suffix"

inductive ours :: "bytes \<Rightarrow> tree \<Rightarrow> bytes \<Rightarrow> bool" for root t where
  staging: "slash \<notin> set n \<Longrightarrow> starts_with n staging_prefix \<Longrightarrow> marked t (file_in root n) \<Longrightarrow> beneath (file_in root n) q \<Longrightarrow> ours root t q"
| pack_temporary: "slash \<notin> set n \<Longrightarrow> slash \<notin> set version \<Longrightarrow> ends_with n pack_tmp_suffix \<Longrightarrow> sub \<in> {manifests_dir, packages_dir} \<Longrightarrow>
    marked t (file_in (pack_dir root version sub) n) \<Longrightarrow> beneath (file_in (pack_dir root version sub) n) q \<Longrightarrow> ours root t q"
| marker: "slash \<notin> set n \<Longrightarrow> starts_with n staging_prefix \<Longrightarrow> our_marker n \<Longrightarrow> t (file_in root n) = Some (File []) \<Longrightarrow>
    ours root t (file_in root n)"
| pack_marker: "slash \<notin> set n \<Longrightarrow> slash \<notin> set version \<Longrightarrow> sub \<in> {manifests_dir, packages_dir} \<Longrightarrow> our_marker n \<Longrightarrow>
    t (file_in (pack_dir root version sub) n) = Some (File []) \<Longrightarrow> ours root t (file_in (pack_dir root version sub) n)"

text \<open>What is kept by a sweep: only ours is lost of what there was at its start.\<close>

definition sweep_ok :: "('w \<Rightarrow> tree) \<Rightarrow> bytes \<Rightarrow> tree \<Rightarrow> 'w sweep \<Rightarrow> bool" where
  "sweep_ok view root t s \<longleftrightarrow> lost_only (ours root t) t (view (snd (snd s)))"

lemma sweep_marker: "posix_laws px view \<Longrightarrow> sweep_ok view root t s \<Longrightarrow> is_marker_file px p (snd (snd s)) \<Longrightarrow> t p = Some (File [])"
  unfolding sweep_ok_def by (metis is_marker_view lost_only_had)

lemma sweep_unlink:
  assumes "posix_laws px view" "sweep_ok view root t (r, f, w)" "ours root t p"
  shows "sweep_ok view root t (r, f, snd (px_unlink px p w))"
  using assms lost_only_trans [OF _ unlink_lost] by (fastforce simp: sweep_ok_def)

lemma sweep_ok_item:
  assumes laws: "posix_laws px view" and s: "sweep_ok view root t s" and "\<And>q. beneath p q \<Longrightarrow> ours root t q" "ours root t (owner_marker p)"
  shows "sweep_ok view root t (sweep_item px p s)"
proof -
  obtain r f w where e: "s = (r, f, w)" by (cases s) auto
  have "lost_only (ours root t) (view w) (view (snd (snd (sweep_item px p (r, f, w)))))"
    by (rule sweep_item_lost [OF laws]) (use assms(3,4) in auto)
  then show ?thesis using s lost_only_trans by (fastforce simp: sweep_ok_def e)
qed

lemma clean_pack_one_ok:
  assumes laws: "posix_laws px view" and sub: "sub \<in> {manifests_dir, packages_dir}" and s: "sweep_ok view root t s"
    and n: "slash \<notin> set n" "slash \<notin> set version"
  shows "sweep_ok view root t (clean_pack_one px (pack_dir root version sub) n s)"
proof -
  let ?p = "file_in (pack_dir root version sub) n"
  obtain r f w where e: "s = (r, f, w)" by (cases s) auto
  show ?thesis
  proof (cases "ends_with n owner_suffix")
    case True
    have "ours root t ?p" if "is_marker_file px ?p w"
      using sweep_marker [OF laws s, of ?p] that True sub n by (intro pack_marker) (auto simp: e our_marker_def)
    then show ?thesis using sweep_unlink [OF laws s [unfolded e]] True s by (auto simp: clean_pack_one_def e Let_def)
  next
    case False
    have "sweep_ok view root t (sweep_item px ?p s)" if o: "ends_with n pack_tmp_suffix" "is_owned px ?p w"
    proof (rule sweep_ok_item [OF laws s])
      have m: "t (owner_marker ?p) = Some (File [])" using sweep_marker [OF laws s] o(2) by (simp add: e is_owned_def)
      show "ours root t q" if "beneath ?p q" for q using o(1) n sub m that by (intro pack_temporary) (auto simp: marked_def)
      show "ours root t (owner_marker ?p)"
        using pack_marker [where n = "n @ owner_suffix" and version = version, OF _ n(2) sub] m n(1) by (simp add: owner_marker_file_in our_marker_def)
    qed
    then show ?thesis using s False by (auto simp: clean_pack_one_def e Let_def)
  qed
qed

lemma clean_pack_directory_ok:
  assumes laws: "posix_laws px view" and sub: "sub \<in> {manifests_dir, packages_dir}" and s: "sweep_ok view root t s"
    and version: "slash \<notin> set version"
  shows "sweep_ok view root t (clean_pack_directory px (pack_dir root version sub) s)"
  unfolding clean_pack_directory_def by (rule fold_keeps [where I = "sweep_ok view root t"], rule clean_pack_one_ok [OF laws sub _ _ version],
    assumption, erule laws_list [OF laws], rule s)

lemma clean_pack_version_ok:
  assumes laws: "posix_laws px view" and s: "sweep_ok view root t s" and version: "slash \<notin> set version"
  shows "sweep_ok view root t (clean_pack_version px (file_in root data_name) version s)"
proof -
  have "sweep_ok view root t s \<Longrightarrow> sweep_ok view root t (clean_pack_directory px (pack_dir root version manifests_dir) s)"
    "sweep_ok view root t s \<Longrightarrow> sweep_ok view root t (clean_pack_directory px (pack_dir root version packages_dir) s)" for s
    by (rule clean_pack_directory_ok [OF laws _ _ version]; simp)+
  then show ?thesis using s by (auto simp: clean_pack_version_def Let_def pack_dir_def [symmetric])
qed

lemma clean_pack_leftovers_ok:
  assumes laws: "posix_laws px view" and "lost_only (ours root t) t (view w)"
  shows "sweep_ok view root t (clean_pack_leftovers px root w)"
proof -
  have s: "sweep_ok view root t (0, 0, w)" using assms(2) by (simp add: sweep_ok_def)
  have "sweep_ok view root t (fold (clean_pack_version px (file_in root data_name)) (px_list px (file_in root data_name) w) (0, 0, w))"
    by (rule fold_keeps [where I = "sweep_ok view root t"], rule clean_pack_version_ok [OF laws], assumption, erule laws_list [OF laws], rule s)
  with s show ?thesis by (simp add: clean_pack_leftovers_def Let_def)
qed

lemma clean_one_ok:
  assumes laws: "posix_laws px view" and s: "sweep_ok view root t s" and n: "slash \<notin> set n"
  shows "sweep_ok view root t (clean_one px root n s)"
proof -
  let ?p = "file_in root n"
  obtain r f w where e: "s = (r, f, w)" by (cases s) auto
  consider (other) "\<not> starts_with n staging_prefix" | (mark) "starts_with n staging_prefix" "ends_with n owner_suffix"
    | (item) "starts_with n staging_prefix" "\<not> ends_with n owner_suffix" by blast
  then show ?thesis
  proof cases
    case mark
    have "ours root t ?p" if "is_marker_file px ?p w"
      using sweep_marker [OF laws s, of ?p] that mark n by (intro marker) (auto simp: e our_marker_def)
    then show ?thesis using sweep_unlink [OF laws s [unfolded e]] mark s by (auto simp: clean_one_def e Let_def)
  next
    case item
    have "sweep_ok view root t (sweep_item px ?p s)" if "is_owned px ?p w"
    proof (rule sweep_ok_item [OF laws s])
      have m: "t (owner_marker ?p) = Some (File [])" using sweep_marker [OF laws s] that by (simp add: e is_owned_def)
      show "ours root t q" if "beneath ?p q" for q using item(1) n m that by (intro staging) (auto simp: marked_def)
      have "starts_with (n @ owner_suffix) staging_prefix" using item(1) by (rule starts_with_append)
      then show "ours root t (owner_marker ?p)"
        using marker [where n = "n @ owner_suffix"] m n by (simp add: owner_marker_file_in our_marker_def)
    qed
    then show ?thesis using s item by (auto simp: clean_one_def e Let_def)
  qed (use s in \<open>simp add: clean_one_def e Let_def\<close>)
qed

lemma sweep_lost:
  assumes "posix_laws px view" "clean_leftovers px root w = (removed, failed, w1)"
  shows "lost_only (ours root (view w)) (view w) (view w1)"
proof -
  let ?I = "sweep_ok view root (view w)"
  obtain r f w2 where s: "fold (clean_one px root) (px_list px root w) (0, 0, w) = (r, f, w2)" by (metis prod_cases3)
  have "?I (fold (clean_one px root) (px_list px root w) (0, 0, w))"
    by (rule fold_keeps [where I = ?I], rule clean_one_ok [OF assms(1)], assumption, erule laws_list [OF assms(1)]) (simp add: sweep_ok_def)
  then have "lost_only (ours root (view w)) (view w) (view w2)" by (simp add: s sweep_ok_def)
  from clean_pack_leftovers_ok [OF assms(1) this] show ?thesis
    using assms(2) by (auto simp: clean_leftovers_def s Let_def sweep_ok_def split: prod.splits)
qed

text \<open>C12: the sweep of leftovers deletes only what is ours. Whatever fails on the way, every entry there was is still there as it
  was, unless it lay in a staging directory or a pack's temporary whose marker was there, or was one of those markers; and
  nothing new appears.\<close>

theorem sweep_deletes_only_ours:
  assumes "posix_laws px view" "clean_leftovers px root w = (removed, failed, w1)"
  shows "view w1 q = view w q \<or> view w1 q = None \<and> ours root (view w) q"
  using sweep_lost [OF assms] by (simp add: lost_only_def)

lemma sweep_deletes_only_ours_witness:
  "let w1 = snd (snd (clean_leftovers (disk True) swap_root swap_disk)) in
    disk_view w1 swap_staging = disk_view swap_disk swap_staging
    \<or> disk_view w1 swap_staging = None \<and> ours swap_root (disk_view swap_disk) swap_staging"
proof -
  obtain r f w1 where "clean_leftovers (disk True) swap_root swap_disk = (r, f, w1)" by (metis prod_cases3)
  then show ?thesis using sweep_deletes_only_ours [OF disk_laws] by (simp add: Let_def)
qed

end
