(* ===== verification/Data_Fetch.thy ===== *)
theory Data_Fetch
  imports Data_Sweep
begin

section \<open>The fetch of the game data\<close>

text \<open>
  \<^verbatim>\<open>src/quest/data/fetch.cpp\<close>: download with resume, check of the digest, extraction into the staging directory, swap.
  The operating system, the transport, zlib and the reader of the archive are the record \<open>fx\<close>; a transfer is the list of
  the body pieces it would deliver and, knowing whether the receiver ended it, its result. Events and progress reports,
  which only tell, are left out; so is the caller's own backoff, null in production.
\<close>

record transport_result =
  tr_completed :: bool
  tr_status :: int
  tr_code :: int
  tr_interrupted :: bool

type_synonym body_piece = "int \<times> bytes"

record ('w, 'z) fetch_env = "'w posix" +
  fx_mkdir :: "bytes \<Rightarrow> 'w \<Rightarrow> mkdir_result \<times> 'w"
  fx_stat :: "bytes \<Rightarrow> 'w \<Rightarrow> stat_result"                  \<comment> \<open>\<^verbatim>\<open>stat\<close>: follows links\<close>
  fx_open :: "bytes \<Rightarrow> 'w \<Rightarrow> bool \<times> 'w"                    \<comment> \<open>\<^verbatim>\<open>O_WRONLY | O_CREAT\<close>\<close>
  fx_pwrite :: "bytes \<Rightarrow> nat \<Rightarrow> bytes \<Rightarrow> 'w \<Rightarrow> bool \<times> 'w"  \<comment> \<open>until everything is written\<close>
  fx_truncate :: "bytes \<Rightarrow> 'w \<Rightarrow> bool \<times> 'w"                \<comment> \<open>\<^verbatim>\<open>ftruncate(fd, 0)\<close>\<close>
  fx_read :: "bytes \<Rightarrow> 'w \<Rightarrow> bytes list option"             \<comment> \<open>what the reads of the whole file return\<close>
  fx_free :: "bytes \<Rightarrow> 'w \<Rightarrow> u64"
  fx_sleep :: "nat \<Rightarrow> 'w \<Rightarrow> 'w"
  fx_cancelled :: "'w \<Rightarrow> bool \<times> 'w"
  fx_get :: "nat \<Rightarrow> 'w \<Rightarrow> body_piece list \<times> (bool \<Rightarrow> transport_result) \<times> 'w"
  fx_zlib :: "'z zlib"
  fx_zip_os :: "'w zip_os"
  fx_archive :: "bytes \<Rightarrow> 'w \<Rightarrow> zip_file option"

record fetch_config =
  fc_root :: bytes
  fc_replacing :: bool
  fc_sha256 :: bytes
  fc_bytes :: nat
  fc_extracted :: u64
  fc_attempts :: nat
  fc_limits :: zip_limits
  fc_stamp :: bytes

datatype fetch_status = FetchOk | FetchBadRoot | FetchNoSpace | FetchRetriesExhausted | FetchExtractFailed | FetchSwapFailed | FetchCancelled

datatype why = MarkPartFailed | OpenPartFailed | WriteFailed | BodyLongerThanPin | TransportFailed int | HttpStatus int
  | Http200WithoutBody | ShortBody | HashReadFailed | Sha256Mismatch

datatype fetch_detail = NoDetail | CannotCreateRoot | CannotWriteRoot | Last why | StagingNotOurs | ZipFailed zip_status | SwapFailed stage_status

record fetch_result =
  fr_status :: fetch_status
  fr_detail :: fetch_detail
  fr_attempts :: nat
  fr_replaced_to :: bytes
  fr_needed :: u64
  fr_available :: u64

subsection \<open>The part and one download\<close>

definition drop_part :: "('w, 'm) posix_scheme \<Rightarrow> bytes \<Rightarrow> 'w \<Rightarrow> 'w" where
  "drop_part px part w = snd (px_unlink px (owner_marker part) (snd (px_unlink px part w)))"

definition drop_staging :: "('w, 'm) posix_scheme \<Rightarrow> bytes \<Rightarrow> 'w \<Rightarrow> 'w" where
  "drop_staging px staging w = snd (px_unlink px (owner_marker staging) (snd (remove_tree px staging w)))"

definition part_size :: "('w, 'z) fetch_env \<Rightarrow> bytes \<Rightarrow> 'w \<Rightarrow> nat" where
  "part_size fx part w = (case fx_stat fx part w of StFile n \<Rightarrow> n | _ \<Rightarrow> 0)"

definition is_directory :: "('w, 'z) fetch_env \<Rightarrow> bytes \<Rightarrow> 'w \<Rightarrow> bool" where
  "is_directory fx p w \<longleftrightarrow> fx_stat fx p w = StDir"

text \<open>\<^verbatim>\<open>mkdir -p\<close>: the path is made up to \<open>start\<close>.\<close>

definition component_end :: "bytes \<Rightarrow> nat \<Rightarrow> nat" where
  "component_end root start = (case find_ch slash (drop (start + 1) root) of None \<Rightarrow> length root | Some k \<Rightarrow> start + 1 + k)"

function make_root_from :: "('w, 'z) fetch_env \<Rightarrow> bytes \<Rightarrow> nat \<Rightarrow> 'w \<Rightarrow> bool \<times> 'w" where
  "make_root_from fx root start w =
     (if start \<ge> length root then (is_directory fx root w, w)
      else let (r, w1) = fx_mkdir fx (take (component_end root start) root) w
           in if r = MkFails then (False, w1) else make_root_from fx root (component_end root start) w1)"
  by pat_completeness auto
termination
  by (relation "measure (\<lambda>(fx, root, start, w). length root - start)") (auto simp: component_end_def split: option.splits dest: find_ch_Some)

declare make_root_from.simps [simp del]

definition make_root :: "('w, 'z) fetch_env \<Rightarrow> bytes \<Rightarrow> 'w \<Rightarrow> bool \<times> 'w" where
  "make_root fx root w = make_root_from fx root 0 w"

record transfer =
  tf_written :: nat
  tf_cursor :: nat
  tf_restarted :: bool
  tf_write_failed :: bool
  tf_overrun :: bool

definition write_all :: "('w, 'z) fetch_env \<Rightarrow> bytes \<Rightarrow> nat \<Rightarrow> bytes \<Rightarrow> 'w \<Rightarrow> bool \<times> 'w" where
  "write_all fx part off data w = (if data = [] then (True, w) else fx_pwrite fx part off data w)"

text \<open>The callback of the transfer: false ends it. A 200 to a ranged request restarts the part.\<close>

definition restart_body ::
    "('w, 'z) fetch_env \<Rightarrow> bytes \<Rightarrow> nat \<Rightarrow> int \<Rightarrow> transfer \<Rightarrow> 'w \<Rightarrow> bool \<times> transfer \<times> 'w" where
  "restart_body fx part have status b w =
     (if status = 200 \<and> have \<noteq> 0 \<and> \<not> tf_restarted b
      then let (cut, w1) = fx_truncate fx part w
           in if cut then (True, b\<lparr>tf_restarted := True, tf_cursor := 0, tf_written := 0\<rparr>, w1)
              else (False, b\<lparr>tf_write_failed := True\<rparr>, w1)
      else (True, b, w))"

definition take_body ::
    "('w, 'z) fetch_env \<Rightarrow> fetch_config \<Rightarrow> bytes \<Rightarrow> bytes \<Rightarrow> transfer \<Rightarrow> 'w \<Rightarrow> bool \<times> transfer \<times> 'w" where
  "take_body fx c part data b w =
     (if tf_cursor b + length data > fc_bytes c then (False, b\<lparr>tf_overrun := True\<rparr>, w)
      else let (ok, w1) = write_all fx part (tf_cursor b) data w; there = tf_cursor b + length data
      in if ok then (True, b\<lparr>tf_cursor := there, tf_written := there\<rparr>, w1)
         else (False, b\<lparr>tf_write_failed := True\<rparr>, w1))"

definition on_body ::
    "('w, 'z) fetch_env \<Rightarrow> fetch_config \<Rightarrow> bytes \<Rightarrow> nat \<Rightarrow> body_piece \<Rightarrow> transfer \<Rightarrow> 'w \<Rightarrow> bool \<times> transfer \<times> 'w" where
  "on_body fx c part have piece b w =
     (let (status, data) = piece
      in if status \<noteq> 206 \<and> status \<noteq> 200 then (True, b, w)
      else let (cut, b1, w1) = restart_body fx part have status b w
      in if \<not> cut then (False, b1, w1) else take_body fx c part data b1 w1)"

fun deliver ::
    "('w, 'z) fetch_env \<Rightarrow> fetch_config \<Rightarrow> bytes \<Rightarrow> nat \<Rightarrow> body_piece list \<Rightarrow> transfer \<Rightarrow> 'w \<Rightarrow> bool \<times> transfer \<times> 'w" where
  "deliver fx c part have [] b w = (False, b, w)"
| "deliver fx c part have (p # ps) b w = (case on_body fx c part have p b w of
      (True, b1, w1) \<Rightarrow> deliver fx c part have ps b1 w1
    | (False, b1, w1) \<Rightarrow> (True, b1, w1))"

datatype download = Done | Failed why | Cancelled

definition transfer_verdict :: "fetch_config \<Rightarrow> nat \<Rightarrow> transfer \<Rightarrow> transport_result \<Rightarrow> download" where
  "transfer_verdict c have b r =
     (if \<not> tr_completed r then Failed (TransportFailed (tr_code r))
      else if tr_status r \<noteq> 206 \<and> tr_status r \<noteq> 200 then Failed (HttpStatus (tr_status r))
      else if tr_status r = 200 \<and> have \<noteq> 0 \<and> \<not> tf_restarted b then Failed Http200WithoutBody
      else if tf_written b \<noteq> fc_bytes c then Failed ShortBody else Done)"

definition transfer_part :: "('w, 'z) fetch_env \<Rightarrow> fetch_config \<Rightarrow> bytes \<Rightarrow> nat \<Rightarrow> 'w \<Rightarrow> download \<times> 'w" where
  "transfer_part fx c part have w =
     (let (pieces, outcome, w1) = fx_get fx have w;
          (stopped, b, w2) = deliver fx c part have pieces
            \<lparr>tf_written = have, tf_cursor = have, tf_restarted = False, tf_write_failed = False, tf_overrun = False\<rparr> w1;
          r = outcome stopped;
          w3 = snd (px_fsync fx part w2);
          (cancelled, w4) = (if tr_interrupted r then (True, w3) else fx_cancelled fx w3)
      in if cancelled then (Cancelled, w4)
         else if tf_write_failed b then (Failed WriteFailed, w4)
         else if tf_overrun b then (Failed BodyLongerThanPin, snd (fx_truncate fx part w4))
         else (transfer_verdict c have b r, w4))"

definition download_once :: "('w, 'z) fetch_env \<Rightarrow> fetch_config \<Rightarrow> bytes \<Rightarrow> 'w \<Rightarrow> download \<times> 'w" where
  "download_once fx c part w =
     (let (have, w0) = (if part_size fx part w > fc_bytes c then (0, drop_part fx part w) else (part_size fx part w, w))
      in if have = fc_bytes c then (Done, w0)
      else let (m, w1) = mark_owned fx part w0
      in if \<not> m then (Failed MarkPartFailed, w1)
      else let (opened, w2) = fx_open fx part w1
      in if \<not> opened then (Failed OpenPartFailed, w2)
      else transfer_part fx c part have w2)"

definition hash_file :: "('w, 'z) fetch_env \<Rightarrow> bytes \<Rightarrow> 'w \<Rightarrow> bytes option" where
  "hash_file fx p w = map_option (\<lambda>reads. fst (sha256_hex (foldl sha256_update (sha256_start (replicate 64 0)) reads))) (fx_read fx p w)"

subsection \<open>The attempts\<close>

function backoff_loop :: "nat \<Rightarrow> nat \<Rightarrow> nat \<Rightarrow> nat" where
  "backoff_loop n attempt ms = (if n < attempt \<and> ms < 30000 then backoff_loop (n + 1) attempt (ms * 2) else ms)"
  by pat_completeness auto
termination
  by (relation "measure (\<lambda>(n, attempt, ms). attempt - n)") auto

declare backoff_loop.simps [simp del]

definition default_backoff_ms :: "nat \<Rightarrow> nat" where
  "default_backoff_ms attempt = (if attempt < 2 then 0 else min (backoff_loop 2 attempt 2000) 30000)"

function wait_slices :: "('w, 'z) fetch_env \<Rightarrow> nat \<Rightarrow> 'w \<Rightarrow> 'w" where
  "wait_slices fx left w =
     (if left = 0 then w
      else let (cancelled, w1) = fx_cancelled fx w; slice = min left 250
           in if cancelled then w1 else wait_slices fx (left - slice) (fx_sleep fx slice w1))"
  by pat_completeness auto
termination
  by (relation "measure (\<lambda>(fx, left, w). left)") auto

declare wait_slices.simps [simp del]

definition wait_before_retry :: "('w, 'z) fetch_env \<Rightarrow> nat \<Rightarrow> 'w \<Rightarrow> 'w" where
  "wait_before_retry fx attempt w = wait_slices fx (default_backoff_ms attempt) w"

definition before_attempt :: "('w, 'z) fetch_env \<Rightarrow> nat \<Rightarrow> 'w \<Rightarrow> 'w" where
  "before_attempt fx n w = (if n > 1 then wait_before_retry fx n w else w)"

datatype attempts_end = Verified | GaveUp "why option" | WasCancelled

definition check_digest :: "('w, 'z) fetch_env \<Rightarrow> fetch_config \<Rightarrow> bytes \<Rightarrow> 'w \<Rightarrow> why option \<times> 'w" where
  "check_digest fx c part w = (case hash_file fx part w of
      None \<Rightarrow> (Some HashReadFailed, w)
    | Some digest \<Rightarrow> if digest \<noteq> fc_sha256 c then (Some Sha256Mismatch, drop_part fx part w) else (None, w))"

function attempts :: "('w, 'z) fetch_env \<Rightarrow> fetch_config \<Rightarrow> bytes \<Rightarrow> nat \<Rightarrow> why option \<Rightarrow> 'w \<Rightarrow> attempts_end \<times> nat \<times> 'w" where
  "attempts fx c part n last_why w =
     (if n > fc_attempts c then (GaveUp last_why, n - 1, w)
      else let (cancelled, w1) = fx_cancelled fx (before_attempt fx n w)
      in if cancelled then (WasCancelled, n, w1)
      else case download_once fx c part w1 of
          (Cancelled, w2) \<Rightarrow> (WasCancelled, n, w2)
        | (Failed y, w2) \<Rightarrow> attempts fx c part (n + 1) (Some y) w2
        | (Done, w2) \<Rightarrow> (case check_digest fx c part w2 of
            (Some y, w3) \<Rightarrow> attempts fx c part (n + 1) (Some y) w3
          | (None, w3) \<Rightarrow> (Verified, n, w3)))"
  by pat_completeness auto
termination
  by (relation "measure (\<lambda>(fx, c, part, n, last_why, w). fc_attempts c + 1 - n)") auto

declare attempts.simps [simp del]

subsection \<open>The whole fetch\<close>

definition zip_prefix :: bytes where "zip_prefix = bytes_of ''_data/''"

definition result_of :: "fetch_status \<Rightarrow> fetch_detail \<Rightarrow> nat \<Rightarrow> fetch_result" where
  "result_of st d n = \<lparr>fr_status = st, fr_detail = d, fr_attempts = n, fr_replaced_to = [], fr_needed = 0, fr_available = 0\<rparr>"

definition unpack ::
    "('w, 'z) fetch_env \<Rightarrow> fetch_config \<Rightarrow> bytes \<Rightarrow> bytes \<Rightarrow> nat \<Rightarrow> 'w \<Rightarrow> (fetch_result \<times> 'w) option" where
  "unpack fx c part staging n w =
     (if lexists fx staging w \<and> \<not> is_owned fx staging w then Some (result_of FetchExtractFailed StagingNotOurs n, w)
      else let (m, w1) = mark_owned fx staging w
      in if \<not> m then Some (result_of FetchBadRoot CannotWriteRoot n, w1)
      else let w2 = snd (remove_tree fx staging w1)
      in case extract_zip (fx_zlib fx) (fx_zip_os fx) (fx_archive fx part w2) (fx_archive fx part w2) staging zip_prefix (fc_limits c) w2 of
          None \<Rightarrow> None
        | Some (Some zs, _, w3) \<Rightarrow>
            (let w4 = drop_staging fx staging w3
             in Some (result_of FetchExtractFailed (ZipFailed zs) n, if zs \<noteq> ZWriteFailed then drop_part fx part w4 else w4))
        | Some (None, _, w3) \<Rightarrow>
            (let (ss, replaced, w4) = install_staged fx (fc_root c) staging (fc_stamp c) w3
             in if ss \<noteq> StageOk
                then Some ((result_of FetchSwapFailed (SwapFailed ss) n)\<lparr>fr_replaced_to := replaced\<rparr>, drop_staging fx staging w4)
                else Some ((result_of FetchOk NoDetail n)\<lparr>fr_replaced_to := replaced\<rparr>, drop_part fx part w4)))"

definition needed_bytes :: "fetch_config \<Rightarrow> nat \<Rightarrow> u64" where
  "needed_bytes c have =
     (word_of_nat (if fc_bytes c > have then fc_bytes c - have else 0) + fc_extracted c) * (if fc_replacing c then 2 else 1)"

text \<open>The outer option: the extraction of an archive may not end when zlib makes no progress.\<close>

definition run_fetch :: "('w, 'z) fetch_env \<Rightarrow> fetch_config \<Rightarrow> 'w \<Rightarrow> (fetch_result \<times> 'w) option" where
  "run_fetch fx c w =
     (let (made, w1) = make_root fx (fc_root c) w
      in if \<not> made then Some (result_of FetchBadRoot CannotCreateRoot 0, w1)
      else let w2 = snd (recover_replaced fx (fc_root c) w1);
               (_, _, w3) = clean_leftovers fx (fc_root c) w2;
               part = file_in (fc_root c) part_name;
               (m, w4) = mark_owned fx part w3
      in if \<not> m then Some (result_of FetchBadRoot CannotWriteRoot 0, w4)
      else let needed = needed_bytes c (part_size fx part w4); available = fx_free fx (fc_root c) w4
      in if available < needed
         then Some ((result_of FetchNoSpace NoDetail 0)\<lparr>fr_needed := needed, fr_available := available\<rparr>, w4)
      else case attempts fx c part 1 None w4 of
          (WasCancelled, n, w5) \<Rightarrow> Some (result_of FetchCancelled NoDetail n, w5)
        | (GaveUp y, n, w5) \<Rightarrow> Some (result_of FetchRetriesExhausted (case y of None \<Rightarrow> NoDetail | Some d \<Rightarrow> Last d) n, w5)
        | (Verified, n, w5) \<Rightarrow> unpack fx c part (staging_path (fc_root c) (fc_sha256 c)) n w5)"

end
