(* ===== verification/Fetch_Safety.thy ===== *)
theory Fetch_Safety
  imports Data_Fetch
begin

section \<open>What a fetch leaves on the disk\<close>

text \<open>
  The laws of the calls the fetch adds to those of \<open>posix\<close>, and the places they touch: the download and its marker, the
  staging directory and its marker, and, in the swap, the data. Any of the calls that change the disk may fail.
\<close>

subsection \<open>The laws\<close>

definition digest :: "bytes \<Rightarrow> bytes" where
  "digest bs = hex_encode (sha256_bytes (md_digest sha256_compress sha256_iv bs))"

text \<open>A reader of an archive reads the bytes of the file.\<close>

definition archive_of :: "zip_file \<Rightarrow> bytes \<Rightarrow> bool" where
  "archive_of z bs \<longleftrightarrow> (zf_size z = None \<or> zf_size z = Some (length bs))
     \<and> (\<forall>off n b. zf_read z off n = Some b \<longrightarrow> off + n \<le> length bs \<and> b = take n (drop off bs))"

definition mkdir_law :: "bytes \<Rightarrow> mkdir_result \<Rightarrow> tree \<Rightarrow> tree \<Rightarrow> bool" where
  "mkdir_law p r t u \<longleftrightarrow> (if r = MkOk then t p = None \<and> u = t(p := Some Dir) else u = t)"

definition open_law :: "bytes \<Rightarrow> bool \<Rightarrow> tree \<Rightarrow> tree \<Rightarrow> bool" where
  "open_law p ok t u \<longleftrightarrow> (u = t \<or> t p = None \<and> u = t(p := Some (File []))) \<and> (ok \<and> t p \<noteq> Some Link \<longrightarrow> (\<exists>bs. u p = Some (File bs)))"

definition pwrite_law :: "bytes \<Rightarrow> nat \<Rightarrow> bytes \<Rightarrow> bool \<Rightarrow> tree \<Rightarrow> tree \<Rightarrow> bool" where
  "pwrite_law p off data ok t u \<longleftrightarrow> (\<forall>bs. t p = Some (File bs) \<longrightarrow> only_at p t u \<and> (\<exists>bs'. u p = Some (File bs'))
     \<and> (ok \<and> off \<le> length bs \<longrightarrow> u p = Some (File (take off bs @ data @ drop (off + length data) bs))))"

definition truncate_law :: "bytes \<Rightarrow> bool \<Rightarrow> tree \<Rightarrow> tree \<Rightarrow> bool" where
  "truncate_law p ok t u \<longleftrightarrow> (\<forall>bs. t p = Some (File bs) \<longrightarrow> (if ok then u = t(p := Some (File [])) else u = t))"

definition read_law :: "bytes list option \<Rightarrow> node option \<Rightarrow> bool" where
  "read_law r n \<longleftrightarrow> (\<forall>reads. r = Some reads \<and> n \<noteq> Some Link \<longrightarrow> n = Some (File (concat reads)))"

definition stat_law :: "stat_result \<Rightarrow> node option \<Rightarrow> bool" where
  "stat_law r n \<longleftrightarrow> (n \<noteq> Some Link \<longrightarrow> r = stat_of n)"

definition archive_law :: "zip_file option \<Rightarrow> node option \<Rightarrow> bool" where
  "archive_law r n \<longleftrightarrow> (\<forall>z bs. r = Some z \<and> n = Some (File bs) \<longrightarrow> archive_of z bs)"

definition unpack_law :: "'w zip_os \<Rightarrow> ('w \<Rightarrow> tree) \<Rightarrow> bool" where
  "unpack_law os view \<longleftrightarrow> (\<forall>w p b. only_at p (view w) (view (snd (os_mkdir os p w))) \<and> only_at p (view w) (view (snd (os_create os p w)))
     \<and> only_at p (view w) (view (snd (os_append os p w b))) \<and> only_at p (view w) (view (snd (os_fsync os p w))))"

definition fetch_laws :: "('w, 'z) fetch_env \<Rightarrow> ('w \<Rightarrow> tree) \<Rightarrow> bool" where
  "fetch_laws fx view \<longleftrightarrow> posix_sees fx view \<and> unpack_law (fx_zip_os fx) view \<and> (\<forall>w p.
     (\<forall>r w1. fx_mkdir fx p w = (r, w1) \<longrightarrow> mkdir_law p r (view w) (view w1))
   \<and> (\<forall>ok w1. fx_open fx p w = (ok, w1) \<longrightarrow> open_law p ok (view w) (view w1))
   \<and> (\<forall>off data ok w1. fx_pwrite fx p off data w = (ok, w1) \<longrightarrow> pwrite_law p off data ok (view w) (view w1))
   \<and> (\<forall>ok w1. fx_truncate fx p w = (ok, w1) \<longrightarrow> truncate_law p ok (view w) (view w1))
   \<and> read_law (fx_read fx p w) (view w p)
   \<and> stat_law (fx_stat fx p w) (view w p)
   \<and> archive_law (fx_archive fx p w) (view w p)
   \<and> (\<forall>ms. view (fx_sleep fx ms w) = view w)
   \<and> view (snd (fx_cancelled fx w)) = view w
   \<and> (\<forall>have. view (snd (snd (fx_get fx have w))) = view w))"

lemma fetch_lawsD:
  assumes "fetch_laws fx view"
  shows "posix_sees fx view" "unpack_law (fx_zip_os fx) view"
    "fx_mkdir fx p w = (r, w1) \<Longrightarrow> mkdir_law p r (view w) (view w1)"
    "fx_open fx p w = (ok, w1) \<Longrightarrow> open_law p ok (view w) (view w1)"
    "fx_pwrite fx p off data w = (ok, w1) \<Longrightarrow> pwrite_law p off data ok (view w) (view w1)"
    "fx_truncate fx p w = (ok, w1) \<Longrightarrow> truncate_law p ok (view w) (view w1)"
    "read_law (fx_read fx p w) (view w p)" "stat_law (fx_stat fx p w) (view w p)" "archive_law (fx_archive fx p w) (view w p)"
    "view (fx_sleep fx ms w) = view w" "view (snd (fx_cancelled fx w)) = view w" "view (snd (snd (fx_get fx have w))) = view w"
proof -
  have s: "posix_sees fx view" "unpack_law (fx_zip_os fx) view"
    and c: "(\<forall>r w1. fx_mkdir fx p w = (r, w1) \<longrightarrow> mkdir_law p r (view w) (view w1))
   \<and> (\<forall>ok w1. fx_open fx p w = (ok, w1) \<longrightarrow> open_law p ok (view w) (view w1))
   \<and> (\<forall>off data ok w1. fx_pwrite fx p off data w = (ok, w1) \<longrightarrow> pwrite_law p off data ok (view w) (view w1))
   \<and> (\<forall>ok w1. fx_truncate fx p w = (ok, w1) \<longrightarrow> truncate_law p ok (view w) (view w1))
   \<and> read_law (fx_read fx p w) (view w p) \<and> stat_law (fx_stat fx p w) (view w p) \<and> archive_law (fx_archive fx p w) (view w p)
   \<and> (\<forall>ms. view (fx_sleep fx ms w) = view w) \<and> view (snd (fx_cancelled fx w)) = view w
   \<and> (\<forall>have. view (snd (snd (fx_get fx have w))) = view w)" for p w
    using assms unfolding fetch_laws_def by blast+
  show "posix_sees fx view" "unpack_law (fx_zip_os fx) view" by (rule s)+
  show "fx_mkdir fx p w = (r, w1) \<Longrightarrow> mkdir_law p r (view w) (view w1)"
    "fx_open fx p w = (ok, w1) \<Longrightarrow> open_law p ok (view w) (view w1)"
    "fx_pwrite fx p off data w = (ok, w1) \<Longrightarrow> pwrite_law p off data ok (view w) (view w1)"
    "fx_truncate fx p w = (ok, w1) \<Longrightarrow> truncate_law p ok (view w) (view w1)"
    "read_law (fx_read fx p w) (view w p)" "stat_law (fx_stat fx p w) (view w p)" "archive_law (fx_archive fx p w) (view w p)"
    "view (fx_sleep fx ms w) = view w" "view (snd (fx_cancelled fx w)) = view w" "view (snd (snd (fx_get fx have w))) = view w"
    using c [of p w] by blast+
qed

lemma fetch_posix: "fetch_laws fx view \<Longrightarrow> posix_laws fx view"
  by (rule sees_laws) (rule fetch_lawsD(1))

lemma hash_file_digest:
  assumes "fetch_laws fx view" "hash_file fx p w = Some h" "view w p \<noteq> Some Link"
  shows "\<exists>bs. view w p = Some (File bs) \<and> h = digest bs"
proof -
  have f: "sha256_fresh (sha256_start (replicate 64 0))"
    by (simp add: sha256_fresh_def sha256_start_def sha256_reset_def sha256_ok_def)
  from assms(2) obtain reads where r: "fx_read fx p w = Some reads" "h = fst (sha256_hex (foldl sha256_update (sha256_start (replicate 64 0)) reads))"
    by (auto simp: hash_file_def)
  have "view w p = Some (File (concat reads))" using fetch_lawsD(7) [OF assms(1), of p w] r(1) assms(3) by (simp add: read_law_def)
  with sha256_hex_digest [OF f, of reads] r(2) show ?thesis by (simp add: digest_def)
qed

subsection \<open>The download touches the part only\<close>

text \<open>What holds through the download: everything but the part and its marker is as it was, and the part is no link.\<close>

definition part_frame :: "bytes \<Rightarrow> tree \<Rightarrow> tree \<Rightarrow> bool" where
  "part_frame part t u \<longleftrightarrow> (\<forall>q. q \<noteq> part \<and> q \<noteq> owner_marker part \<longrightarrow> u q = t q) \<and> (t part \<noteq> Some Link \<longrightarrow> u part \<noteq> Some Link)"

lemma part_frame_refl [simp]: "part_frame part t t"
  by (simp add: part_frame_def)

lemma part_frame_trans [trans]: "part_frame part t u \<Longrightarrow> part_frame part u v \<Longrightarrow> part_frame part t v"
  by (simp add: part_frame_def)

lemma owner_marker_neq [simp]: "owner_marker p \<noteq> p" "p \<noteq> owner_marker p"
  by (simp_all add: owner_marker_def name_defs)

lemma only_at_frame:
  "only_at part t u \<Longrightarrow> (t part \<noteq> Some Link \<longrightarrow> u part \<noteq> Some Link) \<Longrightarrow> part_frame part t u"
  "only_at (owner_marker part) t u \<Longrightarrow> part_frame part t u"
  by (auto simp: only_at_def part_frame_def)

lemma mark_part_frame: "posix_laws px view \<Longrightarrow> part_frame part (view w) (view (snd (mark_owned px part w)))"
  using mark_owned_view(1) [of px view part w] by (cases "mark_owned px part w") (auto intro: only_at_frame(2))

lemma unlink_view: "posix_laws px view \<Longrightarrow> view (snd (px_unlink px p w)) p = None \<or> view (snd (px_unlink px p w)) = view w"
  using laws_unlink [of px view p w] by (cases "px_unlink px p w") (auto simp: unlink_law_def split: if_splits)

lemma drop_part_frame:
  assumes "posix_laws px view" shows "part_frame part (view w) (view (drop_part px part w))"
proof -
  have "part_frame part (view w) (view (snd (px_unlink px part w)))"
    using unlink_only_at [OF assms, of part w] unlink_view [OF assms, of part w] by (intro only_at_frame(1)) auto
  also have "part_frame part (view (snd (px_unlink px part w))) (view (drop_part px part w))"
    unfolding drop_part_def by (rule only_at_frame(2)) (rule unlink_only_at [OF assms])
  finally show ?thesis .
qed

lemma open_frame:
  assumes "fetch_laws fx view" "fx_open fx part w = (ok, w1)" "view w part \<noteq> Some Link"
  shows "part_frame part (view w) (view w1)" "ok \<Longrightarrow> \<exists>bs. view w1 part = Some (File bs)"
  using fetch_lawsD(4) [OF assms(1,2)] assms(3) by (auto simp: open_law_def part_frame_def)

text \<open>While a body is received the part is a file.\<close>

definition part_open :: "bytes \<Rightarrow> tree \<Rightarrow> tree \<Rightarrow> bool" where
  "part_open part t u \<longleftrightarrow> only_at part t u \<and> (\<exists>bs. u part = Some (File bs))"

lemma part_open_trans: "part_open part t u \<Longrightarrow> part_open part u v \<Longrightarrow> part_open part t v"
  by (auto simp: part_open_def only_at_def)

lemma truncate_open:
  assumes "fetch_laws fx view" "fx_truncate fx part w = (ok, w1)" "\<exists>bs. view w part = Some (File bs)"
  shows "part_open part (view w) (view w1)"
  using fetch_lawsD(6) [OF assms(1,2)] assms(3) by (auto simp: truncate_law_def part_open_def only_at_def split: if_splits)

lemma write_all_open:
  assumes "fetch_laws fx view" "write_all fx part off data w = (ok, w1)" "\<exists>bs. view w part = Some (File bs)"
  shows "part_open part (view w) (view w1)"
  using assms fetch_lawsD(5) [OF assms(1), of part off data w ok w1]
  by (auto simp: write_all_def pwrite_law_def part_open_def split: if_splits)

lemma restart_body_open:
  assumes "fetch_laws fx view" "restart_body fx part have status b w = (go, b1, w1)" "\<exists>bs. view w part = Some (File bs)"
  shows "part_open part (view w) (view w1)"
  using assms truncate_open [OF assms(1), of part w]
  by (auto simp: restart_body_def part_open_def only_at_def Let_def split: if_splits prod.splits)

lemma take_body_open:
  assumes "fetch_laws fx view" "take_body fx c part data b w = (go, b1, w1)" "\<exists>bs. view w part = Some (File bs)"
  shows "part_open part (view w) (view w1)"
  using assms write_all_open [OF assms(1), of part "tf_cursor b" data w]
  by (auto simp: take_body_def part_open_def only_at_def Let_def split: if_splits prod.splits)

lemma on_body_open:
  assumes laws: "fetch_laws fx view" and "on_body fx c part have p b w = (go, b1, w1)" and f: "\<exists>bs. view w part = Some (File bs)"
  shows "part_open part (view w) (view w1)"
proof -
  obtain status data where p: "p = (status, data)" by (cases p) auto
  obtain cut b2 w2 where r: "restart_body fx part have status b w = (cut, b2, w2)" by (metis prod_cases3)
  note o2 = restart_body_open [OF laws r f]
  have "part_open part (view w) (view w1)" if "take_body fx c part data b2 w2 = (go, b1, w1)"
    using part_open_trans [OF o2 take_body_open [OF laws that]] o2 by (auto simp: part_open_def)
  moreover have "part_open part (view w) (view w)" using f by (simp add: part_open_def)
  ultimately show ?thesis using assms(2) o2 by (auto simp: on_body_def p r split: if_splits)
qed

lemma deliver_open:
  assumes laws: "fetch_laws fx view"
  shows "deliver fx c part have ps b w = (stopped, b1, w1) \<Longrightarrow> \<exists>bs. view w part = Some (File bs) \<Longrightarrow> part_open part (view w) (view w1)"
proof (induction ps arbitrary: b w)
  case (Cons p ps)
  obtain go b2 w2 where o: "on_body fx c part have p b w = (go, b2, w2)" by (metis prod_cases3)
  note step = on_body_open [OF laws o Cons.prems(2)]
  show ?case
  proof (cases go)
    case True
    then have "part_open part (view w2) (view w1)" using Cons.prems(1) step Cons.IH [of b2 w2] by (auto simp: o part_open_def)
    with step show ?thesis by (rule part_open_trans)
  qed (use Cons.prems(1) step in \<open>auto simp: o\<close>)
qed (auto simp: part_open_def)

lemma part_open_frame: "part_open part t u \<Longrightarrow> part_frame part t u"
  by (auto simp: part_open_def part_frame_def only_at_def)

lemma transfer_part_open:
  assumes laws: "fetch_laws fx view" and "transfer_part fx c part have w = (d, w1)" and f: "\<exists>bs. view w part = Some (File bs)"
  shows "part_open part (view w) (view w1)"
proof -
  obtain ps outcome w2 where g: "fx_get fx have w = (ps, outcome, w2)" by (metis prod_cases3)
  let ?b = "\<lparr>tf_written = have, tf_cursor = have, tf_restarted = False, tf_write_failed = False, tf_overrun = False\<rparr>"
  obtain stopped b w3 where d: "deliver fx c part have ps ?b w2 = (stopped, b, w3)" by (metis prod_cases3)
  have w2: "view w2 = view w" using fetch_lawsD(12) [OF laws, of "have" w] by (simp add: g)
  have o: "part_open part (view w) (view w3)" using deliver_open [OF laws d] f w2 by simp
  let ?w4 = "snd (px_fsync fx part w3)"
  obtain cancelled w5 where c: "(if tr_interrupted (outcome stopped) then (True, ?w4) else fx_cancelled fx ?w4) = (cancelled, w5)" by fastforce
  have w5: "view w5 = view w3"
    using c fetch_lawsD(11) [OF laws, of ?w4] fsync_view [OF fetch_posix [OF laws]] by (cases "tr_interrupted (outcome stopped)") auto
  have "part_open part (view w5) (view (snd (fx_truncate fx part w5)))"
    using o truncate_open [OF laws, of part w5] by (cases "fx_truncate fx part w5") (auto simp: w5 part_open_def)
  then have "part_open part (view w) (view (snd (fx_truncate fx part w5)))" using o part_open_trans by (metis w5)
  then show ?thesis using assms(2) o w5 by (auto simp: transfer_part_def g d c Let_def split: if_splits)
qed

lemma download_frame:
  assumes laws: "fetch_laws fx view" and "download_once fx c part w = (d, w1)" and link: "view w part \<noteq> Some Link"
  shows "part_frame part (view w) (view w1)"
proof -
  note px = fetch_posix [OF laws]
  define w0 where "w0 = (if part_size fx part w > fc_bytes c then drop_part fx part w else w)"
  define got where "got = (if part_size fx part w > fc_bytes c then 0 else part_size fx part w)"
  have e: "(if part_size fx part w > fc_bytes c then (0, drop_part fx part w) else (part_size fx part w, w)) = (got, w0)"
    by (simp add: w0_def got_def)
  have f0: "part_frame part (view w) (view w0)" using drop_part_frame [OF px, of part w] by (auto simp: w0_def)
  obtain m w2 where m: "mark_owned fx part w0 = (m, w2)" by fastforce
  have f2: "part_frame part (view w) (view w2)" using part_frame_trans [OF f0 mark_part_frame [OF px]] by (simp add: m)
  obtain opened w3 where o: "fx_open fx part w2 = (opened, w3)" by fastforce
  have l2: "view w2 part \<noteq> Some Link" using f2 link by (simp add: part_frame_def)
  note o3 = open_frame [OF laws o l2]
  have f3: "part_frame part (view w) (view w3)" using part_frame_trans [OF f2 o3(1)] .
  consider (whole) "got = fc_bytes c" | (unmarked) "got \<noteq> fc_bytes c" "\<not> m" | (closed) "got \<noteq> fc_bytes c" "m" "\<not> opened"
    | (get) "got \<noteq> fc_bytes c" "m" "opened" by blast
  then show ?thesis
  proof cases
    case get
    have "part_frame part (view w3) (view w1)"
      using transfer_part_open [OF laws, of c part got w3 d w1] assms(2) get o3(2) unfolding download_once_def e
      by (auto simp: m o intro: part_open_frame)
    with f3 show ?thesis by (rule part_frame_trans)
  qed (use assms(2) f0 f2 f3 in \<open>auto simp: download_once_def e m o\<close>)
qed

subsection \<open>The attempts\<close>

lemma wait_slices_view: "fetch_laws fx view \<Longrightarrow> view (wait_slices fx left w) = view w"
proof (induction fx left w rule: wait_slices.induct)
  case (1 fx left w)
  obtain cancelled w1 where c: "fx_cancelled fx w = (cancelled, w1)" by fastforce
  have "view w1 = view w" using fetch_lawsD(11) [OF "1.prems", of w] by (simp add: c)
  then show ?case using "1.IH" [OF _ c [symmetric] refl] "1.prems" fetch_lawsD(10) [OF "1.prems"]
    by (subst wait_slices.simps) (simp add: c Let_def)
qed

lemma check_digest_frame:
  assumes laws: "fetch_laws fx view" and "check_digest fx c part w = (y, w1)" and link: "view w part \<noteq> Some Link"
  shows "part_frame part (view w) (view w1)" "y = None \<Longrightarrow> \<exists>bs. view w1 part = Some (File bs) \<and> digest bs = fc_sha256 c"
  using assms(2) drop_part_frame [OF fetch_posix [OF laws], of part w] hash_file_digest [OF laws, of part w] link
  by (auto simp: check_digest_def split: option.splits if_splits)

lemma attempts_frame:
  assumes laws: "fetch_laws fx view"
  shows "attempts fx c part n y w = (r, m, w1) \<Longrightarrow> view w part \<noteq> Some Link \<Longrightarrow> part_frame part (view w) (view w1)
    \<and> (r = Verified \<longrightarrow> (\<exists>bs. view w1 part = Some (File bs) \<and> digest bs = fc_sha256 c))"
proof (induction "fc_attempts c + 1 - n" arbitrary: n y w rule: less_induct)
  case less
  show ?case
  proof (cases "n > fc_attempts c")
    case True
    with less.prems show ?thesis by (subst (asm) attempts.simps) auto
  next
    case False
    then have smaller: "fc_attempts c + 1 - (n + 1) < fc_attempts c + 1 - n" by simp
    let ?w = "before_attempt fx n w"
    obtain cancelled w2 where c: "fx_cancelled fx ?w = (cancelled, w2)" by fastforce
    have "view w2 = view ?w" using fetch_lawsD(11) [OF laws, of ?w] by (simp only: c snd_conv)
    then have w2: "view w2 = view w" using wait_slices_view [OF laws] by (simp add: before_attempt_def wait_before_retry_def split: if_splits)
    obtain d w3 where d: "download_once fx c part w2 = (d, w3)" by fastforce
    have f3: "part_frame part (view w) (view w3)" using download_frame [OF laws d] less.prems(2) by (simp add: w2)
    have l3: "view w3 part \<noteq> Some Link" using f3 less.prems(2) by (simp add: part_frame_def)
    obtain e w4 where e: "check_digest fx c part w3 = (e, w4)" by fastforce
    note dg = check_digest_frame [OF laws e l3]
    have f4: "part_frame part (view w) (view w4)" using part_frame_trans [OF f3 dg(1)] .
    have l4: "view w4 part \<noteq> Some Link" using f4 less.prems(2) by (simp add: part_frame_def)
    have again: "part_frame part (view w) (view w1) \<and> (r = Verified \<longrightarrow> (\<exists>bs. view w1 part = Some (File bs) \<and> digest bs = fc_sha256 c))"
      if "attempts fx c part (n + 1) z v = (r, m, w1)" "part_frame part (view w) (view v)" "view v part \<noteq> Some Link" for z v
      using less.hyps [OF smaller that(1,3)] part_frame_trans [OF that(2)] by blast
    have run: "attempts fx c part n y w = (if cancelled then (WasCancelled, n, w2)
        else case d of Cancelled \<Rightarrow> (WasCancelled, n, w3) | Failed y \<Rightarrow> attempts fx c part (n + 1) (Some y) w3
          | Done \<Rightarrow> (case e of Some y \<Rightarrow> attempts fx c part (n + 1) (Some y) w4 | None \<Rightarrow> (Verified, n, w4)))"
      using False by (subst attempts.simps) (simp add: c d e split: download.split option.split)
    show ?thesis
    proof (cases cancelled)
      case True
      then show ?thesis using run less.prems(1) w2 by auto
    next
      case go: False
      show ?thesis
      proof (cases d)
        case Done
        then show ?thesis using run less.prems(1) go again [OF _ f4 l4] f4 dg(2) by (cases e) auto
      qed (use run less.prems(1) go again [OF _ f3 l3] f3 in auto)
    qed
  qed
qed

subsection \<open>Unpacking touches the staging directory and the swap\<close>

definition fetch_frame :: "bytes \<Rightarrow> bytes \<Rightarrow> tree \<Rightarrow> tree \<Rightarrow> bool" where
  "fetch_frame part staging t u \<longleftrightarrow> (\<forall>q. q \<noteq> part \<and> q \<noteq> owner_marker part \<and> q \<noteq> owner_marker staging \<and> \<not> beneath staging q \<longrightarrow> u q = t q)"

lemma fetch_frame_refl [simp]: "fetch_frame part staging t t"
  by (simp add: fetch_frame_def)

lemma fetch_frame_trans [trans]: "fetch_frame part staging t u \<Longrightarrow> fetch_frame part staging u v \<Longrightarrow> fetch_frame part staging t v"
  by (simp add: fetch_frame_def)

lemma part_frame_fetch: "part_frame part t u \<Longrightarrow> fetch_frame part staging t u"
  by (simp add: part_frame_def fetch_frame_def)

lemma only_at_fetch: "only_at p t u \<Longrightarrow> p = owner_marker staging \<or> beneath staging p \<Longrightarrow> fetch_frame part staging t u"
  by (auto simp: only_at_def fetch_frame_def)

lemma remove_staging_frame:
  assumes "posix_laws px view" shows "fetch_frame part staging (view w) (view (snd (remove_tree px staging w)))"
  using remove_tree_lost [where P = "beneath staging", OF assms] by (fastforce simp: lost_only_def fetch_frame_def)

lemma drop_staging_frame:
  assumes "posix_laws px view" shows "fetch_frame part staging (view w) (view (drop_staging px staging w))"
  unfolding drop_staging_def
  by (rule fetch_frame_trans [OF remove_staging_frame [OF assms] only_at_fetch [OF unlink_only_at [OF assms]]]) simp

lemma mark_staging_frame: "posix_laws px view \<Longrightarrow> fetch_frame part staging (view w) (view (snd (mark_owned px staging w)))"
  using mark_owned_view(1) [of px view staging w] by (cases "mark_owned px staging w") (auto intro: only_at_fetch)

lemma below_beneath: "below p q \<Longrightarrow> beneath p q"
proof -
  assume "below p q"
  then obtain parts where "q = p @ concat (map (Cons slash) parts)" by (auto simp: below_def)
  then show "beneath p q" by (cases parts) (auto simp: beneath_iff)
qed

text \<open>Extraction is the contract of \<open>Zip_Archive\<close>: only the staging directory is touched.\<close>

lemma extract_frame:
  assumes laws: "fetch_laws fx view" and x: "extract_zip zl (fx_zip_os fx) a b staging zip_prefix lim w = Some (st, n, w1)"
  shows "\<not> beneath staging q \<Longrightarrow> view w1 q = view w q"
proof -
  let ?I = "\<lambda>v. \<not> beneath staging q \<longrightarrow> view v q = view w q"
  have "kept_below (fx_zip_os fx) staging ?I"
    using fetch_lawsD(2) [OF laws] below_beneath unfolding kept_below_def unpack_law_def only_at_def by metis
  moreover have "zip_prefix = [] \<or> last zip_prefix = slash" by (simp add: zip_prefix_def bytes_of_def slash_def)
  ultimately show "\<not> beneath staging q \<Longrightarrow> view w1 q = view w q"
    using extract_zip_kept [of "fx_zip_os fx" staging ?I w zip_prefix zl a b lim] x by simp
qed

end
