(* ===== verification/Fetch_Keeps.thy ===== *)
theory Fetch_Keeps
  imports Fetch_Safety
begin

section \<open>The fetch keeps the player's data\<close>

text \<open>
  From the frames of the single calls to the whole of \<^verbatim>\<open>RunFetch\<close>: what is in place when it reports success comes from an
  archive with the pinned digest; when it does not, the next start has the old data. A killed process is a run in which every call after
  the kill fails.
\<close>

subsection \<open>Names outside the fetch\<close>

definition clear_name :: "bytes \<Rightarrow> bytes \<Rightarrow> bool" where
  "clear_name x n \<longleftrightarrow> slash \<notin> set n \<and> n \<notin> {part_name, part_name @ owner_suffix, staging_prefix @ x, staging_prefix @ x @ owner_suffix}"

lemma clear_frame:
  assumes "fetch_frame (file_in root part_name) (file_in root (staging_prefix @ x)) t u" "clear_name x n" "slash \<notin> set x"
    "beneath (file_in root n) q"
  shows "u q = t q"
proof -
  have "\<not> beneath (file_in root m) q" if "m \<in> {part_name, part_name @ owner_suffix, staging_prefix @ x, staging_prefix @ x @ owner_suffix}" for m
  proof -
    have "apart (file_in root n) (file_in root m)"
      using that assms(2,3) by (intro file_in_apart) (auto simp: clear_name_def)
    then show ?thesis using assms(4) by (rule apart_beneath)
  qed
  from this [of part_name] this [of "part_name @ owner_suffix"] this [of "staging_prefix @ x"] this [of "staging_prefix @ x @ owner_suffix"]
  show ?thesis using assms(1) unfolding fetch_frame_def owner_marker_file_in append_assoc by (metis beneath_refl insert_iff)
qed

lemma clear_subtree:
  assumes "fetch_frame (file_in root part_name) (file_in root (staging_prefix @ x)) t u" "clear_name x n" "slash \<notin> set x"
  shows "subtree u (file_in root n) = subtree t (file_in root n)" "u (file_in root n) = t (file_in root n)"
  using clear_frame [OF assms] by (auto intro: subtree_cong)

lemma clear_names [simp]:
  "clear_name x data_name" "slash \<notin> set stamp \<Longrightarrow> clear_name x (replaced_prefix @ stamp)"
  "slash \<notin> set stamp \<Longrightarrow> clear_name x (replaced_prefix @ stamp @ owner_suffix)"
  by (simp_all add: clear_name_def name_defs)

lemma data_kept_frame:
  assumes "fetch_frame (file_in root part_name) (file_in root (staging_prefix @ x)) t u" "slash \<notin> set x" "slash \<notin> set stamp"
    and "data_kept root stamp old t"
  shows "data_kept root stamp old u"
  using clear_subtree [OF assms(1) _ assms(2)] assms(3,4)
  by (simp add: data_kept_def data_aside_def aside_path_def owner_marker_file_in)

lemma replaced_clear: "slash \<notin> set n \<Longrightarrow> starts_with n replaced_prefix \<Longrightarrow> clear_name x n \<and> clear_name x (n @ owner_suffix)"
  by (auto simp: clear_name_def starts_with_def name_defs append_eq_append_conv2 append_eq_Cons_conv)

lemma latest_stamp_cong:
  assumes "latest_stamp root stamp t"
    and "\<And>n m. slash \<notin> set n \<Longrightarrow> starts_with n replaced_prefix \<Longrightarrow> m = n \<or> m = n @ owner_suffix \<Longrightarrow> u (file_in root m) \<noteq> None
      \<Longrightarrow> u (file_in root m) = t (file_in root m)"
  shows "latest_stamp root stamp u"
  unfolding latest_stamp_def
proof (intro conjI allI impI)
  show "slash \<notin> set stamp" "\<not> ends_with (replaced_prefix @ stamp) owner_suffix" using assms(1) by (auto simp: latest_stamp_def)
  fix n assume n: "slash \<notin> set n \<and> starts_with n replaced_prefix \<and> \<not> ends_with n owner_suffix \<and> u (file_in root n) = Some Dir
      \<and> u (owner_marker (file_in root n)) = Some (File [])"
  then have "t (file_in root n) = Some Dir" "t (owner_marker (file_in root n)) = Some (File [])"
    using assms(2) [of n n] assms(2) [of n "n @ owner_suffix"] by (auto simp: owner_marker_file_in)
  then show "n \<le> replaced_prefix @ stamp" using assms(1) n by (auto simp: latest_stamp_def)
qed

lemma latest_stamp_frame:
  assumes "fetch_frame (file_in root part_name) (file_in root (staging_prefix @ x)) t u" "slash \<notin> set x" "latest_stamp root stamp t"
  shows "latest_stamp root stamp u"
  using assms(3) by (rule latest_stamp_cong) (use clear_subtree(2) [OF assms(1) _ assms(2)] replaced_clear in auto)

subsection \<open>Unpacking\<close>

lemma unpack_ends:
  assumes laws: "fetch_laws fx view" and x: "slash \<notin> set x" and latest: "latest_stamp (fc_root c) (fc_stamp c) (view w)"
    and run: "unpack fx c (file_in (fc_root c) part_name) (file_in (fc_root c) (staging_prefix @ x)) n w = Some (r, w1)"
    and verified: "view w (file_in (fc_root c) part_name) = Some (File bs)"
  shows "latest_stamp (fc_root c) (fc_stamp c) (view w1) \<and> (if fr_status r = FetchOk
    then \<exists>z m w2 w3. archive_of z bs
      \<and> extract_zip (fx_zlib fx) (fx_zip_os fx) (Some z) (Some z) (file_in (fc_root c) (staging_prefix @ x)) zip_prefix (fc_limits c) w2 = Some (None, m, w3)
      \<and> subtree (view w1) (file_in (fc_root c) data_name) = subtree (view w3) (file_in (fc_root c) (staging_prefix @ x))
    else data_kept (fc_root c) (fc_stamp c) (subtree (view w) (file_in (fc_root c) data_name)) (view w1))"
proof -
  let ?root = "fc_root c" and ?stamp = "fc_stamp c"
  let ?part = "file_in ?root part_name" and ?s = "file_in ?root (staging_prefix @ x)" and ?d = "file_in ?root data_name"
  let ?old = "subtree (view w) ?d" and ?goal = "\<lambda>v. latest_stamp ?root ?stamp (view v) \<and> data_kept ?root ?stamp (subtree (view w) ?d) (view v)"
  note px = fetch_posix [OF laws]
  have st: "slash \<notin> set ?stamp" using latest by (simp add: latest_stamp_def)
  have keep: "?goal v'" if "fetch_frame ?part ?s (view v) (view v')" "?goal v" for v v'
    using that data_kept_frame [OF that(1) x st] latest_stamp_frame [OF that(1) x] by blast
  have start: "?goal w" using latest by (simp add: data_kept_def)
  obtain m w2 where m: "mark_owned fx ?s w = (m, w2)" by fastforce
  have f2: "fetch_frame ?part ?s (view w) (view w2)" using mark_staging_frame [OF px, of ?part ?s w] by (simp add: m)
  define w3 where "w3 = snd (remove_tree fx ?s w2)"
  have f3: "fetch_frame ?part ?s (view w) (view w3)"
    unfolding w3_def by (rule fetch_frame_trans [OF f2 remove_staging_frame [OF px]])
  have part3: "view w3 ?part = Some (File bs)"
  proof -
    have a: "apart ?s ?part" using x by (intro file_in_apart) (auto dest: sym)
    have "view w2 ?part = view w ?part" using mark_elsewhere [OF px, of ?part ?s w] by (simp add: m owner_marker_file_in)
    moreover have "view w3 ?part = view w2 ?part"
      using remove_tree_lost [where P = "beneath ?s", OF px] a unfolding w3_def lost_only_def apart_def by metis
    ultimately show ?thesis using verified by simp
  qed
  let ?x = "extract_zip (fx_zlib fx) (fx_zip_os fx) (fx_archive fx ?part w3) (fx_archive fx ?part w3) ?s zip_prefix (fc_limits c) w3"
  consider (foreign) "lexists fx ?s w \<and> \<not> is_owned fx ?s w" | (unmarked) "\<not> (lexists fx ?s w \<and> \<not> is_owned fx ?s w)" "\<not> m"
    | (ours) "\<not> (lexists fx ?s w \<and> \<not> is_owned fx ?s w)" "m" by blast
  then show ?thesis
  proof cases
    case foreign
    then show ?thesis using run start by (auto simp: unpack_def result_of_def)
  next
    case unmarked
    then show ?thesis using run keep [OF f2 start] by (auto simp: unpack_def result_of_def m)
  next
    case ours
    then obtain zs k w4 where e: "?x = Some (zs, k, w4)" using run by (auto simp: unpack_def m w3_def Let_def split: option.splits)
    have f4: "fetch_frame ?part ?s (view w) (view w4)"
      by (rule fetch_frame_trans [OF f3]) (use extract_frame [OF laws e] in \<open>auto simp: fetch_frame_def\<close>)
    show ?thesis
    proof (cases zs)
      case (Some y)
      let ?w5 = "drop_staging fx ?s w4"
      have f5: "fetch_frame ?part ?s (view w) (view ?w5)" by (rule fetch_frame_trans [OF f4 drop_staging_frame [OF px]])
      have "fetch_frame ?part ?s (view w) (view (drop_part fx ?part ?w5))"
        by (rule fetch_frame_trans [OF f5 part_frame_fetch [OF drop_part_frame [OF px]]])
      from keep [OF this start] keep [OF f5 start] show ?thesis
        using run ours e Some by (auto simp: unpack_def m w3_def [symmetric] Let_def result_of_def)
    next
      case None
      obtain z where z: "fx_archive fx ?part w3 = Some z" using e None by (cases "fx_archive fx ?part w3") (auto simp: extract_zip_def read_zip_listing_def)
      have zb: "archive_of z bs" using fetch_lawsD(9) [OF laws, of ?part w3] z part3 by (simp add: archive_law_def)
      obtain ss rep w5 where i: "install_staged fx ?root ?s ?stamp w4 = (ss, rep, w5)" by (metis prod_cases3)
      have old: "subtree (view w4) ?d = ?old" using clear_subtree(1) [OF f4 _ x] by simp
      note sw = install_staged_swaps [OF px x st i, unfolded old swapped_def]
      have l4: "latest_stamp ?root ?stamp (view w4)" using latest_stamp_frame [OF f4 x latest] .
      have l5: "latest_stamp ?root ?stamp (view w5)" using install_latest_stamp [OF px x l4] by (simp add: i)
      show ?thesis
      proof (cases "ss = StageOk")
        case True
        have dp: "fetch_frame ?part ?s (view w5) (view (drop_part fx ?part w5))" by (rule part_frame_fetch [OF drop_part_frame [OF px]])
        have "w1 = drop_part fx ?part w5" "fr_status r = FetchOk"
          using run ours e None i True by (auto simp: unpack_def m w3_def [symmetric] Let_def result_of_def)
        moreover have "subtree (view (drop_part fx ?part w5)) ?d = subtree (view w4) ?s"
          using clear_subtree(1) [OF dp _ x] sw True by simp
        moreover have "latest_stamp ?root ?stamp (view (drop_part fx ?part w5))" using latest_stamp_frame [OF dp x l5] .
        ultimately show ?thesis using zb e None z by auto
      next
        case False
        have ds: "fetch_frame ?part ?s (view w5) (view (drop_staging fx ?s w5))" by (rule drop_staging_frame [OF px])
        have "w1 = drop_staging fx ?s w5" "fr_status r = FetchSwapFailed"
          using run ours e None i False by (auto simp: unpack_def m w3_def [symmetric] Let_def result_of_def)
        with keep [OF ds] sw False l5 show ?thesis by simp
      qed
    qed
  qed
qed

subsection \<open>The whole fetch\<close>

lemma make_root_view:
  assumes laws: "fetch_laws fx view" and q: "length q > length root"
  shows "view (snd (make_root_from fx root start w)) q = view w q"
proof (induction "length root - start" arbitrary: start w rule: less_induct)
  case less
  show ?case
  proof (cases "start \<ge> length root")
    case True
    then show ?thesis by (simp add: make_root_from.simps)
  next
    case False
    let ?stop = "component_end root start"
    obtain r w1 where m: "fx_mkdir fx (take ?stop root) w = (r, w1)" by fastforce
    have "take ?stop root \<noteq> q" using q by auto
    then have "view w1 q = view w q" using fetch_lawsD(3) [OF laws m] by (auto simp: mkdir_law_def split: if_splits)
    moreover have "?stop > start" using False by (auto simp: component_end_def split: option.splits)
    ultimately show ?thesis using False less.hyps [of ?stop w1] by (subst make_root_from.simps) (simp add: m)
  qed
qed

lemma not_ours_data: "\<not> ours root t (file_in root data_name)"
proof
  assume "ours root t (file_in root data_name)"
  then show False
  proof cases
    case (staging n)
    then show ?thesis using beneath_sibling [of n data_name root] by (auto simp: starts_with_def name_defs)
  next
    case (pack_temporary n version sub)
    then have "length (file_in (pack_dir root version sub) n) \<le> length (file_in root data_name)" by (auto simp: beneath_iff)
    then show ?thesis by (simp add: pack_dir_def file_in_def)
  next
    case (marker n)
    then show ?thesis by (auto simp: starts_with_def name_defs)
  next
    case (pack_marker n version sub)
    have "length (file_in (pack_dir root version sub) n) > length (file_in root data_name)" by (simp add: pack_dir_def file_in_def)
    then show ?thesis using pack_marker by simp
  qed
qed

text \<open>What a sweep may have taken from the data: temporaries of a pack and their markers.\<close>

definition swept_data :: "bytes \<Rightarrow> tree \<Rightarrow> tree \<Rightarrow> bool" where
  "swept_data root t old \<longleftrightarrow> old [] = t (file_in root data_name)
     \<and> (\<forall>q. old q = subtree t (file_in root data_name) q \<or> old q = None \<and> ours root t (file_in root data_name @ q))"

lemma sweep_data:
  assumes "lost_only (ours root t) t u"
  shows "swept_data root t (subtree u (file_in root data_name))"
  using assms not_ours_data [of root t] by (auto simp: swept_data_def subtree_def lost_only_def)

lemma ours_cong:
  assumes "\<And>q. length q > length root \<Longrightarrow> t q = u q" and "ours root t q"
  shows "ours root u q"
  using assms(2)
proof cases
  case (staging n)
  then show ?thesis using assms(1) [of "owner_marker (file_in root n)"]
    by (intro ours.staging [of n]) (auto simp: marked_def owner_marker_def file_in_def)
next
  case (pack_temporary n version sub)
  then show ?thesis using assms(1) [of "owner_marker (file_in (pack_dir root version sub) n)"]
    by (intro ours.pack_temporary [of n version]) (auto simp: marked_def owner_marker_def file_in_def pack_dir_def)
next
  case (marker n)
  have "length (file_in root n) > length root" by (simp add: file_in_def)
  from assms(1) [OF this] marker(2-) show ?thesis unfolding marker(1) by (intro ours.marker) auto
next
  case (pack_marker n version sub)
  have "length (file_in (pack_dir root version sub) n) > length root" by (simp add: file_in_def pack_dir_def)
  from assms(1) [OF this] pack_marker(2-) show ?thesis unfolding pack_marker(1) by (intro ours.pack_marker) auto
qed

text \<open>The start of the fetch: recovery, sweep, the part's marker.\<close>

lemma fetch_start:
  assumes laws: "fetch_laws fx view" and latest: "latest_stamp root stamp (view w)" and data: "view w (file_in root data_name) = Some Dir"
    and link: "view w (file_in root part_name) \<noteq> Some Link"
    and made: "make_root fx root w = (True, w1)" and clean: "clean_leftovers fx root (snd (recover_replaced fx root w1)) = (removed, failed, w3)"
    and mark: "mark_owned fx (file_in root part_name) w3 = (m, w4)"
  shows "latest_stamp root stamp (view w4) \<and> view w4 (file_in root part_name) \<noteq> Some Link
    \<and> swept_data root (view w) (subtree (view w4) (file_in root data_name))"
proof -
  let ?d = "file_in root data_name" and ?part = "file_in root part_name"
  note px = fetch_posix [OF laws]
  have w1: "view w1 q = view w q" if "length q > length root" for q
    using make_root_view [OF laws that, of 0 w] made by (simp add: make_root_def)
  have rec: "recover_replaced fx root w1 = (None, w1)"
    using w1 [of ?d] data by (intro recover_leaves_data [OF fetch_lawsD(1) [OF laws]]) (simp add: file_in_def)
  have "lost_only (ours root (view w1)) (view w1) (view w3)" using sweep_lost [OF px clean] rec by simp
  then have w3: "view w3 q = view w q \<or> view w3 q = None \<and> ours root (view w) q" if "length q > length root" for q
    using w1 [OF that] ours_cong [of root "view w1" "view w" q, OF w1] unfolding lost_only_def by metis
  have ml: "view w4 q = view w3 q" if "q \<noteq> owner_marker ?part" for q
    using mark_elsewhere [OF px that, of w3] by (simp add: mark)
  have root: "length (file_in root n @ r) > length root" for n r by (simp add: file_in_def)
  have d4: "view w4 (?d @ q) = view w3 (?d @ q)" if "q = [] \<or> hd q = slash" for q
  proof (rule ml)
    have "beneath ?d (?d @ q)" using that by (simp add: subtree_beneath)
    then show "?d @ q \<noteq> owner_marker ?part"
      using beneath_sibling [of data_name "part_name @ owner_suffix" root] by (auto simp: owner_marker_file_in)
  qed
  have "swept_data root (view w) (subtree (view w4) ?d)"
    using w3 [OF root [of data_name]] w3 [OF root [of data_name "[]"]] d4 d4 [of "[]"] not_ours_data [of root "view w"]
    by (auto simp: swept_data_def subtree_def)
  moreover have "view w4 ?part \<noteq> Some Link"
    using ml [of ?part] w3 [OF root [of part_name "[]"]] link by auto
  moreover have "latest_stamp root stamp (view w4)"
    using latest
  proof (rule latest_stamp_cong)
    fix n k assume n: "slash \<notin> set n" "starts_with n replaced_prefix" "k = n \<or> k = n @ owner_suffix" "view w4 (file_in root k) \<noteq> None"
    have "k \<noteq> part_name @ owner_suffix" using n by (auto simp: starts_with_def name_defs append_eq_append_conv2 append_eq_Cons_conv)
    then have "view w4 (file_in root k) = view w3 (file_in root k)" by (intro ml) (simp add: owner_marker_file_in)
    then show "view w4 (file_in root k) = view w (file_in root k)" using w3 [OF root [of k "[]"]] n(4) by auto
  qed
  ultimately show ?thesis by blast
qed

text \<open>What a fetch that does not report success leaves: the data, in its place or aside.\<close>

definition fetch_safe :: "bytes \<Rightarrow> bytes \<Rightarrow> tree \<Rightarrow> tree \<Rightarrow> bool" where
  "fetch_safe root stamp t u \<longleftrightarrow> latest_stamp root stamp u \<and> (\<exists>old. swept_data root t old \<and> data_kept root stamp old u)"

definition fetched :: "('w, 'z) fetch_env \<Rightarrow> fetch_config \<Rightarrow> ('w \<Rightarrow> tree) \<Rightarrow> tree \<Rightarrow> bool" where
  "fetched fx c view t \<longleftrightarrow> (\<exists>bs z m v v1. digest bs = fc_sha256 c \<and> archive_of z bs
      \<and> extract_zip (fx_zlib fx) (fx_zip_os fx) (Some z) (Some z) (staging_path (fc_root c) (fc_sha256 c)) zip_prefix (fc_limits c) v = Some (None, m, v1)
      \<and> subtree t (file_in (fc_root c) data_name) = subtree (view v1) (staging_path (fc_root c) (fc_sha256 c)))"

lemma attempts_end_safe:
  assumes laws: "fetch_laws fx view" and sha: "slash \<notin> set (fc_sha256 c)"
    and start: "latest_stamp (fc_root c) (fc_stamp c) (view w5)" "view w5 (file_in (fc_root c) part_name) \<noteq> Some Link"
      "swept_data (fc_root c) t (subtree (view w5) (file_in (fc_root c) data_name))"
    and a: "attempts fx c (file_in (fc_root c) part_name) 1 None w5 = (e, n, w6)"
    and end_run: "Some (r, w1) = (case e of Verified \<Rightarrow> unpack fx c (file_in (fc_root c) part_name) (staging_path (fc_root c) (fc_sha256 c)) n w6
          | GaveUp y \<Rightarrow> Some (result_of FetchRetriesExhausted (case y of None \<Rightarrow> NoDetail | Some d \<Rightarrow> Last d) n, w6)
          | WasCancelled \<Rightarrow> Some (result_of FetchCancelled NoDetail n, w6))"
  shows "if fr_status r = FetchOk then fetched fx c view (view w1) else fetch_safe (fc_root c) (fc_stamp c) t (view w1)"
proof -
  let ?root = "fc_root c" and ?stamp = "fc_stamp c" and ?x = "take 12 (fc_sha256 c)"
  let ?d = "file_in ?root data_name" and ?part = "file_in ?root part_name"
  have x: "slash \<notin> set ?x" using sha by (auto dest: in_set_takeD)
  note af = attempts_frame [OF laws a start(2)]
  have f6: "fetch_frame ?part (file_in ?root (staging_prefix @ ?x)) (view w5) (view w6)" using af part_frame_fetch by blast
  have l6: "latest_stamp ?root ?stamp (view w6)" using latest_stamp_frame [OF f6 x start(1)] .
  have d6: "subtree (view w6) ?d = subtree (view w5) ?d" using clear_subtree(1) [OF f6 _ x] by simp
  have same: "fetch_safe ?root ?stamp t (view w6)" using l6 d6 start(3) by (auto simp: fetch_safe_def data_kept_def)
  show ?thesis
  proof (cases e)
    case Verified
    then obtain bs where bs: "view w6 ?part = Some (File bs)" "digest bs = fc_sha256 c" using af by auto
    have "unpack fx c ?part (file_in ?root (staging_prefix @ ?x)) n w6 = Some (r, w1)"
      using end_run Verified by (simp add: staging_path_def)
    note un = unpack_ends [OF laws x l6 this bs(1)]
    show ?thesis
    proof (cases "fr_status r = FetchOk")
      case True
      with un bs(2) have "fetched fx c view (view w1)" unfolding fetched_def staging_path_def by (metis (no_types))
      with True show ?thesis by simp
    qed (use un d6 start(3) in \<open>auto simp: fetch_safe_def\<close>)
  qed (use end_run same in \<open>auto simp: result_of_def\<close>)
qed

lemma run_fetch_safe:
  assumes laws: "fetch_laws fx view" and latest: "latest_stamp (fc_root c) (fc_stamp c) (view w)"
    and data: "view w (file_in (fc_root c) data_name) = Some Dir" and link: "view w (file_in (fc_root c) part_name) \<noteq> Some Link"
    and sha: "slash \<notin> set (fc_sha256 c)" and run: "run_fetch fx c w = Some (r, w1)"
  shows "if fr_status r = FetchOk then fetched fx c view (view w1) else fetch_safe (fc_root c) (fc_stamp c) (view w) (view w1)"
proof -
  let ?root = "fc_root c" and ?stamp = "fc_stamp c"
  let ?d = "file_in ?root data_name" and ?part = "file_in ?root part_name"
  obtain made w3 where mk: "make_root fx ?root w = (made, w3)" by fastforce
  have w3: "view w3 q = view w q" if "length q > length ?root" for q
    using make_root_view [OF laws that, of 0 w] mk by (simp add: make_root_def)
  obtain rem fai w4 where cl: "clean_leftovers fx ?root (snd (recover_replaced fx ?root w3)) = (rem, fai, w4)" by (metis prod_cases3)
  obtain m w5 where pm: "mark_owned fx ?part w4 = (m, w5)" by fastforce
  obtain e n w6 where a: "attempts fx c ?part 1 None w5 = (e, n, w6)" by (metis prod_cases3)
  show ?thesis
  proof (cases made)
    case False
    then have r: "w1 = w3" "fr_status r = FetchBadRoot" using run by (auto simp: run_fetch_def mk result_of_def)
    have "latest_stamp ?root ?stamp (view w3)" using latest by (rule latest_stamp_cong) (auto intro!: w3 simp: file_in_def)
    moreover have "subtree (view w3) ?d = subtree (view w) ?d" by (rule subtree_cong) (auto intro!: w3 simp: beneath_iff file_in_def)
    moreover have "swept_data ?root (view w) (subtree (view w) ?d)" by (simp add: swept_data_def subtree_root)
    ultimately have "fetch_safe ?root ?stamp (view w) (view w3)" unfolding fetch_safe_def data_kept_def by metis
    with r show ?thesis by simp
  next
    case True
    then have "make_root fx ?root w = (True, w3)" using mk by simp
    note start = fetch_start [OF laws latest data link this cl pm]
    show ?thesis
    proof (cases "w1 = w5 \<and> fr_status r \<noteq> FetchOk")
      case True
      then show ?thesis using start by (auto simp: fetch_safe_def data_kept_def)
    next
      case False
      then have "Some (r, w1) = (case e of Verified \<Rightarrow> unpack fx c ?part (staging_path ?root (fc_sha256 c)) n w6
          | GaveUp y \<Rightarrow> Some (result_of FetchRetriesExhausted (case y of None \<Rightarrow> NoDetail | Some d \<Rightarrow> Last d) n, w6)
          | WasCancelled \<Rightarrow> Some (result_of FetchCancelled NoDetail n, w6))"
        using run by (auto simp: run_fetch_def mk True cl pm a [simplified] Let_def result_of_def split: if_splits attempts_end.splits)
      with attempts_end_safe [OF laws sha _ _ _ a] start show ?thesis by blast
    qed
  qed
qed

end
