(* ===== verification/Fetch_Ends.thy ===== *)
theory Fetch_Ends
  imports Fetch_Keeps
begin

section \<open>The fetch ends, and a disk it can run on\<close>

text \<open>The bounds of the retries, and a concrete device for the witnesses.\<close>

subsection \<open>Bounds\<close>

lemma attempts_bound:
  "attempts fx c part n y w = (r, m, w1) \<Longrightarrow> n \<le> fc_attempts c + 1 \<Longrightarrow> m \<le> max (n - 1) (fc_attempts c)"
proof (induction "fc_attempts c + 1 - n" arbitrary: n y w rule: less_induct)
  case less
  show ?case
  proof (cases "n > fc_attempts c")
    case True
    with less.prems show ?thesis by (subst (asm) attempts.simps) auto
  next
    case False
    have again: "m \<le> max (n - 1) (fc_attempts c)" if "attempts fx c part (n + 1) z v = (r, m, w1)" for z v
      using less.hyps [of "n + 1" z v] that False by auto
    show ?thesis using less.prems(1) False
      by (subst (asm) attempts.simps) (auto split: prod.splits if_splits download.splits option.splits dest: again [simplified])
  qed
qed

lemma unpack_returns:
  assumes "inflate_progress (fx_zlib fx)"
  shows "\<exists>r w1. unpack fx c part staging n w = Some (r, w1) \<and> fr_attempts r = n"
proof -
  let ?w2 = "snd (remove_tree fx staging (snd (mark_owned fx staging w)))"
  obtain st k w3 where x: "extract_zip (fx_zlib fx) (fx_zip_os fx) (fx_archive fx part ?w2) (fx_archive fx part ?w2) staging zip_prefix (fc_limits c) ?w2
      = Some (st, k, w3)" using extract_zip_returns [OF assms, of "fx_zip_os fx"] by metis
  then show ?thesis by (cases st) (auto simp: unpack_def case_prod_beta result_of_def Let_def)
qed

lemma run_fetch_returns:
  assumes "inflate_progress (fx_zlib fx)"
  shows "\<exists>r w1. run_fetch fx c w = Some (r, w1) \<and> fr_attempts r \<le> fc_attempts c"
proof -
  obtain made w3 where mk: "make_root fx (fc_root c) w = (made, w3)" by fastforce
  obtain rem fai w4 where cl: "clean_leftovers fx (fc_root c) (snd (recover_replaced fx (fc_root c) w3)) = (rem, fai, w4)" by (metis prod_cases3)
  obtain m w5 where pm: "mark_owned fx (file_in (fc_root c) part_name) w4 = (m, w5)" by fastforce
  obtain e n w6 where a: "attempts fx c (file_in (fc_root c) part_name) 1 None w5 = (e, n, w6)" by (metis prod_cases3)
  have n: "n \<le> fc_attempts c" using attempts_bound [OF a] by simp
  obtain r v where "unpack fx c (file_in (fc_root c) part_name) (staging_path (fc_root c) (fc_sha256 c)) n w6 = Some (r, v)" "fr_attempts r = n"
    using unpack_returns [OF assms] by blast
  with n show ?thesis by (cases e) (auto simp: run_fetch_def mk cl pm a [simplified] Let_def result_of_def)
qed

text \<open>C27: a fetch ends. When zlib makes the progress it documents, the fetch returns a result after at most the configured
  number of attempts, whatever the network and the disk do, and no wait before an attempt is longer than 30 seconds.\<close>

theorem fetch_ends:
  assumes "inflate_progress (fx_zlib fx)"
  shows "\<exists>r w1. run_fetch fx c w = Some (r, w1) \<and> fr_attempts r \<le> fc_attempts c \<and> (\<forall>n. default_backoff_ms n \<le> 30000)"
  using run_fetch_returns [OF assms] by (simp add: default_backoff_ms_def)

subsection \<open>A device\<close>

definition disk_mkdir :: "bytes \<Rightarrow> disk \<Rightarrow> mkdir_result \<times> disk" where
  "disk_mkdir p d =
     (if disk_view d p \<noteq> None then (MkExists, d)
      else let (ok, d1) = change True True d (put_view (p # d_known d) ((disk_view d)(p := Some Dir)) d)
           in (if ok then MkOk else MkFails, d1))"

definition disk_set :: "bytes \<Rightarrow> bytes \<Rightarrow> disk \<Rightarrow> bool \<times> disk" where
  "disk_set p bs d = change True (\<exists>b. disk_view d p = Some (File b)) d (put_view (d_known d) ((d_tree d)(p := Some (File bs))) d)"

definition disk_bytes :: "bytes \<Rightarrow> disk \<Rightarrow> bytes" where
  "disk_bytes p d = (case disk_view d p of Some (File bs) \<Rightarrow> bs | _ \<Rightarrow> [])"

definition disk_open :: "bytes \<Rightarrow> disk \<Rightarrow> bool \<times> disk" where
  "disk_open p d = (case disk_view d p of
      None \<Rightarrow> (let (r, d1) = disk_create True p d in (r = CrMade, d1))
    | Some (File bs) \<Rightarrow> (True, d)
    | _ \<Rightarrow> (False, d))"

definition file_reader :: "bytes \<Rightarrow> zip_file" where
  "file_reader bs = \<lparr>zf_size = Some (length bs), zf_read = (\<lambda>off n. if off + n \<le> length bs then Some (take n (drop off bs)) else None)\<rparr>"

text \<open>The server answers with everything after the offset it is asked for.\<close>

definition fetch_disk :: "bytes \<Rightarrow> (disk, unit) fetch_env" where
  "fetch_disk served = \<lparr>px_lstat = px_lstat (disk True), px_rename = px_rename (disk True), px_unlink = px_unlink (disk True),
     px_nftw = px_nftw (disk True), px_create = px_create (disk True), px_fsync = px_fsync (disk True),
     px_sync_dir = px_sync_dir (disk True), px_list = px_list (disk True), px_statvfs = px_statvfs (disk True),
     fx_mkdir = disk_mkdir, fx_stat = (\<lambda>p d. stat_of (disk_view d p)), fx_open = disk_open,
     fx_pwrite = (\<lambda>p off data d. disk_set p (take off (disk_bytes p d) @ data @ drop (off + length data) (disk_bytes p d)) d),
     fx_truncate = (\<lambda>p d. disk_set p [] d),
     fx_read = (\<lambda>p d. case disk_view d p of Some (File bs) \<Rightarrow> Some [bs] | _ \<Rightarrow> None),
     fx_free = (\<lambda>p d. 0xFFFFFFFF), fx_sleep = (\<lambda>ms d. d), fx_cancelled = (\<lambda>d. (False, d)),
     fx_get = (\<lambda>have d. ([(206, drop have served)],
        \<lambda>stopped. \<lparr>tr_completed = \<not> stopped, tr_status = 206, tr_code = 0, tr_interrupted = False\<rparr>, d)),
     fx_zlib = sample_zlib,
     fx_zip_os = \<lparr>os_mkdir = disk_mkdir, os_is_dir = (\<lambda>p d. disk_view d p = Some Dir),
        os_create = (\<lambda>p d. let (r, d1) = disk_create True p d in (r = CrMade, d1)),
        os_append = (\<lambda>p d b. disk_set p (disk_bytes p d @ b) d), os_fsync = (\<lambda>p d. (True, d))\<rparr>,
     fx_archive = (\<lambda>p d. case disk_view d p of Some (File bs) \<Rightarrow> Some (file_reader bs) | _ \<Rightarrow> None)\<rparr>"

lemma disk_set_view:
  "disk_set p bs d = (ok, d1) \<Longrightarrow> disk_view d1 = (if ok then (disk_view d)(p := Some (File bs)) else disk_view d)
    \<and> (ok \<longrightarrow> (\<exists>b. disk_view d p = Some (File b)))"
  by (auto simp: disk_set_def change_def disk_view_def put_view_def split: if_splits)

lemma disk_create_view:
  "disk_create mortal p d = (r, d1) \<Longrightarrow> create_law p r (disk_view d) (disk_view d1)"
  using posix_lawsD(5) [OF disk_laws [of mortal], of p d r d1] by (simp add: disk_def)

lemma disk_mkdir_view: "disk_mkdir p d = (r, d1) \<Longrightarrow> mkdir_law p r (disk_view d) (disk_view d1)"
  by (auto simp: mkdir_law_def disk_mkdir_def change_def disk_view_def put_view_def Let_def split: if_splits)

lemma fetch_disk_posix: "posix_sees (fetch_disk served) disk_view"
proof -
  have same: "px_lstat (fetch_disk served) = px_lstat (disk True)" "px_rename (fetch_disk served) = px_rename (disk True)"
    "px_unlink (fetch_disk served) = px_unlink (disk True)" "px_nftw (fetch_disk served) = px_nftw (disk True)"
    "px_create (fetch_disk served) = px_create (disk True)" "px_fsync (fetch_disk served) = px_fsync (disk True)"
    "px_sync_dir (fetch_disk served) = px_sync_dir (disk True)" "px_list (fetch_disk served) = px_list (disk True)"
    by (simp_all add: fetch_disk_def)
  show ?thesis using disk_sees [of True] unfolding posix_sees_def posix_laws_def same by assumption
qed

lemma fetch_disk_unpack: "unpack_law (fx_zip_os (fetch_disk served)) disk_view"
proof -
  have "only_at p (disk_view w) (disk_view (snd (disk_mkdir p w)))" for p w
    using disk_mkdir_view [of p w] by (cases "disk_mkdir p w") (auto simp: mkdir_law_def only_at_def split: if_splits)
  moreover have "only_at p (disk_view w) (disk_view (snd (disk_create True p w)))" for p w
    using disk_create_view [of True p w] by (cases "disk_create True p w") (auto simp: create_law_def only_at_def split: create_result.splits)
  moreover have "only_at p (disk_view w) (disk_view (snd (disk_set p b w)))" for p w b
    using disk_set_view [of p b w] by (cases "disk_set p b w") (auto simp: only_at_def split: if_splits)
  ultimately show ?thesis by (simp add: unpack_law_def fetch_disk_def case_prod_beta Let_def)
qed

lemma fetch_disk_laws: "fetch_laws (fetch_disk served) disk_view"
  unfolding fetch_laws_def
proof (intro conjI allI impI fetch_disk_posix fetch_disk_unpack)
  fix w p
  show "mkdir_law p r (disk_view w) (disk_view w1)" if "fx_mkdir (fetch_disk served) p w = (r, w1)" for r w1
    using that disk_mkdir_view by (simp add: fetch_disk_def)
  show "open_law p ok (disk_view w) (disk_view w1)" if "fx_open (fetch_disk served) p w = (ok, w1)" for ok w1
    using that disk_create_view [of True p w]
    by (auto simp: fetch_disk_def disk_open_def open_law_def create_law_def Let_def split: option.splits node.splits prod.splits create_result.splits)
  show "pwrite_law p off data ok (disk_view w) (disk_view w1)" if "fx_pwrite (fetch_disk served) p off data w = (ok, w1)" for off data ok w1
    using disk_set_view [of p _ w ok w1] that by (auto simp: fetch_disk_def pwrite_law_def disk_bytes_def only_at_def split: if_splits)
  show "truncate_law p ok (disk_view w) (disk_view w1)" if "fx_truncate (fetch_disk served) p w = (ok, w1)" for ok w1
    using disk_set_view [of p _ w ok w1] that by (auto simp: fetch_disk_def truncate_law_def split: if_splits)
  show "read_law (fx_read (fetch_disk served) p w) (disk_view w p)"
    by (auto simp: fetch_disk_def read_law_def split: option.splits node.splits)
  show "stat_law (fx_stat (fetch_disk served) p w) (disk_view w p)" by (simp add: fetch_disk_def stat_law_def)
  show "archive_law (fx_archive (fetch_disk served) p w) (disk_view w p)"
    by (auto simp: fetch_disk_def archive_law_def archive_of_def file_reader_def split: option.splits node.splits if_splits)
  show "disk_view (fx_sleep (fetch_disk served) ms w) = disk_view w" for ms by (simp add: fetch_disk_def)
  show "disk_view (snd (fx_cancelled (fetch_disk served) w)) = disk_view w" by (simp add: fetch_disk_def)
  show "disk_view (snd (snd (fx_get (fetch_disk served) have w))) = disk_view w" for "have" by (simp add: fetch_disk_def)
qed

definition sample_fetch :: fetch_config where
  "sample_fetch = \<lparr>fc_root = swap_root, fc_replacing = True, fc_sha256 = [0x61], fc_bytes = 2, fc_extracted = 1, fc_attempts = 5,
     fc_limits = sample_limits, fc_stamp = swap_stamp\<rparr>"

lemma fetch_ends_witness:
  "\<exists>r w1. run_fetch (fetch_disk [1, 2]) sample_fetch swap_disk = Some (r, w1) \<and> fr_attempts r \<le> 5 \<and> (\<forall>n. default_backoff_ms n \<le> 30000)"
proof -
  have "inflate_progress (fx_zlib (fetch_disk [1, 2]))" using sample_laws(2) by (simp add: fetch_disk_def)
  from fetch_ends [OF this, of sample_fetch swap_disk] show ?thesis by (simp add: sample_fetch_def)
qed

subsection \<open>The property\<close>

text \<open>C1: what a fetch that reports success put in place was extracted, without an error, from a file whose SHA-256 is the
  pinned one. Whatever else happens (no space, no network, a server that sends something else, a call that fails, the
  process killed at any point), the next start finds the old data in its place, less at most marked temporaries of a pack,
  provided its own calls work.\<close>

theorem fetch_keeps_data:
  assumes "fetch_laws fx view" "posix_works px2 view"
    and "latest_stamp (fc_root c) (fc_stamp c) (view w)" "view w (file_in (fc_root c) data_name) = Some Dir"
    and "view w (file_in (fc_root c) part_name) \<noteq> Some Link" "slash \<notin> set (fc_sha256 c)"
    and "run_fetch fx c w = Some (r, w1)" "recover_replaced px2 (fc_root c) w1 = (src, w2)"
  shows "if fr_status r = FetchOk then fetched fx c view (view w1)
    else swept_data (fc_root c) (view w) (subtree (view w2) (file_in (fc_root c) data_name))"
proof (cases "fr_status r = FetchOk")
  case False
  have sees: "posix_sees px2 view" using assms(2) by (simp add: posix_works_def)
  obtain old where old: "latest_stamp (fc_root c) (fc_stamp c) (view w1)" "swept_data (fc_root c) (view w) old" "data_kept (fc_root c) (fc_stamp c) old (view w1)"
    using run_fetch_safe [OF assms(1,3-7)] False by (auto simp: fetch_safe_def)
  have "old [] = Some Dir" using old(2) assms(4) by (simp add: swept_data_def)
  from recover_keeps_data [OF sees old(3) this old(1) assms(8)] show ?thesis using False assms(2) old(2) by simp
qed (use run_fetch_safe [OF assms(1,3-7)] in simp)

lemma fetch_keeps_data_witness:
  "\<exists>r w1 src w2. run_fetch (fetch_disk [1, 2]) sample_fetch swap_disk = Some (r, w1)
    \<and> recover_replaced (disk False) swap_root w1 = (src, w2)
    \<and> (if fr_status r = FetchOk then fetched (fetch_disk [1, 2]) sample_fetch disk_view (disk_view w1)
       else swept_data swap_root (disk_view swap_disk) (subtree (disk_view w2) (file_in swap_root data_name)))"
proof -
  have c: "fc_root sample_fetch = swap_root" "fc_stamp sample_fetch = swap_stamp" "slash \<notin> set (fc_sha256 sample_fetch)"
    using swap_names(1) by (simp_all add: sample_fetch_def)
  have z: "inflate_progress (fx_zlib (fetch_disk [1, 2]))" using sample_laws(2) by (simp add: fetch_disk_def)
  obtain r w1 where r: "run_fetch (fetch_disk [1, 2]) sample_fetch swap_disk = Some (r, w1)"
    using run_fetch_returns [OF z, of sample_fetch swap_disk] by blast
  obtain src w2 where s: "recover_replaced (disk False) swap_root w1 = (src, w2)" by fastforce
  have part: "disk_view swap_disk (file_in swap_root part_name) \<noteq> Some Link" by (simp add: disk_view_def swap_disk_def)
  show ?thesis
    using fetch_keeps_data [OF fetch_disk_laws disk_works, of sample_fetch swap_disk "[1, 2]" r w1 src w2, unfolded c(1,2)]
      r s part swap_disk_latest swap_disk_there(1) c(3) by blast
qed

end
