(* ===== verification/Fetch_Resume.thy ===== *)
theory Fetch_Resume
  imports Fetch_Ends
begin

section \<open>A resumed download is the whole file\<close>

text \<open>
  What the callback of \<^verbatim>\<open>DownloadOnce\<close> makes of the pieces of a body: a server that honours the range appends to the
  part, one that ignores it starts the part again.
\<close>

text \<open>The part holds what was written so far.\<close>

definition in_order :: "bytes \<Rightarrow> transfer \<Rightarrow> tree \<Rightarrow> bytes \<Rightarrow> bool" where
  "in_order part b t bs \<longleftrightarrow> t part = Some (File bs) \<and> tf_cursor b = length bs \<and> tf_written b = length bs"

definition clean_transfer :: "transfer \<Rightarrow> bool" where
  "clean_transfer b \<longleftrightarrow> \<not> tf_write_failed b \<and> \<not> tf_overrun b"

definition restarts :: "int \<Rightarrow> nat \<Rightarrow> transfer \<Rightarrow> bool" where
  "restarts status have b \<longleftrightarrow> status = 200 \<and> have \<noteq> 0 \<and> \<not> tf_restarted b"

lemma restart_body_order:
  assumes laws: "fetch_laws fx view" and o: "in_order part b (view w) bs"
    and r: "restart_body fx part have status b w = (True, b1, w1)"
  shows "in_order part b1 (view w1) (if restarts status have b then [] else bs)"
    "tf_restarted b1 \<longleftrightarrow> tf_restarted b \<or> restarts status have b"
  using r o fetch_lawsD(6) [OF laws, of part w]
  by (auto simp: restart_body_def restarts_def in_order_def truncate_law_def split: if_splits prod.splits)

lemma restart_body_failed: "restart_body fx part have status b w = (False, b1, w1) \<Longrightarrow> \<not> clean_transfer b1"
  by (auto simp: restart_body_def clean_transfer_def split: if_splits prod.splits)

lemma take_body_order:
  assumes laws: "fetch_laws fx view" and o: "in_order part b (view w) bs"
    and r: "take_body fx c part data b w = (True, b1, w1)"
  shows "in_order part b1 (view w1) (bs @ data)" "tf_restarted b1 = tf_restarted b"
  using r o fetch_lawsD(5) [OF laws, of part "length bs" data w]
  by (auto simp: take_body_def write_all_def in_order_def pwrite_law_def Let_def split: if_splits prod.splits)

lemma take_body_failed: "take_body fx c part data b w = (False, b1, w1) \<Longrightarrow> \<not> clean_transfer b1"
  by (auto simp: take_body_def clean_transfer_def Let_def split: if_splits prod.splits)

lemma on_body_order:
  assumes laws: "fetch_laws fx view" and o: "in_order part b (view w) bs" and status: "status = 200 \<or> status = 206"
    and r: "on_body fx c part have (status, data) b w = (True, b1, w1)"
  shows "in_order part b1 (view w1) ((if restarts status have b then [] else bs) @ data)
    \<and> (tf_restarted b1 \<longleftrightarrow> tf_restarted b \<or> restarts status have b)"
proof -
  obtain cut b2 w2 where s: "restart_body fx part have status b w = (cut, b2, w2)" by (metis prod_cases3)
  have cut: "cut" and t: "take_body fx c part data b2 w2 = (True, b1, w1)" using r status by (auto simp: on_body_def s split: if_splits)
  note so = restart_body_order [OF laws o s [unfolded eqTrueI [OF cut]]]
  show ?thesis using take_body_order [OF laws so(1) t] so(2) by simp
qed

lemma on_body_failed: "on_body fx c part have p b w = (False, b1, w1) \<Longrightarrow> \<not> clean_transfer b1"
  by (auto simp: on_body_def split: prod.splits if_splits dest: restart_body_failed take_body_failed)

lemma deliver_order:
  assumes laws: "fetch_laws fx view" and status: "status = 200 \<or> status = 206"
  shows "deliver fx c part have ps b w = (stopped, b1, w1) \<Longrightarrow> clean_transfer b1 \<Longrightarrow> in_order part b (view w) bs
    \<Longrightarrow> \<forall>p\<in>set ps. fst p = status \<Longrightarrow> in_order part b1 (view w1) ((if ps \<noteq> [] \<and> restarts status have b then [] else bs) @ concat (map snd ps))"
proof (induction ps arbitrary: b w bs)
  case (Cons p ps)
  obtain data where p: "p = (status, data)" using Cons.prems(4) by (cases p) auto
  obtain go b2 w2 where o: "on_body fx c part have p b w = (go, b2, w2)" by (metis prod_cases3)
  show ?case
  proof (cases go)
    case True
    note step = on_body_order [OF laws Cons.prems(3) status o [unfolded p eqTrueI [OF True]]]
    then have n: "\<not> restarts status have b2" by (auto simp: restarts_def)
    have "deliver fx c part have ps b2 w2 = (stopped, b1, w1)" using Cons.prems(1) True by (simp add: o)
    from Cons.IH [OF this Cons.prems(2) step [THEN conjunct1]] Cons.prems(4) n show ?thesis by (simp add: p)
  next
    case False
    then show ?thesis using on_body_failed [of fx c part "have" p b w b2 w2] Cons.prems(1,2) o by auto
  qed
qed simp

text \<open>C21: a resumed download is the whole file. When an attempt is done, the part has the pinned length, and it is the bytes
  that were there followed by the body when the server honoured the range, the body alone when it ignored it.\<close>

theorem resumed_download_in_order:
  assumes "fetch_laws fx view" "status = 200 \<or> status = 206" "length bs < fc_bytes c"
    and "view w part = Some (File bs)" "fx_get fx (length bs) w = (ps, outcome, w2)" "\<forall>p\<in>set ps. fst p = status"
    and "transfer_part fx c part (length bs) w = (Done, w1)"
  shows "view w1 part = Some (File ((if status = 206 then bs else []) @ concat (map snd ps)))
    \<and> length ((if status = 206 then bs else []) @ concat (map snd ps)) = fc_bytes c"
proof -
  let ?b = "\<lparr>tf_written = length bs, tf_cursor = length bs, tf_restarted = False, tf_write_failed = False, tf_overrun = False\<rparr>"
  obtain stopped b w3 where d: "deliver fx c part (length bs) ps ?b w2 = (stopped, b, w3)" by (metis prod_cases3)
  have w2: "view w2 = view w" using fetch_lawsD(12) [OF assms(1), of "length bs" w] by (simp add: assms(5))
  let ?w4 = "snd (px_fsync fx part w3)"
  obtain cancelled w5 where c: "(if tr_interrupted (outcome stopped) then (True, ?w4) else fx_cancelled fx ?w4) = (cancelled, w5)" by fastforce
  have w5: "view w5 = view w3"
    using c fetch_lawsD(11) [OF assms(1), of ?w4] fsync_view [OF fetch_posix [OF assms(1)]] by (cases "tr_interrupted (outcome stopped)") auto
  have ended: "clean_transfer b" "transfer_verdict c (length bs) b (outcome stopped) = Done" "w1 = w5"
    using assms(7) by (auto simp: transfer_part_def assms(5) d c Let_def clean_transfer_def split: if_splits)
  have "in_order part ?b (view w2) bs" by (simp add: in_order_def w2 assms(4))
  from deliver_order [OF assms(1,2) d ended(1) this assms(6)]
  have o: "in_order part b (view w3) ((if ps \<noteq> [] \<and> restarts status (length bs) ?b then [] else bs) @ concat (map snd ps))" .
  have len: "tf_written b = fc_bytes c" using ended(2) by (auto simp: transfer_verdict_def split: if_splits)
  then have "ps \<noteq> []" using o assms(3) by (auto simp: in_order_def)
  then have "(if ps \<noteq> [] \<and> restarts status (length bs) ?b then [] else bs) = (if status = 206 then bs else [])"
    using assms(2) by (auto simp: restarts_def)
  with o len show ?thesis by (simp add: in_order_def ended(3) w5)
qed

text \<open>A server that honours the range, asked for the second of two bytes.\<close>

definition resumed_disk :: disk where
  "resumed_disk = \<lparr>d_life = 9, d_known = [[0x70]], d_tree = (\<lambda>q. if q = [0x70] then Some (File [1]) else None)\<rparr>"

lemma resumed_download_in_order_witness:
  "disk_view (snd (transfer_part (fetch_disk [1, 2]) sample_fetch [0x70] 1 resumed_disk)) [0x70] = Some (File ([1] @ [2]))"
proof -
  have v: "disk_view resumed_disk [0x70] = Some (File [1])" by (simp add: disk_view_def resumed_disk_def)
  have g: "fx_get (fetch_disk [1, 2]) (length [1]) resumed_disk
      = ([(206, [2])], \<lambda>stopped. \<lparr>tr_completed = \<not> stopped, tr_status = 206, tr_code = 0, tr_interrupted = False\<rparr>, resumed_disk)"
    by (simp add: fetch_disk_def)
  have f: "fx_pwrite (fetch_disk [1, 2]) p off data d = disk_set p (take off (disk_bytes p d) @ data @ drop (off + length data) (disk_bytes p d)) d"
    "fx_cancelled (fetch_disk [1, 2]) d = (False, d)" "px_fsync (fetch_disk [1, 2]) p d = (True, d)" for p off data d
    by (simp_all add: fetch_disk_def disk_def)
  have "fst (disk_set [0x70] [1, 2] resumed_disk)" using v by (simp add: disk_set_def change_def resumed_disk_def)
  then obtain d where s: "disk_set [0x70] [1, 2] resumed_disk = (True, d)" by (cases "disk_set [0x70] [1, 2] resumed_disk") auto
  have t: "transfer_part (fetch_disk [1, 2]) sample_fetch [0x70] (length [1 :: u8]) resumed_disk = (Done, d)"
    using s by (simp add: transfer_part_def g [simplified] on_body_def restart_body_def take_body_def write_all_def transfer_verdict_def
      f disk_bytes_def v sample_fetch_def)
  show ?thesis
    using resumed_download_in_order [OF fetch_disk_laws _ _ v g _ t, of 206] t by (simp add: sample_fetch_def)
qed

end
