(* ===== verification/Pack_Json.thy ===== *)
theory Pack_Json
  imports Data_Sweep Auth_Token
begin

section \<open>The description of a content pack\<close>

text \<open>
  \<^verbatim>\<open>ParsePackJson\<close> of \<^verbatim>\<open>src/quest/data/pack.cpp\<close> and the naming rules of
  \<^verbatim>\<open>src/runtime/content/pack_rules.h\<close>. The JSON library is the parameter \<open>js\<close>, as in \<open>Auth_Token\<close>. The lemmas
  show what an accepted description promises: names the step can join to a directory, distinct files, one manifest.
\<close>

subsection \<open>The naming rules\<close>

definition ascii_digit :: "u8 \<Rightarrow> bool" where
  "ascii_digit c \<longleftrightarrow> 0x30 \<le> c \<and> c \<le> 0x39"

definition ascii_lower :: "u8 \<Rightarrow> bool" where
  "ascii_lower c \<longleftrightarrow> 0x61 \<le> c \<and> c \<le> 0x7A"

definition ascii_upper :: "u8 \<Rightarrow> bool" where
  "ascii_upper c \<longleftrightarrow> 0x41 \<le> c \<and> c \<le> 0x5A"

definition is_lower_hex :: "bytes \<Rightarrow> nat \<Rightarrow> bool" where
  "is_lower_hex text n \<longleftrightarrow> length text = n \<and> list_all (\<lambda>c. ascii_digit c \<or> 0x61 \<le> c \<and> c \<le> 0x66) text"

definition is_plain_char :: "u8 \<Rightarrow> bool" where
  "is_plain_char c \<longleftrightarrow> ascii_digit c \<or> ascii_lower c \<or> ascii_upper c \<or> c = 0x2E \<or> c = 0x5F \<or> c = 0x2D"

definition is_pack_id :: "bytes \<Rightarrow> bool" where
  "is_pack_id text \<longleftrightarrow> text \<noteq> [] \<and> length text \<le> 64 \<and> (ascii_lower (hd text) \<or> ascii_digit (hd text))
     \<and> list_all (\<lambda>c. ascii_lower c \<or> ascii_digit c \<or> c = 0x2E \<or> c = 0x5F \<or> c = 0x2D) text"

definition is_plain_name :: "bytes \<Rightarrow> bool" where
  "is_plain_name text \<longleftrightarrow> text \<noteq> [] \<and> length text \<le> 64 \<and> hd text \<noteq> 0x2E \<and> list_all is_plain_char text"

definition full_stop :: u8 where "full_stop = 0x2E"

text \<open>The parts between the dots, each of 1 to 9 digits: how many there are, or \<open>None\<close> at the first that is not.\<close>

function version_parts :: "bytes \<Rightarrow> nat option" where
  "version_parts text =
     (let part = (case find_ch full_stop text of None \<Rightarrow> text | Some k \<Rightarrow> take k text)
      in if part = [] \<or> length part > 9 \<or> \<not> list_all ascii_digit part then None
         else case find_ch full_stop text of None \<Rightarrow> Some 1 | Some k \<Rightarrow> map_option Suc (version_parts (drop (k + 1) text)))"
  by pat_completeness auto
termination
  by (relation "measure length") (auto dest: find_ch_Some)

declare version_parts.simps [simp del]

definition is_version :: "bytes \<Rightarrow> bool" where
  "is_version text \<longleftrightarrow> version_parts text = Some 3"

subsection \<open>The pins\<close>

definition manifest_pin :: bytes where
  "manifest_pin = bytes_of ''_data/5932408047/rad15/android/manifests/48037dc70b0ecab2''"

definition pinned_version_folder :: bytes where
  "pinned_version_folder = (case find_ch slash manifest_pin of
      Some a \<Rightarrow> (let rest = drop (a + 1) manifest_pin in case find_ch slash rest of Some b \<Rightarrow> take b rest | None \<Rightarrow> rest)
    | None \<Rightarrow> [])"

definition pinned_manifest_id :: bytes where
  "pinned_manifest_id = (case last_slash manifest_pin of Some k \<Rightarrow> drop (k + 1) manifest_pin | None \<Rightarrow> manifest_pin)"

definition wanted_manifest :: bytes where
  "wanted_manifest = file_in manifests_dir pinned_manifest_id"

lemma pins:
  "pinned_version_folder = bytes_of ''5932408047''"
  "wanted_manifest = bytes_of ''manifests/48037dc70b0ecab2''"
  by (simp_all add: pinned_version_folder_def wanted_manifest_def pinned_manifest_id_def manifest_pin_def manifests_dir_def
      file_in_def last_slash_def slash_def bytes_of_def upt_rec Let_def)

subsection \<open>The description\<close>

record pack_file =
  pf_path :: bytes
  pf_sha256 :: bytes
  pf_size :: u64

record pack_info =
  pk_id :: bytes
  pk_version :: bytes
  pk_stock_version :: bytes
  pk_requires :: "bytes list"
  pk_files :: "pack_file list"
  pk_source_sha256 :: bytes
  pk_source_size :: u64
  pk_manifest_path :: bytes
  pk_manifest_sha256 :: bytes

text \<open>\<open>js_integer\<close> is \<^verbatim>\<open>is_number_integer\<close> and \<^verbatim>\<open>get<long long>\<close>, \<open>js_array\<close> the elements of an array.\<close>

record 'j pack_json = "'j json" +
  js_integer :: "'j \<Rightarrow> int option"
  js_array :: "'j \<Rightarrow> 'j list option"

definition string_field :: "('j, 'm) json_scheme \<Rightarrow> 'j \<Rightarrow> string \<Rightarrow> bytes option" where
  "string_field js j key = Option.bind (js_lookup js j (bytes_of key)) (js_string js)"

definition unsigned_field :: "('j, 'm) json_scheme \<Rightarrow> 'j \<Rightarrow> string \<Rightarrow> u64 option" where
  "unsigned_field js j key = Option.bind (js_lookup js j (bytes_of key)) (js_unsigned js)"

definition is_hex64 :: "bytes \<Rightarrow> bool" where
  "is_hex64 text \<longleftrightarrow> is_lower_hex text 64"

definition is_pack_path :: "bytes \<Rightarrow> bool" where
  "is_pack_path path = (case find_ch slash path of None \<Rightarrow> False
    | Some k \<Rightarrow> (let dir = take k path; name = drop (k + 1) path
        in (dir = manifests_dir \<or> dir = packages_dir) \<and> is_plain_name name
          \<and> \<not> ends_with name pack_tmp_suffix \<and> \<not> ends_with name stock_backup_suffix \<and> \<not> ends_with name owner_suffix))"

definition max_pack_file_bytes :: u64 where "max_pack_file_bytes = 2 ^ 31 - 1"

definition refuse :: "string \<Rightarrow> 'a res" where
  "refuse why = Inl (Fail why)"

definition parse_requires_one :: "'j pack_json \<Rightarrow> bytes list \<Rightarrow> 'j \<Rightarrow> bytes list res" where
  "parse_requires_one js got v = (case js_string js v of
      None \<Rightarrow> refuse ''bad_requires''
    | Some hash \<Rightarrow>
        if \<not> is_hex64 hash then refuse ''bad_requires''
        else if got \<noteq> [] \<and> \<not> last got < hash then refuse ''bad_requires''
        else Inr (got @ [hash]))"

fun parse_requires :: "'j pack_json \<Rightarrow> bytes list \<Rightarrow> 'j list \<Rightarrow> bytes list res" where
  "parse_requires js got [] = Inr got"
| "parse_requires js got (v # vs) = res_bind (parse_requires_one js got v) (\<lambda>got1. parse_requires js got1 vs)"

definition parse_pack_file :: "'j pack_json \<Rightarrow> bytes list \<Rightarrow> 'j \<Rightarrow> pack_file res" where
  "parse_pack_file js seen v =
     (if \<not> js_object js v then refuse ''bad_file''
      else case string_field js v ''path'' of
        None \<Rightarrow> refuse ''bad_file''
      | Some path \<Rightarrow>
          if \<not> is_pack_path path then refuse ''bad_file''
          else case string_field js v ''sha256'' of
            None \<Rightarrow> refuse ''bad_sha256''
          | Some sha \<Rightarrow>
              if \<not> is_hex64 sha then refuse ''bad_sha256''
              else case unsigned_field js v ''size'' of
                None \<Rightarrow> refuse ''bad_size''
              | Some n \<Rightarrow>
                  if n = 0 \<or> n > max_pack_file_bytes then refuse ''bad_size''
                  else if map to_lower path \<in> set seen then refuse ''duplicate_file''
                  else Inr \<lparr>pf_path = path, pf_sha256 = sha, pf_size = n\<rparr>)"

definition add_pack_file :: "pack_info \<Rightarrow> pack_file \<Rightarrow> pack_info res" where
  "add_pack_file info f =
     (if starts_with (pf_path f) manifests_dir then
        (if pf_path f \<noteq> wanted_manifest then refuse ''wrong_manifest''
         else Inr (info\<lparr>pk_manifest_path := pf_path f, pk_manifest_sha256 := pf_sha256 f, pk_files := pk_files info @ [f]\<rparr>))
      else Inr (info\<lparr>pk_files := pk_files info @ [f]\<rparr>))"

text \<open>The names seen so far are those of the files taken, in lower case.\<close>

definition seen_of :: "pack_info \<Rightarrow> bytes list" where
  "seen_of info = map (map to_lower \<circ> pf_path) (pk_files info)"

fun parse_files :: "'j pack_json \<Rightarrow> pack_info \<Rightarrow> 'j list \<Rightarrow> pack_info res" where
  "parse_files js info [] = Inr info"
| "parse_files js info (v # vs) =
     res_bind (parse_pack_file js (seen_of info) v) (\<lambda>f. res_bind (add_pack_file info f) (\<lambda>info1. parse_files js info1 vs))"

definition array_field :: "'j pack_json \<Rightarrow> 'j \<Rightarrow> string \<Rightarrow> 'j list option" where
  "array_field js j key = Option.bind (js_lookup js j (bytes_of key)) (js_array js)"

definition parse_pack_head :: "'j pack_json \<Rightarrow> 'j \<Rightarrow> pack_info res" where
  "parse_pack_head js doc =
     (if Option.bind (js_lookup js doc (bytes_of ''schema'')) (js_integer js) \<noteq> Some 1 then refuse ''bad_schema''
      else case string_field js doc ''id'' of None \<Rightarrow> refuse ''bad_id'' | Some i \<Rightarrow>
      if \<not> is_pack_id i then refuse ''bad_id''
      else case string_field js doc ''version'' of None \<Rightarrow> refuse ''bad_version'' | Some v \<Rightarrow>
      if \<not> is_version v then refuse ''bad_version''
      else if string_field js doc ''stock_data_version'' \<noteq> Some pinned_version_folder then refuse ''bad_stock_version''
      else Inr \<lparr>pk_id = i, pk_version = v, pk_stock_version = pinned_version_folder, pk_requires = [], pk_files = [],
        pk_source_sha256 = [], pk_source_size = 0, pk_manifest_path = [], pk_manifest_sha256 = []\<rparr>)"

definition parse_source :: "'j pack_json \<Rightarrow> 'j \<Rightarrow> pack_info \<Rightarrow> pack_info res" where
  "parse_source js doc info =
     (case (string_field js doc ''source_zip_sha256'', unsigned_field js doc ''source_zip_size'') of
        (Some sha, Some n) \<Rightarrow>
          if is_hex64 sha \<and> n \<noteq> 0 then Inr (info\<lparr>pk_source_sha256 := sha, pk_source_size := n\<rparr>) else refuse ''bad_source''
      | _ \<Rightarrow> refuse ''bad_source'')"

definition parse_hashes :: "'j pack_json \<Rightarrow> 'j \<Rightarrow> bytes list res" where
  "parse_hashes js doc = (case array_field js doc ''requires_stock_manifest_sha256'' of
      None \<Rightarrow> refuse ''bad_requires''
    | Some hashes \<Rightarrow>
        if hashes = [] \<or> length hashes > 2 then refuse ''bad_requires'' else parse_requires js [] hashes)"

definition parse_entries :: "'j pack_json \<Rightarrow> 'j \<Rightarrow> pack_info \<Rightarrow> pack_info res" where
  "parse_entries js doc info = (case array_field js doc ''files'' of
      None \<Rightarrow> refuse ''bad_file''
    | Some files \<Rightarrow>
        if files = [] then refuse ''bad_file''
        else if length files > 8 then refuse ''too_many_files''
        else parse_files js info files)"

definition parse_document :: "'j pack_json \<Rightarrow> 'j \<Rightarrow> pack_info res" where
  "parse_document js doc =
     res_bind (parse_pack_head js doc) (\<lambda>info.
     res_bind (parse_hashes js doc) (\<lambda>req.
     res_bind (parse_entries js doc (info\<lparr>pk_requires := req\<rparr>)) (\<lambda>info1.
     if pk_manifest_path info1 = [] then refuse ''no_manifest'' else parse_source js doc info1)))"

definition parse_pack_json :: "'j pack_json \<Rightarrow> bytes \<Rightarrow> pack_info res" where
  "parse_pack_json js text =
     (if length text > 64 * 1024 then refuse ''too_large''
      else case js_parse js text of
        None \<Rightarrow> refuse ''not_json''
      | Some doc \<Rightarrow> if js_object js doc then parse_document js doc else refuse ''not_json'')"

subsection \<open>What an accepted description promises\<close>

definition hashes_ok :: "bytes list \<Rightarrow> bool" where
  "hashes_ok hs \<longleftrightarrow> list_all is_hex64 hs \<and> sorted_wrt (<) hs"

lemma parse_requires_one_ok:
  assumes "parse_requires_one js got v = Inr got1" "hashes_ok got"
  shows "hashes_ok got1 \<and> length got1 = Suc (length got)"
proof -
  from assms(1) obtain h where h: "got1 = got @ [h]" "is_hex64 h" "got = [] \<or> last got < h"
    by (auto simp: parse_requires_one_def refuse_def split: option.splits if_splits)
  have "x < h" if "x \<in> set got" for x
  proof -
    from that obtain xs where xs: "got = xs @ [last got]" by (metis append_butlast_last_id empty_iff empty_set)
    then have "x = last got \<or> x < last got"
      using that assms(2) unfolding hashes_ok_def by (metis Un_iff empty_iff insert_iff list.set(1,2) set_append sorted_wrt_append)
    then show ?thesis using h(3) that by auto
  qed
  then show ?thesis using assms(2) h by (auto simp: hashes_ok_def sorted_wrt_append)
qed

lemma parse_requires_ok:
  "parse_requires js got vs = Inr req \<Longrightarrow> hashes_ok got \<Longrightarrow> hashes_ok req \<and> length req = length got + length vs"
proof (induction js got vs rule: parse_requires.induct)
  case (2 js got v vs)
  from "2.prems"(1) obtain g where g: "parse_requires_one js got v = Inr g" "parse_requires js g vs = Inr req"
    by (auto simp: res_bind_Inr_iff)
  show ?case using "2.IH" [OF g] parse_requires_one_ok [OF g(1) "2.prems"(2)] by simp
qed simp

definition file_ok :: "pack_file \<Rightarrow> bool" where
  "file_ok f \<longleftrightarrow> is_pack_path (pf_path f) \<and> is_hex64 (pf_sha256 f) \<and> 0 < pf_size f \<and> pf_size f \<le> max_pack_file_bytes"

definition manifests_of :: "pack_info \<Rightarrow> pack_file list" where
  "manifests_of info = filter (\<lambda>f. starts_with (pf_path f) manifests_dir) (pk_files info)"

text \<open>Files are good and differ in more than case; the manifest is the one wanted, and the only one.\<close>

definition files_ok :: "pack_info \<Rightarrow> bool" where
  "files_ok info \<longleftrightarrow> list_all file_ok (pk_files info) \<and> distinct (seen_of info)
     \<and> (pk_manifest_path info = [] \<and> manifests_of info = []
        \<or> (\<exists>f. manifests_of info = [f] \<and> pf_path f = wanted_manifest \<and> pk_manifest_path info = wanted_manifest \<and> pk_manifest_sha256 info = pf_sha256 f))"

definition same_head :: "pack_info \<Rightarrow> pack_info \<Rightarrow> bool" where
  "same_head a b \<longleftrightarrow> pk_id b = pk_id a \<and> pk_version b = pk_version a \<and> pk_stock_version b = pk_stock_version a \<and> pk_requires b = pk_requires a"

lemma parse_pack_file_ok:
  "parse_pack_file js seen v = Inr f \<Longrightarrow> file_ok f \<and> map to_lower (pf_path f) \<notin> set seen"
  by (auto simp: parse_pack_file_def refuse_def file_ok_def word_gt_0 split: option.splits if_splits)

lemma add_pack_file_ok:
  assumes "add_pack_file info f = Inr info1" "file_ok f" "map to_lower (pf_path f) \<notin> set (seen_of info)" "files_ok info"
  shows "files_ok info1 \<and> pk_files info1 = pk_files info @ [f] \<and> same_head info info1"
proof -
  have old: "manifests_of info = []" if "pf_path f = wanted_manifest"
  proof (rule ccontr)
    assume "manifests_of info \<noteq> []"
    then obtain g where "manifests_of info = [g]" "pf_path g = wanted_manifest" using assms(4) by (auto simp: files_ok_def)
    then have "g \<in> set (pk_files info)" unfolding manifests_of_def by (metis filter_eq_ConsD in_set_conv_decomp)
    then show False using assms(3) that \<open>pf_path g = wanted_manifest\<close> by (force simp: seen_of_def)
  qed
  show ?thesis using assms old
    by (auto simp: add_pack_file_def refuse_def files_ok_def seen_of_def manifests_of_def same_head_def split: if_splits)
qed

lemma parse_files_ok:
  "parse_files js info vs = Inr info1 \<Longrightarrow> files_ok info \<Longrightarrow>
    files_ok info1 \<and> length (pk_files info1) = length (pk_files info) + length vs \<and> same_head info info1"
proof (induction js info vs rule: parse_files.induct)
  case (2 js info v vs)
  from "2.prems"(1) obtain f i1 where s: "parse_pack_file js (seen_of info) v = Inr f" "add_pack_file info f = Inr i1"
    "parse_files js i1 vs = Inr info1" by (auto simp: res_bind_Inr_iff)
  then show ?case using "2.IH" [OF s(1)] parse_pack_file_ok [OF s(1)] add_pack_file_ok [OF s(2) _ _ "2.prems"(2)] by (auto simp: same_head_def)
qed (simp add: same_head_def)

text \<open>The whole promise.\<close>

definition pack_ok :: "pack_info \<Rightarrow> bool" where
  "pack_ok info \<longleftrightarrow> list_all file_ok (pk_files info) \<and> distinct (seen_of info) \<and> pk_manifest_path info = wanted_manifest
     \<and> is_pack_id (pk_id info) \<and> is_version (pk_version info) \<and> pk_stock_version info = pinned_version_folder
     \<and> (\<exists>f. manifests_of info = [f] \<and> pf_path f = wanted_manifest \<and> pk_manifest_sha256 info = pf_sha256 f)
     \<and> hashes_ok (pk_requires info) \<and> length (pk_requires info) \<in> {1..2} \<and> length (pk_files info) \<in> {1..8}"

lemma parse_hashes_ok: "parse_hashes js doc = Inr req \<Longrightarrow> hashes_ok req \<and> length req \<in> {1..2}"
  by (auto simp: parse_hashes_def refuse_def hashes_ok_def Suc_le_eq split: option.splits if_splits
      dest!: parse_requires_ok)

lemma parse_entries_ok:
  assumes "parse_entries js doc info = Inr info1" "pk_files info = []" "pk_manifest_path info = []"
  shows "files_ok info1 \<and> length (pk_files info1) \<in> {1..8} \<and> same_head info info1"
proof -
  from assms(1) obtain files where f: "parse_files js info files = Inr info1" "files \<noteq> []" "length files \<le> 8"
    by (auto simp: parse_entries_def refuse_def split: option.splits if_splits)
  have "files_ok info" using assms(2,3) by (simp add: files_ok_def seen_of_def manifests_of_def)
  from parse_files_ok [OF f(1) this] f(2,3) assms(2) show ?thesis by (simp add: Suc_le_eq)
qed

lemma parse_pack_ok: assumes "parse_pack_json js text = Inr info" shows "pack_ok info"
proof -
  from assms obtain doc where "parse_document js doc = Inr info"
    by (auto simp: parse_pack_json_def refuse_def split: option.splits if_splits)
  then obtain info0 req info1 where h: "parse_pack_head js doc = Inr info0" "parse_hashes js doc = Inr req"
    "parse_entries js doc (info0\<lparr>pk_requires := req\<rparr>) = Inr info1" "pk_manifest_path info1 \<noteq> []" "parse_source js doc info1 = Inr info"
    by (auto simp: parse_document_def res_bind_Inr_iff refuse_def split: if_splits)
  have i0: "pk_files info0 = []" "pk_manifest_path info0 = []" "is_pack_id (pk_id info0)" "is_version (pk_version info0)"
      "pk_stock_version info0 = pinned_version_folder"
    using h(1) by (auto simp: parse_pack_head_def refuse_def split: option.splits if_splits)
  have i1: "files_ok info1" "length (pk_files info1) \<in> {1..8}" "same_head (info0\<lparr>pk_requires := req\<rparr>) info1"
    using parse_entries_ok [OF h(3)] i0(1,2) by simp_all
  obtain sha n where e: "info = info1\<lparr>pk_source_sha256 := sha, pk_source_size := n\<rparr>"
    using h(5) by (auto simp: parse_source_def refuse_def split: option.splits if_splits)
  have "pk_manifest_path info1 = wanted_manifest
      \<and> (\<exists>f. manifests_of info1 = [f] \<and> pf_path f = wanted_manifest \<and> pk_manifest_sha256 info1 = pf_sha256 f)"
    using i1(1) h(4) by (auto simp: files_ok_def)
  moreover have "seen_of info = seen_of info1" "manifests_of info = manifests_of info1"
    by (simp_all add: e seen_of_def manifests_of_def)
  ultimately show ?thesis using i1 parse_hashes_ok [OF h(2)] i0 by (simp add: pack_ok_def files_ok_def same_head_def e)
qed

text \<open>C17: an accepted description is one the step can act on: every file is a plain name below the directory of the manifests or of the
  packages, is none of the names the step makes for itself, has a SHA-256 and a size; no two differ in case only; exactly one is
  a manifest, the pinned one; and there are one or two stock digests, in ascending order.\<close>

theorem pack_description_sound:
  assumes "parse_pack_json js descr = Inr info"
  shows "pack_ok info"
  by (rule parse_pack_ok [OF assms])

end
