(* ===== verification/Pack_Step.thy ===== *)
theory Pack_Step
  imports Pack_Json Fetch_Safety
begin

section \<open>Placing a content pack over the game data\<close>

text \<open>
  \<^verbatim>\<open>RunPackStep\<close> of \<^verbatim>\<open>src/quest/data/pack.cpp\<close>. The files of a pack come from the APK; each is written to a temporary,
  checked, and renamed into place, the packages before the manifest. The calls on the file system, zlib and the JSON
  library are the record \<open>px\<close>. Events and texts for the player, which only tell, are left out, as are the probes of the tests.
\<close>

text \<open>
  \<open>pk_open\<close> is \<^verbatim>\<open>open\<close> with \<^verbatim>\<open>O_RDONLY | O_NOFOLLOW\<close> and what the caller then sees: whether the file is regular, the
  bytes each \<^verbatim>\<open>read\<close> gives, and whether the last read was the end of the file and not an error.
\<close>

record ('w, 'z, 'j) pack_env = "'w posix" +
  pk_os :: "'w zip_os"
  pk_zlib :: "'z zlib"
  pk_json :: "'j pack_json"
  pk_apk :: "bytes \<Rightarrow> 'w \<Rightarrow> zip_file option"
  pk_open :: "bytes \<Rightarrow> 'w \<Rightarrow> (bool \<times> bytes list \<times> bool) option"

datatype pack_outcome = PackNone | PackInvalid | PackStockMismatch | PackCurrent | PackPlaced | PackFailed

datatype pack_status = PackOk | PackBadRoot | PackNoSpace | PackExtractFailed | PackHashMismatch | PackWriteFailed | PackBackupFailed

type_synonym pack_result = "pack_outcome \<times> pack_status"

definition pack_json_entry :: bytes where "pack_json_entry = bytes_of ''assets/nevr-pack/pack.json''"
definition pack_files_prefix :: bytes where "pack_files_prefix = bytes_of ''assets/nevr-pack/files/''"
definition pack_headroom :: u64 where "pack_headroom = 64 * 1024 * 1024"

definition pack_zip_limits :: zip_limits where
  "pack_zip_limits = \<lparr>max_entries = 16384, max_entry_bytes = unat max_pack_file_bytes, max_total_bytes = 0xFFFFFFFF\<rparr>"

definition empty_sha :: sha256 where "empty_sha = sha256_start (replicate 64 0)"

subsection \<open>The digest of a file\<close>

definition hash_regular_file :: "('w, 'z, 'j) pack_env \<Rightarrow> bytes \<Rightarrow> 'w \<Rightarrow> (bytes \<times> u64) option" where
  "hash_regular_file px p w = (case pk_open px p w of
      Some (True, reads, True) \<Rightarrow>
        Some (fst (sha256_hex (foldl sha256_update empty_sha reads)), sum_list (map (\<lambda>b. word_of_nat (length b)) reads))
    | _ \<Rightarrow> None)"

definition manifest_digest :: "('w, 'z, 'j) pack_env \<Rightarrow> bytes \<Rightarrow> 'w \<Rightarrow> bytes" where
  "manifest_digest px p w = (case hash_regular_file px p w of
      Some (hex, _) \<Rightarrow> hex
    | None \<Rightarrow> if lexists px p w then bytes_of ''unreadable'' else bytes_of ''none'')"

subsection \<open>The temporary\<close>

record 'w pack_write =
  pw_world :: 'w
  pw_sha :: sha256
  pw_written :: u64
  pw_failed :: bool

definition write_sink :: "'w zip_os \<Rightarrow> bytes \<Rightarrow> 'w pack_write zip_sink" where
  "write_sink os tmp s b = (let (ok, w1) = os_append os tmp (pw_world s) b
     in if \<not> ok then (False, s\<lparr>pw_world := w1, pw_failed := True\<rparr>)
        else (True, s\<lparr>pw_world := w1, pw_sha := sha256_update (pw_sha s) b, pw_written := pw_written s + word_of_nat (length b)\<rparr>))"

definition drop_temporary :: "('w, 'm) posix_scheme \<Rightarrow> bytes \<Rightarrow> 'w \<Rightarrow> 'w" where
  "drop_temporary px tmp w = snd (remove_tree px (owner_marker tmp) (snd (remove_tree px tmp w)))"

definition free_name :: "('w, 'm) posix_scheme \<Rightarrow> bytes \<Rightarrow> 'w \<Rightarrow> bool \<times> 'w" where
  "free_name px tmp w = (if \<not> lexists px tmp w then (True, w)
     else if \<not> is_owned px tmp w then (False, w) else (True, snd (remove_tree px tmp w)))"

text \<open>The verdict on what was written.\<close>

definition written_status :: "pack_file \<Rightarrow> zip_status option \<Rightarrow> bool \<Rightarrow> 'w pack_write \<Rightarrow> pack_status" where
  "written_status f read synced s =
     (if read \<noteq> None then (if pw_failed s then PackWriteFailed else PackExtractFailed)
      else if \<not> synced then PackWriteFailed
      else if pw_written s \<noteq> pf_size f then PackHashMismatch
      else if fst (sha256_hex (pw_sha s)) \<noteq> pf_sha256 f then PackHashMismatch
      else PackOk)"

text \<open>As in the fetch, the outer option is an inflation that never ends.\<close>

definition write_temporary ::
    "('w, 'z, 'j) pack_env \<Rightarrow> bytes \<Rightarrow> zip_entry \<Rightarrow> pack_file \<Rightarrow> bytes \<Rightarrow> 'w \<Rightarrow> (pack_status \<times> 'w) option" where
  "write_temporary px apk e f tmp w =
     (let (is_free, w1) = free_name px tmp w
      in if \<not> is_free then Some (PackWriteFailed, w1)
      else let (m, w2) = mark_owned px tmp w1
      in if \<not> m then Some (PackWriteFailed, w2)
      else let (made, w3) = os_create (pk_os px) tmp w2
      in if \<not> made then Some (PackWriteFailed, snd (remove_tree px (owner_marker tmp) w3))
      else case read_zip_entry (pk_zlib px) (write_sink (pk_os px) tmp) (pk_apk px apk w3) e
             \<lparr>pw_world = w3, pw_sha = empty_sha, pw_written = 0, pw_failed = False\<rparr> of
          None \<Rightarrow> None
        | Some (read, s) \<Rightarrow>
            (let (synced, w4) = (if read = None then os_fsync (pk_os px) tmp (pw_world s) else (False, pw_world s));
                 status = written_status f read synced s
             in Some (status, if status = PackOk then w4 else drop_temporary px tmp w4)))"

subsection \<open>The backup of the stock manifest\<close>

definition pack_dir_of :: "bytes \<Rightarrow> bytes" where
  "pack_dir_of path = (case last_slash path of None \<Rightarrow> path | Some k \<Rightarrow> take k path)"

fun copy_chunks :: "'w zip_os \<Rightarrow> bytes \<Rightarrow> bytes list \<Rightarrow> sha256 \<Rightarrow> 'w \<Rightarrow> bool \<times> sha256 \<times> 'w" where
  "copy_chunks os tmp [] sha w = (True, sha, w)"
| "copy_chunks os tmp (b # bs) sha w =
     (let (ok, w1) = os_append os tmp w b; sha1 = sha256_update sha b
      in if ok then copy_chunks os tmp bs sha1 w1 else (False, sha1, w1))"

text \<open>Both files are opened; the copy runs when both could be.\<close>

definition copy_file :: "('w, 'z, 'j) pack_env \<Rightarrow> bytes \<Rightarrow> bytes \<Rightarrow> 'w \<Rightarrow> bool \<times> sha256 \<times> 'w" where
  "copy_file px src tmp w =
     (let from = pk_open px src w; (made, w1) = os_create (pk_os px) tmp w
      in if \<not> made then (False, empty_sha, w1)
      else case from of
          None \<Rightarrow> (False, empty_sha, w1)
        | Some (_, reads, complete) \<Rightarrow>
            (let (ok, sha, w2) = copy_chunks (pk_os px) tmp reads empty_sha w1
             in if ok \<and> complete then (let (synced, w3) = os_fsync (pk_os px) tmp w2 in (synced, sha, w3)) else (False, sha, w2)))"

definition keep_stock_manifest :: "('w, 'z, 'j) pack_env \<Rightarrow> bytes \<Rightarrow> bytes \<Rightarrow> 'w \<Rightarrow> pack_status \<times> 'w" where
  "keep_stock_manifest px dest stock w =
     (let backup = dest @ stock_backup_suffix; tmp = backup @ pack_tmp_suffix
      in if lexists px backup w then (PackOk, w)
      else let w1 = snd (remove_tree px tmp w); (m1, w2) = mark_owned px backup w1
      in if \<not> m1 then (PackBackupFailed, w2)
      else let (m2, w3) = mark_owned px tmp w2
      in if \<not> m2 then (PackBackupFailed, w3)
      else let (copied, sha, w4) = copy_file px dest tmp w3;
               (ok, w5) = (if copied \<and> fst (sha256_hex sha) = stock then px_rename px tmp backup w4 else (False, w4))
      in if \<not> ok then (PackBackupFailed, snd (remove_tree px (owner_marker backup) (drop_temporary px tmp w5)))
      else let w6 = snd (px_sync_dir px (pack_dir_of backup) w5); w7 = snd (px_unlink px (owner_marker tmp) w6)
      in (PackOk, snd (px_sync_dir px (pack_dir_of backup) w7)))"

subsection \<open>One file, and all of them\<close>

definition put_file :: "('w, 'z, 'j) pack_env \<Rightarrow> bytes \<Rightarrow> bytes \<Rightarrow> 'w \<Rightarrow> pack_status \<times> 'w" where
  "put_file px tmp dest w =
     (let (ok, w1) = px_rename px tmp dest w
      in if \<not> ok then (PackWriteFailed, drop_temporary px tmp w1)
      else let w2 = snd (px_sync_dir px (pack_dir_of dest) w1); w3 = snd (px_unlink px (owner_marker tmp) w2)
      in (PackOk, snd (px_sync_dir px (pack_dir_of dest) w3)))"

definition place_file ::
    "('w, 'z, 'j) pack_env \<Rightarrow> bytes \<Rightarrow> bytes \<Rightarrow> bytes \<Rightarrow> bytes \<Rightarrow> zip_entry \<Rightarrow> pack_file \<Rightarrow> 'w \<Rightarrow> (pack_status \<times> 'w) option" where
  "place_file px apk android man stock e f w =
     (let dest = file_in android (pf_path f); tmp = dest @ pack_tmp_suffix
      in case write_temporary px apk e f tmp w of
          None \<Rightarrow> None
        | Some (st, w1) \<Rightarrow>
            if st \<noteq> PackOk then Some (st, w1)
            else if pf_path f = man then
              (let (kept, w2) = keep_stock_manifest px dest stock w1
               in if kept \<noteq> PackOk then Some (kept, drop_temporary px tmp w2) else Some (put_file px tmp dest w2))
            else Some (put_file px tmp dest w1))"

type_synonym pack_item = "pack_file \<times> zip_entry \<times> bool"

fun place_files ::
    "('w, 'z, 'j) pack_env \<Rightarrow> bytes \<Rightarrow> bytes \<Rightarrow> bytes \<Rightarrow> bytes \<Rightarrow> pack_item list \<Rightarrow> 'w \<Rightarrow> (pack_status \<times> 'w) option" where
  "place_files px apk android man stock [] w = Some (PackOk, w)"
| "place_files px apk android man stock ((f, e, current) # items) w =
     (if current then place_files px apk android man stock items w
      else case place_file px apk android man stock e f w of
          None \<Rightarrow> None
        | Some (st, w1) \<Rightarrow> if st \<noteq> PackOk then Some (st, w1) else place_files px apk android man stock items w1)"

subsection \<open>The step\<close>

text \<open>The first pass: the pack the APK describes and where its files are, or why there is nothing to place.\<close>

fun find_files :: "zip_entry list \<Rightarrow> pack_file list \<Rightarrow> (pack_file \<times> zip_entry) list option" where
  "find_files es [] = Some []"
| "find_files es (f # fs) = (case find_zip_entry es (pack_files_prefix @ pf_path f) of
      None \<Rightarrow> None
    | Some e \<Rightarrow> if is_dir_entry e \<or> z_size e \<noteq> unat (pf_size f) then None
        else map_option ((#) (f, e)) (find_files es fs))"

definition read_pack_text :: "('w, 'z, 'j) pack_env \<Rightarrow> bytes \<Rightarrow> zip_entry \<Rightarrow> 'w \<Rightarrow> (pack_result + bytes) option" where
  "read_pack_text px apk e w =
     (if z_size e > 64 * 1024 then Some (Inl (PackInvalid, PackOk))
      else case read_zip_entry (pk_zlib px) (\<lambda>text b. (True, text @ b)) (pk_apk px apk w) e [] of
          None \<Rightarrow> None
        | Some (Some _, _) \<Rightarrow> Some (Inl (PackInvalid, PackExtractFailed))
        | Some (None, text) \<Rightarrow> Some (Inr text))"

definition pack_of_text :: "('w, 'z, 'j) pack_env \<Rightarrow> zip_entry list \<Rightarrow> bytes \<Rightarrow> pack_result + pack_info \<times> (pack_file \<times> zip_entry) list" where
  "pack_of_text px es text = (case parse_pack_json (pk_json px) text of
      Inl _ \<Rightarrow> Inl (PackInvalid, PackOk)
    | Inr pack \<Rightarrow> (case find_files es (pk_files pack) of None \<Rightarrow> Inl (PackInvalid, PackOk) | Some fs \<Rightarrow> Inr (pack, fs)))"

definition read_pack ::
    "('w, 'z, 'j) pack_env \<Rightarrow> bytes \<Rightarrow> 'w \<Rightarrow> (pack_result + pack_info \<times> (pack_file \<times> zip_entry) list) option" where
  "read_pack px apk w =
     (if apk = [] then Some (Inl (PackNone, PackOk))
      else case read_zip_listing (pk_apk px apk w) pack_zip_limits of
          Inl _ \<Rightarrow> Some (Inl (PackNone, PackOk))
        | Inr es \<Rightarrow> (case find_zip_entry es pack_json_entry of
            None \<Rightarrow> Some (Inl (PackNone, PackOk))
          | Some e \<Rightarrow> (case read_pack_text px apk e w of
              None \<Rightarrow> None
            | Some (Inl r) \<Rightarrow> Some (Inl r)
            | Some (Inr text) \<Rightarrow> Some (pack_of_text px es text))))"

text \<open>The packages, then the manifest that names them, each with whether it is in place already.\<close>

definition android_rel :: "pack_info \<Rightarrow> bytes" where
  "android_rel pack = data_name @ slash # pk_stock_version pack @ bytes_of ''/rad15/android''"

definition is_current :: "('w, 'z, 'j) pack_env \<Rightarrow> bytes \<Rightarrow> bytes \<Rightarrow> bool \<Rightarrow> pack_file \<Rightarrow> 'w \<Rightarrow> bool" where
  "is_current px android man have_manifest f w =
     (if pf_path f = man then have_manifest
      else hash_regular_file px (file_in android (pf_path f)) w = Some (pf_sha256 f, pf_size f))"

definition pack_items :: "('w, 'z, 'j) pack_env \<Rightarrow> bytes \<Rightarrow> bytes \<Rightarrow> bool \<Rightarrow> (pack_file \<times> zip_entry) list \<Rightarrow> 'w \<Rightarrow> pack_item list" where
  "pack_items px android man have_manifest fs w =
     map (\<lambda>(f, e). (f, e, is_current px android man have_manifest f w))
       (filter (\<lambda>(f, e). pf_path f \<noteq> man) fs @ filter (\<lambda>(f, e). pf_path f = man) fs)"

definition pack_needed :: "pack_item list \<Rightarrow> u64" where
  "pack_needed items = sum_list (map (\<lambda>(f, e, current). if current then 0 else pf_size f) items) + pack_headroom"

definition place_pack ::
    "('w, 'z, 'j) pack_env \<Rightarrow> bytes \<Rightarrow> bytes \<Rightarrow> bytes \<Rightarrow> bytes \<Rightarrow> bytes \<Rightarrow> pack_item list \<Rightarrow> 'w \<Rightarrow> (pack_result \<times> 'w) option" where
  "place_pack px apk root rel man stock items w =
     (case check_space px root (pack_needed items) w of
        (StatFailed, _) \<Rightarrow> Some ((PackFailed, PackBadRoot), w)
      | (_, available) \<Rightarrow>
          if (case available of None \<Rightarrow> 0 | Some n \<Rightarrow> n) < pack_needed items then Some ((PackFailed, PackNoSpace), w)
          else let (made, w1) = make_dirs_below (pk_os px) root (file_in rel manifests_dir) w
          in if \<not> made then Some ((PackFailed, PackBadRoot), w1)
          else let (made, w2) = make_dirs_below (pk_os px) root (file_in rel packages_dir) w1
          in if \<not> made then Some ((PackFailed, PackBadRoot), w2)
          else case place_files px apk (file_in root rel) man stock items w2 of
              None \<Rightarrow> None
            | Some (st, w3) \<Rightarrow> Some (if st \<noteq> PackOk then (PackFailed, st)
                else if list_all (\<lambda>(f, e, current). current) items then (PackCurrent, PackOk) else (PackPlaced, PackOk), w3))"

definition run_pack_step :: "('w, 'z, 'j) pack_env \<Rightarrow> bytes \<Rightarrow> bytes \<Rightarrow> 'w \<Rightarrow> (pack_result \<times> 'w) option" where
  "run_pack_step px apk root w = (case read_pack px apk w of
      None \<Rightarrow> None
    | Some (Inl r) \<Rightarrow> Some (r, w)
    | Some (Inr (pack, fs)) \<Rightarrow>
        (let (_, _, w1) = clean_pack_leftovers px root w; android = file_in root (android_rel pack);
             man = pk_manifest_path pack; stock = manifest_digest px (file_in android man) w1;
             have_manifest = (stock = pk_manifest_sha256 pack);
             items = pack_items px android man have_manifest fs w1
         in if stock \<notin> set (pk_requires pack) \<and> \<not> have_manifest then Some ((PackStockMismatch, PackOk), w1)
            else if list_all (\<lambda>(f, e, current). current) items then Some ((PackCurrent, PackOk), w1)
            else place_pack px apk root (android_rel pack) man stock items w1))"

end
