(* ===== verification/Pack_Safety.thy ===== *)
theory Pack_Safety
  imports Pack_Step
begin

section \<open>A file of a pack is in place whole or not at all\<close>

text \<open>
  The laws of the calls \<^verbatim>\<open>RunPackStep\<close> makes and what one file's placement leaves: only names made from the file's
  own are touched; a file that is placed has the recorded digest; a file that is not is as it was. Calls may fail anywhere.
\<close>

subsection \<open>The laws\<close>

definition make_law :: "bytes \<Rightarrow> bool \<Rightarrow> tree \<Rightarrow> tree \<Rightarrow> bool" where
  "make_law p ok t u \<longleftrightarrow> (if ok then t p = None \<and> u = t(p := Some (File [])) else u = t)"

definition append_law :: "bytes \<Rightarrow> bytes \<Rightarrow> bool \<Rightarrow> tree \<Rightarrow> tree \<Rightarrow> bool" where
  "append_law p b ok t u \<longleftrightarrow> only_at p t u \<and> (\<forall>bs. ok \<and> t p = Some (File bs) \<longrightarrow> u p = Some (File (bs @ b)))"

definition open_read_law :: "(bool \<times> bytes list \<times> bool) option \<Rightarrow> node option \<Rightarrow> bool" where
  "open_read_law r n \<longleftrightarrow> (\<forall>regular reads. r = Some (regular, reads, True) \<longrightarrow> n = Some (File (concat reads)))"

definition pack_laws :: "('w, 'z, 'j) pack_env \<Rightarrow> ('w \<Rightarrow> tree) \<Rightarrow> bool" where
  "pack_laws px view \<longleftrightarrow> posix_sees px view \<and> (\<forall>w p.
     (\<forall>r w1. os_mkdir (pk_os px) p w = (r, w1) \<longrightarrow> mkdir_law p r (view w) (view w1))
   \<and> (\<forall>ok w1. os_create (pk_os px) p w = (ok, w1) \<longrightarrow> make_law p ok (view w) (view w1))
   \<and> (\<forall>b ok w1. os_append (pk_os px) p w b = (ok, w1) \<longrightarrow> append_law p b ok (view w) (view w1))
   \<and> (\<forall>ok w1. os_fsync (pk_os px) p w = (ok, w1) \<longrightarrow> view w1 = view w)
   \<and> open_read_law (pk_open px p w) (view w p))"

lemma pack_lawsD:
  assumes "pack_laws px view"
  shows "posix_sees px view" "posix_laws px view"
    "os_mkdir (pk_os px) p w = (r, w1) \<Longrightarrow> mkdir_law p r (view w) (view w1)"
    "os_create (pk_os px) p w = (ok, w1) \<Longrightarrow> make_law p ok (view w) (view w1)"
    "os_append (pk_os px) p w b = (ok, w1) \<Longrightarrow> append_law p b ok (view w) (view w1)"
    "os_fsync (pk_os px) p w = (ok, w1) \<Longrightarrow> view w1 = view w"
    "open_read_law (pk_open px p w) (view w p)"
proof -
  have s: "posix_sees px view"
    and c: "(\<forall>r w1. os_mkdir (pk_os px) p w = (r, w1) \<longrightarrow> mkdir_law p r (view w) (view w1))
   \<and> (\<forall>ok w1. os_create (pk_os px) p w = (ok, w1) \<longrightarrow> make_law p ok (view w) (view w1))
   \<and> (\<forall>b ok w1. os_append (pk_os px) p w b = (ok, w1) \<longrightarrow> append_law p b ok (view w) (view w1))
   \<and> (\<forall>ok w1. os_fsync (pk_os px) p w = (ok, w1) \<longrightarrow> view w1 = view w)
   \<and> open_read_law (pk_open px p w) (view w p)" for p w
    using assms unfolding pack_laws_def by blast+
  show "posix_sees px view" "posix_laws px view" using s sees_laws by blast+
  show "os_mkdir (pk_os px) p w = (r, w1) \<Longrightarrow> mkdir_law p r (view w) (view w1)"
    "os_create (pk_os px) p w = (ok, w1) \<Longrightarrow> make_law p ok (view w) (view w1)"
    "os_append (pk_os px) p w b = (ok, w1) \<Longrightarrow> append_law p b ok (view w) (view w1)"
    "os_fsync (pk_os px) p w = (ok, w1) \<Longrightarrow> view w1 = view w"
    "open_read_law (pk_open px p w) (view w p)"
    using c [of p w] by blast+
qed

subsection \<open>Digests\<close>

lemma fresh_empty_sha: "sha256_fresh empty_sha"
  by (simp add: empty_sha_def sha256_fresh_def sha256_start_def sha256_reset_def sha256_ok_def)

lemma digest_of_pieces: "fst (sha256_hex (foldl sha256_update empty_sha pieces)) = digest (concat pieces)"
  using sha256_hex_digest [OF fresh_empty_sha] by (simp add: digest_def)

lemma sum_lengths: "sum_list (map (\<lambda>b. word_of_nat (length b)) reads) = (word_of_nat (length (concat reads)) :: u64)"
  by (induction reads) simp_all

text \<open>A file with the digest recorded for it.\<close>

definition has_digest :: "pack_file \<Rightarrow> node option \<Rightarrow> bool" where
  "has_digest f n \<longleftrightarrow> (\<exists>bs. n = Some (File bs) \<and> digest bs = pf_sha256 f)"

lemma hash_regular_file_view:
  assumes "pack_laws px view" "hash_regular_file px p w = Some (h, n)"
  shows "\<exists>bs. view w p = Some (File bs) \<and> h = digest bs \<and> n = word_of_nat (length bs)"
proof -
  from assms(2) obtain reads where r: "pk_open px p w = Some (True, reads, True)" "h = digest (concat reads)"
    "n = word_of_nat (length (concat reads))"
    by (auto simp: hash_regular_file_def digest_of_pieces sum_lengths split: option.splits prod.splits bool.splits)
  with pack_lawsD(7) [OF assms(1), of p w] show ?thesis by (auto simp: open_read_law_def)
qed

lemma hash_holds: "pack_laws px view \<Longrightarrow> hash_regular_file px p w = Some (pf_sha256 f, pf_size f) \<Longrightarrow> has_digest f (view w p)"
  by (drule hash_regular_file_view, assumption) (auto simp: has_digest_def)

subsection \<open>Extraction into a sink\<close>

text \<open>What every accepted piece keeps holds at the end of an extraction without an error.\<close>

definition sink_accepts :: "'s zip_sink \<Rightarrow> ('s \<Rightarrow> bool) \<Rightarrow> bool" where
  "sink_accepts snk J \<longleftrightarrow> (\<forall>s b s1. J s \<and> snk s b = (True, s1) \<longrightarrow> J s1)"

lemma turn_made_accepted:
  "turn_made zl snk e made x x1 \<Longrightarrow> sink_accepts snk J \<Longrightarrow> J (x_sink x) \<Longrightarrow> J (x_sink x1)"
  by (auto simp: turn_made_def sink_accepts_def)

lemma inflate_input_accepted:
  assumes "inflate_input zl snk e input x = Some (st, x1)" "sink_accepts snk J"
  shows "st = None \<longrightarrow> J (x_sink x) \<longrightarrow> J (x_sink x1)"
  using assms(1)
proof (induction rule: inflate_input_induct)
  case (stop input x st x1)
  then show ?case using inflate_turn_done turn_made_accepted [OF _ assms(2)] by metis
next
  case (again input x rest x1 st x2)
  then show ?case using turn_made_accepted [OF _ assms(2)] by (metis inflate_turn_again)
qed blast

lemma extract_blocks_accepted:
  assumes J: "sink_accepts snk J"
  shows "extract_blocks zl snk zf e off n x = Some (None, x1) \<Longrightarrow> J (x_sink x) \<Longrightarrow> J (x_sink x1)"
proof (induction n arbitrary: x rule: measure_induct_rule [of "\<lambda>n. z_csize e - n"])
  case (less n)
  show ?case
  proof (cases "n \<ge> z_csize e")
    case False
    with less.prems(1) obtain x2 where b: "extract_block zl snk zf e off n x = Some (None, x2)"
      "extract_blocks zl snk zf e off (n + block_want e n) x2 = Some (None, x1)"
      by (auto simp: extract_blocks.simps [of zl snk zf e off n x] split: option.splits)
    have "J (x_sink x2)"
      using b(1) less.prems(2) J inflate_input_accepted [OF _ J, of zl e _ x None x2]
      by (auto simp: extract_block_def Let_def take_bytes_eq sink_accepts_def split: option.splits prod.splits if_splits)
    moreover have "z_csize e - (n + block_want e n) < z_csize e - n" using False by (simp add: block_want_def in_size_def)
    ultimately show ?thesis using less.IH b(2) by blast
  qed (use less.prems in \<open>auto simp: extract_blocks.simps [of zl snk zf e off n x]\<close>)
qed

lemma read_entry_accepted:
  assumes "sink_accepts snk J" "J s" "read_zip_entry zl snk file e s = Some (None, s1)"
  shows "J s1"
proof -
  from assms(3) obtain zf off where x: "extract_data zl snk zf e off s = Some (None, s1)"
    by (auto simp: read_zip_entry_def split: if_splits sum.splits option.splits)
  then show ?thesis using extract_blocks_accepted [OF assms(1)] assms(2)
    by (fastforce simp: extract_data_def Let_def split: if_splits option.splits)
qed

lemma read_entry_kept:
  assumes "sink_keeps snk I" "I s" "read_zip_entry zl snk file e s = Some (st, s1)"
  shows "I s1"
  using assms extract_data_kept [OF assms(1)] by (fastforce simp: read_zip_entry_def split: if_splits option.splits sum.splits)

subsection \<open>Removing and marking\<close>

lemma remove_tree_frame:
  assumes "posix_laws px view" "\<not> beneath p q"
  shows "view (snd (remove_tree px p w)) q = view w q"
  using remove_tree_lost [where P = "beneath p", OF assms(1)] assms(2) by (fastforce simp: lost_only_def)

lemma beneath_append [simp]:
  "beneath (d @ a) (d @ b) \<longleftrightarrow> beneath a b"
  "beneath d (d @ b) \<longleftrightarrow> beneath [] b"
  "beneath (c # a) (c # b) \<longleftrightarrow> beneath a b"
  by (auto simp: beneath_iff)

lemma beneath_nil: "beneath [] b \<longleftrightarrow> b = [] \<or> hd b = slash"
  by (cases b) (auto simp: beneath_iff)

lemma beneath_longer: "beneath (d @ a) d \<longleftrightarrow> a = []"
  by (auto simp: beneath_iff)

lemmas suffix_defs = pack_tmp_suffix_def stock_backup_suffix_def owner_suffix_def slash_def bytes_of_def

lemma suffixes_apart [simp]:
  "\<not> beneath pack_tmp_suffix owner_suffix" "pack_tmp_suffix @ owner_suffix \<noteq> pack_tmp_suffix"
  by (simp_all add: beneath_def suffix_defs)

lemma drop_temporary_frame:
  assumes "posix_laws px view" "\<not> beneath tmp q" "\<not> beneath (owner_marker tmp) q"
  shows "view (drop_temporary px tmp w) q = view w q"
  using assms by (simp add: drop_temporary_def remove_tree_frame)

text \<open>The places a temporary takes.\<close>

definition tmp_place :: "bytes \<Rightarrow> bytes \<Rightarrow> bool" where
  "tmp_place tmp q \<longleftrightarrow> beneath tmp q \<or> beneath (owner_marker tmp) q"

lemma mark_owned_frame: "posix_laws px view \<Longrightarrow> q \<noteq> owner_marker p \<Longrightarrow> view (snd (mark_owned px p w)) q = view w q"
  using mark_owned_view(1) [of px view p w] by (cases "mark_owned px p w") (auto simp: only_at_def)

lemma unlink_frame: "posix_laws px view \<Longrightarrow> q \<noteq> p \<Longrightarrow> view (snd (px_unlink px p w)) q = view w q"
  using unlink_only_at [of px view p w] by (simp add: only_at_def)

lemma free_name_frame: "posix_laws px view \<Longrightarrow> \<not> beneath tmp q \<Longrightarrow> view (snd (free_name px tmp w)) q = view w q"
  by (simp add: free_name_def remove_tree_frame)

subsection \<open>The temporary\<close>

text \<open>Outside its own places everything is as it was.\<close>

lemma write_sink_frame: "pack_laws px view \<Longrightarrow> sink_keeps (write_sink (pk_os px) tmp) (\<lambda>s. \<forall>q. q \<noteq> tmp \<longrightarrow> view (pw_world s) q = t q)"
  using pack_lawsD(5) by (fastforce simp: sink_keeps_def write_sink_def append_law_def only_at_def split: prod.splits)

definition writing :: "('w \<Rightarrow> tree) \<Rightarrow> bytes \<Rightarrow> 'w pack_write \<Rightarrow> bool" where
  "writing view tmp s \<longleftrightarrow> (\<exists>pieces. view (pw_world s) tmp = Some (File (concat pieces))
     \<and> pw_sha s = foldl sha256_update empty_sha pieces \<and> pw_written s = word_of_nat (length (concat pieces)))"

lemma write_sink_accepts:
  assumes "pack_laws px view" shows "sink_accepts (write_sink (pk_os px) tmp) (writing view tmp)"
  unfolding sink_accepts_def
proof (intro allI impI)
  fix s b s1
  assume a: "writing view tmp s \<and> write_sink (pk_os px) tmp s b = (True, s1)"
  obtain ok w1 where o: "os_append (pk_os px) tmp (pw_world s) b = (ok, w1)" by fastforce
  with a have ok: "ok" "s1 = s\<lparr>pw_world := w1, pw_sha := sha256_update (pw_sha s) b, pw_written := pw_written s + word_of_nat (length b)\<rparr>"
    by (auto simp: write_sink_def split: if_splits)
  from a obtain pieces where "view (pw_world s) tmp = Some (File (concat pieces))"
    "pw_sha s = foldl sha256_update empty_sha pieces" "pw_written s = word_of_nat (length (concat pieces))" by (auto simp: writing_def)
  with pack_lawsD(5) [OF assms o] ok show "writing view tmp s1"
    unfolding writing_def by (intro exI [of _ "pieces @ [b]"]) (simp add: append_law_def)
qed

definition temporary_ok :: "('w \<Rightarrow> tree) \<Rightarrow> pack_file \<Rightarrow> bytes \<Rightarrow> 'w \<Rightarrow> pack_status \<Rightarrow> 'w \<Rightarrow> bool" where
  "temporary_ok view f tmp w st w1 \<longleftrightarrow> (\<forall>q. \<not> tmp_place tmp q \<longrightarrow> view w1 q = view w q) \<and> (st = PackOk \<longrightarrow> has_digest f (view w1 tmp))"

lemma filled_temporary:
  assumes laws: "pack_laws px view" and c: "os_create (pk_os px) tmp w = (True, w1)"
    and r: "read_zip_entry zl (write_sink (pk_os px) tmp) apk e \<lparr>pw_world = w1, pw_sha = empty_sha, pw_written = 0, pw_failed = False\<rparr> = Some (read, s)"
  shows "q \<noteq> tmp \<Longrightarrow> view (pw_world s) q = view w q" "read = None \<Longrightarrow> writing view tmp s"
proof -
  have c1: "view w1 = (view w)(tmp := Some (File []))" using pack_lawsD(4) [OF laws c] by (simp add: make_law_def)
  let ?s = "\<lparr>pw_world = w1, pw_sha = empty_sha, pw_written = 0, pw_failed = False\<rparr>"
  have "\<forall>q. q \<noteq> tmp \<longrightarrow> view (pw_world ?s) q = view w q" by (simp add: c1)
  from read_entry_kept [OF write_sink_frame [OF laws] this r] show "q \<noteq> tmp \<Longrightarrow> view (pw_world s) q = view w q" by blast
  have w: "writing view tmp ?s" unfolding writing_def by (intro exI [of _ "[]"]) (simp add: c1)
  show "read = None \<Longrightarrow> writing view tmp s" using read_entry_accepted [OF write_sink_accepts [OF laws] w] r by blast
qed

lemma writing_holds: "writing view tmp s \<Longrightarrow> fst (sha256_hex (pw_sha s)) = pf_sha256 f \<Longrightarrow> has_digest f (view (pw_world s) tmp)"
  by (auto simp: writing_def has_digest_def digest_of_pieces)

lemma tmp_place_tmp [simp]: "tmp_place tmp tmp" "tmp_place tmp (owner_marker tmp)"
  by (simp_all add: tmp_place_def)

lemma write_temporary_ok:
  assumes laws: "pack_laws px view" and r: "write_temporary px apk e f tmp w = Some (st, w1)"
  shows "temporary_ok view f tmp w st w1"
proof -
  note px = pack_lawsD(2) [OF laws]
  let ?keeps = "\<lambda>v. \<forall>q. \<not> tmp_place tmp q \<longrightarrow> view v q = view w q"
  have failed: "temporary_ok view f tmp w st w1" if "?keeps w1" "st \<noteq> PackOk" using that by (simp add: temporary_ok_def)
  have drop: "?keeps (drop_temporary px tmp v)" "?keeps (snd (remove_tree px (owner_marker tmp) v))" if "?keeps v" for v
    using that by (simp_all add: tmp_place_def drop_temporary_frame [OF px] remove_tree_frame [OF px])
  obtain is_free w2 where f: "free_name px tmp w = (is_free, w2)" by fastforce
  have k2: "?keeps w2" using free_name_frame [OF px, of tmp _ w] by (auto simp: f tmp_place_def)
  obtain m w3 where m: "mark_owned px tmp w2 = (m, w3)" by fastforce
  have k3: "?keeps w3" using k2 mark_owned_frame [OF px, of _ tmp w2] by (metis m snd_conv tmp_place_tmp(2))
  obtain made w4 where c: "os_create (pk_os px) tmp w3 = (made, w4)" by fastforce
  have k4: "?keeps w4" using k3 pack_lawsD(4) [OF laws c] tmp_place_tmp(1) by (auto simp: make_law_def split: if_splits)
  show ?thesis
  proof (cases "is_free \<and> m \<and> made")
    case True
    then have c: "os_create (pk_os px) tmp w3 = (True, w4)" using c by simp
    obtain read s where x: "read_zip_entry (pk_zlib px) (write_sink (pk_os px) tmp) (pk_apk px apk w4) e
        \<lparr>pw_world = w4, pw_sha = empty_sha, pw_written = 0, pw_failed = False\<rparr> = Some (read, s)"
      using r True by (auto simp: write_temporary_def f m c split: option.splits)
    note fl = filled_temporary [OF laws c x]
    obtain synced w5 where y: "(if read = None then os_fsync (pk_os px) tmp (pw_world s) else (False, pw_world s)) = (synced, w5)" by fastforce
    have w5: "view w5 = view (pw_world s)" using y pack_lawsD(6) [OF laws] by (auto split: if_splits)
    have k5: "?keeps w5" using k3 fl(1) by (metis tmp_place_tmp(1) w5)
    have e: "st = written_status f read synced s" "w1 = (if st = PackOk then w5 else drop_temporary px tmp w5)"
      using r True by (auto simp: write_temporary_def f m c x y Let_def split: if_splits)
    show ?thesis
    proof (cases "st = PackOk")
      case True
      then have "read = None" "fst (sha256_hex (pw_sha s)) = pf_sha256 f"
        using e(1) by (auto simp: written_status_def split: if_splits)
      then show ?thesis using writing_holds [OF fl(2)] True e(2) k5 by (simp add: temporary_ok_def w5)
    qed (use failed drop(1) [OF k5] e(2) in simp)
  next
    case False
    then show ?thesis using r k2 k3 drop(2) [OF k4] failed by (auto simp: write_temporary_def f m c split: if_splits)
  qed
qed

subsection \<open>The backup\<close>

lemma copy_chunks_view:
  assumes laws: "pack_laws px view"
  shows "copy_chunks (pk_os px) tmp bs sha w = (ok, sha1, w1) \<Longrightarrow> only_at tmp (view w) (view w1)
    \<and> (\<forall>old. ok \<and> view w tmp = Some (File old) \<longrightarrow> view w1 tmp = Some (File (old @ concat bs)) \<and> sha1 = foldl sha256_update sha bs)"
proof (induction bs arbitrary: sha w)
  case (Cons b bs)
  obtain go w2 where a: "os_append (pk_os px) tmp w b = (go, w2)" by fastforce
  note law = pack_lawsD(5) [OF laws a]
  show ?case
  proof (cases go)
    case True
    then have "copy_chunks (pk_os px) tmp bs (sha256_update sha b) w2 = (ok, sha1, w1)" using Cons.prems by (simp add: a)
    from Cons.IH [OF this] law True show ?thesis by (auto simp: append_law_def only_at_def)
  qed (use Cons.prems law in \<open>auto simp: a append_law_def\<close>)
qed simp

lemma copy_file_view:
  assumes laws: "pack_laws px view" and c: "copy_file px src tmp w = (ok, sha, w1)"
  shows "only_at tmp (view w) (view w1)"
    "ok \<Longrightarrow> \<exists>bs. view w src = Some (File bs) \<and> view w1 tmp = Some (File bs) \<and> fst (sha256_hex sha) = digest bs"
proof -
  obtain made w2 where m: "os_create (pk_os px) tmp w = (made, w2)" by fastforce
  note ml = pack_lawsD(4) [OF laws m]
  have o2: "only_at tmp (view w) (view w2)" using ml by (auto simp: make_law_def only_at_def split: if_splits)
  have "only_at tmp (view w) (view w1) \<and>
    (ok \<longrightarrow> (\<exists>bs. view w src = Some (File bs) \<and> view w1 tmp = Some (File bs) \<and> fst (sha256_hex sha) = digest bs))"
  proof (cases "made \<and> pk_open px src w \<noteq> None")
    case True
    then obtain regular reads complete where r: "pk_open px src w = Some (regular, reads, complete)" by auto
    obtain go sha2 w3 where k: "copy_chunks (pk_os px) tmp reads empty_sha w2 = (go, sha2, w3)" by (metis prod_cases3)
    note kv = copy_chunks_view [OF laws k]
    obtain synced w4 where f: "os_fsync (pk_os px) tmp w3 = (synced, w4)" by fastforce
    have w4: "view w4 = view w3" by (rule pack_lawsD(6) [OF laws f])
    have e: "(ok, sha, w1) = (if go \<and> complete then (synced, sha2, w4) else (False, sha2, w3))"
      using c True by (auto simp: copy_file_def m r k f split: if_splits)
    have "view w2 tmp = Some (File [])" using ml True by (simp add: make_law_def)
    moreover have "complete \<Longrightarrow> view w src = Some (File (concat reads))" using pack_lawsD(7) [OF laws, of src w] by (simp add: r open_read_law_def)
    ultimately show ?thesis using e kv o2 w4 by (auto simp: only_at_def digest_of_pieces split: if_splits)
  next
    case False
    then have "ok = False" "w1 = w2" using c by (auto simp: copy_file_def m split: if_splits option.splits)
    with o2 show ?thesis by simp
  qed
  then show "only_at tmp (view w) (view w1)"
    "ok \<Longrightarrow> \<exists>bs. view w src = Some (File bs) \<and> view w1 tmp = Some (File bs) \<and> fst (sha256_hex sha) = digest bs" by blast+
qed

lemma rename_view:
  assumes "posix_laws px view" "px_rename px a b w = (ok, w1)"
  shows "\<not> beneath a q \<Longrightarrow> \<not> beneath b q \<Longrightarrow> view w1 q = view w q" "ok \<Longrightarrow> view w1 b = view w a" "\<not> ok \<Longrightarrow> view w1 = view w"
  using laws_rename [OF assms] by (auto simp: rename_law_def moved_def split: if_splits)

text \<open>The names made from a destination: itself, its temporary, its backup, the backup's temporary, and their markers.\<close>

definition item_suffixes :: "bytes set" where
  "item_suffixes = {[], pack_tmp_suffix, stock_backup_suffix, stock_backup_suffix @ pack_tmp_suffix}"

definition touched :: "bytes \<Rightarrow> bytes \<Rightarrow> bool" where
  "touched dest q \<longleftrightarrow> (\<exists>s\<in>item_suffixes. tmp_place (dest @ s) q)"

lemma touched_places:
  "\<not> touched dest q \<Longrightarrow> \<not> tmp_place dest q \<and> \<not> tmp_place (dest @ pack_tmp_suffix) q \<and> \<not> tmp_place (dest @ stock_backup_suffix) q
    \<and> \<not> tmp_place ((dest @ stock_backup_suffix) @ pack_tmp_suffix) q"
  unfolding touched_def item_suffixes_def by auto

lemma tmp_place_append [simp]: "tmp_place (d @ a) (d @ b) \<longleftrightarrow> tmp_place a b"
  by (simp add: tmp_place_def owner_marker_def)

lemma tmp_place_below [simp]: "tmp_place (d @ a) d \<longleftrightarrow> a = []"
  by (auto simp: tmp_place_def owner_marker_def beneath_longer)

lemma places_apart [simp]:
  "\<not> tmp_place stock_backup_suffix pack_tmp_suffix" "\<not> tmp_place (stock_backup_suffix @ x) pack_tmp_suffix"
  "\<not> tmp_place pack_tmp_suffix stock_backup_suffix" "\<not> tmp_place (pack_tmp_suffix @ x) stock_backup_suffix"
  "\<not> tmp_place [] pack_tmp_suffix" "\<not> tmp_place [] stock_backup_suffix"
  "\<not> beneath [] pack_tmp_suffix" "\<not> beneath [] stock_backup_suffix" "\<not> beneath [] owner_suffix"
  "pack_tmp_suffix \<noteq> []" "stock_backup_suffix \<noteq> []" "owner_suffix \<noteq> []"
  by (simp_all add: tmp_place_def owner_marker_def beneath_def suffix_defs)

lemma place_frames:
  assumes "\<not> tmp_place p q"
  shows "\<not> beneath p q" "\<not> beneath (owner_marker p) q" "q \<noteq> p" "q \<noteq> owner_marker p"
  using assms by (auto simp: tmp_place_def)

definition backup_kept :: "bytes \<Rightarrow> tree \<Rightarrow> tree \<Rightarrow> bool" where
  "backup_kept dest t u \<longleftrightarrow> (let backup = dest @ stock_backup_suffix
     in if t backup \<noteq> None then u backup = t backup else \<exists>bs. t dest = Some (File bs) \<and> u backup = Some (File bs))"

lemma keep_stock_ok:
  assumes laws: "pack_laws px view" and r: "keep_stock_manifest px dest stock w = (st, w1)"
  shows "\<And>q. \<not> tmp_place (dest @ stock_backup_suffix) q \<Longrightarrow> \<not> tmp_place ((dest @ stock_backup_suffix) @ pack_tmp_suffix) q
      \<Longrightarrow> view w1 q = view w q"
    "st = PackOk \<Longrightarrow> backup_kept dest (view w) (view w1)"
proof -
  note px = pack_lawsD(2) [OF laws]
  define backup where "backup = dest @ stock_backup_suffix"
  define tmp where "tmp = backup @ pack_tmp_suffix"
  define keeps where "keeps v \<longleftrightarrow> (\<forall>q. \<not> tmp_place backup q \<and> \<not> tmp_place tmp q \<longrightarrow> view v q = view w q)" for v
  have keepsI: "keeps v1" if "keeps v" "\<And>q. \<not> tmp_place backup q \<Longrightarrow> \<not> tmp_place tmp q \<Longrightarrow> view v1 q = view v q" for v v1
    using that by (simp add: keeps_def)
  have lx: "lexists px backup w \<longleftrightarrow> view w backup \<noteq> None"
    using pack_lawsD(1) [OF laws] by (auto simp: lexists_def posix_sees_def)
  have goal: "keeps w1 \<and> (st = PackOk \<longrightarrow> backup_kept dest (view w) (view w1))"
  proof (cases "lexists px backup w")
    case True
    then have "st = PackOk" "w1 = w" using r by (simp_all add: keep_stock_manifest_def backup_def)
    with True lx show ?thesis by (simp add: keeps_def backup_kept_def backup_def Let_def)
  next
    case False
    define w2 where "w2 = snd (remove_tree px tmp w)"
    have k2: "keeps w2" by (rule keepsI [of w]) (simp_all add: w2_def keeps_def remove_tree_frame [OF px] place_frames)
    obtain m1 w3 where m1: "mark_owned px backup w2 = (m1, w3)" by fastforce
    have k3: "keeps w3" using mark_owned_frame [OF px, of _ backup w2] by (intro keepsI [OF k2]) (simp add: m1 place_frames)
    obtain m2 w4 where m2: "mark_owned px tmp w3 = (m2, w4)" by fastforce
    have k4: "keeps w4" using mark_owned_frame [OF px, of _ tmp w3] by (intro keepsI [OF k3]) (simp add: m2 place_frames)
    obtain copied sha w5 where c: "copy_file px dest tmp w4 = (copied, sha, w5)" by (metis prod_cases3)
    note cv = copy_file_view [OF laws c]
    have k5: "keeps w5" using cv(1) by (intro keepsI [OF k4]) (auto simp: only_at_def place_frames)
    obtain ok w6 where n: "(if copied \<and> fst (sha256_hex sha) = stock then px_rename px tmp backup w5 else (False, w5)) = (ok, w6)" by fastforce
    have k6: "keeps w6" using n rename_view(1) [OF px] by (intro keepsI [OF k5]) (auto simp: place_frames split: if_splits)
    consider (m1) "\<not> m1" | (m2) "m1" "\<not> m2" | (bad) "m1" "m2" "\<not> ok" | (ok) "m1" "m2" "ok" by blast
    then show ?thesis
    proof cases
      case bad
      have "keeps (snd (remove_tree px (owner_marker backup) (drop_temporary px tmp w6)))"
        by (rule keepsI [OF k6]) (simp add: remove_tree_frame [OF px] drop_temporary_frame [OF px] place_frames)
      then show ?thesis using r False bad
        unfolding keep_stock_manifest_def Let_def backup_def [symmetric] tmp_def [symmetric] w2_def [symmetric] by (auto simp: m1 m2 c n)
    next
      case ok
      then have cp: "copied" "px_rename px tmp backup w5 = (True, w6)" using n by (auto split: if_splits)
      have e: "st = PackOk" "view w1 = view (snd (px_unlink px (owner_marker tmp) (snd (px_sync_dir px (pack_dir_of backup) w6))))"
        using r False ok unfolding keep_stock_manifest_def Let_def backup_def [symmetric] tmp_def [symmetric] w2_def [symmetric]
        by (auto simp: m1 m2 c n px)
      have u: "view w1 q = view w6 q" if "q \<noteq> owner_marker tmp" for q using that by (simp add: e(2) unlink_frame [OF px] px)
      have dest: "view w4 dest = view w dest" using k4 by (simp add: keeps_def backup_def tmp_def)
      have "backup \<noteq> owner_marker tmp" by (simp add: tmp_def owner_marker_def)
      then have "view w1 backup = view w5 tmp" using u rename_view(2) [OF px cp(2)] by simp
      with cv(2) [OF cp(1)] dest have "backup_kept dest (view w) (view w1)"
        using False lx by (auto simp: backup_kept_def backup_def [symmetric] Let_def)
      moreover have "keeps w1" by (rule keepsI [OF k6]) (use u in \<open>simp add: place_frames\<close>)
      ultimately show ?thesis by blast
    qed (use r False k3 k4 in \<open>auto simp: keep_stock_manifest_def Let_def backup_def [symmetric] tmp_def [symmetric] w2_def [symmetric] m1 m2\<close>)
  qed
  then show "\<And>q. \<not> tmp_place (dest @ stock_backup_suffix) q \<Longrightarrow> \<not> tmp_place ((dest @ stock_backup_suffix) @ pack_tmp_suffix) q
      \<Longrightarrow> view w1 q = view w q" "st = PackOk \<Longrightarrow> backup_kept dest (view w) (view w1)"
    by (simp_all add: keeps_def backup_def tmp_def)
qed

subsection \<open>One file\<close>

lemma put_file_ok:
  assumes laws: "pack_laws px view" and r: "put_file px tmp dest w = (st, w1)" and d: "\<not> tmp_place tmp dest" "dest \<noteq> owner_marker tmp"
  shows "\<And>q. \<not> tmp_place tmp q \<Longrightarrow> \<not> beneath dest q \<Longrightarrow> view w1 q = view w q"
    "view w1 dest = (if st = PackOk then view w tmp else view w dest)"
proof -
  note px = pack_lawsD(2) [OF laws]
  obtain ok w2 where n: "px_rename px tmp dest w = (ok, w2)" by fastforce
  note rv = rename_view [OF px n]
  have "(\<forall>q. \<not> tmp_place tmp q \<and> \<not> beneath dest q \<longrightarrow> view w1 q = view w q)
    \<and> view w1 dest = (if st = PackOk then view w tmp else view w dest)"
  proof (cases ok)
    case True
    then have e: "st = PackOk" "view w1 = view (snd (px_unlink px (owner_marker tmp) (snd (px_sync_dir px (pack_dir_of dest) w2))))"
      using r by (auto simp: put_file_def n px Let_def)
    have "view w1 q = view w2 q" if "q \<noteq> owner_marker tmp" for q using that by (simp add: e(2) unlink_frame [OF px] px)
    then show ?thesis using rv(1,2) True d(2) e(1) by (auto simp: place_frames)
  next
    case False
    then have "st = PackWriteFailed" "w1 = drop_temporary px tmp w2" using r by (auto simp: put_file_def n)
    then show ?thesis using rv(3) False d(1) by (auto simp: drop_temporary_frame [OF px] place_frames)
  qed
  then show "\<And>q. \<not> tmp_place tmp q \<Longrightarrow> \<not> beneath dest q \<Longrightarrow> view w1 q = view w q"
    "view w1 dest = (if st = PackOk then view w tmp else view w dest)" by blast+
qed

end
