(* ===== verification/Pack_Order.thy ===== *)
theory Pack_Order
  imports Pack_Safety
begin

section \<open>The packages before the manifest\<close>

text \<open>
  What \<^verbatim>\<open>RunPackStep\<close> leaves, whatever fails on the way and wherever the process is killed: the manifest of a
  pack is in place only with every file it names, the stock manifest is kept, and nothing else is touched.
\<close>

subsection \<open>Files that do not meet\<close>

lemma plain_no_slash: "is_plain_name n \<Longrightarrow> slash \<notin> set n"
proof
  assume "is_plain_name n" "slash \<in> set n"
  then have "is_plain_char slash" by (auto simp: is_plain_name_def list_all_iff)
  then show False by (simp add: is_plain_char_def slash_def ascii_digit_def ascii_lower_def ascii_upper_def)
qed

lemma pack_path_split:
  assumes "is_pack_path p"
  obtains d n where "p = file_in d n" "d \<in> {manifests_dir, packages_dir}" "slash \<notin> set n"
    "\<not> ends_with n pack_tmp_suffix" "\<not> ends_with n stock_backup_suffix" "\<not> ends_with n owner_suffix"
proof -
  from assms obtain k where k: "find_ch slash p = Some k" "take k p \<in> {manifests_dir, packages_dir}" "is_plain_name (drop (k + 1) p)"
    "\<not> ends_with (drop (k + 1) p) pack_tmp_suffix" "\<not> ends_with (drop (k + 1) p) stock_backup_suffix"
    "\<not> ends_with (drop (k + 1) p) owner_suffix"
    by (auto simp: is_pack_path_def Let_def split: option.splits)
  have "p = file_in (take k p) (drop (k + 1) p)"
    using find_ch_Some [OF k(1)] id_take_nth_drop [of k p] by (simp add: file_in_def)
  then show ?thesis using that k plain_no_slash by blast
qed

lemma ends_with_iff: "ends_with n s \<longleftrightarrow> (\<exists>a. n = a @ s)"
  by (auto simp: ends_with_def) (metis append_take_drop_id)

lemma suffixes_differ [simp]:
  "a @ pack_tmp_suffix \<noteq> b @ stock_backup_suffix" "a @ owner_suffix \<noteq> b @ stock_backup_suffix"
proof -
  show "a @ pack_tmp_suffix \<noteq> b @ stock_backup_suffix"
  proof
    assume "a @ pack_tmp_suffix = b @ stock_backup_suffix"
    from arg_cong [OF this, of last] show False by (simp add: suffix_defs)
  qed
  show "a @ owner_suffix \<noteq> b @ stock_backup_suffix"
  proof
    assume "a @ owner_suffix = b @ stock_backup_suffix"
    from arg_cong [OF this, of last] show False by (simp add: suffix_defs)
  qed
qed

text \<open>What the step makes of a name is not a name a pack may carry.\<close>

lemma made_names:
  assumes "n1 @ s @ o1 = n2 @ x" "s \<in> item_suffixes" "o1 \<in> {[], owner_suffix}" "x \<in> {[], stock_backup_suffix}"
    and n1: "\<not> ends_with n1 stock_backup_suffix"
    and n2: "\<not> ends_with n2 pack_tmp_suffix" "\<not> ends_with n2 stock_backup_suffix" "\<not> ends_with n2 owner_suffix"
  shows "n1 = n2"
proof -
  have n: "n1 \<noteq> a @ stock_backup_suffix" "n2 \<noteq> a @ pack_tmp_suffix" "n2 \<noteq> a @ stock_backup_suffix" "n2 \<noteq> a @ owner_suffix" for a
    using n1 n2 by (auto simp: ends_with_iff)
  have e: "(a @ b) @ c = a @ b @ c" for a b c :: bytes by simp
  show ?thesis using assms(1-4) n(1) [of n2] n(2-4) [of n1] n(2-4) [of "n1 @ s"] n(2-4) [of "n1 @ stock_backup_suffix"]
      suffixes_differ [of n1 n2] suffixes_differ [of "n1 @ s" n2] suffixes_differ [of "n1 @ stock_backup_suffix" n2]
    by (auto simp: item_suffixes_def)
qed

lemma tmp_place_iff: "tmp_place p q \<longleftrightarrow> (\<exists>o1\<in>{[], owner_suffix}. beneath (p @ o1) q)"
  by (auto simp: tmp_place_def owner_marker_def)

lemma split_component:
  assumes "a @ slash # x = b @ slash # y" "slash \<notin> set a" "slash \<notin> set b"
  shows "a = b \<and> x = y"
  using split_at_first [OF assms(1,3)] assms(2) by auto

lemma no_slash_suffixes [simp]:
  "slash \<notin> set pack_tmp_suffix" "slash \<notin> set stock_backup_suffix" "slash \<notin> set manifests_dir" "slash \<notin> set packages_dir"
  by (simp_all add: suffix_defs manifests_dir_def packages_dir_def)

text \<open>Below a name in one directory there is no name in such a directory but itself.\<close>

lemma beneath_sibling_file:
  assumes "beneath (file_in d1 m) (file_in d2 n)" "slash \<notin> set d1" "slash \<notin> set d2" "slash \<notin> set m" "slash \<notin> set n"
  shows "d1 = d2 \<and> m = n"
proof -
  from assms(1) consider "file_in d2 n = file_in d1 m" | r where "file_in d2 n = file_in d1 m @ slash # r" by (auto simp: beneath_iff)
  then show ?thesis
  proof cases
    case (2 r)
    then have "n = m @ slash # r" using split_component [of d2 n d1 "m @ slash # r"] assms(2,3) by (simp add: file_in_def)
    then show ?thesis using assms(5) by simp
  qed (use split_component [of d2 n d1 m] assms(2,3) in \<open>simp add: file_in_def\<close>)
qed

lemma dest_apart:
  assumes "file_ok f" "file_ok g" "pf_path f \<noteq> pf_path g" "x \<in> {[], stock_backup_suffix}"
  shows "\<not> touched (file_in android (pf_path f)) (file_in android (pf_path g) @ x)"
proof
  obtain d1 n1 where f: "pf_path f = file_in d1 n1" "d1 \<in> {manifests_dir, packages_dir}" "slash \<notin> set n1"
    "\<not> ends_with n1 pack_tmp_suffix" "\<not> ends_with n1 stock_backup_suffix" "\<not> ends_with n1 owner_suffix"
    using assms(1) pack_path_split unfolding file_ok_def by metis
  obtain d2 n2 where g: "pf_path g = file_in d2 n2" "d2 \<in> {manifests_dir, packages_dir}" "slash \<notin> set n2"
    "\<not> ends_with n2 pack_tmp_suffix" "\<not> ends_with n2 stock_backup_suffix" "\<not> ends_with n2 owner_suffix"
    using assms(2) pack_path_split unfolding file_ok_def by metis
  have sl: "slash \<notin> set d1" "slash \<notin> set d2" using f(2) g(2) by auto
  assume "touched (file_in android (pf_path f)) (file_in android (pf_path g) @ x)"
  then obtain s o1 where s: "s \<in> item_suffixes" "o1 \<in> {[], owner_suffix}"
    "beneath (((file_in android (file_in d1 n1)) @ s) @ o1) (file_in android (file_in d2 n2) @ x)"
    unfolding touched_def tmp_place_iff f(1) g(1) by blast
  then have "beneath (file_in d1 (n1 @ s @ o1)) (file_in d2 (n2 @ x))" using s(3) by (simp add: file_in_def)
  then have "d1 = d2 \<and> n1 @ s @ o1 = n2 @ x"
    by (rule beneath_sibling_file) (use sl f(3) g(3) s(1,2) assms(4) in \<open>auto simp: item_suffixes_def\<close>)
  then show False using made_names [OF _ s(1,2) assms(4) f(5) g(4-6)] assms(3) f(1) g(1) by auto
qed

subsection \<open>One file, and all of them\<close>

lemma dest_tmp [simp]: "\<not> tmp_place (dest @ pack_tmp_suffix) dest" "dest \<noteq> owner_marker (dest @ pack_tmp_suffix)"
  by (simp_all add: owner_marker_def)

definition placed_ok :: "('w \<Rightarrow> tree) \<Rightarrow> bytes \<Rightarrow> bytes \<Rightarrow> pack_file \<Rightarrow> 'w \<Rightarrow> pack_status \<Rightarrow> 'w \<Rightarrow> bool" where
  "placed_ok view android man f w st w1 \<longleftrightarrow> (let dest = file_in android (pf_path f)
     in (\<forall>q. \<not> touched dest q \<longrightarrow> view w1 q = view w q)
        \<and> (if st = PackOk then has_digest f (view w1 dest) else view w1 dest = view w dest)
        \<and> (st = PackOk \<and> pf_path f = man \<longrightarrow> backup_kept dest (view w) (view w1)))"

lemma place_file_ok:
  assumes laws: "pack_laws px view" and r: "place_file px apk android man stock e f w = Some (st, w1)"
  shows "placed_ok view android man f w st w1"
proof -
  note px = pack_lawsD(2) [OF laws]
  define dest where "dest = file_in android (pf_path f)"
  define tmp where "tmp = dest @ pack_tmp_suffix"
  define backup where "backup = dest @ stock_backup_suffix"
  have other: "\<not> tmp_place tmp q \<and> \<not> beneath dest q \<and> \<not> tmp_place backup q \<and> \<not> tmp_place (backup @ pack_tmp_suffix) q"
    if "\<not> touched dest q" for q using touched_places [OF that] by (auto simp: tmp_def backup_def tmp_place_def)
  have apart: "\<not> tmp_place tmp dest" "dest \<noteq> owner_marker tmp" "\<not> tmp_place tmp backup" "\<not> beneath dest backup"
    "\<not> tmp_place backup dest" "\<not> tmp_place (backup @ pack_tmp_suffix) dest" "\<not> tmp_place backup tmp" "\<not> tmp_place (backup @ pack_tmp_suffix) tmp"
    by (simp_all add: tmp_def backup_def owner_marker_def)
  obtain st2 w2 where t: "write_temporary px apk e f tmp w = Some (st2, w2)"
    using r by (auto simp: place_file_def Let_def dest_def tmp_def split: option.splits)
  have t2: "view w2 q = view w q" if "\<not> tmp_place tmp q" for q
    using write_temporary_ok [OF laws t] that by (simp add: temporary_ok_def)
  have h2: "st2 = PackOk \<Longrightarrow> has_digest f (view w2 tmp)" using write_temporary_ok [OF laws t] by (simp add: temporary_ok_def)
  have run: "Some (st, w1) = (if st2 \<noteq> PackOk then Some (st2, w2)
      else if pf_path f = man then
        (case keep_stock_manifest px dest stock w2 of (kept, w3) \<Rightarrow>
           if kept \<noteq> PackOk then Some (kept, drop_temporary px tmp w3) else Some (put_file px tmp dest w3))
      else Some (put_file px tmp dest w2))"
    using r unfolding place_file_def Let_def dest_def [symmetric] tmp_def [symmetric] t by simp
  consider (bad) "st2 \<noteq> PackOk" | (package) "st2 = PackOk" "pf_path f \<noteq> man" | (manifest) "st2 = PackOk" "pf_path f = man" by blast
  then show ?thesis
  proof cases
    case bad
    then show ?thesis using run t2 apart other by (auto simp: placed_ok_def dest_def [symmetric])
  next
    case package
    then have "put_file px tmp dest w2 = (st, w1)" using run by simp
    note pf = put_file_ok [OF laws this apart(1,2)]
    show ?thesis using pf t2 h2 package apart(1) other by (auto simp: placed_ok_def dest_def [symmetric])
  next
    case manifest
    obtain kept w3 where k: "keep_stock_manifest px dest stock w2 = (kept, w3)" by fastforce
    note kf = keep_stock_ok(1) [OF laws k, folded backup_def]
    have d3: "view w3 dest = view w dest" using kf [OF apart(5,6)] t2 [OF apart(1)] by simp
    show ?thesis
    proof (cases "kept = PackOk")
      case True
      then have "put_file px tmp dest w3 = (st, w1)" using run manifest k by simp
      note pf = put_file_ok [OF laws this apart(1,2)]
      have "backup_kept dest (view w2) (view w3)" using keep_stock_ok(2) [OF laws k True] .
      then have "backup_kept dest (view w) (view w1)"
        using t2 [OF apart(3)] t2 [OF apart(1)] pf(1) [OF apart(3,4)] by (auto simp: backup_kept_def backup_def [symmetric] Let_def split: if_splits)
      then show ?thesis using pf t2 h2 manifest kf [OF apart(7,8)] kf d3 other by (auto simp: placed_ok_def dest_def [symmetric])
    next
      case False
      then have "st = kept" "w1 = drop_temporary px tmp w3" using run manifest k by auto
      then show ?thesis using False kf t2 d3 other apart(1)
        by (auto simp: placed_ok_def dest_def [symmetric] drop_temporary_frame [OF px] tmp_place_def)
    qed
  qed
qed

lemma place_files_append:
  "place_files px apk android man stock (xs @ ys) w = (case place_files px apk android man stock xs w of
      None \<Rightarrow> None
    | Some (st, w1) \<Rightarrow> if st \<noteq> PackOk then Some (st, w1) else place_files px apk android man stock ys w1)"
proof (induction xs arbitrary: w)
  case (Cons i xs)
  obtain f e c where i: "i = (f, e, c)" by (metis prod_cases3)
  then show ?case using Cons.IH by (cases "place_file px apk android man stock e f w") auto
qed simp

text \<open>The files of a list of items.\<close>

definition items_ok :: "pack_item list \<Rightarrow> bool" where
  "items_ok items \<longleftrightarrow> list_all (\<lambda>(f, e, c). file_ok f) items \<and> distinct (map (\<lambda>(f, e, c). pf_path f) items)"

lemma items_ok_Cons [simp]:
  "items_ok ((f, e, c) # items) \<longleftrightarrow> file_ok f \<and> (\<forall>(g, e, c)\<in>set items. pf_path g \<noteq> pf_path f) \<and> items_ok items"
  by (auto simp: items_ok_def image_iff)

lemma items_ok_member: "items_ok items \<Longrightarrow> (f, e, c) \<in> set items \<Longrightarrow> file_ok f"
  unfolding items_ok_def list_all_iff by blast

lemma items_apart:
  assumes "items_ok ((f, e, c) # items)" "(h, e1, c1) \<in> set items" "x \<in> {[], stock_backup_suffix}"
  shows "\<not> touched (file_in android (pf_path h)) (file_in android (pf_path f) @ x)"
proof (rule dest_apart [OF _ _ _ assms(3)])
  show "file_ok h" using assms(1,2) items_ok_member by (metis items_ok_Cons)
  show "file_ok f" "pf_path h \<noteq> pf_path f" using assms(1,2) by auto
qed

lemma place_files_frame:
  assumes laws: "pack_laws px view"
  shows "place_files px apk android man stock items w = Some (st, w1) \<Longrightarrow>
    \<forall>(f, e, c)\<in>set items. c \<or> \<not> touched (file_in android (pf_path f)) q \<Longrightarrow> view w1 q = view w q"
proof (induction items arbitrary: w)
  case (Cons i items)
  obtain f e c where i: "i = (f, e, c)" by (metis prod_cases3)
  show ?case
  proof (cases c)
    case False
    then obtain st2 w2 where p: "place_file px apk android man stock e f w = Some (st2, w2)"
      using Cons.prems(1) by (auto simp: i False split: option.splits)
    have w2: "view w2 q = view w q" using place_file_ok [OF laws p] Cons.prems(2) False by (simp add: placed_ok_def i Let_def)
    show ?thesis
    proof (cases "st2 = PackOk")
      case True
      then have "place_files px apk android man stock items w2 = Some (st, w1)" using Cons.prems(1) False p by (simp add: i)
      from Cons.IH [OF this] Cons.prems(2) w2 show ?thesis by simp
    next
      case bad: False
      then show ?thesis using Cons.prems(1) False p w2 by (simp add: i)
    qed
  qed (use Cons in \<open>simp add: i\<close>)
qed simp

lemma place_files_holds:
  assumes laws: "pack_laws px view"
  shows "place_files px apk android man stock items w = Some (PackOk, w1) \<Longrightarrow> items_ok items \<Longrightarrow>
    (f, e, False) \<in> set items \<Longrightarrow> has_digest f (view w1 (file_in android (pf_path f)))"
proof (induction items arbitrary: w)
  case (Cons i items)
  obtain g e1 c where i: "i = (g, e1, c)" by (metis prod_cases3)
  show ?case
  proof (cases c)
    case True
    then show ?thesis using Cons by (auto simp: i)
  next
    case False
    then obtain w2 where p: "place_file px apk android man stock e1 g w = Some (PackOk, w2)"
      "place_files px apk android man stock items w2 = Some (PackOk, w1)"
      using Cons.prems(1) by (auto simp: i False split: option.splits if_splits)
    show ?thesis
    proof (cases "(f, e, False) \<in> set items")
      case True
      then show ?thesis using Cons.IH [OF p(2)] Cons.prems(2) by (simp add: i)
    next
      case last: False
      then have g: "g = f" using Cons.prems(3) by (auto simp: i)
      have "\<forall>(h, e, c)\<in>set items. c \<or> \<not> touched (file_in android (pf_path h)) (file_in android (pf_path f))"
        using items_apart [where x = "[]"] Cons.prems(2) unfolding i g by fastforce
      from place_files_frame [OF laws p(2) this] place_file_ok [OF laws p(1)] show ?thesis by (simp add: g placed_ok_def Let_def)
    qed
  qed
qed simp

end
