(* ===== verification/Pack_Run.thy ===== *)
theory Pack_Run
  imports Pack_Order
begin

section \<open>The whole step\<close>

text \<open>
  From the APK to the files in place: the directories, the placement in order, the decision whether the pack fits the data.
\<close>

subsection \<open>Directories\<close>

text \<open>Only directories are added, and none with a path longer than \<open>n\<close>.\<close>

definition only_dirs :: "nat \<Rightarrow> tree \<Rightarrow> tree \<Rightarrow> bool" where
  "only_dirs n t u \<longleftrightarrow> (\<forall>q. u q = t q \<or> t q = None \<and> u q = Some Dir \<and> length q \<le> n)"

lemma only_dirs_refl [simp]: "only_dirs n t t"
  by (simp add: only_dirs_def)

lemma only_dirs_trans: "only_dirs n t u \<Longrightarrow> only_dirs n u v \<Longrightarrow> only_dirs n t v"
  unfolding only_dirs_def by (metis option.distinct(1))

lemma only_dirs_mono: "only_dirs n t u \<Longrightarrow> n \<le> m \<Longrightarrow> only_dirs m t u"
  unfolding only_dirs_def by (meson order_trans)

lemma only_dirs_long: "only_dirs n t u \<Longrightarrow> n < length q \<Longrightarrow> u q = t q"
  unfolding only_dirs_def by (meson not_le)

lemma make_dir_only:
  assumes "pack_laws px view" "make_dir (pk_os px) p w = (ok, w1)"
  shows "only_dirs (length p) (view w) (view w1)"
proof -
  obtain r w2 where m: "os_mkdir (pk_os px) p w = (r, w2)" by fastforce
  then have "w1 = w2" using assms(2) by (simp add: make_dir_def)
  with pack_lawsD(3) [OF assms(1) m] show ?thesis by (auto simp: mkdir_law_def only_dirs_def split: if_splits)
qed

lemma make_dirs_only:
  assumes laws: "pack_laws px view"
  shows "make_dirs (pk_os px) path rest w = (ok, w1) \<Longrightarrow> only_dirs (length path + 1 + length rest) (view w) (view w1)"
proof (induction "length rest" arbitrary: path rest w rule: less_induct)
  case less
  show ?case
  proof (cases "find_ch slash rest")
    case None
    then show ?thesis using less.prems make_dir_only [OF laws, of "path @ slash # rest"] by (simp add: make_dirs.simps [of _ path rest])
  next
    case (Some k)
    then have k: "k < length rest" using find_ch_Some by fastforce
    let ?p = "path @ slash # take k rest"
    obtain made w2 where m: "make_dir (pk_os px) ?p w = (made, w2)" by fastforce
    have o2: "only_dirs (length path + 1 + length rest) (view w) (view w2)"
      by (rule only_dirs_mono [OF make_dir_only [OF laws m]]) (use k in simp)
    show ?thesis
    proof (cases made)
      case True
      then have r: "make_dirs (pk_os px) ?p (drop (k + 1) rest) w2 = (ok, w1)"
        using less.prems Some m by (simp add: make_dirs.simps [of _ path rest] Let_def)
      have n: "only_dirs (length ?p + 1 + length (drop (k + 1) rest)) (view w2) (view w1)" using less.hyps [OF _ r] k by simp
      show ?thesis by (rule only_dirs_trans [OF o2 only_dirs_mono [OF n]]) (use k in simp)
    qed (use less.prems Some m o2 in \<open>simp add: make_dirs.simps [of _ path rest] Let_def\<close>)
  qed
qed

lemma make_dirs_below_only:
  assumes "pack_laws px view" "make_dirs_below (pk_os px) base rel w = (ok, w1)" "length rel \<le> n"
  shows "only_dirs (length base + 1 + n) (view w) (view w1)"
  using assms make_dirs_only [OF assms(1), of base rel w ok w1] only_dirs_mono [of "length base + 1 + length rel"]
  by (auto simp: make_dirs_below_def split: if_splits)

text \<open>Destinations are longer than the directories made.\<close>

lemma dest_long:
  assumes "file_ok f"
  shows "length root + 1 + length (file_in rel manifests_dir) < length (file_in (file_in root rel) (pf_path f))"
proof -
  obtain d n where f: "pf_path f = file_in d n" "d \<in> {manifests_dir, packages_dir}" "\<not> ends_with n pack_tmp_suffix" "n \<noteq> []"
  proof -
    from assms have p: "is_pack_path (pf_path f)" by (simp add: file_ok_def)
    then obtain k where k: "find_ch slash (pf_path f) = Some k" "take k (pf_path f) \<in> {manifests_dir, packages_dir}"
      "drop (k + 1) (pf_path f) \<noteq> []" "\<not> ends_with (drop (k + 1) (pf_path f)) pack_tmp_suffix"
      by (auto simp: is_pack_path_def is_plain_name_def Let_def split: option.splits)
    have "pf_path f = file_in (take k (pf_path f)) (drop (k + 1) (pf_path f))"
      using find_ch_Some [OF k(1)] id_take_nth_drop [of k "pf_path f"] by (simp add: file_in_def)
    with k that show thesis by blast
  qed
  have "length n > 0" using f(4) by simp
  then show ?thesis using f(1,2) by (auto simp: file_in_def manifests_dir_def packages_dir_def bytes_of_def)
qed

subsection \<open>The placement\<close>

lemma items_current_apart:
  assumes ok: "items_ok items" and f: "(f, e, True) \<in> set items" and h: "(h, e1, c1) \<in> set items"
  shows "c1 \<or> \<not> touched (file_in android (pf_path h)) (file_in android (pf_path f))"
proof (cases "pf_path h = pf_path f")
  case True
  have "inj_on (\<lambda>(f, e, c). pf_path f) (set items)" using ok by (simp add: items_ok_def distinct_map)
  from inj_onD [OF this _ h f] True show ?thesis by simp
next
  case False
  then show ?thesis using dest_apart [of h f "[]" android] items_ok_member [OF ok f] items_ok_member [OF ok h] by simp
qed

text \<open>What is promised of all the items at the end: whole when the run says so or the manifest changed.\<close>

definition all_placed :: "('w \<Rightarrow> tree) \<Rightarrow> bytes \<Rightarrow> pack_item list \<Rightarrow> 'w \<Rightarrow> bool" where
  "all_placed view android items w \<longleftrightarrow> (\<forall>(f, e, c)\<in>set items. has_digest f (view w (file_in android (pf_path f))))"

definition order_kept :: "('w \<Rightarrow> tree) \<Rightarrow> bytes \<Rightarrow> pack_item list \<Rightarrow> bytes \<Rightarrow> bool \<Rightarrow> tree \<Rightarrow> 'w \<Rightarrow> bool" where
  "order_kept view android items man fine t w1 \<longleftrightarrow> (let m = file_in android man
     in (fine \<or> view w1 m \<noteq> t m \<longrightarrow> all_placed view android items w1) \<and> (view w1 m \<noteq> t m \<longrightarrow> backup_kept m t (view w1)))"

lemma place_in_order:
  assumes laws: "pack_laws px view" and ok: "items_ok (pkgs @ [(m, e, c)])" and m: "pf_path m = man"
    and cur: "\<And>f e1. (f, e1, True) \<in> set (pkgs @ [(m, e, c)]) \<Longrightarrow> has_digest f (view w (file_in android (pf_path f)))"
    and cm: "c \<Longrightarrow> has_digest m (view w (file_in android man))"
    and r: "place_files px apk android man stock (pkgs @ [(m, e, c)]) w = Some (st, w1)"
  shows "order_kept view android (pkgs @ [(m, e, c)]) man (st = PackOk) (view w) w1"
proof -
  let ?dest = "\<lambda>f. file_in android (pf_path f)" and ?m = "file_in android man"
  have okp: "items_ok pkgs" and mok: "file_ok m" using ok by (auto simp: items_ok_def)
  have apart: "\<not> touched (?dest f) (?m @ x)" "\<not> touched ?m (?dest f)"
    if "(f, e1, c1) \<in> set pkgs" "x \<in> {[], stock_backup_suffix}" for f e1 c1 x
  proof -
    have "file_ok f" "pf_path f \<noteq> pf_path m" using ok that(1) by (auto simp: items_ok_def list_all_iff image_iff)
    then show "\<not> touched (?dest f) (?m @ x)" "\<not> touched ?m (?dest f)"
      using dest_apart [of f m x android] dest_apart [of m f "[]" android] mok that(2) m by auto
  qed
  obtain st2 w2 where p: "place_files px apk android man stock pkgs w = Some (st2, w2)"
    using r by (auto simp: place_files_append split: option.splits)
  have m2: "view w2 (?m @ x) = view w (?m @ x)" if "x \<in> {[], stock_backup_suffix}" for x
    by (rule place_files_frame [OF laws p]) (use apart(1) [OF _ that] in auto)
  show ?thesis
  proof (cases "st2 = PackOk")
    case bad: False
    then have "st = st2" "w1 = w2" using r p by (simp_all add: place_files_append)
    with bad m2 [of "[]"] show ?thesis by (simp add: order_kept_def Let_def)
  next
    case True
    have pk: "has_digest f (view w2 (?dest f))" if f: "(f, e1, c1) \<in> set pkgs" for f e1 c1
    proof (cases c1)
      case True
      then have t: "(f, e1, True) \<in> set pkgs" using f by simp
      have "\<forall>(h, e, c)\<in>set pkgs. c \<or> \<not> touched (?dest h) (?dest f)" using items_current_apart [OF okp t] by blast
      from place_files_frame [OF laws p this] have "view w2 (?dest f) = view w (?dest f)" .
      then show ?thesis using cur t by auto
    next
      case False
      then show ?thesis using place_files_holds [OF laws, of apk android man stock pkgs w w2 f e1] p f okp \<open>st2 = PackOk\<close> by simp
    qed
    show ?thesis
    proof (cases c)
      case current: True
      then have "st = PackOk" "w1 = w2" using r p True by (simp_all add: place_files_append)
      then show ?thesis using m2 [of "[]"] pk cm current m by (auto simp: order_kept_def all_placed_def Let_def)
    next
      case False
      have "place_file px apk android man stock e m w2 = Some (st, w1)"
        using r p True False by (auto simp: place_files_append split: option.splits if_splits)
      note pf = place_file_ok [OF laws this, unfolded placed_ok_def Let_def m]
      have "has_digest f (view w1 (?dest f))" if "(f, e1, c1) \<in> set pkgs" for f e1 c1
        using pf apart(2) [OF that, of "[]"] pk [OF that] by simp
      then have whole: "all_placed view android (pkgs @ [(m, e, c)]) w1" if "st = PackOk"
        using pf that m by (auto simp: all_placed_def)
      have "view w1 ?m \<noteq> view w ?m \<Longrightarrow> st = PackOk" using pf m2 [of "[]"] by (auto split: if_splits)
      moreover have "st = PackOk \<Longrightarrow> backup_kept ?m (view w) (view w1)"
        using pf m2 [of "[]"] m2 [of stock_backup_suffix] by (auto simp: backup_kept_def Let_def split: if_splits)
      ultimately show ?thesis using whole by (auto simp: order_kept_def Let_def)
    qed
  qed
qed

definition none_touched :: "bytes \<Rightarrow> pack_item list \<Rightarrow> bytes \<Rightarrow> bool" where
  "none_touched android items q \<longleftrightarrow> (\<forall>(f, e, c)\<in>set items. \<not> touched (file_in android (pf_path f)) q)"

text \<open>Everything a placement promises.\<close>

definition placement_ok :: "('w \<Rightarrow> tree) \<Rightarrow> bytes \<Rightarrow> pack_item list \<Rightarrow> bytes \<Rightarrow> bool \<Rightarrow> tree \<Rightarrow> 'w \<Rightarrow> bool" where
  "placement_ok view android items man fine t w1 \<longleftrightarrow> order_kept view android items man fine t w1
     \<and> (\<forall>q. none_touched android items q \<longrightarrow> view w1 q = t q \<or> t q = None \<and> view w1 q = Some Dir)"

lemma order_kept_same: "view w1 (file_in android man) = t (file_in android man) \<Longrightarrow> order_kept view android items man False t w1"
  by (simp add: order_kept_def Let_def)

lemma place_pack_ok:
  assumes laws: "pack_laws px view" and ok: "items_ok (pkgs @ [(m, e, c)])" and m: "pf_path m = man"
    and cur: "\<And>f e1. (f, e1, True) \<in> set (pkgs @ [(m, e, c)]) \<Longrightarrow> has_digest f (view w (file_in (file_in root rel) (pf_path f)))"
    and r: "place_pack px apk root rel man stock (pkgs @ [(m, e, c)]) w = Some ((out, st), w1)"
  shows "placement_ok view (file_in root rel) (pkgs @ [(m, e, c)]) man (out \<in> {PackCurrent, PackPlaced}) (view w) w1"
proof -
  let ?items = "pkgs @ [(m, e, c)]" and ?a = "file_in root rel"
  let ?n = "length root + 1 + length (file_in rel manifests_dir)"
  have ld: "length (file_in rel packages_dir) \<le> length (file_in rel manifests_dir)"
    by (simp add: file_in_def packages_dir_def manifests_dir_def bytes_of_def)
  obtain made w2 where d1: "make_dirs_below (pk_os px) root (file_in rel manifests_dir) w = (made, w2)" by fastforce
  obtain made2 w3 where d2: "make_dirs_below (pk_os px) root (file_in rel packages_dir) w2 = (made2, w3)" by fastforce
  have o2: "only_dirs ?n (view w) (view w2)" by (rule make_dirs_below_only [OF laws d1]) simp
  have o3: "only_dirs ?n (view w) (view w3)" by (rule only_dirs_trans [OF o2 make_dirs_below_only [OF laws d2 ld]])
  have dest: "view v (file_in ?a (pf_path f) @ x) = view w (file_in ?a (pf_path f) @ x)"
    if "only_dirs ?n (view w) (view v)" "(f, e1, c1) \<in> set ?items" for v f e1 c1 x
    using only_dirs_long [OF that(1)] dest_long [OF items_ok_member [OF ok that(2)], of root rel] by simp
  have md: "view v (file_in ?a man @ x) = view w (file_in ?a man @ x)" if "only_dirs ?n (view w) (view v)" for v x
    using dest [OF that, of m e c x] m by simp
  have unplaced: "placement_ok view ?a ?items man False (view w) v" if "only_dirs ?n (view w) (view v)" for v
    using md [OF that, of "[]"] that unfolding placement_ok_def by (auto simp: order_kept_same only_dirs_def)
  consider (early) "out = PackFailed" "only_dirs ?n (view w) (view w1)"
    | (run) st3 where "place_files px apk ?a man stock ?items w3 = Some (st3, w1)" "out \<in> {PackCurrent, PackPlaced} \<longrightarrow> st3 = PackOk"
    using r o2 o3 by (auto simp: place_pack_def d1 d2 Let_def split: prod.splits stage_status.splits if_splits option.splits)
  then show ?thesis
  proof cases
    case early
    then show ?thesis using unplaced by simp
  next
    case (run st3)
    have cur3: "has_digest f (view w3 (file_in ?a (pf_path f)))" if "(f, e1, True) \<in> set ?items" for f e1
      using cur [OF that] dest [OF o3 that, of "[]"] by simp
    have cm: "has_digest m (view w3 (file_in ?a man))" if c using cur3 [of m e] that m by simp
    have "order_kept view ?a ?items man (st3 = PackOk) (view w3) w1"
      by (rule place_in_order [OF laws ok m cur3 cm run(1)])
    then have "order_kept view ?a ?items man (out \<in> {PackCurrent, PackPlaced}) (view w) w1"
      using run(2) md [OF o3, of "[]"] md [OF o3, of stock_backup_suffix] by (auto simp: order_kept_def backup_kept_def Let_def)
    moreover have "view w1 q = view w q \<or> view w q = None \<and> view w1 q = Some Dir" if "none_touched ?a ?items q" for q
    proof -
      have "view w1 q = view w3 q" by (rule place_files_frame [OF laws run(1)]) (use that in \<open>auto simp: none_touched_def\<close>)
      then show ?thesis using o3 by (auto simp: only_dirs_def)
    qed
    ultimately show ?thesis by (simp add: placement_ok_def)
  qed
qed

subsection \<open>The sweep leaves the pack's files\<close>

lemma beneath_rest: "beneath p q \<Longrightarrow> \<exists>r. q = p @ r \<and> (r = [] \<or> hd r = slash)"
  by (auto simp: beneath_iff)

lemma same_pack_name:
  assumes "beneath (file_in (pack_dir root v sub1) k) (file_in (pack_dir root version sub) n)"
    and "slash \<notin> set v" "slash \<notin> set version" "slash \<notin> set sub1" "slash \<notin> set sub" "slash \<notin> set n"
  shows "k = n"
proof -
  define x where "x = rad15_name @ slash # android_name"
  have e: "file_in (pack_dir root u d) j = root @ slash # data_name @ slash # u @ slash # x @ slash # d @ slash # j" for u d j
    by (simp add: pack_dir_def file_in_def x_def)
  from beneath_rest [OF assms(1)] obtain r where r: "r = [] \<or> hd r = slash"
    "version @ slash # x @ slash # sub @ slash # n = v @ slash # x @ slash # sub1 @ slash # k @ r" by (auto simp: e)
  have "x @ slash # sub @ slash # n = x @ slash # sub1 @ slash # k @ r" using split_component [OF r(2) assms(3,2)] by blast
  then have "sub @ slash # n = sub1 @ slash # k @ r" by simp
  from split_component [OF this assms(5,4)] have "n = k @ r" by blast
  with r(1) assms(6) show ?thesis by (cases r) auto
qed

lemma not_ours_pack_file:
  assumes n: "slash \<notin> set n" "\<not> ends_with n pack_tmp_suffix" "\<not> ends_with n owner_suffix"
    and s: "slash \<notin> set sub" "slash \<notin> set version"
  shows "\<not> ours root t (file_in (pack_dir root version sub) n)"
proof
  have names: "slash \<notin> set rad15_name" "slash \<notin> set android_name" by (simp_all add: rad15_name_def android_name_def bytes_of_def slash_def)
  have here: "file_in (pack_dir root version sub) n
      = root @ slash # data_name @ slash # version @ slash # rad15_name @ slash # android_name @ slash # sub @ slash # n"
    by (simp add: pack_dir_def file_in_def)
  have staged: False if "slash \<notin> set k" "starts_with k staging_prefix" "beneath (file_in root k) (file_in (pack_dir root version sub) n)" for k
  proof -
    define x where "x = version @ slash # rad15_name @ slash # android_name @ slash # sub @ slash # n"
    have "beneath k (data_name @ slash # x)" using that(3) unfolding here x_def by (simp add: file_in_def)
    then obtain r where r: "data_name @ slash # x = k @ r" "r = [] \<or> hd r = slash" by (auto simp: beneath_iff)
    have "r \<noteq> []"
    proof
      assume "r = []"
      then have "slash \<in> set k" using r(1) by (metis append.right_neutral in_set_conv_decomp)
      then show False using that(1) by simp
    qed
    then obtain y where "r = slash # y" using r(2) by (cases r) auto
    then have "k = data_name" using split_component [of data_name x k y] r(1) that(1) by simp
    then show False using that(2) by (simp add: starts_with_def data_name_def staging_prefix_def bytes_of_def)
  qed
  have same: "k = n" if "slash \<notin> set v" "sub1 \<in> {manifests_dir, packages_dir}"
      "beneath (file_in (pack_dir root v sub1) k) (file_in (pack_dir root version sub) n)" for k v sub1
    using same_pack_name [OF that(3,1) s(2) _ s(1) n(1)] that(2) by auto
  assume "ours root t (file_in (pack_dir root version sub) n)"
  then show False
  proof cases
    case (pack_temporary k v sub1)
    then show False using same [of v sub1 k] n(2) by simp
  next
    case (marker k)
    have "beneath (file_in root k) (file_in (pack_dir root version sub) n)" using marker by simp
    then show False using staged marker by blast
  next
    case (pack_marker k v sub1)
    then have "beneath (file_in (pack_dir root v sub1) k) (file_in (pack_dir root version sub) n)" by simp
    then show False using same [of v sub1 k] pack_marker n(3) by (simp add: our_marker_def)
  qed (use staged in blast)
qed

lemma pack_dest_kept:
  assumes f: "file_ok f" and x: "x \<in> {[], stock_backup_suffix}" and v: "pk_stock_version pack = pinned_version_folder"
    and l: "lost_only (ours root t) t u"
  shows "u (file_in (file_in root (android_rel pack)) (pf_path f) @ x) = t (file_in (file_in root (android_rel pack)) (pf_path f) @ x)"
proof -
  obtain d n where p: "pf_path f = file_in d n" "d \<in> {manifests_dir, packages_dir}" "slash \<notin> set n"
    "\<not> ends_with n pack_tmp_suffix" "\<not> ends_with n stock_backup_suffix" "\<not> ends_with n owner_suffix"
    using f pack_path_split unfolding file_ok_def by metis
  have pin: "slash \<notin> set pinned_version_folder" by (simp add: pins bytes_of_def slash_def)
  have e: "file_in (file_in root (android_rel pack)) (pf_path f) @ x = file_in (pack_dir root pinned_version_folder d) (n @ x)"
    by (simp add: file_in_def pack_dir_def android_rel_def v p(1) rad15_name_def android_name_def bytes_of_def slash_def)
  have stock: "\<not> ends_with (n @ stock_backup_suffix) pack_tmp_suffix" "\<not> ends_with (n @ stock_backup_suffix) owner_suffix"
    using suffixes_differ [of _ n] by (auto simp: ends_with_iff dest: sym)
  have "\<not> ours root t (file_in (pack_dir root pinned_version_folder d) (n @ x))"
    by (rule not_ours_pack_file) (use p x pin stock in auto)
  then show ?thesis using l unfolding e lost_only_def by blast
qed

subsection \<open>The pack that was read\<close>

lemma find_files_files: "find_files es fs = Some ps \<Longrightarrow> map fst ps = fs"
  by (induction es fs arbitrary: ps rule: find_files.induct) (auto split: option.splits if_splits)

lemma read_pack_ok:
  assumes "read_pack px apk w = Some (Inr (pack, fs))"
  shows "pack_ok pack" "map fst fs = pk_files pack"
proof -
  from assms obtain es descr where t: "pack_of_text px es descr = Inr (pack, fs)"
    by (auto simp: read_pack_def split: if_splits sum.splits option.splits)
  then show "pack_ok pack" "map fst fs = pk_files pack"
    using parse_pack_ok [of "pk_json px" descr] find_files_files [of es]
    by (auto simp: pack_of_text_def split: sum.splits option.splits)
qed

lemma pack_items_split:
  assumes ok: "pack_ok pack" and fs: "map fst fs = pk_files pack"
  obtains pkgs m e where "pack_items px android (pk_manifest_path pack) have_it fs w = pkgs @ [(m, e, have_it)]"
    "pf_path m = pk_manifest_path pack" "pf_sha256 m = pk_manifest_sha256 pack"
    "items_ok (pkgs @ [(m, e, have_it)])" "fst ` set (pkgs @ [(m, e, have_it)]) = set (pk_files pack)"
    "\<And>f e. (f, e, True) \<in> set pkgs \<Longrightarrow> hash_regular_file px (file_in android (pf_path f)) w = Some (pf_sha256 f, pf_size f)"
proof -
  let ?man = "pk_manifest_path pack"
  obtain m where m: "manifests_of pack = [m]" "pf_path m = wanted_manifest" "pk_manifest_sha256 pack = pf_sha256 m" "?man = wanted_manifest"
    using ok by (auto simp: pack_ok_def)
  have w: "starts_with wanted_manifest manifests_dir" by (simp add: wanted_manifest_def file_in_def starts_with_def)
  have "filter (\<lambda>f. pf_path f = ?man) (pk_files pack) = filter (\<lambda>f. pf_path f = ?man) (manifests_of pack)"
    unfolding manifests_of_def filter_filter by (rule filter_cong) (use w m(4) in auto)
  then have "map fst (filter (\<lambda>(f, e). pf_path f = ?man) fs) = [m]"
    using m by (simp add: fs [symmetric] filter_map case_prod_unfold comp_def)
  then obtain e where e: "filter (\<lambda>(f, e). pf_path f = ?man) fs = [(m, e)]" by auto
  define pkgs where "pkgs = map (\<lambda>(f, e). (f, e, is_current px android ?man have_it f w)) (filter (\<lambda>(f, e). pf_path f \<noteq> ?man) fs)"
  have items: "pack_items px android ?man have_it fs w = pkgs @ [(m, e, have_it)]"
    using m(2,4) by (simp add: pack_items_def e [unfolded m(4)] pkgs_def is_current_def)
  have all: "fst ` set (pkgs @ [(m, e, have_it)]) = set (pk_files pack)"
  proof -
    have "fst ` set (pack_items px android ?man have_it fs w) = fst ` set fs" by (auto simp: pack_items_def image_iff) force+
    then show ?thesis using fs by (metis items list.set_map)
  qed
  have "distinct (map pf_path (pk_files pack))"
    using ok by (auto simp: pack_ok_def seen_of_def comp_def distinct_map inj_on_def)
  then have d: "distinct (map (\<lambda>(f, e). pf_path f) fs)" by (simp add: fs [symmetric] comp_def case_prod_unfold)
  have "distinct (map (\<lambda>(f, e, c). pf_path f) pkgs)"
    using d by (auto simp: pkgs_def comp_def case_prod_unfold distinct_map_filter)
  moreover have "pf_path m \<notin> set (map (\<lambda>(f, e, c). pf_path f) pkgs)" using m by (auto simp: pkgs_def)
  moreover have "\<forall>f\<in>fst ` set (pkgs @ [(m, e, have_it)]). file_ok f" using ok unfolding all by (simp add: pack_ok_def list_all_iff)
  ultimately have "items_ok (pkgs @ [(m, e, have_it)])" by (auto simp: items_ok_def list_all_iff)
  moreover have "hash_regular_file px (file_in android (pf_path f)) w = Some (pf_sha256 f, pf_size f)" if "(f, e1, True) \<in> set pkgs" for f e1
    using that by (auto simp: pkgs_def is_current_def)
  ultimately show thesis using that items all m by simp
qed

lemma manifest_digest_holds:
  assumes laws: "pack_laws px view" and d: "manifest_digest px p w = pf_sha256 m" and m: "file_ok m"
  shows "has_digest m (view w p)"
proof (cases "hash_regular_file px p w")
  case None
  have "length (pf_sha256 m) = 64" using m by (simp add: file_ok_def is_hex64_def is_lower_hex_def)
  moreover have "length (manifest_digest px p w) \<noteq> 64" using None by (simp add: manifest_digest_def)
  ultimately show ?thesis using d by simp
next
  case (Some r)
  then obtain h n where h: "hash_regular_file px p w = Some (h, n)" by (cases r) simp
  then show ?thesis using d hash_regular_file_view [OF laws h] by (auto simp: manifest_digest_def has_digest_def)
qed

subsection \<open>The step\<close>

lemma run_pack_ok:
  assumes laws: "pack_laws px view" and rd: "read_pack px apk w = Some (Inr (pack, fs))"
    and r: "run_pack_step px apk root w = Some ((out, st), w1)"
  defines "android \<equiv> file_in root (android_rel pack)"
  obtains items wc where "lost_only (ours root (view w)) (view w) (view wc)"
    "placement_ok view android items (pk_manifest_path pack) (out \<in> {PackCurrent, PackPlaced}) (view wc) w1"
    "fst ` set items = set (pk_files pack)" "items_ok items"
proof -
  note pk = read_pack_ok [OF rd]
  let ?man = "pk_manifest_path pack"
  obtain a b wc where cl: "clean_pack_leftovers px root w = (a, b, wc)" by (metis prod_cases3)
  have lost: "lost_only (ours root (view w)) (view w) (view wc)"
    using clean_pack_leftovers_ok [OF pack_lawsD(2) [OF laws], of root "view w" w] by (simp add: cl sweep_ok_def)
  let ?stock = "manifest_digest px (file_in android ?man) wc"
  let ?have = "?stock = pk_manifest_sha256 pack"
  obtain pkgs m e where it: "pack_items px android ?man ?have fs wc = pkgs @ [(m, e, ?have)]" "pf_path m = ?man"
    "pf_sha256 m = pk_manifest_sha256 pack" "items_ok (pkgs @ [(m, e, ?have)])" "fst ` set (pkgs @ [(m, e, ?have)]) = set (pk_files pack)"
    "\<And>f e. (f, e, True) \<in> set pkgs \<Longrightarrow> hash_regular_file px (file_in android (pf_path f)) wc = Some (pf_sha256 f, pf_size f)"
    by (rule pack_items_split [OF pk, where px = px and android = android and have_it = ?have and w = wc]) (rule that; assumption)
  let ?items = "pkgs @ [(m, e, ?have)]"
  have mok: "file_ok m" using items_ok_member [OF it(4)] by auto
  have cur: "has_digest f (view wc (file_in android (pf_path f)))" if "(f, e1, True) \<in> set ?items" for f e1
  proof (cases "(f, e1, True) \<in> set pkgs")
    case True
    then show ?thesis by (rule hash_holds [OF laws it(6)])
  next
    case False
    then have "f = m" "?have" using that by auto
    then show ?thesis using manifest_digest_holds [OF laws _ mok, of "file_in android ?man" wc] it(2,3) by simp
  qed
  have "placement_ok view android ?items ?man (out \<in> {PackCurrent, PackPlaced}) (view wc) w1"
  proof -
    have run: "run_pack_step px apk root w = (if ?stock \<notin> set (pk_requires pack) \<and> \<not> ?have then Some ((PackStockMismatch, PackOk), wc)
        else if list_all (\<lambda>(f, e, c). c) ?items then Some ((PackCurrent, PackOk), wc)
        else place_pack px apk root (android_rel pack) ?man ?stock ?items wc)"
      unfolding run_pack_step_def rd by (simp only: option.case sum.case prod.case cl Let_def android_def [symmetric] it(1))
    consider (mismatch) "out = PackStockMismatch" "w1 = wc"
      | (current) "w1 = wc" "list_all (\<lambda>(f, e, c). c) ?items"
      | (place) "place_pack px apk root (android_rel pack) ?man ?stock ?items wc = Some ((out, st), w1)"
      using r unfolding run by (metis option.inject prod.inject)
    then show ?thesis
    proof cases
      case current
      have "has_digest f (view wc (file_in android (pf_path f)))" if "(f, e1, c1) \<in> set ?items" for f e1 c1
      proof -
        have "c1" using current(2) that unfolding list_all_iff by blast
        then show ?thesis using cur [of f e1] that by simp
      qed
      then have "all_placed view android ?items wc" unfolding all_placed_def by blast
      then show ?thesis using current(1) by (simp add: placement_ok_def order_kept_def Let_def)
    next
      case place
      show ?thesis using place_pack_ok [OF laws it(4,2) _ place] cur unfolding android_def by blast
    qed (simp add: placement_ok_def order_kept_def Let_def)
  qed
  with that lost it(4,5) show thesis by blast
qed

text \<open>C2: the game never sees the manifest of a pack without the files it names. Whatever call fails, and wherever the process is
  killed: when the manifest in place is not the one there was, or the step says the pack is in place, every file of the pack is
  in place with the digest its description names; and where the manifest changed, the stock manifest is kept beside it.\<close>

theorem pack_manifest_last:
  assumes "pack_laws px view" "read_pack px apk w = Some (Inr (pack, fs))" "run_pack_step px apk root w = Some ((out, st), w1)"
  shows "let android = file_in root (android_rel pack); m = file_in android (pk_manifest_path pack) in
    (out \<in> {PackCurrent, PackPlaced} \<or> view w1 m \<noteq> view w m \<longrightarrow> (\<forall>f\<in>set (pk_files pack). has_digest f (view w1 (file_in android (pf_path f)))))
    \<and> (view w1 m \<noteq> view w m \<longrightarrow> backup_kept m (view w) (view w1))"
proof -
  obtain items wc where i: "lost_only (ours root (view w)) (view w) (view wc)"
    "placement_ok view (file_in root (android_rel pack)) items (pk_manifest_path pack) (out \<in> {PackCurrent, PackPlaced}) (view wc) w1"
    "fst ` set items = set (pk_files pack)" "items_ok items" using run_pack_ok [OF assms] .
  obtain m where m: "m \<in> set (pk_files pack)" "pf_path m = pk_manifest_path pack" "file_ok m" "pk_stock_version pack = pinned_version_folder"
    using read_pack_ok(1) [OF assms(2)] unfolding pack_ok_def manifests_of_def list_all_iff by (metis filter_eq_ConsD in_set_conv_decomp)
  note same = pack_dest_kept [OF m(3) _ m(4) i(1)]
  have "all_placed view a items w1 \<longleftrightarrow> (\<forall>f\<in>set (pk_files pack). has_digest f (view w1 (file_in a (pf_path f))))" for a
    unfolding i(3) [symmetric] by (auto simp: all_placed_def)
  then show ?thesis using i(2) same [of "[]"] same [of stock_backup_suffix]
    by (auto simp: placement_ok_def order_kept_def backup_kept_def Let_def m(2))
qed

text \<open>C13: placing a pack touches only names made from its own files. Every other entry is as it was, unless it was a marked
  leftover of an earlier run; what is new are directories on the way.\<close>

theorem pack_touches_its_files:
  assumes "pack_laws px view" "read_pack px apk w = Some (Inr (pack, fs))" "run_pack_step px apk root w = Some ((out, st), w1)"
    and "\<forall>f\<in>set (pk_files pack). \<not> touched (file_in (file_in root (android_rel pack)) (pf_path f)) q" and "\<not> ours root (view w) q"
  shows "view w1 q = view w q \<or> view w q = None \<and> view w1 q = Some Dir"
proof -
  obtain items wc where i: "lost_only (ours root (view w)) (view w) (view wc)"
    "placement_ok view (file_in root (android_rel pack)) items (pk_manifest_path pack) (out \<in> {PackCurrent, PackPlaced}) (view wc) w1"
    "fst ` set items = set (pk_files pack)" "items_ok items" using run_pack_ok [OF assms(1-3)] .
  have "none_touched (file_in root (android_rel pack)) items q"
    using assms(4) unfolding i(3) [symmetric] by (auto simp: none_touched_def)
  then have "view w1 q = view wc q \<or> view wc q = None \<and> view w1 q = Some Dir" using i(2) unfolding placement_ok_def by blast
  moreover have "view wc q = view w q" using i(1) assms(5) unfolding lost_only_def by blast
  ultimately show ?thesis by simp
qed

end
