(* ===== verification/Pack_Disk.thy ===== *)
theory Pack_Disk
  imports Pack_Run Fetch_Ends
begin

section \<open>The step ends, and an APK with a pack\<close>

text \<open>The step returns when zlib makes progress; a concrete APK and device show that the hypotheses of its properties can hold.\<close>

subsection \<open>The step ends\<close>

lemma read_entry_some: "inflate_progress zl \<Longrightarrow> read_zip_entry zl snk zf e s \<noteq> None"
  using entry_read_ends [of zl snk zf e s] by auto

lemma write_temporary_some: "inflate_progress (pk_zlib px) \<Longrightarrow> write_temporary px apk e f tmp w \<noteq> None"
  by (simp add: write_temporary_def Let_def read_entry_some split: prod.split option.split)

lemma place_file_some: "inflate_progress (pk_zlib px) \<Longrightarrow> place_file px apk android man stock e f w \<noteq> None"
  by (simp add: place_file_def Let_def write_temporary_some split: prod.split option.split)

lemma place_files_some: "inflate_progress (pk_zlib px) \<Longrightarrow> place_files px apk android man stock items w \<noteq> None"
  by (induction px apk android man stock items w rule: place_files.induct) (simp_all add: place_file_some split: option.split prod.split)

lemma place_pack_some: "inflate_progress (pk_zlib px) \<Longrightarrow> place_pack px apk root rel man stock items w \<noteq> None"
  by (simp add: place_pack_def Let_def place_files_some split: prod.split option.split stage_status.split)

lemma read_pack_some: "inflate_progress (pk_zlib px) \<Longrightarrow> read_pack px apk w \<noteq> None"
  by (simp add: read_pack_def read_pack_text_def read_entry_some split: sum.split option.split prod.split)

lemma run_pack_some: "inflate_progress (pk_zlib px) \<Longrightarrow> run_pack_step px apk root w \<noteq> None"
  by (simp add: run_pack_step_def Let_def read_pack_some place_pack_some del: not_None_eq split: sum.split option.split prod.split)

lemma run_pack_returns:
  assumes "inflate_progress (pk_zlib px)"
  obtains out st w1 where "run_pack_step px apk root w = Some ((out, st), w1)"
  using run_pack_some [OF assms, of apk root w] by (metis not_None_eq prod.collapse)

subsection \<open>An APK\<close>

definition apk_manifest :: bytes where "apk_manifest = pack_files_prefix @ bytes_of ''manifests/48037dc70b0ecab2''"

definition apk_header1 :: bytes where
  "apk_header1 = [0x50, 0x4b, 3, 4, 0x14, 0, 0, 0, 0, 0, 0, 0, 0, 0, 0x7b, 0, 0, 0, 1, 0, 0, 0, 1, 0, 0, 0, 0x1a, 0, 0, 0]"

definition apk_header2 :: bytes where
  "apk_header2 = [0x50, 0x4b, 3, 4, 0x14, 0, 0, 0, 0, 0, 0, 0, 0, 0, 0x6d, 0, 0, 0, 1, 0, 0, 0, 1, 0, 0, 0, 0x31, 0, 0, 0]"

definition apk_central1 :: bytes where
  "apk_central1 = [0x50, 0x4b, 1, 2, 0x14, 0, 0x14, 0, 0, 0, 0, 0, 0, 0, 0, 0, 0x7b, 0, 0, 0, 1, 0, 0, 0, 1, 0, 0, 0, 0x1a, 0, 0, 0,
     0, 0, 0, 0, 0, 0, 0, 0, 0, 0, 0, 0, 0, 0]"

definition apk_central2 :: bytes where
  "apk_central2 = [0x50, 0x4b, 1, 2, 0x14, 0, 0x14, 0, 0, 0, 0, 0, 0, 0, 0, 0, 0x6d, 0, 0, 0, 1, 0, 0, 0, 1, 0, 0, 0, 0x31, 0, 0, 0,
     0, 0, 0, 0, 0, 0, 0, 0, 0, 0, 0x39, 0, 0, 0]"

definition apk_end :: bytes where
  "apk_end = [0x50, 0x4b, 5, 6, 0, 0, 0, 0, 2, 0, 2, 0, 0xa7, 0, 0, 0, 0x89, 0, 0, 0, 0, 0]"

definition apk_local :: bytes where
  "apk_local = apk_header1 @ pack_json_entry @ [0x7b] @ apk_header2 @ apk_manifest @ [0x6d]"

definition apk_dir :: bytes where
  "apk_dir = apk_central1 @ pack_json_entry @ apk_central2 @ apk_manifest"

definition apk_bytes :: bytes where "apk_bytes = apk_local @ apk_dir @ apk_end"

definition apk_entry1 :: zip_entry where
  "apk_entry1 = \<lparr>z_name = pack_json_entry, z_method = 0, z_crc = 0x7b, z_csize = 1, z_size = 1, z_local = 0\<rparr>"

definition apk_entry2 :: zip_entry where
  "apk_entry2 = \<lparr>z_name = apk_manifest, z_method = 0, z_crc = 0x6d, z_csize = 1, z_size = 1, z_local = 57\<rparr>"

lemma apk_lengths [simp]:
  "length pack_json_entry = 26" "length apk_manifest = 49" "length apk_header1 = 30" "length apk_header2 = 30"
  "length apk_central1 = 46" "length apk_central2 = 46" "length apk_end = 22" "length apk_local = 137" "length apk_dir = 167"
  "length apk_bytes = 326"
  by (simp_all add: pack_json_entry_def apk_manifest_def pack_files_prefix_def apk_header1_def apk_header2_def apk_central1_def
      apk_central2_def apk_end_def apk_local_def apk_dir_def apk_bytes_def)

lemma le_prefix:
  "i + 4 \<le> length a \<Longrightarrow> le32 (a @ b) i = le32 a i" "i + 2 \<le> length a \<Longrightarrow> le16 (a @ b) i = le16 a i"
  by (simp_all add: le32_def le16_def nth_append)

lemma apk_end_fields:
  "le32 apk_end 0 = end_sig" "le16 apk_end 4 = 0" "le16 apk_end 6 = 0" "le16 apk_end 8 = 2"
  "le16 apk_end 10 = 2" "le32 apk_end 12 = 167" "le32 apk_end 16 = 137" "le16 apk_end 20 = 0"
  by (simp_all add: apk_end_def le32_def le16_def end_sig_def)

lemma apk_central_fields:
  "le32 apk_central1 0 = central_sig" "le16 apk_central1 4 = 20" "le16 apk_central1 8 = 0" "le16 apk_central1 10 = 0"
  "le32 apk_central1 16 = 0x7b" "le32 apk_central1 20 = 1" "le32 apk_central1 24 = 1" "le16 apk_central1 28 = 26"
  "le16 apk_central1 30 = 0" "le16 apk_central1 32 = 0" "le32 apk_central1 38 = 0" "le32 apk_central1 42 = 0"
  "le32 apk_central2 0 = central_sig" "le16 apk_central2 4 = 20" "le16 apk_central2 8 = 0" "le16 apk_central2 10 = 0"
  "le32 apk_central2 16 = 0x6d" "le32 apk_central2 20 = 1" "le32 apk_central2 24 = 1" "le16 apk_central2 28 = 49"
  "le16 apk_central2 30 = 0" "le16 apk_central2 32 = 0" "le32 apk_central2 38 = 0" "le32 apk_central2 42 = 57"
  by (simp_all add: apk_central1_def apk_central2_def le32_def le16_def central_sig_def)

lemma apk_dir_fields:
  "i + 4 \<le> 46 \<Longrightarrow> le32 apk_dir i = le32 apk_central1 i" "i + 2 \<le> 46 \<Longrightarrow> le16 apk_dir i = le16 apk_central1 i"
  "i + 4 \<le> 46 \<Longrightarrow> le32 apk_dir (72 + i) = le32 apk_central2 i" "i + 2 \<le> 46 \<Longrightarrow> le16 apk_dir (72 + i) = le16 apk_central2 i"
  "take 26 (drop 46 apk_dir) = pack_json_entry" "take 49 (drop 118 apk_dir) = apk_manifest"
  by (simp_all add: apk_dir_def le_prefix le_append)

lemma apk_names:
  "safe_entry_name pack_json_entry" "safe_entry_name apk_manifest" "\<not> is_dir_entry apk_entry1" "\<not> is_dir_entry apk_entry2"
  "fold_case (strip_slash apk_manifest) \<noteq> fold_case (strip_slash pack_json_entry)"
  by code_simp+

lemma apk_conflicts:
  "\<not> file_is_directory [fold_case (strip_slash apk_manifest), fold_case (strip_slash pack_json_entry)] apk_entry1"
  "\<not> file_is_directory [fold_case (strip_slash apk_manifest), fold_case (strip_slash pack_json_entry)] apk_entry2"
  by code_simp+

lemma apk_list_one:
  "list_one pack_zip_limits 137 apk_dir \<lparr>l_pos = 0, l_sum = 0, l_names = [], l_entries = []\<rparr> =
    Inr \<lparr>l_pos = 72, l_sum = 1, l_names = [fold_case (strip_slash pack_json_entry)], l_entries = [apk_entry1]\<rparr>"
  "list_one pack_zip_limits 137 apk_dir \<lparr>l_pos = 72, l_sum = 1, l_names = [fold_case (strip_slash pack_json_entry)], l_entries = [apk_entry1]\<rparr> =
    Inr \<lparr>l_pos = 167, l_sum = 2, l_names = [fold_case (strip_slash apk_manifest), fold_case (strip_slash pack_json_entry)],
      l_entries = [apk_entry1, apk_entry2]\<rparr>"
proof -
  have lim: "unat max_pack_file_bytes = 2147483647" by (simp add: max_pack_file_bytes_def)
  have e: "\<lparr>z_name = pack_json_entry, z_method = 0, z_crc = 0x7b, z_csize = Suc 0, z_size = Suc 0, z_local = 0\<rparr> = apk_entry1"
    "\<lparr>z_name = apk_manifest, z_method = 0, z_crc = 0x6d, z_csize = Suc 0, z_size = Suc 0, z_local = 57\<rparr> = apk_entry2"
    "z_name apk_entry1 = pack_json_entry" "z_name apk_entry2 = apk_manifest"
    by (simp_all add: apk_entry1_def apk_entry2_def)
  note f = apk_dir_fields(3,4) [of 0, simplified] apk_dir_fields(3) [of 16, simplified] apk_dir_fields(3) [of 20, simplified]
    apk_dir_fields(3) [of 24, simplified] apk_dir_fields(3) [of 38, simplified] apk_dir_fields(3) [of 42, simplified]
    apk_dir_fields(4) [of 4, simplified] apk_dir_fields(4) [of 8, simplified] apk_dir_fields(4) [of 10, simplified]
    apk_dir_fields(4) [of 28, simplified] apk_dir_fields(4) [of 30, simplified] apk_dir_fields(4) [of 32, simplified]
  show "list_one pack_zip_limits 137 apk_dir \<lparr>l_pos = 0, l_sum = 0, l_names = [], l_entries = []\<rparr> =
    Inr \<lparr>l_pos = 72, l_sum = 1, l_names = [fold_case (strip_slash pack_json_entry)], l_entries = [apk_entry1]\<rparr>"
    by (simp add: list_one_def Let_def apk_dir_fields(1,2,5) apk_central_fields central_fixed_def local_fixed_def e apk_names special_mode_def
        pack_zip_limits_def lim)
  show "list_one pack_zip_limits 137 apk_dir \<lparr>l_pos = 72, l_sum = 1, l_names = [fold_case (strip_slash pack_json_entry)], l_entries = [apk_entry1]\<rparr> =
    Inr \<lparr>l_pos = 167, l_sum = 2, l_names = [fold_case (strip_slash apk_manifest), fold_case (strip_slash pack_json_entry)],
      l_entries = [apk_entry1, apk_entry2]\<rparr>"
    by (simp add: list_one_def Let_def f apk_dir_fields(6) apk_central_fields central_fixed_def local_fixed_def e apk_names special_mode_def
        pack_zip_limits_def lim)
qed

lemma apk_listed: "read_zip_listing (Some (file_of apk_bytes)) pack_zip_limits = Inr [apk_entry1, apk_entry2]"
proof -
  have f: "le32 apk_bytes (304 + i) = le32 apk_end i" "le16 apk_bytes (304 + i) = le16 apk_end i" for i
    by (simp_all add: apk_bytes_def le_append)
  have e: "find_end apk_bytes = Some 304"
    using find_end_at_tail [of apk_bytes] f [of 0] f [of 20] by (simp add: apk_end_fields)
  have d: "take 167 (drop 137 apk_bytes) = apk_dir" by (simp add: apk_bytes_def)
  have m: "max_entries pack_zip_limits = 16384" by (simp add: pack_zip_limits_def)
  have "le32 apk_bytes 284 = le32 apk_manifest 29" by (simp add: apk_bytes_def apk_dir_def le_append le_prefix)
  also have "\<dots> \<noteq> zip64_locator_sig"
    by (simp add: le32_def le16_def apk_manifest_def pack_files_prefix_def bytes_of_def zip64_locator_sig_def)
  finally have z: "le32 apk_bytes 284 \<noteq> zip64_locator_sig" .
  have l: "list_entries pack_zip_limits 137 apk_dir 2 \<lparr>l_pos = 0, l_sum = 0, l_names = [], l_entries = []\<rparr> =
    Inr \<lparr>l_pos = 167, l_sum = 2, l_names = [fold_case (strip_slash apk_manifest), fold_case (strip_slash pack_json_entry)],
      l_entries = [apk_entry1, apk_entry2]\<rparr>" by (simp add: numeral_2_eq_2 apk_list_one [simplified])
  show ?thesis
    using f [of 4] f [of 6] f [of 8] f [of 10] f [of 12] f [of 16]
    by (simp add: read_zip_listing_def Let_def e d z m apk_end_fields l apk_conflicts end_size_def)
qed

subsection \<open>A description\<close>

text \<open>A library of one document.\<close>

datatype pack_doc = DStr bytes | DNum u64 | DArr "pack_doc list" | DObj "(bytes \<times> pack_doc) list"

fun doc_lookup :: "pack_doc \<Rightarrow> bytes \<Rightarrow> pack_doc option" where
  "doc_lookup (DObj kvs) k = map_of kvs k"
| "doc_lookup _ k = None"

definition doc_json :: "pack_doc \<Rightarrow> pack_doc pack_json" where
  "doc_json doc = \<lparr>js_parse = (\<lambda>txt. Some doc), js_object = (\<lambda>j. case j of DObj kvs \<Rightarrow> True | _ \<Rightarrow> False), js_lookup = doc_lookup,
     js_string = (\<lambda>j. case j of DStr s \<Rightarrow> Some s | _ \<Rightarrow> None), js_unsigned = (\<lambda>j. case j of DNum n \<Rightarrow> Some n | _ \<Rightarrow> None),
     js_u64 = (\<lambda>j. case j of DNum n \<Rightarrow> Some n | _ \<Rightarrow> None), js_empty = DObj [],
     js_integer = (\<lambda>j. case j of DNum n \<Rightarrow> Some (uint n) | _ \<Rightarrow> None), js_array = (\<lambda>j. case j of DArr js \<Rightarrow> Some js | _ \<Rightarrow> None)\<rparr>"

definition doc_sha :: bytes where "doc_sha = replicate 64 0x61"

definition sample_file_doc :: pack_doc where
  "sample_file_doc = DObj [(bytes_of ''path'', DStr (bytes_of ''manifests/48037dc70b0ecab2'')), (bytes_of ''sha256'', DStr doc_sha),
     (bytes_of ''size'', DNum 1)]"

definition sample_doc :: pack_doc where
  "sample_doc = DObj [(bytes_of ''schema'', DNum 1), (bytes_of ''id'', DStr (bytes_of ''combat'')), (bytes_of ''version'', DStr (bytes_of ''1.1.9'')),
     (bytes_of ''stock_data_version'', DStr (bytes_of ''5932408047'')), (bytes_of ''requires_stock_manifest_sha256'', DArr [DStr doc_sha]),
     (bytes_of ''files'', DArr [sample_file_doc]),
     (bytes_of ''source_zip_sha256'', DStr doc_sha), (bytes_of ''source_zip_size'', DNum 9)]"

definition sample_file :: pack_file where
  "sample_file = \<lparr>pf_path = bytes_of ''manifests/48037dc70b0ecab2'', pf_sha256 = doc_sha, pf_size = 1\<rparr>"

definition sample_pack :: pack_info where
  "sample_pack = \<lparr>pk_id = bytes_of ''combat'', pk_version = bytes_of ''1.1.9'', pk_stock_version = bytes_of ''5932408047'',
     pk_requires = [doc_sha], pk_files = [sample_file], pk_source_sha256 = doc_sha, pk_source_size = 9,
     pk_manifest_path = bytes_of ''manifests/48037dc70b0ecab2'', pk_manifest_sha256 = doc_sha\<rparr>"

lemma sample_rules:
  "is_pack_id (bytes_of ''combat'')" "is_version (bytes_of ''1.1.9'')" "is_hex64 doc_sha"
  "is_pack_path (bytes_of ''manifests/48037dc70b0ecab2'')"
  by code_simp+

lemma sample_lookups:
  "doc_lookup sample_doc (bytes_of ''schema'') = Some (DNum 1)"
  "doc_lookup sample_doc (bytes_of ''id'') = Some (DStr (bytes_of ''combat''))"
  "doc_lookup sample_doc (bytes_of ''version'') = Some (DStr (bytes_of ''1.1.9''))"
  "doc_lookup sample_doc (bytes_of ''stock_data_version'') = Some (DStr (bytes_of ''5932408047''))"
  "doc_lookup sample_doc (bytes_of ''requires_stock_manifest_sha256'') = Some (DArr [DStr doc_sha])"
  "doc_lookup sample_doc (bytes_of ''files'') = Some (DArr [sample_file_doc])"
  "doc_lookup sample_doc (bytes_of ''source_zip_sha256'') = Some (DStr doc_sha)"
  "doc_lookup sample_doc (bytes_of ''source_zip_size'') = Some (DNum 9)"
  "doc_lookup sample_file_doc (bytes_of ''path'') = Some (DStr (bytes_of ''manifests/48037dc70b0ecab2''))"
  "doc_lookup sample_file_doc (bytes_of ''sha256'') = Some (DStr doc_sha)"
  "doc_lookup sample_file_doc (bytes_of ''size'') = Some (DNum 1)"
  by (simp_all add: sample_doc_def sample_file_doc_def bytes_of_def)

lemma sample_objects [simp]:
  "js_object (doc_json d) sample_doc" "js_object (doc_json d) sample_file_doc" "js_lookup (doc_json d) = doc_lookup"
  "js_parse (doc_json d) t = Some d" "js_string (doc_json d) (DStr s) = Some s" "js_unsigned (doc_json d) (DNum n) = Some n"
  "js_integer (doc_json d) (DNum n) = Some (uint n)" "js_array (doc_json d) (DArr js) = Some js"
  by (simp_all add: doc_json_def sample_doc_def sample_file_doc_def)

lemma sample_manifest_name: "starts_with (bytes_of ''manifests/48037dc70b0ecab2'') manifests_dir" "bytes_of ''manifests/48037dc70b0ecab2'' \<noteq> []"
  by (simp_all add: starts_with_def manifests_dir_def bytes_of_def)

lemma sample_pack_parsed: "parse_pack_json (doc_json sample_doc) [0x7b] = Inr sample_pack"
  by (simp add: parse_pack_json_def parse_document_def parse_pack_head_def parse_hashes_def parse_requires_one_def parse_entries_def
      parse_pack_file_def add_pack_file_def parse_source_def string_field_def unsigned_field_def array_field_def sample_lookups sample_rules
      sample_manifest_name pins seen_of_def max_pack_file_bytes_def sample_pack_def sample_file_def)

lemma pack_description_sound_witness: "pack_ok sample_pack"
  by (rule pack_description_sound [OF sample_pack_parsed])

subsection \<open>A device\<close>

definition pack_disk :: "(disk, unit, pack_doc) pack_env" where
  "pack_disk = \<lparr>px_lstat = px_lstat (disk True), px_rename = px_rename (disk True), px_unlink = px_unlink (disk True),
     px_nftw = px_nftw (disk True), px_create = px_create (disk True), px_fsync = px_fsync (disk True),
     px_sync_dir = px_sync_dir (disk True), px_list = px_list (disk True), px_statvfs = px_statvfs (disk True),
     pk_os = fx_zip_os (fetch_disk []), pk_zlib = sample_zlib, pk_json = doc_json sample_doc,
     pk_apk = (\<lambda>p d. Some (file_of apk_bytes)),
     pk_open = (\<lambda>p d. case disk_view d p of Some (File bs) \<Rightarrow> Some (True, [bs], True) | Some Dir \<Rightarrow> Some (False, [], False) | _ \<Rightarrow> None)\<rparr>"

lemma pack_disk_laws: "pack_laws pack_disk disk_view"
proof -
  have same: "px_lstat pack_disk = px_lstat (disk True)" "px_rename pack_disk = px_rename (disk True)"
    "px_unlink pack_disk = px_unlink (disk True)" "px_nftw pack_disk = px_nftw (disk True)"
    "px_create pack_disk = px_create (disk True)" "px_fsync pack_disk = px_fsync (disk True)"
    "px_sync_dir pack_disk = px_sync_dir (disk True)" "px_list pack_disk = px_list (disk True)"
    by (simp_all add: pack_disk_def)
  have os: "os_mkdir (pk_os pack_disk) = disk_mkdir" "os_fsync (pk_os pack_disk) = (\<lambda>p d. (True, d))"
    "os_create (pk_os pack_disk) = (\<lambda>p d. let (r, d1) = disk_create True p d in (r = CrMade, d1))"
    "os_append (pk_os pack_disk) = (\<lambda>p d b. disk_set p (disk_bytes p d @ b) d)"
    by (simp_all add: pack_disk_def fetch_disk_def)
  show ?thesis
    unfolding pack_laws_def
  proof (intro conjI allI impI)
    show "posix_sees pack_disk disk_view"
      using disk_sees [of True] unfolding posix_sees_def posix_laws_def same by assumption
    fix w p
    show "mkdir_law p r (disk_view w) (disk_view w1)" if "os_mkdir (pk_os pack_disk) p w = (r, w1)" for r w1
      using that disk_mkdir_view by (simp add: os)
    show "make_law p ok (disk_view w) (disk_view w1)" if "os_create (pk_os pack_disk) p w = (ok, w1)" for ok w1
    proof -
      obtain r d1 where c: "disk_create True p w = (r, d1)" by fastforce
      then have "ok \<longleftrightarrow> r = CrMade" "w1 = d1" using that by (auto simp: os)
      then show ?thesis using disk_create_view [OF c] by (cases r) (auto simp: make_law_def create_law_def)
    qed
    show "append_law p b ok (disk_view w) (disk_view w1)" if "os_append (pk_os pack_disk) p w b = (ok, w1)" for b ok w1
      using disk_set_view [of p "disk_bytes p w @ b" w ok w1] that by (auto simp: os append_law_def only_at_def disk_bytes_def)
    show "disk_view w1 = disk_view w" if "os_fsync (pk_os pack_disk) p w = (ok, w1)" for ok w1 using that by (simp add: os)
    show "open_read_law (pk_open pack_disk p w) (disk_view w p)"
      by (auto simp: open_read_law_def pack_disk_def split: option.splits node.splits)
  qed
qed

lemma apk_header_fields:
  "take 30 apk_bytes = apk_header1" "take 26 (drop 30 apk_bytes) = pack_json_entry" "take 1 (drop 56 apk_bytes) = [0x7b]"
  "le32 apk_header1 0 = local_sig" "le16 apk_header1 6 = 0" "le16 apk_header1 8 = 0" "le32 apk_header1 14 = 0x7b"
  "le32 apk_header1 18 = 1" "le32 apk_header1 22 = 1" "le16 apk_header1 26 = 26" "le16 apk_header1 28 = 0"
  by (simp_all add: apk_bytes_def apk_local_def) (simp_all add: apk_header1_def le32_def le16_def local_sig_def)

lemma apk_text_read:
  "read_zip_entry sample_zlib (\<lambda>t b. (True, t @ b)) (Some (file_of apk_bytes)) apk_entry1 [] = Some (None, [0x7b])"
proof -
  have l: "locate_data (file_of apk_bytes) apk_entry1 = Inr 56"
    by (simp add: locate_data_def local_header_matches_def apk_header_fields apk_entry1_def local_fixed_def Let_def)
  have x: "extract_data sample_zlib (\<lambda>t b. (True, t @ b)) (file_of apk_bytes) apk_entry1 56 [] = Some (None, [0x7b])"
    by (simp add: extract_data_def extract_blocks.simps extract_block_def block_want_def in_size_def apk_header_fields [simplified]
        apk_entry1_def take_bytes_def sample_zlib_def Let_def)
  show ?thesis using apk_names(3) by (simp add: read_zip_entry_def l x)
qed

lemma sample_pack_read: "read_pack pack_disk (bytes_of ''apk'') d = Some (Inr (sample_pack, [(sample_file, apk_entry2)]))"
proof -
  have px: "pk_apk pack_disk p d = Some (file_of apk_bytes)" "pk_zlib pack_disk = sample_zlib" "pk_json pack_disk = doc_json sample_doc" for p d
    by (simp_all add: pack_disk_def)
  have "apk_manifest \<noteq> pack_json_entry" by (auto dest: arg_cong [of _ _ length])
  then have f: "find_zip_entry [apk_entry1, apk_entry2] pack_json_entry = Some apk_entry1"
    "find_zip_entry [apk_entry1, apk_entry2] apk_manifest = Some apk_entry2"
    by (simp_all add: find_zip_entry_def apk_entry1_def apk_entry2_def)
  have m: "pack_files_prefix @ pf_path sample_file = apk_manifest" by (simp add: apk_manifest_def sample_file_def)
  have t: "read_pack_text pack_disk (bytes_of ''apk'') apk_entry1 d = Some (Inr [0x7b])"
    by (simp add: read_pack_text_def px apk_text_read) (simp add: apk_entry1_def)
  have s: "z_size apk_entry2 = 1" "pf_size sample_file = 1" "pk_files sample_pack = [sample_file]"
    by (simp_all add: apk_entry2_def sample_file_def sample_pack_def)
  have "pack_of_text pack_disk [apk_entry1, apk_entry2] [0x7b] = Inr (sample_pack, [(sample_file, apk_entry2)])"
    by (simp add: pack_of_text_def px sample_pack_parsed m f s apk_names)
  then show ?thesis by (simp add: read_pack_def px apk_listed f t) (simp add: bytes_of_def)
qed

text \<open>A root with a stock manifest and a file of its own.\<close>

definition pack_world :: disk where
  "pack_world = \<lparr>d_life = 9, d_known = [bytes_of ''r/_data/5932408047/rad15/android/manifests/48037dc70b0ecab2'', bytes_of ''r/own''],
     d_tree = (\<lambda>q. Some (File [0x6d]))\<rparr>"

lemma pack_disk_progress: "inflate_progress (pk_zlib pack_disk)"
  using sample_laws(2) by (simp add: pack_disk_def)

lemma pack_manifest_last_witness:
  "\<exists>out st w1. run_pack_step pack_disk (bytes_of ''apk'') (bytes_of ''r'') pack_world = Some ((out, st), w1) \<and>
    (let android = file_in (bytes_of ''r'') (android_rel sample_pack); m = file_in android (pk_manifest_path sample_pack) in
      (out \<in> {PackCurrent, PackPlaced} \<or> disk_view w1 m \<noteq> disk_view pack_world m \<longrightarrow>
         (\<forall>f\<in>set (pk_files sample_pack). has_digest f (disk_view w1 (file_in android (pf_path f)))))
      \<and> (disk_view w1 m \<noteq> disk_view pack_world m \<longrightarrow> backup_kept m (disk_view pack_world) (disk_view w1)))"
proof -
  obtain out st w1 where r: "run_pack_step pack_disk (bytes_of ''apk'') (bytes_of ''r'') pack_world = Some ((out, st), w1)"
    by (rule run_pack_returns [OF pack_disk_progress])
  show ?thesis using r pack_manifest_last [OF pack_disk_laws sample_pack_read r] by blast
qed

lemma own_file_apart:
  "\<not> touched (bytes_of ''r/_data/5932408047/rad15/android/manifests/48037dc70b0ecab2'') (bytes_of ''r/own'')"
  "\<not> ours (bytes_of ''r'') t (bytes_of ''r/own'')"
proof -
  have "take (length (bytes_of ''r/_data'' @ x)) (bytes_of ''r/own'') \<noteq> bytes_of ''r/_data'' @ x" for x
    by (simp add: bytes_of_def)
  then have b: "\<not> beneath (bytes_of ''r/_data'' @ x) (bytes_of ''r/own'')" for x by (simp add: beneath_def)
  have "\<not> tmp_place (bytes_of ''r/_data'' @ x) (bytes_of ''r/own'')" for x
    using b [of x] b [of "x @ owner_suffix"] by (simp add: tmp_place_def owner_marker_def)
  moreover have "bytes_of ''r/_data/5932408047/rad15/android/manifests/48037dc70b0ecab2'' @ s
      = bytes_of ''r/_data'' @ bytes_of ''/5932408047/rad15/android/manifests/48037dc70b0ecab2'' @ s" for s by (simp add: bytes_of_def)
  ultimately show "\<not> touched (bytes_of ''r/_data/5932408047/rad15/android/manifests/48037dc70b0ecab2'') (bytes_of ''r/own'')"
    unfolding touched_def by metis
  show "\<not> ours (bytes_of ''r'') t (bytes_of ''r/own'')"
  proof
    have own: "bytes_of ''r/own'' = file_in (bytes_of ''r'') (bytes_of ''own'')" by (simp add: file_in_def bytes_of_def slash_def)
    have st: "\<not> starts_with (bytes_of ''own'') staging_prefix" by (simp add: starts_with_def staging_prefix_def bytes_of_def)
    have sl: "slash \<notin> set (bytes_of ''own'')" by (simp add: bytes_of_def slash_def)
    have far: "\<not> beneath (file_in (pack_dir (bytes_of ''r'') v sub) n) (bytes_of ''r/own'')" for v sub n
      using b [of "slash # v @ slash # rad15_name @ slash # android_name @ slash # sub @ slash # n"]
      by (simp add: file_in_def pack_dir_def data_name_def bytes_of_def slash_def)
    assume "ours (bytes_of ''r'') t (bytes_of ''r/own'')"
    then show False
    proof cases
      case (staging n)
      then have "beneath (file_in (bytes_of ''r'') n) (file_in (bytes_of ''r'') (bytes_of ''own''))" by (simp add: own)
      then have "beneath n (bytes_of ''own'')" by (simp add: file_in_def)
      then obtain x where "bytes_of ''own'' = n @ x" "x = [] \<or> hd x = slash" using beneath_rest by blast
      then have "n = bytes_of ''own''" using sl by (cases x) auto
      then show False using staging st by simp
    next
      case (pack_temporary n version sub)
      then show False using far by blast
    next
      case (marker n)
      then show False using st by (simp add: own)
    next
      case (pack_marker n version sub)
      then show False using far [of version sub n] by simp
    qed
  qed
qed

lemma pack_touches_its_files_witness:
  "\<exists>w1. run_pack_step pack_disk (bytes_of ''apk'') (bytes_of ''r'') pack_world \<noteq> None \<and>
    (disk_view w1 (bytes_of ''r/own'') = disk_view pack_world (bytes_of ''r/own'')
      \<or> disk_view pack_world (bytes_of ''r/own'') = None \<and> disk_view w1 (bytes_of ''r/own'') = Some Dir)"
proof -
  obtain out st w1 where r: "run_pack_step pack_disk (bytes_of ''apk'') (bytes_of ''r'') pack_world = Some ((out, st), w1)"
    by (rule run_pack_returns [OF pack_disk_progress])
  have d: "file_in (file_in (bytes_of ''r'') (android_rel sample_pack)) (pf_path sample_file)
      = bytes_of ''r/_data/5932408047/rad15/android/manifests/48037dc70b0ecab2''"
    by (simp add: file_in_def android_rel_def sample_pack_def sample_file_def data_name_def bytes_of_def slash_def)
  have "\<forall>f\<in>set (pk_files sample_pack). \<not> touched (file_in (file_in (bytes_of ''r'') (android_rel sample_pack)) (pf_path f)) (bytes_of ''r/own'')"
    using own_file_apart(1) d by (simp add: sample_pack_def)
  from pack_touches_its_files [OF pack_disk_laws sample_pack_read r this own_file_apart(2)] r show ?thesis by blast
qed

end
