(* ===== verification/Data_Step.thy ===== *)
theory Data_Step
  imports Pack_Json Fetch_Ends
begin

section \<open>The first-run data step\<close>

text \<open>
  \<^verbatim>\<open>src/quest/sentinel/data_root.h\<close> (where the game reads its data), \<^verbatim>\<open>plan.h\<close> (use, fetch or replace),
  \<^verbatim>\<open>package_pins.h\<close> and \<^verbatim>\<open>data_step.cpp\<close>. The calls on the file system are the record \<open>sx\<close>, which extends that of
  the fetch. Events and progress only tell and are left out; the message shown to the player is a value of the result.
\<close>

subsection \<open>Where the data is\<close>

definition media_root :: bytes where "media_root = bytes_of ''/sdcard/Android/media/com.readyatdawn.r15/files''"
definition legacy_root :: bytes where "legacy_root = bytes_of ''/storage/emulated/0/readyatdawn''"

record resolution =
  re_root :: bytes
  re_source :: string
  re_found :: bool

text \<open>A path that does not fit the buffer of 512 bytes with its terminator does not exist.\<close>

definition fits :: "bytes \<Rightarrow> bool" where
  "fits path \<longleftrightarrow> 0 < length path \<and> length path < 512"

definition holds_data :: "bytes \<Rightarrow> (bytes \<Rightarrow> bool) \<Rightarrow> bool" where
  "holds_data root exists = (let path = file_in root data_name in fits path \<and> exists path)"

definition candidates :: "(bytes \<times> string) list" where
  "candidates = [(media_root, ''android_media''), (legacy_root, ''legacy'')]"

definition resolve :: "(bytes \<Rightarrow> bool) \<Rightarrow> resolution" where
  "resolve exists = (case find (\<lambda>(root, source). holds_data root exists) candidates of
      Some (root, source) \<Rightarrow> \<lparr>re_root = root, re_source = source, re_found = True\<rparr>
    | None \<Rightarrow> if exists media_root then \<lparr>re_root = media_root, re_source = ''android_media_unmarked'', re_found = True\<rparr>
        else \<lparr>re_root = legacy_root, re_source = ''none'', re_found = False\<rparr>)"

definition resolve_media_only :: "(bytes \<Rightarrow> bool) \<Rightarrow> resolution" where
  "resolve_media_only exists =
     (if holds_data media_root exists then \<lparr>re_root = media_root, re_source = ''android_media'', re_found = True\<rparr>
      else if exists media_root then \<lparr>re_root = media_root, re_source = ''android_media_unmarked'', re_found = True\<rparr>
      else \<lparr>re_root = media_root, re_source = ''none'', re_found = False\<rparr>)"

datatype data_action = DataUse | DataFetch | DataReplace

record decision =
  de_action :: data_action
  de_root :: bytes

definition decide :: "resolution \<Rightarrow> (bytes \<Rightarrow> bool) \<Rightarrow> decision" where
  "decide res exists =
     (if \<not> re_found res then \<lparr>de_action = DataFetch, de_root = media_root\<rparr>
      else if re_source res = ''android_media_unmarked'' then \<lparr>de_action = DataFetch, de_root = re_root res\<rparr>
      else let path = file_in (re_root res) manifest_pin; present = (fits path \<and> exists path)
        in \<lparr>de_action = if present then DataUse else DataReplace, de_root = re_root res\<rparr>)"

subsection \<open>The files a root holds\<close>

text \<open>
  \<open>sx_write\<close> is \<^verbatim>\<open>fopen\<close> for writing, \<^verbatim>\<open>fwrite\<close> and \<^verbatim>\<open>fclose\<close> (\<open>None\<close>: not opened), \<open>sx_remove\<close> is
  \<^verbatim>\<open>std::remove\<close>.
\<close>

record ('w, 'z) step_env = "('w, 'z) fetch_env" +
  sx_exists :: "bytes \<Rightarrow> 'w \<Rightarrow> bool"
  sx_write :: "bytes \<Rightarrow> bytes \<Rightarrow> 'w \<Rightarrow> bool option \<times> 'w"
  sx_remove :: "bytes \<Rightarrow> 'w \<Rightarrow> 'w"

abbreviation fetch_part :: "('w, 'z) step_env \<Rightarrow> ('w, 'z) fetch_env" where
  "fetch_part sx \<equiv> fetch_env.truncate sx"

definition list_dir :: "('w, 'z) step_env \<Rightarrow> bytes \<Rightarrow> 'w \<Rightarrow> bytes list" where
  "list_dir sx dir w = filter (\<lambda>n. n \<noteq> bytes_of ''.'' \<and> n \<noteq> bytes_of ''..'') (px_list sx dir w)"

definition max_manifest_bytes :: nat where "max_manifest_bytes = 16 * 1024 * 1024"

definition read_whole_file :: "('w, 'z) step_env \<Rightarrow> bytes \<Rightarrow> 'w \<Rightarrow> bytes option" where
  "read_whole_file sx path w = (case fx_read sx path w of
      None \<Rightarrow> None
    | Some reads \<Rightarrow> if length (concat reads) > max_manifest_bytes then None else Some (concat reads))"

definition file_length :: "('w, 'z) step_env \<Rightarrow> bytes \<Rightarrow> 'w \<Rightarrow> nat option" where
  "file_length sx path w = (case fx_stat sx path w of StFile n \<Rightarrow> Some n | _ \<Rightarrow> None)"

definition write_file :: "('w, 'z) step_env \<Rightarrow> bytes \<Rightarrow> bytes \<Rightarrow> 'w \<Rightarrow> bool \<times> 'w" where
  "write_file sx path bs w =
     (let tmp = path @ bytes_of ''.tmp''; (r, w1) = sx_write sx tmp bs w
      in case r of
          None \<Rightarrow> (False, w1)
        | Some wrote \<Rightarrow>
            if \<not> wrote then (False, sx_remove sx tmp w1)
            else let (ok, w2) = px_rename sx tmp path w1 in if ok then (True, w2) else (False, sx_remove sx tmp w2))"

definition is_log_name :: "bytes \<Rightarrow> bool" where
  "is_log_name name \<longleftrightarrow> name \<noteq> [] \<and> length name \<le> 32 \<and> list_all is_plain_char name"

record data_version =
  dv_folder :: bytes
  dv_manifest :: bytes

definition no_version :: data_version where
  "no_version = \<lparr>dv_folder = bytes_of ''none'', dv_manifest = bytes_of ''none''\<rparr>"

definition version_dir :: "bytes \<Rightarrow> bytes \<Rightarrow> bytes" where
  "version_dir root name = file_in (file_in root data_name) name @ bytes_of ''/rad15/android/''"

fun first_version :: "('w, 'z) step_env \<Rightarrow> bytes \<Rightarrow> bytes list \<Rightarrow> 'w \<Rightarrow> data_version option" where
  "first_version sx root [] w = None"
| "first_version sx root (name # names) w =
     (let path = version_dir root name @ file_in manifests_dir pinned_manifest_id
      in if \<not> sx_exists sx path w then first_version sx root names w
         else Some \<lparr>dv_folder = name, dv_manifest = (case read_whole_file sx path w of
             None \<Rightarrow> bytes_of ''unreadable'' | Some bs \<Rightarrow> sha256_hex_of bs)\<rparr>)"

fun comma_list :: "bytes list \<Rightarrow> bytes" where
  "comma_list [] = []"
| "comma_list [n] = n"
| "comma_list (n # ns) = n @ 0x2C # comma_list ns"

definition find_data_version :: "('w, 'z) step_env \<Rightarrow> bytes \<Rightarrow> 'w \<Rightarrow> data_version" where
  "find_data_version sx root w =
     (let names = filter is_log_name (sort (list_dir sx (file_in root data_name) w))
      in case first_version sx root names w of
          Some v \<Rightarrow> v
        | None \<Rightarrow> if names = [] then no_version
            else \<lparr>dv_folder = comma_list (take 4 names), dv_manifest = bytes_of ''none''\<rparr>)"

subsection \<open>The packages of a pinned set\<close>

record pinned_package =
  pp_index :: nat
  pp_bytes :: nat
  pp_sha256 :: bytes
  pp_hashed :: bool

record pinned_set =
  ps_manifest :: bytes
  ps_packages :: "pinned_package list"

definition combat_packages :: "pinned_package list" where
  "combat_packages =
     [\<lparr>pp_index = 0, pp_bytes = 929620177,
        pp_sha256 = bytes_of ''14d26efc718a8f8135039e47bd1321cbb556fc4181bf95ffcb5ef59c406a5a3b'', pp_hashed = False\<rparr>,
      \<lparr>pp_index = 1, pp_bytes = 689617013,
        pp_sha256 = bytes_of ''decc77fdfc8ecd3b75ad3120f33dd1980a6a1f8c4c50f566ceb6483d9092db02'', pp_hashed = True\<rparr>]"

definition pinned_sets :: "pinned_set list" where
  "pinned_sets = [\<lparr>ps_manifest = bytes_of ''e1c4903622e4acf5b747f591868ef67d623e619ee63fd4af0268a593874a63e1'',
     ps_packages = combat_packages\<rparr>]"

definition find_pinned_set :: "bytes \<Rightarrow> pinned_set list \<Rightarrow> pinned_set option" where
  "find_pinned_set sha sets = find (\<lambda>s. sha = ps_manifest s) sets"

datatype sha_state = NotDue | Skipped | Checked

datatype package_check = Unpinned | Missing bytes | Short bytes | Oversize bytes | Unreadable bytes | ShaMismatch bytes
  | PackagesVerified sha_state

definition package_path :: "bytes \<Rightarrow> bytes \<Rightarrow> pinned_package \<Rightarrow> bytes" where
  "package_path root folder pin = version_dir root folder @ packages_dir @ slash # pinned_manifest_id @ 0x5F # decimal (pp_index pin)"

fun check_sizes :: "('w, 'z) step_env \<Rightarrow> bytes \<Rightarrow> bytes \<Rightarrow> pinned_package list \<Rightarrow> 'w \<Rightarrow> package_check option" where
  "check_sizes sx root folder [] w = None"
| "check_sizes sx root folder (pin # pins) w = (let path = package_path root folder pin
     in case file_length sx path w of
          None \<Rightarrow> Some (Missing path)
        | Some n \<Rightarrow> if n < pp_bytes pin then Some (Short path) else if n > pp_bytes pin then Some (Oversize path)
            else check_sizes sx root folder pins w)"

fun check_hashes :: "('w, 'z) step_env \<Rightarrow> bytes \<Rightarrow> bytes \<Rightarrow> pinned_package list \<Rightarrow> 'w \<Rightarrow> package_check option" where
  "check_hashes sx root folder [] w = None"
| "check_hashes sx root folder (pin # pins) w = (let path = package_path root folder pin
     in if \<not> pp_hashed pin then check_hashes sx root folder pins w
        else case hash_file (fetch_part sx) path w of
          None \<Rightarrow> Some (Unreadable path)
        | Some hex \<Rightarrow> if hex \<noteq> pp_sha256 pin then Some (ShaMismatch path) else check_hashes sx root folder pins w)"

definition packages_marker :: "bytes \<Rightarrow> bytes" where
  "packages_marker root = file_in root (bytes_of ''nevr-data-packages.verified'')"

definition check_packages ::
    "('w, 'z) step_env \<Rightarrow> pinned_set list \<Rightarrow> bytes \<Rightarrow> bytes \<Rightarrow> data_version \<Rightarrow> 'w \<Rightarrow> package_check \<times> 'w" where
  "check_packages sx sets build root held w = (case find_pinned_set (dv_manifest held) sets of
      None \<Rightarrow> (Unpinned, w)
    | Some s \<Rightarrow> (case check_sizes sx root (dv_folder held) (ps_packages s) w of
        Some bad \<Rightarrow> (bad, w)
      | None \<Rightarrow>
          if build = [] then (PackagesVerified NotDue, w)
          else let marker = dv_manifest held @ 0x20 # build @ [0x0A]
          in if read_whole_file sx (packages_marker root) w = Some marker then (PackagesVerified Skipped, w)
          else case check_hashes sx root (dv_folder held) (ps_packages s) w of
            Some bad \<Rightarrow> (bad, w)
          | None \<Rightarrow> (PackagesVerified Checked, snd (write_file sx (packages_marker root) marker w))))"

subsection \<open>The step\<close>

record step_config =
  sc_fetch :: fetch_config
  sc_allow_fetch :: bool
  sc_legacy_readable :: bool
  sc_engine_root :: bytes
  sc_fetch_root :: bytes
  sc_recovery_roots :: "bytes list"
  sc_build :: bytes
  sc_bad_root_message :: bytes
  sc_sets :: "pinned_set list"

datatype step_outcome = StepUsed | StepFetched | StepFailed | StepMissing

datatype step_message = NoMessage | GameDataMissing | FloorMessage fetch_result bytes bool | BadRootMessage bytes

record step_result =
  sr_outcome :: step_outcome
  sr_status :: fetch_status
  sr_action :: data_action
  sr_root :: bytes
  sr_message :: step_message

definition recovery_roots :: "step_config \<Rightarrow> bytes list" where
  "recovery_roots c =
     (let roots = (if sc_recovery_roots c = [] then map fst candidates else sc_recovery_roots c)
      in if sc_legacy_readable c then roots else filter (\<lambda>r. r \<noteq> legacy_root) roots)"

definition put_right :: "('w, 'z) step_env \<Rightarrow> bytes \<Rightarrow> 'w \<Rightarrow> 'w" where
  "put_right sx root w = snd (snd (clean_leftovers sx root (snd (recover_replaced sx root w))))"

definition put_leftovers_right :: "('w, 'z) step_env \<Rightarrow> step_config \<Rightarrow> 'w \<Rightarrow> 'w" where
  "put_leftovers_right sx c w = fold (put_right sx) (recovery_roots c) w"

definition remove_used_part :: "('w, 'z) step_env \<Rightarrow> bytes \<Rightarrow> 'w \<Rightarrow> 'w" where
  "remove_used_part sx root w =
     (let part = file_in root part_name
      in if \<not> is_owned sx part w then w
         else let (gone, w1) = remove_tree sx part w in if gone then snd (remove_tree sx (owner_marker part) w1) else w1)"

definition step_decision :: "('w, 'z) step_env \<Rightarrow> step_config \<Rightarrow> 'w \<Rightarrow> decision" where
  "step_decision sx c w =
     (let exists = (\<lambda>p. sx_exists sx p w); engine = sc_engine_root c
      in if engine \<noteq> [] then
           (let res = (if holds_data engine exists then \<lparr>re_root = engine, re_source = ''engine'', re_found = True\<rparr>
               else \<lparr>re_root = engine, re_source = ''none'', re_found = False\<rparr>)
            in (decide res exists)\<lparr>de_root := engine\<rparr>)
         else decide (if sc_legacy_readable c then resolve exists else resolve_media_only exists) exists)"

definition fetch_root :: "step_config \<Rightarrow> bytes \<Rightarrow> bytes" where
  "fetch_root c root = (if sc_fetch_root c = [] then root else sc_fetch_root c)"

definition step_fetch :: "('w, 'z) step_env \<Rightarrow> step_config \<Rightarrow> decision \<Rightarrow> 'w \<Rightarrow> (step_result \<times> 'w) option" where
  "step_fetch sx c d w =
     (let f = (sc_fetch c)\<lparr>fc_root := fetch_root c (de_root d), fc_replacing := (de_action d = DataReplace)\<rparr>
      in case run_fetch (fetch_part sx) f w of
          None \<Rightarrow> None
        | Some (r, w1) \<Rightarrow> Some (
            if fr_status r = FetchOk then \<lparr>sr_outcome = StepFetched, sr_status = FetchOk, sr_action = de_action d, sr_root = de_root d, sr_message = NoMessage\<rparr>
            else \<lparr>sr_outcome = StepFailed, sr_status = fr_status r, sr_action = de_action d, sr_root = de_root d,
              sr_message = (if fr_status r = FetchBadRoot \<and> sc_bad_root_message c \<noteq> [] then BadRootMessage (sc_bad_root_message c)
                else FloorMessage r (fc_root f) (fc_replacing f))\<rparr>, w1))"

definition run_data_step :: "('w, 'z) step_env \<Rightarrow> step_config \<Rightarrow> 'w \<Rightarrow> (step_result \<times> 'w) option" where
  "run_data_step sx c w =
     (let w1 = (if sc_allow_fetch c then put_leftovers_right sx c w else w); d = step_decision sx c w1
      in case de_action d of
          DataUse \<Rightarrow>
            (let (_, w2) = check_packages sx (sc_sets c) (sc_build c) (de_root d) (find_data_version sx (de_root d) w1) w1;
                 w3 = (if sc_allow_fetch c then remove_used_part sx (fetch_root c (de_root d)) w2 else w2)
             in Some (\<lparr>sr_outcome = StepUsed, sr_status = FetchOk, sr_action = DataUse, sr_root = de_root d, sr_message = NoMessage\<rparr>, w3))
        | _ \<Rightarrow> if \<not> sc_allow_fetch c
            then Some (\<lparr>sr_outcome = StepMissing, sr_status = FetchOk, sr_action = de_action d, sr_root = de_root d, sr_message = GameDataMissing\<rparr>, w1)
            else step_fetch sx c d w1)"

subsection \<open>Where data is used and where it is fetched\<close>

lemma resolve_cases:
  "resolve exists = \<lparr>re_root = media_root, re_source = ''android_media'', re_found = True\<rparr> \<and> holds_data media_root exists
   \<or> resolve exists = \<lparr>re_root = legacy_root, re_source = ''legacy'', re_found = True\<rparr> \<and> holds_data legacy_root exists \<and> \<not> holds_data media_root exists
   \<or> resolve exists = \<lparr>re_root = media_root, re_source = ''android_media_unmarked'', re_found = True\<rparr>
   \<or> resolve exists = \<lparr>re_root = legacy_root, re_source = ''none'', re_found = False\<rparr>"
  by (simp add: resolve_def candidates_def)

text \<open>What a decision rests on: data is used where the manifest of the pins is there; data that is replaced is there.\<close>

definition decision_sound :: "(bytes \<Rightarrow> bool) \<Rightarrow> decision \<Rightarrow> bool" where
  "decision_sound exists d \<longleftrightarrow>
     (de_action d = DataUse \<longrightarrow> exists (file_in (de_root d) manifest_pin))
   \<and> (de_action d = DataReplace \<longrightarrow> holds_data (de_root d) exists
        \<and> \<not> (fits (file_in (de_root d) manifest_pin) \<and> exists (file_in (de_root d) manifest_pin)))
   \<and> (de_action d = DataFetch \<longrightarrow> \<not> holds_data (de_root d) exists)"

lemma resolve_sound: "decision_sound exists (decide (resolve exists) exists)"
  by (auto simp: decision_sound_def decide_def resolve_def candidates_def Let_def)

lemma resolve_media_sound: "decision_sound exists (decide (resolve_media_only exists) exists)"
  by (auto simp: decision_sound_def decide_def resolve_media_only_def Let_def)

lemma step_decision_sound: "decision_sound (\<lambda>p. sx_exists sx p w) (step_decision sx c w)"
proof (cases "sc_engine_root c = []")
  case True
  then show ?thesis using resolve_sound resolve_media_sound by (simp add: step_decision_def Let_def)
next
  case False
  then show ?thesis by (auto simp: step_decision_def decision_sound_def decide_def Let_def split: if_splits)
qed

lemma legacy_only_with_data:
  assumes "sc_engine_root c = []" "de_root (step_decision sx c w) = legacy_root"
  shows "holds_data legacy_root (\<lambda>p. sx_exists sx p w) \<and> sc_legacy_readable c \<and> de_action (step_decision sx c w) \<noteq> DataFetch"
proof -
  have ne: "media_root \<noteq> legacy_root" by (simp add: media_root_def legacy_root_def bytes_of_def)
  show ?thesis using assms ne
    by (auto simp: step_decision_def resolve_def resolve_media_only_def decide_def candidates_def Let_def split: if_splits)
qed

end
