(* ===== verification/Data_Looks.thy ===== *)
theory Data_Looks
  imports Data_Step
begin

section \<open>What the data step reads and writes\<close>

text \<open>
  The check of the packages says what it found on the disk, its marker is written only after the digests were checked, and a
  build that does not fetch writes nothing else.
\<close>

subsection \<open>The laws\<close>

definition step_laws :: "('w, 'z) step_env \<Rightarrow> ('w \<Rightarrow> tree) \<Rightarrow> bool" where
  "step_laws sx view \<longleftrightarrow> fetch_laws (fetch_part sx) view \<and> (\<forall>w p.
     (\<forall>bs r w1. sx_write sx p bs w = (r, w1) \<longrightarrow> only_at p (view w) (view w1))
   \<and> only_at p (view w) (view (sx_remove sx p w)))"

lemma truncate_calls [simp]:
  "px_rename (fetch_part sx) = px_rename sx" "px_lstat (fetch_part sx) = px_lstat sx" "px_unlink (fetch_part sx) = px_unlink sx"
  "px_nftw (fetch_part sx) = px_nftw sx" "px_create (fetch_part sx) = px_create sx" "px_fsync (fetch_part sx) = px_fsync sx"
  "px_sync_dir (fetch_part sx) = px_sync_dir sx" "px_list (fetch_part sx) = px_list sx" "fx_stat (fetch_part sx) = fx_stat sx"
  "fx_read (fetch_part sx) = fx_read sx" "fx_zlib (fetch_part sx) = fx_zlib sx"
  by (simp_all add: fetch_env.defs)

lemma step_lawsD:
  assumes "step_laws sx view"
  shows "fetch_laws (fetch_part sx) view" "posix_laws sx view"
    "sx_write sx p bs w = (r, w1) \<Longrightarrow> only_at p (view w) (view w1)" "only_at p (view w) (view (sx_remove sx p w))"
proof -
  show f: "fetch_laws (fetch_part sx) view" using assms by (simp add: step_laws_def)
  show "posix_laws sx view" using fetch_posix [OF f] by (simp add: posix_laws_def)
  show "sx_write sx p bs w = (r, w1) \<Longrightarrow> only_at p (view w) (view w1)" "only_at p (view w) (view (sx_remove sx p w))"
    using assms unfolding step_laws_def by blast+
qed

subsection \<open>The check of the packages\<close>

text \<open>A package as it is pinned.\<close>

definition package_sized :: "tree \<Rightarrow> bytes \<Rightarrow> bytes \<Rightarrow> pinned_package \<Rightarrow> bool" where
  "package_sized t root folder pin \<longleftrightarrow> (\<exists>bs. t (package_path root folder pin) = Some (File bs) \<and> length bs = pp_bytes pin)"

definition package_matches :: "tree \<Rightarrow> bytes \<Rightarrow> bytes \<Rightarrow> pinned_package \<Rightarrow> bool" where
  "package_matches t root folder pin \<longleftrightarrow> (\<exists>bs. t (package_path root folder pin) = Some (File bs)
     \<and> length bs = pp_bytes pin \<and> (pp_hashed pin \<longrightarrow> digest bs = pp_sha256 pin))"

definition no_links :: "tree \<Rightarrow> bytes \<Rightarrow> bytes \<Rightarrow> pinned_package list \<Rightarrow> bool" where
  "no_links t root folder pins \<longleftrightarrow> (\<forall>pin\<in>set pins. t (package_path root folder pin) \<noteq> Some Link)"

lemma check_sizes_ok:
  assumes laws: "step_laws sx view"
  shows "check_sizes sx root folder pins w = None \<Longrightarrow> no_links (view w) root folder pins \<Longrightarrow> \<forall>pin\<in>set pins. package_sized (view w) root folder pin"
proof (induction pins)
  case (Cons pin pins)
  let ?p = "package_path root folder pin"
  have n: "file_length sx ?p w = Some (pp_bytes pin)" "check_sizes sx root folder pins w = None"
    using Cons.prems(1) by (auto simp: Let_def split: option.splits if_splits)
  have "fx_stat sx ?p w = StFile (pp_bytes pin)" using n(1) by (simp add: file_length_def split: stat_result.splits)
  moreover have "view w ?p \<noteq> Some Link" using Cons.prems(2) by (simp add: no_links_def)
  ultimately have "stat_of (view w ?p) = StFile (pp_bytes pin)"
    using fetch_lawsD(8) [OF step_lawsD(1) [OF laws], of ?p w] by (simp add: stat_law_def)
  then have "package_sized (view w) root folder pin" by (auto simp: package_sized_def stat_of_def split: option.splits node.splits)
  then show ?case using Cons.IH [OF n(2)] Cons.prems(2) by (simp add: no_links_def)
qed simp

lemma check_hashes_ok:
  assumes laws: "step_laws sx view"
  shows "check_hashes sx root folder pins w = None \<Longrightarrow> no_links (view w) root folder pins \<Longrightarrow>
    \<forall>pin\<in>set pins. package_sized (view w) root folder pin \<Longrightarrow> \<forall>pin\<in>set pins. package_matches (view w) root folder pin"
proof (induction pins)
  case (Cons pin pins)
  let ?p = "package_path root folder pin"
  have rest: "check_hashes sx root folder pins w = None"
    and h: "pp_hashed pin \<Longrightarrow> hash_file (fetch_part sx) ?p w = Some (pp_sha256 pin)"
    using Cons.prems(1) by (auto simp: Let_def split: option.splits if_splits)
  have "view w ?p \<noteq> Some Link" using Cons.prems(2) by (simp add: no_links_def)
  then have "package_matches (view w) root folder pin"
    using Cons.prems(3) h hash_file_digest [OF step_lawsD(1) [OF laws], of ?p w]
    by (fastforce simp: package_matches_def package_sized_def)
  then show ?case using Cons.IH [OF rest] Cons.prems(2,3) by (simp add: no_links_def)
qed simp

lemma checks_fail:
  "check_sizes sx root folder pins w = Some (PackagesVerified st) \<Longrightarrow> False"
  "check_hashes sx root folder pins w = Some (PackagesVerified st) \<Longrightarrow> False"
  by (induction pins) (auto simp: Let_def split: option.splits if_splits)

text \<open>The places of the marker.\<close>

definition marker_place :: "bytes \<Rightarrow> bytes \<Rightarrow> bool" where
  "marker_place root q \<longleftrightarrow> beneath (packages_marker root) q \<or> beneath (packages_marker root @ bytes_of ''.tmp'') q"

lemma write_file_frame:
  assumes laws: "step_laws sx view" and "write_file sx p bs w = (ok, w1)"
    and q: "\<not> beneath p q" "\<not> beneath (p @ bytes_of ''.tmp'') q"
  shows "view w1 q = view w q"
proof -
  let ?tmp = "p @ bytes_of ''.tmp''"
  have qt: "q \<noteq> ?tmp" using q(2) by auto
  obtain r w2 where c: "sx_write sx ?tmp bs w = (r, w2)" by fastforce
  have w2: "view w2 q = view w q" using step_lawsD(3) [OF laws c] qt by (simp add: only_at_def)
  have rm: "view (sx_remove sx ?tmp v) q = view v q" for v using step_lawsD(4) [OF laws, of ?tmp v] qt by (simp add: only_at_def)
  obtain moved_ok w3 where m: "px_rename sx ?tmp p w2 = (moved_ok, w3)" by fastforce
  have w3: "view w3 q = view w2 q"
    using laws_rename [OF step_lawsD(2) [OF laws] m] q by (auto simp: rename_law_def moved_def split: if_splits)
  show ?thesis using assms(2) w2 w3 rm by (auto simp: write_file_def Let_def c m split: option.splits if_splits)
qed

text \<open>C16: a verified result of the package check is true of the disk, and its marker is kept honest. Every pinned package is there with
  its length, and where the digests were checked in this run each package to be hashed has its pinned SHA-256; a skip rests on
  the marker of the same manifest and build; and the marker changes only in a run that checked the digests.\<close>

theorem packages_verified:
  assumes "step_laws sx view" "check_packages sx sets build root held w = (result, w1)"
    and "find_pinned_set (dv_manifest held) sets = Some s" "no_links (view w) root (dv_folder held) (ps_packages s)"
  shows "(\<forall>st. result = PackagesVerified st \<longrightarrow> (\<forall>pin\<in>set (ps_packages s). package_sized (view w) root (dv_folder held) pin))
    \<and> (result = PackagesVerified Checked \<longrightarrow> (\<forall>pin\<in>set (ps_packages s). package_matches (view w) root (dv_folder held) pin))
    \<and> (result = PackagesVerified Skipped \<longrightarrow> read_whole_file sx (packages_marker root) w = Some (dv_manifest held @ 0x20 # build @ [0x0A]))
    \<and> (w1 \<noteq> w \<longrightarrow> result = PackagesVerified Checked)"
proof -
  have sized: "check_sizes sx root (dv_folder held) (ps_packages s) w = None \<Longrightarrow>
      \<forall>pin\<in>set (ps_packages s). package_sized (view w) root (dv_folder held) pin"
    by (rule check_sizes_ok [OF assms(1) _ assms(4)])
  show ?thesis using assms(2) sized check_hashes_ok [OF assms(1) _ assms(4)]
    by (auto simp: check_packages_def assms(3) Let_def split: option.splits if_splits dest: checks_fail)
qed

subsection \<open>A build that does not fetch\<close>

lemma check_packages_frame:
  assumes "step_laws sx view" "check_packages sx sets build root held w = (result, w1)" "\<not> marker_place root q"
  shows "view w1 q = view w q"
proof -
  have "view (snd (write_file sx (packages_marker root) bs w)) q = view w q" for bs
    using write_file_frame [OF assms(1) _ _ _, of "packages_marker root" bs w _ _ q] assms(3)
    by (cases "write_file sx (packages_marker root) bs w") (auto simp: marker_place_def)
  then show ?thesis using assms(2) by (auto simp: check_packages_def Let_def split: option.splits if_splits)
qed

text \<open>C15: a build that does not fetch only looks. It ends with the data used or with the message that the data is missing, never
  with a fetch, and every entry of the disk but the marker of the package check is as it was.\<close>

theorem release_step_looks:
  assumes "step_laws sx view" "\<not> sc_allow_fetch c" "run_data_step sx c w = Some (r, w1)"
  shows "(sr_outcome r = StepUsed \<and> sr_message r = NoMessage \<or> sr_outcome r = StepMissing \<and> sr_message r = GameDataMissing)
    \<and> (\<not> marker_place (sr_root r) q \<longrightarrow> view w1 q = view w q)"
proof -
  let ?d = "step_decision sx c w"
  obtain result w2 where k: "check_packages sx (sc_sets c) (sc_build c) (de_root ?d) (find_data_version sx (de_root ?d) w) w = (result, w2)"
    by fastforce
  show ?thesis using assms(2,3) check_packages_frame [OF assms(1) k, of q]
    by (cases "de_action ?d") (auto simp: run_data_step_def Let_def k)
qed

end
