(* ===== verification/Data_Release.thy ===== *)
theory Data_Release
  imports Data_Looks
begin

section \<open>The data step decides and ends\<close>

text \<open>The decision the step acts on, that it returns, and a device on which a build that does not fetch is run.\<close>

lemma run_data_step_some:
  assumes "inflate_progress (fx_zlib sx)"
  shows "\<exists>r w1. run_data_step sx c w = Some (r, w1)"
proof -
  have n: "run_fetch (fetch_part sx) f v \<noteq> None" for f v using run_fetch_returns [of "fetch_part sx" f v] assms by auto
  have f: "step_fetch sx c d v \<noteq> None" for d v
    by (simp add: step_fetch_def Let_def n del: not_None_eq split: option.split prod.split)
  have "run_data_step sx c w \<noteq> None"
    by (simp add: run_data_step_def Let_def f del: not_None_eq split: prod.split data_action.split)
  then show ?thesis by auto
qed

text \<open>The world the decision is made in.\<close>

definition decided_in :: "('w, 'z) step_env \<Rightarrow> step_config \<Rightarrow> 'w \<Rightarrow> 'w" where
  "decided_in sx c w = (if sc_allow_fetch c then put_leftovers_right sx c w else w)"

lemma step_follows_decision:
  assumes "run_data_step sx c w = Some (r, w1)"
  shows "sr_action r = de_action (step_decision sx c (decided_in sx c w)) \<and> sr_root r = de_root (step_decision sx c (decided_in sx c w))
    \<and> (sr_outcome r = StepUsed \<longleftrightarrow> sr_action r = DataUse)
    \<and> (sr_outcome r \<in> {StepFetched, StepFailed} \<longrightarrow> sc_allow_fetch c)"
  using assms unfolding run_data_step_def Let_def decided_in_def [symmetric]
  by (cases "de_action (step_decision sx c (decided_in sx c w))")
    (auto simp: step_fetch_def Let_def split: if_splits option.splits prod.splits)


subsection \<open>A device\<close>

definition step_disk :: "(disk, unit) step_env" where
  "step_disk = fetch_env.extend (fetch_disk []) (step_env.fields (\<lambda>p d. disk_view d p \<noteq> None)
     (\<lambda>p bs d. let (r, d1) = disk_create True p d
        in if r = CrMade then (let (ok, d2) = disk_set p bs d1 in (Some ok, d2)) else (None, d1))
     (\<lambda>p d. snd (disk_unlink True p d)))"

lemma step_disk_fetch [simp]: "fetch_part step_disk = fetch_disk []"
  by (simp add: step_disk_def fetch_env.defs step_env.defs)

lemma step_disk_calls:
  "sx_exists step_disk = (\<lambda>p d. disk_view d p \<noteq> None)"
  "sx_write step_disk = (\<lambda>p bs d. let (r, d1) = disk_create True p d
        in if r = CrMade then (let (ok, d2) = disk_set p bs d1 in (Some ok, d2)) else (None, d1))"
  "sx_remove step_disk = (\<lambda>p d. snd (disk_unlink True p d))"
  by (simp_all add: step_disk_def fetch_env.defs step_env.defs)

lemma step_disk_reads:
  "fx_read step_disk = fx_read (fetch_disk [])" "px_list step_disk = px_list (fetch_disk [])" "px_rename step_disk = px_rename (fetch_disk [])"
  "fx_zlib step_disk = fx_zlib (fetch_disk [])" "fx_stat step_disk = fx_stat (fetch_disk [])"
  using truncate_calls [of step_disk] by simp_all

lemma step_disk_laws: "step_laws step_disk disk_view"
  unfolding step_laws_def
proof (intro conjI allI impI)
  show "fetch_laws (fetch_part step_disk) disk_view" by (simp add: fetch_disk_laws)
  fix w p
  show "only_at p (disk_view w) (disk_view (sx_remove step_disk p w))"
    using unlink_only_at [OF disk_laws [of True], of p w] by (simp add: step_disk_calls disk_def)
  show "only_at p (disk_view w) (disk_view w1)" if "sx_write step_disk p bs w = (r, w1)" for bs r w1
  proof -
    obtain r1 d1 where c: "disk_create True p w = (r1, d1)" by fastforce
    obtain ok d2 where s: "disk_set p bs d1 = (ok, d2)" by fastforce
    have "w1 = (if r1 = CrMade then d2 else d1)" using that by (auto simp: step_disk_calls c s split: if_splits)
    moreover have "only_at p (disk_view w) (disk_view d1)"
      using disk_create_view [OF c] by (cases r1) (auto simp: create_law_def only_at_def)
    moreover have "only_at p (disk_view d1) (disk_view d2)" using disk_set_view [OF s] by (auto simp: only_at_def)
    ultimately show ?thesis by (auto simp: only_at_def split: if_splits)
  qed
qed

definition look_root :: bytes where "look_root = [0x72]"

definition look_dir :: bytes where "look_dir = look_root @ bytes_of ''/_data''"
definition look_version :: bytes where "look_version = look_dir @ bytes_of ''/5932408047''"
definition look_manifest :: bytes where "look_manifest = look_version @ bytes_of ''/rad15/android/manifests/48037dc70b0ecab2''"

definition look_package :: bytes where "look_package = look_version @ bytes_of ''/rad15/android/packages/48037dc70b0ecab2_0''"

definition look_world :: disk where
  "look_world = \<lparr>d_life = 9, d_known = [look_dir, look_version, look_manifest, look_package],
     d_tree = (\<lambda>q. if q = look_manifest then Some (File [0x6d]) else if q = look_package then Some (File [0x70]) else Some Dir)\<rparr>"

text \<open>A release build: the manifest that is there is pinned, with one package.\<close>

definition look_pin :: pinned_package where
  "look_pin = \<lparr>pp_index = 0, pp_bytes = 1, pp_sha256 = sha256_hex_of [0x70], pp_hashed = True\<rparr>"

definition look_config :: step_config where
  "look_config = \<lparr>sc_fetch = sample_fetch, sc_allow_fetch = False, sc_legacy_readable = True, sc_engine_root = look_root, sc_fetch_root = [],
     sc_recovery_roots = [], sc_build = [0x62], sc_bad_root_message = [],
     sc_sets = [\<lparr>ps_manifest = sha256_hex_of [0x6d], ps_packages = [look_pin]\<rparr>]\<rparr>"

lemma look_paths:
  "file_in look_root data_name = look_dir" "file_in look_root manifest_pin = look_manifest"
  "version_dir look_root (bytes_of ''5932408047'') @ file_in manifests_dir pinned_manifest_id = look_manifest"
  "fits look_dir" "fits look_manifest" "look_version \<noteq> look_dir" "look_manifest \<noteq> look_dir" "look_manifest \<noteq> look_version"
  "look_package \<noteq> look_dir" "look_package \<noteq> look_version" "look_package \<noteq> look_manifest"
  "package_path look_root (bytes_of ''5932408047'') look_pin = look_package"
  by (simp_all add: file_in_def look_root_def look_dir_def look_version_def look_manifest_def data_name_def manifest_pin_def version_dir_def
      pinned_manifest_id_def manifests_dir_def last_slash_def slash_def bytes_of_def fits_def upt_rec
      look_package_def look_pin_def package_path_def packages_dir_def decimal.simps)

lemma look_view:
  "disk_view look_world look_dir = Some Dir" "disk_view look_world look_version = Some Dir"
  "disk_view look_world look_manifest = Some (File [0x6d])" "disk_view look_world look_package = Some (File [0x70])"
  using look_paths(6-11) by (auto simp: disk_view_def look_world_def)

lemma look_decision: "step_decision step_disk look_config look_world = \<lparr>de_action = DataUse, de_root = look_root\<rparr>"
  using look_paths(4,5) look_view
  by (simp add: step_decision_def look_config_def holds_data_def decide_def step_disk_calls look_paths(1,2) look_root_def [symmetric] Let_def)
     (simp add: look_root_def)

lemma look_found: "find_data_version step_disk look_root look_world = \<lparr>dv_folder = bytes_of ''5932408047'', dv_manifest = sha256_hex_of [0x6d]\<rparr>"
proof -
  let ?n = "bytes_of ''5932408047''"
  have d: "drop 8 look_dir = []" "drop 8 look_version = ?n" "slash \<in> set (drop 8 look_manifest)" "slash \<in> set (drop 8 look_package)" "length look_dir = 7" "slash \<notin> set ?n"
    "look_dir @ slash # ?n = look_version"
    by (simp_all add: look_dir_def look_version_def look_manifest_def look_package_def look_root_def bytes_of_def slash_def)
  have e: "disk_view look_world (look_dir @ [slash]) = None"
    by (simp add: disk_view_def look_world_def look_dir_def look_version_def look_manifest_def look_package_def bytes_of_def)
  have "disk_list look_dir look_world = [?n]"
    using d e look_view(2) by (simp add: disk_list_def) (simp add: look_world_def)
  then have l: "list_dir step_disk look_dir look_world = [?n]"
    by (simp add: list_dir_def step_disk_reads fetch_disk_def disk_def) (simp add: bytes_of_def)
  have n: "is_log_name ?n" by code_simp
  have r: "read_whole_file step_disk look_manifest look_world = Some [0x6d]"
    by (simp add: read_whole_file_def step_disk_reads fetch_disk_def look_view(3) max_manifest_bytes_def)
  show ?thesis
    by (simp add: find_data_version_def look_paths(1,3) l n step_disk_calls look_view(3) r Let_def)
qed

lemma step_disk_writes:
  assumes "disk_view d p = None" "disk_view d (p @ bytes_of ''.tmp'') = None" "3 \<le> d_life d"
  shows "\<exists>d1. write_file step_disk p bs d = (True, d1) \<and> disk_view d1 p = Some (File bs)"
proof -
  let ?tmp = "p @ bytes_of ''.tmp''"
  obtain r d2 where c: "disk_create True ?tmp d = (r, d2)" by fastforce
  have d2: "r = CrMade" "d_life d2 = d_life d - 1"
    using c assms(2,3) by (auto simp: disk_create_def change_def put_view_def Let_def split: if_splits)
  have v2: "disk_view d2 = (disk_view d)(?tmp := Some (File []))" using disk_create_view [OF c] d2(1) by (simp add: create_law_def)
  obtain ok d3 where s: "disk_set ?tmp bs d2 = (ok, d3)" by fastforce
  have d3: "ok" "d_life d3 = d_life d - 2" using s d2(2) assms(3) v2 by (auto simp: disk_set_def change_def put_view_def split: if_splits)
  have v3: "disk_view d3 = (disk_view d)(?tmp := Some (File bs))" using disk_set_view [OF s] d3(1) v2 by simp
  obtain moved_ok d4 where m: "px_rename (disk True) ?tmp p d3 = (moved_ok, d4)" by fastforce
  have ne: "?tmp \<noteq> p" by (simp add: bytes_of_def)
  then have ok: "moved_ok" using m assms(1,3) v3 d3(2) by (auto simp: disk_def disk_rename_def change_def split: if_splits)
  have "disk_view d4 p = disk_view d3 ?tmp" using laws_rename [OF disk_laws m] ok by (simp add: rename_law_def moved_def)
  moreover have "px_rename step_disk = px_rename (disk True)" by (simp add: step_disk_reads fetch_disk_def)
  ultimately show ?thesis using m ok v3 d2(1) d3(1) by (simp add: write_file_def step_disk_calls c s)
qed

lemma look_check:
  "\<exists>w1. check_packages step_disk (sc_sets look_config) (sc_build look_config) look_root (find_data_version step_disk look_root look_world) look_world
      = (PackagesVerified Checked, w1)
    \<and> disk_view w1 (packages_marker look_root) = Some (File (sha256_hex_of [0x6d] @ [0x20, 0x62, 0x0A]))"
proof -
  let ?m = "packages_marker look_root"
  have v: "disk_view look_world ?m = None" "disk_view look_world (?m @ bytes_of ''.tmp'') = None"
    by (simp_all add: disk_view_def look_world_def packages_marker_def file_in_def look_root_def look_dir_def look_version_def look_manifest_def
        look_package_def bytes_of_def slash_def)
  have r: "read_whole_file step_disk ?m look_world = None" by (simp add: read_whole_file_def step_disk_reads fetch_disk_def v)
  obtain w1 where w1: "write_file step_disk ?m (sha256_hex_of [0x6d] @ [0x20, 0x62, 0x0A]) look_world = (True, w1)"
    "disk_view w1 ?m = Some (File (sha256_hex_of [0x6d] @ [0x20, 0x62, 0x0A]))"
    using step_disk_writes [OF v, of "sha256_hex_of [0x6d] @ [0x20, 0x62, 0x0A]"] by (auto simp: look_world_def)
  have s: "check_sizes step_disk look_root (bytes_of ''5932408047'') [look_pin] look_world = None"
    by (simp add: look_paths(12) file_length_def step_disk_reads fetch_disk_def look_view(4) stat_of_def) (simp add: look_pin_def)
  have h: "check_hashes step_disk look_root (bytes_of ''5932408047'') [look_pin] look_world = None"
    by (simp add: look_paths(12) hash_file_def fetch_disk_def look_view(4)) (simp add: look_pin_def sha256_hex_of_def)
  show ?thesis using w1 by (simp add: check_packages_def look_found find_pinned_set_def look_config_def r s h del: check_sizes.simps check_hashes.simps)
qed

text \<open>
  The header of \<^verbatim>\<open>data_step.h\<close> says of a build that does not fetch that it makes no write at all. It does write the marker of
  the package check.
\<close>

lemma release_step_writes_its_marker:
  "\<exists>r w1. run_data_step step_disk look_config look_world = Some (r, w1) \<and> \<not> sc_allow_fetch look_config
    \<and> disk_view look_world (packages_marker look_root) = None
    \<and> disk_view w1 (packages_marker look_root) = Some (File (sha256_hex_of [0x6d] @ [0x20, 0x62, 0x0A]))"
proof -
  obtain w1 where w1: "check_packages step_disk (sc_sets look_config) (sc_build look_config) look_root
      (find_data_version step_disk look_root look_world) look_world = (PackagesVerified Checked, w1)"
    "disk_view w1 (packages_marker look_root) = Some (File (sha256_hex_of [0x6d] @ [0x20, 0x62, 0x0A]))"
    using look_check by blast
  have a: "\<not> sc_allow_fetch look_config" by (simp add: look_config_def)
  have v: "disk_view look_world (packages_marker look_root) = None"
    by (simp add: disk_view_def look_world_def packages_marker_def file_in_def look_root_def look_dir_def look_version_def look_manifest_def
        look_package_def bytes_of_def slash_def)
  show ?thesis using w1 a v by (auto simp: run_data_step_def look_decision Let_def)
qed

lemma packages_verified_witness:
  "\<exists>w1. (PackagesVerified Checked, w1) = check_packages step_disk (sc_sets look_config) (sc_build look_config) look_root
      (find_data_version step_disk look_root look_world) look_world
    \<and> (\<forall>pin\<in>set [look_pin]. package_matches (disk_view look_world) look_root (bytes_of ''5932408047'') pin)"
proof -
  obtain w1 where w1: "check_packages step_disk (sc_sets look_config) (sc_build look_config) look_root
      (find_data_version step_disk look_root look_world) look_world = (PackagesVerified Checked, w1)" using look_check by blast
  have s: "find_pinned_set (dv_manifest (find_data_version step_disk look_root look_world)) (sc_sets look_config)
      = Some \<lparr>ps_manifest = sha256_hex_of [0x6d], ps_packages = [look_pin]\<rparr>"
    by (simp add: look_found find_pinned_set_def look_config_def)
  have f: "dv_folder (find_data_version step_disk look_root look_world) = bytes_of ''5932408047''" by (simp add: look_found)
  have "no_links (disk_view look_world) look_root (bytes_of ''5932408047'') [look_pin]"
    by (simp add: no_links_def look_paths(12) look_view(4))
  then show ?thesis using w1 packages_verified [OF step_disk_laws w1 s] by (simp add: f)
qed

lemma release_step_looks_witness:
  "\<exists>r w1. run_data_step step_disk look_config look_world = Some (r, w1) \<and> sr_outcome r = StepUsed
    \<and> disk_view w1 look_manifest = Some (File [0x6d])"
proof -
  have z: "inflate_progress (fx_zlib step_disk)" using sample_laws(2) by (simp add: step_disk_reads fetch_disk_def)
  obtain r w1 where r: "run_data_step step_disk look_config look_world = Some (r, w1)" using run_data_step_some [OF z] by blast
  have a: "\<not> sc_allow_fetch look_config" by (simp add: look_config_def)
  have root: "sr_root r = look_root" "sr_outcome r = StepUsed"
    using step_follows_decision [OF r] a look_decision by (simp_all add: decided_in_def)
  have "\<not> marker_place look_root look_manifest"
    by (simp add: marker_place_def beneath_def packages_marker_def file_in_def look_root_def look_manifest_def look_version_def look_dir_def
        bytes_of_def slash_def)
  then show ?thesis using release_step_looks [OF step_disk_laws a r, of look_manifest] r root look_view(3) by auto
qed


end
