(* ===== verification/Social_Roster.thy ===== *)
theory Social_Roster
  imports Party_Wire "HOL-Library.Product_Lexorder"
begin

section \<open>The friend roster\<close>

text \<open>
  The friends of \<^verbatim>\<open>src/runtime/compat/social_roster.h\<close>: the messages about friends and the class \<^verbatim>\<open>Roster\<close>, one function
  per method, its mutex making each call a step. A \<^verbatim>\<open>shared_ptr\<close> to a snapshot is the snapshot with the number of its
  allocation, so that the strings the game reads can be followed to the snapshot that holds them.
\<close>

unbundle bit_operations_syntax

definition status_online :: u8 where "status_online = 0"
definition status_busy :: u8 where "status_busy = 1"
definition status_offline :: u8 where "status_offline = 2"

record presence =
  pr_party :: u64
  pr_joinable :: bool
  pr_text :: bytes

definition no_presence :: presence where
  "no_presence = \<lparr>pr_party = 0, pr_joinable = False, pr_text = []\<rparr>"

record friend_entry =
  fe_id :: u64
  fe_name :: bytes
  fe_online :: bool
  fe_presence :: presence

record friend_snapshot =
  sn_entries :: "friend_entry list"
  sn_online :: u32

definition empty_snapshot :: friend_snapshot where
  "empty_snapshot = \<lparr>sn_entries = [], sn_online = 0\<rparr>"

subsection \<open>The messages\<close>

text \<open>The loop \<^verbatim>\<open>v = (v << 8) | payload[off + i]\<close>, from the last byte to the first.\<close>

definition le_join :: "bytes \<Rightarrow> nat \<Rightarrow> nat \<Rightarrow> u64" where
  "le_join p off n = foldl (\<lambda>v b. push_bit 8 v OR ucast b) 0 (rev (take n (drop off p)))"

definition parse_presence_notify :: "bytes \<Rightarrow> (u64 \<times> presence) option" where
  "parse_presence_notify p =
     (if length p < 34 then None
      else let n = unat (p ! 32) OR push_bit 8 (unat (p ! 33))
      in if 34 + n > length p then None
         else Some (le_join p 8 8, \<lparr>pr_party = le_join p 16 8, pr_joinable = (p ! 24 \<noteq> 0), pr_text = take n (drop 34 p)\<rparr>))"

definition parse_status_notify :: "bytes \<Rightarrow> (u64 \<times> u8) option" where
  "parse_status_notify p = (if length p < 17 then None else Some (le_join p 8 8, p ! 16))"

definition parse_list_response :: "bytes \<Rightarrow> u32 option" where
  "parse_list_response p = (if length p < 20 then None else Some (le32 p 8 + le32 p 12 + le32 p 16))"

subsection \<open>The roster\<close>

type_synonym shared = "nat \<times> friend_snapshot"

text \<open>What both lists of the file keep: the published snapshot and the eight before it.\<close>

record shelf =
  sh_current :: "shared option"
  sh_retired :: "shared option list"
  sh_retired_next :: nat
  sh_made :: nat

record roster = shelf +
  ro_pending :: "friend_entry list"
  ro_names :: "u64 \<rightharpoonup> bytes"
  ro_presences :: "u64 \<rightharpoonup> presence"
  ro_pending_active :: bool

definition retired_slots :: nat where "retired_slots = 8"

definition new_roster :: roster where
  "new_roster = \<lparr>sh_current = None, sh_retired = replicate retired_slots None, sh_retired_next = 0, sh_made = 0, ro_pending = [],
     ro_names = Map.empty, ro_presences = Map.empty, ro_pending_active = False\<rparr>"

text \<open>\<^verbatim>\<open>std::stable_sort\<close> with the comparison of the code: online before offline, then by id.\<close>

definition entry_key :: "friend_entry \<Rightarrow> bool \<times> u64" where
  "entry_key e = (\<not> fe_online e, fe_id e)"

definition snapshot_of :: "friend_entry list \<Rightarrow> friend_snapshot" where
  "snapshot_of es = (let es1 = sort_key entry_key es
     in \<lparr>sn_entries = es1, sn_online = word_of_nat (length (filter fe_online es1))\<rparr>)"

definition retire :: "'m shelf_scheme \<Rightarrow> 'm shelf_scheme" where
  "retire r = (case sh_current r of None \<Rightarrow> r
     | Some c \<Rightarrow> r\<lparr>sh_retired := (sh_retired r)[sh_retired_next r := Some c],
                   sh_retired_next := (sh_retired_next r + 1) mod retired_slots\<rparr>)"

definition put_up :: "friend_snapshot \<Rightarrow> 'm shelf_scheme \<Rightarrow> 'm shelf_scheme" where
  "put_up s r = (retire r)\<lparr>sh_current := Some (sh_made r, s), sh_made := sh_made r + 1\<rparr>"

definition publish :: "friend_entry list \<Rightarrow> roster \<Rightarrow> roster" where
  "publish es r = put_up (snapshot_of es) r"

fun set_online :: "u64 \<Rightarrow> bool \<Rightarrow> friend_entry list \<Rightarrow> friend_entry list option" where
  "set_online i online [] = None"
| "set_online i online (e # es) =
     (if fe_id e = i then Some (e\<lparr>fe_online := online\<rparr> # es) else map_option ((#) e) (set_online i online es))"

definition upsert :: "roster \<Rightarrow> u64 \<Rightarrow> bool \<Rightarrow> friend_entry list \<Rightarrow> friend_entry list" where
  "upsert r i online es = (case set_online i online es of
      Some es1 \<Rightarrow> es1
    | None \<Rightarrow> es @ [\<lparr>fe_id = i, fe_name = (case ro_names r i of Some n \<Rightarrow> n | None \<Rightarrow> decimal (unat i)), fe_online = online,
                     fe_presence = (case ro_presences r i of Some p \<Rightarrow> p | None \<Rightarrow> no_presence)\<rparr>])"

definition live_entries :: "roster \<Rightarrow> friend_entry list" where
  "live_entries r = (case sh_current r of None \<Rightarrow> [] | Some c \<Rightarrow> sn_entries (snd c))"

definition begin_list :: "u32 \<Rightarrow> roster \<Rightarrow> roster" where
  "begin_list confirmed r = (let r1 = r\<lparr>ro_pending := [], ro_pending_active := (confirmed \<noteq> 0)\<rparr>
     in if confirmed = 0 then publish [] r1 else r1)"

definition notify :: "u64 \<Rightarrow> u8 \<Rightarrow> roster \<Rightarrow> roster" where
  "notify i status r = (let online = (status = status_online \<or> status = status_busy)
     in if ro_pending_active r
        then let es = upsert r i online (ro_pending r) in publish es (r\<lparr>ro_pending := es\<rparr>)
        else publish (upsert r i online (live_entries r)) r)"

definition set_friend_name :: "u64 \<Rightarrow> bytes \<Rightarrow> roster \<Rightarrow> roster" where
  "set_friend_name i name r =
     (if name = [] then r
      else let r1 = r\<lparr>ro_names := (ro_names r)(i \<mapsto> name)\<rparr>
      in if sh_current r = None then r1
         else publish (map (\<lambda>e. if fe_id e = i then e\<lparr>fe_name := name\<rparr> else e) (live_entries r)) r1)"

definition set_presence :: "u64 \<Rightarrow> presence \<Rightarrow> roster \<Rightarrow> roster" where
  "set_presence i p r = (let r1 = r\<lparr>ro_presences := (ro_presences r)(i \<mapsto> p)\<rparr>
     in if sh_current r = None then r1
        else publish (map (\<lambda>e. if fe_id e = i then e\<lparr>fe_presence := p\<rparr> else e) (live_entries r)) r1)"

definition clear_roster :: "roster \<Rightarrow> roster" where
  "clear_roster r = publish [] (r\<lparr>ro_pending := [], ro_pending_active := False\<rparr>)"

definition drop_entry :: "u64 \<Rightarrow> friend_entry list \<Rightarrow> friend_entry list" where
  "drop_entry i es = filter (\<lambda>e. fe_id e \<noteq> i) es"

definition remove_friend :: "u64 \<Rightarrow> roster \<Rightarrow> bool \<times> roster" where
  "remove_friend i r = (let r1 = r\<lparr>ro_pending := drop_entry i (ro_pending r)\<rparr>; es = drop_entry i (live_entries r)
     in if sh_current r = None \<or> length es = length (live_entries r) then (False, r1) else (True, publish es r1))"

subsection \<open>What the game reads\<close>

definition snap :: "'m shelf_scheme \<Rightarrow> friend_snapshot" where
  "snap r = (case sh_current r of None \<Rightarrow> empty_snapshot | Some c \<Rightarrow> snd c)"

definition roster_count :: "roster \<Rightarrow> u32" where
  "roster_count r = word_of_nat (length (sn_entries (snap r)))"

definition roster_online :: "roster \<Rightarrow> u32" where "roster_online r = sn_online (snap r)"

definition roster_offline :: "roster \<Rightarrow> u32" where "roster_offline r = roster_count r - roster_online r"

definition entry_at :: "friend_snapshot \<Rightarrow> nat \<Rightarrow> friend_entry option" where
  "entry_at s i = (if i < length (sn_entries s) then Some (sn_entries s ! i) else None)"

definition id_at :: "roster \<Rightarrow> nat \<Rightarrow> u64 option" where "id_at r i = map_option fe_id (entry_at (snap r) i)"

definition contains_friend :: "roster \<Rightarrow> u64 \<Rightarrow> bool" where
  "contains_friend r i \<longleftrightarrow> list_ex (\<lambda>e. fe_id e = i) (sn_entries (snap r))"

definition online_at :: "roster \<Rightarrow> nat \<Rightarrow> bool" where
  "online_at r i = (case entry_at (snap r) i of None \<Rightarrow> False | Some e \<Rightarrow> fe_online e)"

definition name_at :: "roster \<Rightarrow> nat \<Rightarrow> bytes" where
  "name_at r i = (case entry_at (snap r) i of None \<Rightarrow> [] | Some e \<Rightarrow> fe_name e)"

definition status_text_at :: "roster \<Rightarrow> nat \<Rightarrow> bytes" where
  "status_text_at r i = (case entry_at (snap r) i of None \<Rightarrow> [] | Some e \<Rightarrow> pr_text (fe_presence e))"

definition party_id_at :: "roster \<Rightarrow> nat \<Rightarrow> u64" where
  "party_id_at r i = (case entry_at (snap r) i of None \<Rightarrow> 0
     | Some e \<Rightarrow> if \<not> fe_online e \<or> \<not> pr_joinable (fe_presence e) then 0 else pr_party (fe_presence e))"

text \<open>\<^verbatim>\<open>Feed\<close>: one message of the server, by the name the game's symbol table gives it.\<close>

definition feed_roster :: "string option \<Rightarrow> bytes \<Rightarrow> roster \<Rightarrow> bool \<times> roster" where
  "feed_roster name p r =
     (case if name = Some ''FriendStatusNotify'' then parse_status_notify p else None of
        Some (i, status) \<Rightarrow> (True, notify i status r)
      | None \<Rightarrow> (case if name = Some ''FriendListResponse'' then parse_list_response p else None of
            Some confirmed \<Rightarrow> (True, begin_list confirmed r)
          | None \<Rightarrow> (False, r)))"

subsection \<open>Runs\<close>

datatype roster_call = BeginList u32 | Notify u64 u8 | SetName u64 bytes | SetPresence u64 presence | ClearRoster | RemoveFriend u64
  | FeedRoster "string option" bytes

fun roster_step :: "roster_call \<Rightarrow> roster \<Rightarrow> roster" where
  "roster_step (BeginList n) r = begin_list n r"
| "roster_step (Notify i s) r = notify i s r"
| "roster_step (SetName i n) r = set_friend_name i n r"
| "roster_step (SetPresence i p) r = set_presence i p r"
| "roster_step ClearRoster r = clear_roster r"
| "roster_step (RemoveFriend i) r = snd (remove_friend i r)"
| "roster_step (FeedRoster n p) r = snd (feed_roster n p r)"

subsection \<open>The published list\<close>

definition ids :: "friend_entry list \<Rightarrow> u64 list" where "ids es = map fe_id es"

definition snapshot_ok :: "friend_snapshot \<Rightarrow> bool" where
  "snapshot_ok s \<longleftrightarrow> distinct (ids (sn_entries s)) \<and> sorted (map entry_key (sn_entries s))
     \<and> sn_online s = word_of_nat (length (filter fe_online (sn_entries s)))"

definition roster_ok :: "roster \<Rightarrow> bool" where
  "roster_ok r \<longleftrightarrow> distinct (ids (ro_pending r)) \<and> snapshot_ok (snap r)
     \<and> length (sh_retired r) = retired_slots \<and> sh_retired_next r < retired_slots"

lemma ids_simps [simp]:
  "ids [] = []" "ids (e # es) = fe_id e # ids es" "ids (es @ fs) = ids es @ ids fs"
  by (simp_all add: ids_def)

lemma ids_sort [simp]: "distinct (ids (sort_key f es)) \<longleftrightarrow> distinct (ids es)"
  by (simp add: ids_def distinct_map distinct_sort inj_on_def)

lemma set_ids_sort [simp]: "set (ids (sort_key f es)) = set (ids es)"
  by (simp add: ids_def)

lemma set_online_ids: "set_online i online es = Some es1 \<Longrightarrow> ids es1 = ids es"
  by (induction es arbitrary: es1) (auto split: if_splits)

lemma set_online_None: "set_online i online es = None \<longleftrightarrow> i \<notin> set (ids es)"
  by (induction es) auto

lemma ids_map_same [simp]: "(\<And>e. fe_id (f e) = fe_id e) \<Longrightarrow> ids (map f es) = ids es"
  by (simp add: ids_def)

lemma distinct_upsert: "distinct (ids es) \<Longrightarrow> distinct (ids (upsert r i online es))"
  by (auto simp: upsert_def set_online_ids set_online_None split: option.splits)

lemma distinct_drop_entry: "distinct (ids es) \<Longrightarrow> distinct (ids (drop_entry i es))"
  by (simp add: drop_entry_def ids_def distinct_map_filter)

lemma snapshot_of_ok: "distinct (ids es) \<Longrightarrow> snapshot_ok (snapshot_of es)"
  by (simp add: snapshot_ok_def snapshot_of_def Let_def)

lemma snap_put_up [simp]: "snap (put_up s r) = s"
  by (simp add: put_up_def snap_def)

lemma snap_publish [simp]: "snap (publish es r) = snapshot_of es"
  by (simp add: publish_def)

lemma live_entries_snap: "live_entries r = sn_entries (snap r)"
  by (simp add: live_entries_def snap_def empty_snapshot_def split: option.split)

lemma publish_simps [simp]:
  "ro_pending (publish es r) = ro_pending r" "ro_pending_active (publish es r) = ro_pending_active r"
  "ro_names (publish es r) = ro_names r" "ro_presences (publish es r) = ro_presences r"
  by (simp_all add: publish_def put_up_def retire_def split: option.split)

lemma publish_ok:
  assumes "roster_ok r" "distinct (ids es)"
  shows "roster_ok (publish es r)"
  using assms by (auto simp: roster_ok_def snapshot_of_ok) (auto simp: publish_def put_up_def retire_def retired_slots_def split: option.split)

lemma snap_update [simp]:
  "snap (r\<lparr>ro_pending := x\<rparr>) = snap r" "snap (r\<lparr>ro_pending_active := b\<rparr>) = snap r"
  "snap (r\<lparr>ro_names := ns\<rparr>) = snap r" "snap (r\<lparr>ro_presences := ps\<rparr>) = snap r"
  by (simp_all add: snap_def)

lemma live_distinct: "roster_ok r \<Longrightarrow> distinct (ids (live_entries r))"
  by (simp add: roster_ok_def snapshot_ok_def live_entries_snap)

lemma begin_list_ok: "roster_ok r \<Longrightarrow> roster_ok (begin_list n r)"
  by (auto simp: begin_list_def Let_def intro!: publish_ok) (simp_all add: roster_ok_def)

lemma notify_ok: "roster_ok r \<Longrightarrow> roster_ok (notify i s r)"
  by (auto simp: notify_def Let_def intro!: publish_ok distinct_upsert live_distinct) (auto simp: roster_ok_def distinct_upsert)

lemma set_name_ok: "roster_ok r \<Longrightarrow> roster_ok (set_friend_name i n r)"
  by (auto simp: set_friend_name_def Let_def live_distinct intro!: publish_ok) (simp_all add: roster_ok_def)

lemma set_presence_ok: "roster_ok r \<Longrightarrow> roster_ok (set_presence i p r)"
  by (auto simp: set_presence_def Let_def live_distinct intro!: publish_ok) (simp_all add: roster_ok_def)

lemma clear_ok: "roster_ok r \<Longrightarrow> roster_ok (clear_roster r)"
  by (auto simp: clear_roster_def intro!: publish_ok) (simp_all add: roster_ok_def)

lemma remove_ok: "roster_ok r \<Longrightarrow> roster_ok (snd (remove_friend i r))"
  by (auto simp: remove_friend_def Let_def intro!: publish_ok distinct_drop_entry live_distinct)
    (auto simp: roster_ok_def distinct_drop_entry)

interpretation roster: fold_system roster_step roster_ok
proof
  fix r c assume "roster_ok r"
  then show "roster_ok (roster_step c r)"
    by (cases c) (auto simp: begin_list_ok notify_ok set_name_ok set_presence_ok clear_ok remove_ok feed_roster_def split: option.splits)
qed

lemma new_roster_ok: "roster_ok new_roster"
  by (simp add: roster_ok_def new_roster_def snap_def snapshot_ok_def empty_snapshot_def retired_slots_def)

text \<open>In a list sorted by that key the online entries are a prefix.\<close>

lemma online_prefix:
  "sorted (map entry_key es) \<Longrightarrow> i < length es \<Longrightarrow> fe_online (es ! i) \<longleftrightarrow> i < length (filter fe_online es)"
proof (induction es arbitrary: i)
  case (Cons e es)
  show ?case
  proof (cases "fe_online e")
    case True
    with Cons show ?thesis by (cases i) auto
  next
    case False
    have "\<not> fe_online x" if "x \<in> set es" for x using Cons.prems(1) that False by (auto simp: entry_key_def less_eq_prod_def)
    then show ?thesis using False Cons.prems(2) by (cases i) (auto simp: filter_empty_conv)
  qed
qed simp

text \<open>C37: After any calls on a new roster, what the game reads is a list without a friend twice, sorted by presence and then by id, with the online count the number of online friends; the i-th friend is online exactly when i is below it.\<close>

theorem roster_published:
  "let r = fold roster_step calls new_roster; es = sn_entries (snap r); n = length (filter fe_online es)
   in distinct (ids es) \<and> sorted (map entry_key es) \<and> roster_online r = word_of_nat n
     \<and> online_at r i = (i < n)"
proof -
  have "roster_ok (fold roster_step calls new_roster)" by (rule roster.fold_inv [OF new_roster_ok])
  moreover have "n \<le> length es" if "n = length (filter fe_online es)" for n es using that by simp
  ultimately show ?thesis
    by (auto simp: Let_def roster_ok_def snapshot_ok_def roster_online_def online_at_def entry_at_def online_prefix
        dest: order.strict_trans2)
qed


subsection \<open>What the list says, without lists\<close>

text \<open>
  The contract of the class: who is online, as a map. A list being received is a second map that replaces the first
  with its first entry.
\<close>

record friends =
  fr_live :: "u64 \<rightharpoonup> bool"
  fr_building :: "u64 \<rightharpoonup> bool"
  fr_in_list :: bool

definition no_friends :: friends where
  "no_friends = \<lparr>fr_live = Map.empty, fr_building = Map.empty, fr_in_list = False\<rparr>"

definition is_online :: "u8 \<Rightarrow> bool" where "is_online s \<longleftrightarrow> s = status_online \<or> s = status_busy"

definition spec_list :: "u32 \<Rightarrow> friends \<Rightarrow> friends" where
  "spec_list n f = \<lparr>fr_live = (if n = 0 then Map.empty else fr_live f), fr_building = Map.empty, fr_in_list = (n \<noteq> 0)\<rparr>"

definition spec_notify :: "u64 \<Rightarrow> u8 \<Rightarrow> friends \<Rightarrow> friends" where
  "spec_notify i s f = (if fr_in_list f
     then f\<lparr>fr_building := (fr_building f)(i \<mapsto> is_online s), fr_live := (fr_building f)(i \<mapsto> is_online s)\<rparr>
     else f\<lparr>fr_live := (fr_live f)(i \<mapsto> is_online s)\<rparr>)"

fun spec_step :: "roster_call \<Rightarrow> friends \<Rightarrow> friends" where
  "spec_step (BeginList n) f = spec_list n f"
| "spec_step (Notify i s) f = spec_notify i s f"
| "spec_step (SetName i n) f = f"
| "spec_step (SetPresence i p) f = f"
| "spec_step ClearRoster f = no_friends"
| "spec_step (RemoveFriend i) f = f\<lparr>fr_live := (fr_live f)(i := None), fr_building := (fr_building f)(i := None)\<rparr>"
| "spec_step (FeedRoster n p) f = (case if n = Some ''FriendStatusNotify'' then parse_status_notify p else None of
        Some (i, s) \<Rightarrow> spec_notify i s f
      | None \<Rightarrow> (case if n = Some ''FriendListResponse'' then parse_list_response p else None of
            Some k \<Rightarrow> spec_list k f | None \<Rightarrow> f))"

definition presence_map :: "friend_entry list \<Rightarrow> u64 \<rightharpoonup> bool" where
  "presence_map es = map_of (map (\<lambda>e. (fe_id e, fe_online e)) es)"

definition friends_of :: "roster \<Rightarrow> friends" where
  "friends_of r = \<lparr>fr_live = presence_map (sn_entries (snap r)), fr_building = presence_map (ro_pending r),
     fr_in_list = ro_pending_active r\<rparr>"

lemma presence_map_Some: "distinct (ids es) \<Longrightarrow> presence_map es i = Some b \<longleftrightarrow> (\<exists>e\<in>set es. fe_id e = i \<and> fe_online e = b)"
  by (auto simp: presence_map_def map_of_eq_Some_iff ids_def comp_def)

lemma map_eqI: "(\<And>i b. m i = Some b \<longleftrightarrow> n i = Some b) \<Longrightarrow> m = n"
  by (rule ext) (metis not_None_eq)

lemma presence_map_sort [simp]: "distinct (ids es) \<Longrightarrow> presence_map (sort_key f es) = presence_map es"
  by (rule map_eqI) (simp add: presence_map_Some)

lemma presence_map_Nil [simp]: "presence_map [] = Map.empty"
  by (simp add: presence_map_def)

lemma presence_map_drop [simp]: "presence_map (drop_entry i es) = (presence_map es)(i := None)"
  by (induction es) (auto simp: presence_map_def drop_entry_def fun_upd_twist)

lemma presence_map_kept: "(\<And>e. fe_id (f e) = fe_id e \<and> fe_online (f e) = fe_online e) \<Longrightarrow> presence_map (map f es) = presence_map es"
  by (simp add: presence_map_def comp_def)

lemma presence_map_set_online: "set_online i b es = Some es1 \<Longrightarrow> presence_map es1 = (presence_map es)(i \<mapsto> b)"
  by (induction es arbitrary: es1) (auto simp: presence_map_def fun_upd_twist split: if_splits)

lemma presence_map_upsert [simp]: "presence_map (upsert r i b es) = (presence_map es)(i \<mapsto> b)"
proof (cases "set_online i b es")
  case None
  then have "i \<notin> dom (presence_map es)" by (simp add: set_online_None presence_map_def dom_map_of_conv_image_fst image_comp ids_def)
  then show ?thesis using None by (auto simp: upsert_def presence_map_def map_add_def fun_eq_iff split: option.split)
qed (simp add: upsert_def presence_map_set_online)

lemma filter_all: "length (filter P xs) = length xs \<Longrightarrow> filter P xs = xs"
proof (induction xs)
  case (Cons x xs)
  have "P x"
  proof (rule ccontr)
    assume "\<not> P x"
    with Cons.prems have "length (filter P xs) = Suc (length xs)" by simp
    with length_filter_le [of P xs] show False by linarith
  qed
  with Cons show ?case by simp
qed simp

lemma drop_none: "length (drop_entry i es) = length es \<Longrightarrow> drop_entry i es = es"
  unfolding drop_entry_def by (rule filter_all)

lemma friends_publish:
  "distinct (ids es) \<Longrightarrow> friends_of (publish es r) = (friends_of r)\<lparr>fr_live := presence_map es\<rparr>"
  by (simp add: friends_of_def snapshot_of_def Let_def)

lemma friends_kept:
  assumes "roster_ok r" "\<And>e. fe_id (f e) = fe_id e \<and> fe_online (f e) = fe_online e"
  shows "friends_of (publish (map f (live_entries r)) r) = friends_of r"
proof -
  have "distinct (ids (map f (live_entries r)))" using assms(2) live_distinct [OF assms(1)] by simp
  then show ?thesis by (simp add: friends_publish presence_map_kept assms(2)) (simp add: friends_of_def live_entries_snap)
qed

lemma friends_of_names [simp]:
  "friends_of (r\<lparr>ro_names := ns\<rparr>) = friends_of r" "friends_of (r\<lparr>ro_presences := ps\<rparr>) = friends_of r"
  by (simp_all add: friends_of_def)

lemma live_entries_update [simp]:
  "live_entries (r\<lparr>ro_names := ns\<rparr>) = live_entries r" "live_entries (r\<lparr>ro_presences := ps\<rparr>) = live_entries r"
  "live_entries (r\<lparr>ro_pending := es\<rparr>) = live_entries r"
  by (simp_all add: live_entries_snap)

lemma roster_ok_names [simp]:
  "roster_ok (r\<lparr>ro_names := ns\<rparr>) = roster_ok r" "roster_ok (r\<lparr>ro_presences := ps\<rparr>) = roster_ok r"
  by (simp_all add: roster_ok_def)

lemma friends_begin_list: "roster_ok r \<Longrightarrow> friends_of (begin_list n r) = spec_list n (friends_of r)"
  by (simp add: begin_list_def spec_list_def Let_def friends_publish) (simp add: friends_of_def)

lemma friends_notify: "roster_ok r \<Longrightarrow> friends_of (notify i s r) = spec_notify i s (friends_of r)"
  by (auto simp: notify_def spec_notify_def Let_def is_online_def friends_publish distinct_upsert live_distinct roster_ok_def)
    (auto simp: friends_of_def live_entries_snap)

lemma friends_set_name: "roster_ok r \<Longrightarrow> friends_of (set_friend_name i n r) = friends_of r"
  using friends_kept [of "r\<lparr>ro_names := (ro_names r)(i \<mapsto> n)\<rparr>"] by (simp add: set_friend_name_def Let_def)

lemma friends_set_presence: "roster_ok r \<Longrightarrow> friends_of (set_presence i p r) = friends_of r"
  using friends_kept [of "r\<lparr>ro_presences := (ro_presences r)(i \<mapsto> p)\<rparr>"] by (simp add: set_presence_def Let_def)

lemma friends_clear: "roster_ok r \<Longrightarrow> friends_of (clear_roster r) = no_friends"
  by (simp add: clear_roster_def friends_publish) (simp add: friends_of_def no_friends_def)

lemma friends_remove:
  assumes "roster_ok r"
  shows "friends_of (snd (remove_friend i r))
     = (friends_of r)\<lparr>fr_live := (fr_live (friends_of r))(i := None), fr_building := (fr_building (friends_of r))(i := None)\<rparr>"
proof (cases "sh_current r = None \<or> length (drop_entry i (live_entries r)) = length (live_entries r)")
  case True
  then have "drop_entry i (live_entries r) = live_entries r"
    by (elim disjE) (simp add: live_entries_def drop_entry_def, rule drop_none)
  then have "(presence_map (live_entries r))(i := None) = presence_map (live_entries r)"
    by (metis presence_map_drop)
  then show ?thesis using True by (auto simp: remove_friend_def Let_def) (simp_all add: friends_of_def live_entries_snap)
next
  case False
  have "distinct (ids (drop_entry i (live_entries r)))" using assms by (simp add: distinct_drop_entry live_distinct)
  then show ?thesis using False
    by (auto simp: remove_friend_def Let_def friends_publish) (auto simp: friends_of_def live_entries_snap)
qed

lemma roster_refines_step: "roster_ok r \<Longrightarrow> friends_of (roster_step c r) = spec_step c (friends_of r)"
  by (cases c) (auto simp: friends_begin_list friends_notify friends_set_name friends_set_presence friends_clear friends_remove
      feed_roster_def split: option.splits)

lemma roster_refines_run: "roster_ok r \<Longrightarrow> friends_of (fold roster_step cs r) = fold spec_step cs (friends_of r)"
proof (induction cs arbitrary: r)
  case (Cons c cs)
  then show ?case by (simp add: roster_refines_step roster.fold_step_inv)
qed simp

text \<open>C36: The list the game reads names exactly the friends, each online or not, that the messages of the server leave as friends: a map updated by each message, replaced by a new list from its first entry on.\<close>

theorem roster_is_the_friends_map:
  "presence_map (sn_entries (snap (fold roster_step calls new_roster))) = fr_live (fold spec_step calls no_friends)"
proof -
  have "friends_of new_roster = no_friends"
    by (simp add: friends_of_def new_roster_def no_friends_def snap_def empty_snapshot_def)
  then have "fr_live (friends_of (fold roster_step calls new_roster)) = fr_live (fold spec_step calls no_friends)"
    using roster_refines_run [OF new_roster_ok, of calls] by simp
  then show ?thesis unfolding friends_of_def by simp
qed

subsection \<open>The strings the game keeps\<close>

text \<open>How many more lists may be published before slot \<open>i\<close> of the retired ones is overwritten.\<close>

definition turns_left :: "'m shelf_scheme \<Rightarrow> nat \<Rightarrow> nat" where
  "turns_left r i = (i + retired_slots - sh_retired_next r) mod retired_slots"

definition shelf_holds :: "shared \<Rightarrow> nat \<Rightarrow> 'm shelf_scheme \<Rightarrow> bool" where
  "shelf_holds c k r \<longleftrightarrow> sh_current r = Some c \<and> k \<le> retired_slots
     \<or> (\<exists>i<retired_slots. sh_retired r ! i = Some c \<and> k \<le> turns_left r i)"

definition shelf_ok :: "'m shelf_scheme \<Rightarrow> bool" where
  "shelf_ok r \<longleftrightarrow> length (sh_retired r) = retired_slots \<and> sh_retired_next r < retired_slots"

lemma slots_ok_simps [simp]:
  "shelf_ok (r\<lparr>ro_pending := x\<rparr>) = shelf_ok r" "shelf_ok (r\<lparr>ro_pending_active := b\<rparr>) = shelf_ok r"
  "shelf_ok (r\<lparr>ro_names := ns\<rparr>) = shelf_ok r" "shelf_ok (r\<lparr>ro_presences := ps\<rparr>) = shelf_ok r"
  by (simp_all add: shelf_ok_def)

lemma turns_wrap:
  assumes "i < 8" "m < (8 :: nat)" "Suc k \<le> (i + 8 - m) mod 8"
  shows "i \<noteq> m \<and> k \<le> (i + 8 - (m + 1) mod 8) mod 8"
proof -
  have "m \<in> {0,1,2,3,4,5,6,7}" "i \<in> {0,1,2,3,4,5,6,7}" using assms by auto
  then show ?thesis using assms(3) by auto
qed

lemma turns_new: "m < (8 :: nat) \<Longrightarrow> (m + 8 - (m + 1) mod 8) mod 8 = 7"
proof -
  assume "m < 8"
  then have "m \<in> {0,1,2,3,4,5,6,7}" by auto
  then show ?thesis by auto
qed

lemma put_up_shelf_holds:
  assumes ok: "shelf_ok r" and h: "shelf_holds c (Suc k) r"
  shows "shelf_holds c k (put_up s r)"
proof (cases "sh_current r")
  case None
  with h obtain i where "i < 8" "sh_retired r ! i = Some c" "Suc k \<le> turns_left r i" by (auto simp: shelf_holds_def retired_slots_def)
  then show ?thesis using None by (auto simp: shelf_holds_def put_up_def retire_def turns_left_def retired_slots_def intro!: exI [of _ i])
next
  case (Some d)
  let ?m = "sh_retired_next r"
  have m: "?m < 8" "length (sh_retired r) = 8" using ok by (simp_all add: shelf_ok_def retired_slots_def)
  show ?thesis
  proof (cases "c = d \<and> k \<le> 7")
    case True
    then show ?thesis using Some m turns_new [OF m(1)]
      by (auto simp: shelf_holds_def put_up_def retire_def turns_left_def retired_slots_def intro!: exI [of _ ?m])
  next
    case False
    with h Some obtain i where i: "i < 8" "sh_retired r ! i = Some c" "Suc k \<le> turns_left r i"
      by (auto simp: shelf_holds_def retired_slots_def)
    from turns_wrap [OF i(1) m(1)] i(3) have "i \<noteq> ?m" "k \<le> (i + 8 - (?m + 1) mod 8) mod 8"
      by (simp_all add: turns_left_def retired_slots_def)
    then show ?thesis using Some i m
      by (auto simp: shelf_holds_def put_up_def retire_def turns_left_def retired_slots_def intro!: exI [of _ i])
  qed
qed

lemma publish_shelf_holds: "shelf_ok r \<Longrightarrow> shelf_holds c (Suc k) r \<Longrightarrow> shelf_holds c k (publish es r)"
  unfolding publish_def by (rule put_up_shelf_holds)

lemma shelf_holds_less: "shelf_holds c (Suc k) r \<Longrightarrow> shelf_holds c k r"
  by (auto simp: shelf_holds_def)

lemma held_update [simp]:
  "shelf_holds c k (r\<lparr>ro_pending := x\<rparr>) = shelf_holds c k r" "shelf_holds c k (r\<lparr>ro_pending_active := b\<rparr>) = shelf_holds c k r"
  "shelf_holds c k (r\<lparr>ro_names := ns\<rparr>) = shelf_holds c k r" "shelf_holds c k (r\<lparr>ro_presences := ps\<rparr>) = shelf_holds c k r"
  by (simp_all add: shelf_holds_def turns_left_def)


lemma begin_list_shelf_holds: "shelf_ok r \<Longrightarrow> shelf_holds c (Suc k) r \<Longrightarrow> shelf_holds c k (begin_list n r)"
  using shelf_holds_less [of c k r] by (simp add: begin_list_def Let_def publish_shelf_holds)

lemma notify_shelf_holds: "shelf_ok r \<Longrightarrow> shelf_holds c (Suc k) r \<Longrightarrow> shelf_holds c k (notify i s r)"
  by (simp add: notify_def Let_def publish_shelf_holds)

lemma step_shelf_holds: "roster_ok r \<Longrightarrow> shelf_holds c (Suc k) r \<Longrightarrow> shelf_holds c k (roster_step call r)"
  unfolding roster_ok_def shelf_ok_def [symmetric] using shelf_holds_less [of c k r]
  by (cases call)
    (simp_all add: begin_list_shelf_holds notify_shelf_holds set_friend_name_def set_presence_def clear_roster_def remove_friend_def feed_roster_def
       Let_def publish_shelf_holds split: option.split)

lemma run_shelf_holds: "roster_ok r \<Longrightarrow> shelf_holds c (length cs) r \<Longrightarrow> shelf_holds c 0 (fold roster_step cs r)"
proof (induction cs arbitrary: r)
  case (Cons call cs)
  then show ?case using step_shelf_holds [of r c "length cs" call] roster.fold_step_inv by simp
qed simp

text \<open>The snapshots alive: the published one and the retired ones.\<close>

definition alive :: "'m shelf_scheme \<Rightarrow> shared set" where
  "alive r = {c. sh_current r = Some c \<or> Some c \<in> set (sh_retired r)}"

text \<open>C38: A text the game read from the roster stays in memory through the next eight calls: its snapshot is still the published one or one of the eight retired ones.\<close>

theorem read_text_stays:
  assumes "sh_current (fold roster_step cs new_roster) = Some c" and "length ds \<le> 8"
  shows "c \<in> alive (fold roster_step (cs @ ds) new_roster)"
proof -
  let ?r = "fold roster_step cs new_roster" and ?t = "fold roster_step (cs @ ds) new_roster"
  have ok: "roster_ok ?r" "roster_ok ?t" by (rule roster.fold_inv [OF new_roster_ok])+
  have "shelf_holds c (length ds) ?r" using assms by (simp add: shelf_holds_def retired_slots_def)
  then have "shelf_holds c 0 ?t" using run_shelf_holds [OF ok(1), of c ds] by simp
  then show ?thesis using ok(2) by (auto simp: shelf_holds_def alive_def roster_ok_def in_set_conv_nth)
qed

theorem read_text_stays_witness:
  "(0, snapshot_of [\<lparr>fe_id = 7, fe_name = decimal 7, fe_online = True, fe_presence = no_presence\<rparr>])
     \<in> alive (fold roster_step ([Notify 7 0] @ replicate 8 (Notify 7 2)) new_roster)"
  by (rule read_text_stays) (simp_all add: new_roster_def notify_def upsert_def publish_def put_up_def retire_def live_entries_def
      status_online_def status_busy_def no_presence_def)

subsection \<open>A name that comes during a list\<close>

text \<open>A friend's name learnt while a list is being received is published at once and lost with the next friend of the list: the roster shows the account number again although the name is remembered.\<close>

theorem name_lost_in_list:
  "let r = fold roster_step [BeginList 2, Notify 1 0, SetName 1 (bytes_of ''Ada'')] new_roster; t = notify 2 0 r
   in name_at r 0 = bytes_of ''Ada'' \<and> ro_names t 1 = Some (bytes_of ''Ada'') \<and> id_at t 0 = Some 1 \<and> name_at t 0 = decimal 1"
proof -
  have names: "bytes_of ''Ada'' \<noteq> []" "decimal 1 = [0x31]" "decimal 2 = [0x32]" by (simp_all add: bytes_of_def decimal.simps)
  show ?thesis
    by (simp add: Let_def begin_list_def notify_def upsert_def publish_def put_up_def retire_def live_entries_def set_friend_name_def names
        new_roster_def status_online_def snapshot_of_def name_at_def id_at_def entry_at_def snap_def entry_key_def no_presence_def
        insort_key.simps)
qed

end
