(* ===== verification/Social_Recent.thy ===== *)
theory Social_Recent
  imports Social_Roster
begin

section \<open>The people recently met and the friend requests\<close>

text \<open>
  The second half of \<^verbatim>\<open>src/runtime/compat/social_roster.h\<close>: the answer of the server, the class \<^verbatim>\<open>RecentList\<close>, and what a
  message about a friend does to the pending requests. The builder of the answer is the one of
  \<^verbatim>\<open>src/runtime/scenario/scenario_protocol.h\<close>.
\<close>

unbundle bit_operations_syntax

subsection \<open>The answer of the server\<close>

fun parse_people :: "bytes \<Rightarrow> nat \<Rightarrow> nat \<Rightarrow> friend_entry list option" where
  "parse_people p 0 at = Some []"
| "parse_people p (Suc n) at =
     (if at + 32 > length p then None
      else let i = le_join p at 8; party = le_join p (at + 8) 8; joinable = (p ! (at + 16) \<noteq> 0); status = p ! (at + 17);
             name_len = unat (le_join p (at + 24) 2); at1 = at + 26
        in if at1 + name_len + 2 > length p then None
        else let name = take name_len (drop at1 p); at2 = at1 + name_len; text_len = unat (le_join p at2 2); at3 = at2 + 2
        in if at3 + text_len > length p then None
        else map_option ((#) \<lparr>fe_id = i, fe_name = (if name = [] then decimal (unat i) else name),
               fe_online = (status = status_online \<or> status = status_busy),
               fe_presence = \<lparr>pr_party = (if joinable \<and> party \<noteq> 0 then party else 0), pr_joinable = (joinable \<and> party \<noteq> 0),
                 pr_text = take text_len (drop at3 p)\<rparr>\<rparr>)
             (parse_people p n (at3 + text_len)))"

definition parse_recently_met :: "bytes \<Rightarrow> friend_entry list option" where
  "parse_recently_met p = (if length p < 4 then None else parse_people p (unat (le_join p 0 4)) 4)"

definition person_bytes :: "friend_entry \<Rightarrow> bytes" where
  "person_bytes e = append_le (append_le (append_le (append_le (append_le (append_le (append_le []
       (fe_id e) 8) (pr_party (fe_presence e)) 8) (if pr_joinable (fe_presence e) then 1 else 0) 1)
       (ucast (if fe_online e then status_online else status_offline)) 1) 0 6) (word_of_nat (length (fe_name e))) 2
       @ fe_name e) (word_of_nat (length (pr_text (fe_presence e)))) 2 @ pr_text (fe_presence e)"

definition recently_met_payload :: "friend_entry list \<Rightarrow> bytes" where
  "recently_met_payload es = foldl (\<lambda>out e. out @ person_bytes e) (append_le [] (word_of_nat (length es)) 4) es"

subsection \<open>Reading what was written\<close>

lemma le_join_foldr: "le_join p off n = foldr (\<lambda>b v. push_bit 8 v OR ucast b) (take n (drop off p)) 0"
  by (simp add: le_join_def foldr_conv_foldl)

lemma low_byte: "(0xFF :: u64) = mask 8"
  by (simp add: mask_eq_exp_minus_1)

lemma byte_step: "push_bit 8 (take_bit n (drop_bit 8 v)) OR ucast (ucast (v AND 0xFF) :: u8) = (take_bit (n + 8) v :: u64)"
  unfolding low_byte by (rule bit_eqI) (auto simp: bit_simps)

lemma le_of_bytes: "foldr (\<lambda>b v. push_bit 8 v OR ucast b) (map (\<lambda>i. ucast (drop_bit (8 * i) v AND 0xFF) :: u8) [0..<n]) 0 = (take_bit (8 * n) v :: u64)"
proof (induction n arbitrary: v)
  case (Suc n)
  have "[0..<Suc n] = 0 # map Suc [0..<n]" by (simp add: map_Suc_upt upt_conv_Cons)
  moreover have "drop_bit (8 * Suc i) v = drop_bit (8 * i) (drop_bit 8 v)" for i by (simp add: drop_bit_drop_bit add.commute)
  ultimately show ?case using Suc.IH [of "drop_bit 8 v"] byte_step [of "8 * n" v]
    by (simp add: comp_def add.commute)
qed simp

lemma append_le_bytes: "append_le out v n = out @ append_le [] v n"
  by (simp add: append_le_def)

lemma le_join_append_le: "le_join (pre @ append_le [] v n @ post) (length pre) n = take_bit (8 * n) v"
  by (simp add: le_join_foldr) (simp add: append_le_def le_of_bytes)


lemma person_bytes_parts:
  "person_bytes e = append_le [] (fe_id e) 8 @ append_le [] (pr_party (fe_presence e)) 8
     @ append_le [] (if pr_joinable (fe_presence e) then 1 else 0) 1
     @ append_le [] (ucast (if fe_online e then status_online else status_offline)) 1 @ append_le [] 0 6
     @ append_le [] (word_of_nat (length (fe_name e))) 2 @ fe_name e
     @ append_le [] (word_of_nat (length (pr_text (fe_presence e)))) 2 @ pr_text (fe_presence e)"
  unfolding person_bytes_def by (simp add: append_le_def)

lemma length_person_bytes: "length (person_bytes e) = 28 + length (fe_name e) + length (pr_text (fe_presence e))"
  by (simp add: person_bytes_parts)

text \<open>What the reader makes of a person: a party that may not be joined is none, and a name is never empty.\<close>

definition as_read :: "friend_entry \<Rightarrow> friend_entry" where
  "as_read e = (let p = fe_presence e; open_party = (pr_joinable p \<and> pr_party p \<noteq> 0)
     in e\<lparr>fe_name := (if fe_name e = [] then decimal (unat (fe_id e)) else fe_name e),
          fe_presence := \<lparr>pr_party = (if open_party then pr_party p else 0), pr_joinable = open_party, pr_text = pr_text p\<rparr>\<rparr>)"

definition short_texts :: "friend_entry \<Rightarrow> bool" where
  "short_texts e \<longleftrightarrow> length (fe_name e) < 65536 \<and> length (pr_text (fe_presence e)) < 65536"

lemma as_read_fields:
  "as_read e = \<lparr>fe_id = fe_id e, fe_name = (if fe_name e = [] then decimal (unat (fe_id e)) else fe_name e), fe_online = fe_online e,
     fe_presence = \<lparr>pr_party = (if pr_joinable (fe_presence e) \<and> pr_party (fe_presence e) \<noteq> 0 then pr_party (fe_presence e) else 0),
       pr_joinable = (pr_joinable (fe_presence e) \<and> pr_party (fe_presence e) \<noteq> 0), pr_text = pr_text (fe_presence e)\<rparr>\<rparr>"
  by (cases e) (simp add: as_read_def Let_def)

lemma le_at:
  assumes "p = pre @ append_le [] v n @ post" "at = length pre"
  shows "le_join p at n = take_bit (8 * n) v"
  using le_join_append_le assms by simp

lemma byte_at:
  assumes "p = pre @ append_le [] v 1 @ post" "at = length pre"
  shows "p ! at = ucast (v AND 0xFF)"
  using assms by (simp add: append_le_def nth_append)

lemma length_read: "n < 65536 \<Longrightarrow> unat (take_bit 16 (word_of_nat n :: u64)) = n"
  by (simp only: unsigned_take_bit_eq unat_of_nat) (simp add: take_bit_eq_mod)

lemma take_bit_64: "take_bit 64 (v :: u64) = v"
  using take_bit_length_eq [of v] by simp

lemma parse_person:
  assumes p: "p = pre @ person_bytes e @ post" and e: "short_texts e"
  shows "parse_people p (Suc n) (length pre) = (if length (person_bytes e @ post) < 32 then None
    else map_option ((#) (as_read e)) (parse_people p n (length (pre @ person_bytes e))))"
proof (cases "length (person_bytes e @ post) < 32")
  case True
  then show ?thesis by (simp add: p)
next
  case False
  let ?a = "length pre" and ?pr = "fe_presence e"
  define i8 where "i8 = append_le [] (fe_id e) 8"
  define p8 where "p8 = append_le [] (pr_party ?pr) 8"
  define j1 where "j1 = append_le [] (if pr_joinable ?pr then 1 else 0 :: u64) 1"
  define s1 where "s1 = append_le [] (ucast (if fe_online e then status_online else status_offline) :: u64) 1"
  define z6 where "z6 = append_le [] (0 :: u64) 6"
  define n2 where "n2 = append_le [] (word_of_nat (length (fe_name e)) :: u64) 2"
  define t2 where "t2 = append_le [] (word_of_nat (length (pr_text ?pr)) :: u64) 2"
  note parts = i8_def p8_def j1_def s1_def z6_def n2_def t2_def
  have q: "p = pre @ i8 @ p8 @ j1 @ s1 @ z6 @ n2 @ fe_name e @ t2 @ pr_text ?pr @ post"
    by (simp add: p person_bytes_parts parts)
  have l: "length i8 = 8" "length p8 = 8" "length j1 = 1" "length s1 = 1" "length z6 = 6" "length n2 = 2" "length t2 = 2"
    by (simp_all add: parts)
  have id_read: "le_join p ?a 8 = fe_id e" using le_at [of p pre _ 8 "p8 @ j1 @ s1 @ z6 @ n2 @ fe_name e @ t2 @ pr_text ?pr @ post" ?a]
    by (simp add: q i8_def take_bit_64)
  have party: "le_join p (?a + 8) 8 = pr_party ?pr"
    using le_at [of p "pre @ i8" _ 8 "j1 @ s1 @ z6 @ n2 @ fe_name e @ t2 @ pr_text ?pr @ post" "?a + 8"] by (simp add: q p8_def l take_bit_64)
  have join: "p ! (?a + 16) = (if pr_joinable ?pr then 1 else 0)"
    using byte_at [of p "pre @ i8 @ p8" _ "s1 @ z6 @ n2 @ fe_name e @ t2 @ pr_text ?pr @ post" "?a + 16"] by (simp add: q j1_def l)
  have status: "p ! (?a + 17) = (if fe_online e then status_online else status_offline)"
    using byte_at [of p "pre @ i8 @ p8 @ j1" _ "z6 @ n2 @ fe_name e @ t2 @ pr_text ?pr @ post" "?a + 17"]
    by (simp add: q s1_def l status_online_def status_offline_def)
  have nlen: "unat (le_join p (?a + 24) 2) = length (fe_name e)"
    using le_at [of p "pre @ i8 @ p8 @ j1 @ s1 @ z6" _ 2 "fe_name e @ t2 @ pr_text ?pr @ post" "?a + 24"] e
    by (simp add: q n2_def l length_read short_texts_def)
  have tlen: "unat (le_join p (?a + 26 + length (fe_name e)) 2) = length (pr_text ?pr)"
    using le_at [of p "pre @ i8 @ p8 @ j1 @ s1 @ z6 @ n2 @ fe_name e" _ 2 "pr_text ?pr @ post" "?a + 26 + length (fe_name e)"] e
    by (simp add: q t2_def l length_read short_texts_def)
  have name: "take (length (fe_name e)) (drop (?a + 26) p) = fe_name e" by (simp add: q l)
  have word: "take (length (pr_text ?pr)) (drop (?a + 26 + length (fe_name e) + 2) p) = pr_text ?pr" by (simp add: q l)
  have len: "length p = ?a + 28 + length (fe_name e) + length (pr_text ?pr) + length post" by (simp add: q l)
  have shows_online: "((if fe_online e then status_online else status_offline) = status_online
       \<or> (if fe_online e then status_online else status_offline) = status_busy) = fe_online e"
    by (simp add: status_offline_def status_online_def status_busy_def)
  have shows_open: "((if pr_joinable ?pr then 1 else 0 :: u8) \<noteq> 0) = pr_joinable ?pr" by simp
  have fits: "(?a + 32 > length p) = False" "(?a + 26 + length (fe_name e) + 2 > length p) = False"
      "(?a + 26 + length (fe_name e) + 2 + length (pr_text ?pr) > length p) = False"
    using False by (auto simp: p person_bytes_parts)
  have "parse_people p (Suc n) ?a
      = map_option ((#) (as_read e)) (parse_people p n (?a + 26 + length (fe_name e) + 2 + length (pr_text ?pr)))"
    by (simp only: parse_people.simps(2) Let_def id_read party join status nlen tlen name word fits if_False shows_online shows_open
        as_read_fields)
  moreover have "?a + 26 + length (fe_name e) + 2 + length (pr_text ?pr) = length (pre @ person_bytes e)"
    by (simp add: length_person_bytes)
  ultimately show ?thesis using False by (simp only: if_False)
qed


lemma parse_people_bytes:
  assumes "\<forall>e\<in>set es. short_texts e" and "p = pre @ concat (map person_bytes es)"
  shows "parse_people p (length es) (length pre) =
    (if es \<noteq> [] \<and> length (fe_name (last es)) + length (pr_text (fe_presence (last es))) < 4 then None else Some (map as_read es))"
  using assms
proof (induction es arbitrary: pre)
  case (Cons e es)
  let ?post = "concat (map person_bytes es)"
  have step: "parse_people p (Suc (length es)) (length pre) = (if length (person_bytes e @ ?post) < 32 then None
      else map_option ((#) (as_read e)) (parse_people p (length es) (length (pre @ person_bytes e))))"
    by (rule parse_person) (use Cons.prems in simp_all)
  have rest: "parse_people p (length es) (length (pre @ person_bytes e)) =
    (if es \<noteq> [] \<and> length (fe_name (last es)) + length (pr_text (fe_presence (last es))) < 4 then None else Some (map as_read es))"
    by (rule Cons.IH) (use Cons.prems in simp_all)
  have "length (person_bytes e @ ?post) < 32 \<longleftrightarrow> es = [] \<and> length (fe_name e) + length (pr_text (fe_presence e)) < 4"
    by (cases es) (auto simp: length_person_bytes)
  then show ?case using step rest by (simp only: list.size) auto
qed simp

lemma recently_met_payload_concat: "recently_met_payload es = append_le [] (word_of_nat (length es)) 4 @ concat (map person_bytes es)"
proof -
  have "foldl (\<lambda>out e. out @ person_bytes e) out es = out @ concat (map person_bytes es)" for out
    by (induction es arbitrary: out) simp_all
  then show ?thesis by (simp add: recently_met_payload_def)
qed

text \<open>C39: Of any answer the server can build, the reader gives back every person (a party that may not be joined as none, an empty name as the account number), except that it refuses the whole answer when the name and the text of the last person are together shorter than four bytes.\<close>

theorem recently_met_round_trip:
  assumes "\<forall>e\<in>set es. short_texts e" and "length es < 2 ^ 32"
  shows "parse_recently_met (recently_met_payload es) =
    (if es \<noteq> [] \<and> length (fe_name (last es)) + length (pr_text (fe_presence (last es))) < 4 then None else Some (map as_read es))"
proof -
  let ?h = "append_le [] (word_of_nat (length es)) 4"
  have "le_join (recently_met_payload es) 0 4 = take_bit 32 (word_of_nat (length es))"
    using le_join_append_le [of "[]" "word_of_nat (length es)" 4 "concat (map person_bytes es)"] by (simp add: recently_met_payload_concat)
  moreover have "unat (take_bit 32 (word_of_nat (length es) :: u64)) = length es"
    using assms(2) by (simp only: unsigned_take_bit_eq unat_of_nat) (simp add: take_bit_eq_mod)
  moreover have "parse_people (recently_met_payload es) (length es) (length ?h) =
    (if es \<noteq> [] \<and> length (fe_name (last es)) + length (pr_text (fe_presence (last es))) < 4 then None else Some (map as_read es))"
    by (rule parse_people_bytes) (use assms(1) in \<open>simp_all add: recently_met_payload_concat\<close>)
  moreover have "\<not> length (recently_met_payload es) < 4" by (simp add: recently_met_payload_concat)
  ultimately show ?thesis by (simp only: parse_recently_met_def if_False length_append_le list.size add_0)
qed

theorem recently_met_round_trip_witness:
  "parse_recently_met (recently_met_payload [\<lparr>fe_id = 9, fe_name = bytes_of ''Bob'', fe_online = True, fe_presence = no_presence\<rparr>]) = None"
  using recently_met_round_trip [of "[\<lparr>fe_id = 9, fe_name = bytes_of ''Bob'', fe_online = True, fe_presence = no_presence\<rparr>]"]
  by (simp add: short_texts_def no_presence_def)

subsection \<open>The list\<close>

record recent_list = shelf +
  rl_refreshing :: bool
  rl_started :: u64
  rl_server :: "friend_entry list"
  rl_requests :: "friend_entry list"

definition new_recent :: recent_list where
  "new_recent = \<lparr>sh_current = None, sh_retired = replicate retired_slots None, sh_retired_next = 0, sh_made = 0,
     rl_refreshing = False, rl_started = 0, rl_server = [], rl_requests = []\<rparr>"

definition refresh_seconds :: u64 where "refresh_seconds = 5"

definition request_text :: bytes where "request_text = bytes_of ''Sent you a friend request''"

definition busy :: "u64 \<Rightarrow> recent_list \<Rightarrow> bool" where
  "busy now r \<longleftrightarrow> rl_refreshing r \<and> now - rl_started r < refresh_seconds"

text \<open>\<^verbatim>\<open>PublishLocked\<close>: the requests, then the server's people who are no request, stably parted into online and offline.\<close>

definition recent_entries :: "recent_list \<Rightarrow> friend_entry list" where
  "recent_entries r = (let es = rl_requests r @ filter (\<lambda>e. \<not> list_ex (\<lambda>q. fe_id q = fe_id e) (rl_requests r)) (rl_server r)
     in filter fe_online es @ filter (\<lambda>e. \<not> fe_online e) es)"

definition publish_recent :: "recent_list \<Rightarrow> recent_list" where
  "publish_recent r = (let es = recent_entries r
     in put_up \<lparr>sn_entries = es, sn_online = word_of_nat (length (filter fe_online es))\<rparr> r)"

definition begin_refresh :: "u64 \<Rightarrow> recent_list \<Rightarrow> bool \<times> recent_list" where
  "begin_refresh now r = (if busy now r then (False, r) else (True, r\<lparr>rl_refreshing := True, rl_started := now\<rparr>))"

definition end_refresh :: "recent_list \<Rightarrow> recent_list" where
  "end_refresh r = r\<lparr>rl_refreshing := False\<rparr>"

text \<open>\<^verbatim>\<open>Refreshing\<close>: whether it is busy, and whether it just ended without an answer.\<close>

definition refreshing :: "u64 \<Rightarrow> recent_list \<Rightarrow> bool \<times> bool \<times> recent_list" where
  "refreshing now r = (if rl_refreshing r \<and> \<not> busy now r then (False, True, r\<lparr>rl_refreshing := False\<rparr>) else (busy now r, False, r))"

definition set_list :: "friend_entry list \<Rightarrow> recent_list \<Rightarrow> recent_list" where
  "set_list es r = publish_recent (r\<lparr>rl_refreshing := False, rl_server := es\<rparr>)"

definition request_entry :: "u64 \<Rightarrow> friend_entry" where
  "request_entry i = \<lparr>fe_id = i, fe_name = decimal (unat i), fe_online = True, fe_presence = no_presence\<lparr>pr_text := request_text\<rparr>\<rparr>"

definition is_pending_request :: "recent_list \<Rightarrow> u64 \<Rightarrow> bool" where
  "is_pending_request r i \<longleftrightarrow> list_ex (\<lambda>e. fe_id e = i) (rl_requests r)"

definition add_request :: "u64 \<Rightarrow> recent_list \<Rightarrow> nat \<times> recent_list" where
  "add_request i r = (if is_pending_request r i then (length (rl_requests r), r)
     else let r1 = publish_recent (r\<lparr>rl_requests := rl_requests r @ [request_entry i]\<rparr>) in (length (rl_requests r1), r1))"

fun erase_first :: "u64 \<Rightarrow> friend_entry list \<Rightarrow> friend_entry list option" where
  "erase_first i [] = None"
| "erase_first i (e # es) = (if fe_id e = i then Some es else map_option ((#) e) (erase_first i es))"

definition remove_request :: "u64 \<Rightarrow> recent_list \<Rightarrow> bool \<times> recent_list" where
  "remove_request i r = (case erase_first i (rl_requests r) of
      None \<Rightarrow> (False, r) | Some es \<Rightarrow> (True, publish_recent (r\<lparr>rl_requests := es\<rparr>)))"

fun rename_first :: "u64 \<Rightarrow> bytes \<Rightarrow> friend_entry list \<Rightarrow> friend_entry list option" where
  "rename_first i name [] = None"
| "rename_first i name (e # es) = (if fe_id e \<noteq> i \<or> fe_name e = name then map_option ((#) e) (rename_first i name es)
     else Some (e\<lparr>fe_name := name\<rparr> # es))"

definition set_request_name :: "u64 \<Rightarrow> bytes \<Rightarrow> recent_list \<Rightarrow> bool \<times> recent_list" where
  "set_request_name i name r = (if name = [] then (False, r) else case rename_first i name (rl_requests r) of
      None \<Rightarrow> (False, r) | Some es \<Rightarrow> (True, publish_recent (r\<lparr>rl_requests := es\<rparr>)))"

definition clear_requests :: "recent_list \<Rightarrow> nat \<times> recent_list" where
  "clear_requests r = (let n = length (rl_requests r) in if n = 0 then (0, r) else (n, publish_recent (r\<lparr>rl_requests := []\<rparr>)))"

definition recent_party_at :: "recent_list \<Rightarrow> nat \<Rightarrow> u64" where
  "recent_party_at r i = (case entry_at (snap r) i of None \<Rightarrow> 0 | Some e \<Rightarrow> if fe_online e then pr_party (fe_presence e) else 0)"

subsection \<open>Messages about friends\<close>

datatype request_change = ChangeNone | ChangeAdded | ChangeCleared

record request_event =
  re_change :: request_change
  re_account :: u64
  re_pending :: nat
  re_reason :: "string option"

definition no_request_event :: request_event where
  "no_request_event = \<lparr>re_change = ChangeNone, re_account = 0, re_pending = 0, re_reason = None\<rparr>"

definition sym_invite_notify :: u64 where "sym_invite_notify = 0xca09b0b36bd981b7"
definition sym_remove_notify :: u64 where "sym_remove_notify = 0xe06972f49cd72265"
definition sym_remove_response :: u64 where "sym_remove_response = 0xc2bf83a08ea3a955"

definition ending_reason :: "u64 \<Rightarrow> string option" where
  "ending_reason symbol = map_of [(0x1bbda7fa06af4627, ''FriendAcceptSuccess''), (0xc237c84c31d3ae05, ''FriendAcceptNotify''),
     (sym_remove_notify, ''FriendRemoveNotify''), (sym_remove_response, ''FriendRemoveResponse''),
     (0x191aa30801ec6d03, ''FriendWithdrawnNotify''), (0xb9b86c0ce8e8d0c1, ''FriendRejectNotify'')] symbol"

definition is_friend_change_symbol :: "u64 \<Rightarrow> bool" where
  "is_friend_change_symbol symbol \<longleftrightarrow> symbol \<in> {0xc237c84c31d3ae05, 0x1bbda7fa06af4627, 0xe06972f49cd72265, 0xc2bf83a08ea3a955,
     0x191aa30801ec6d03, 0xb9b86c0ce8e8d0c1, 0xca09b0b36bd981b7, 0x7f0c6a3ac83c6f77}"

definition apply_friend_message :: "u64 \<Rightarrow> bytes \<Rightarrow> recent_list \<Rightarrow> request_event \<times> recent_list" where
  "apply_friend_message symbol p r =
     (let adds = (symbol = sym_invite_notify); ends = (if adds then None else ending_reason symbol)
      in if \<not> adds \<and> ends = None then (no_request_event, r)
      else if length p < 16 then (no_request_event, r)
      else let i = le_join p 8 8 in if i = 0 then (no_request_event, r)
      else if adds
        then let known = is_pending_request r i; (n, r1) = add_request i r
          in (\<lparr>re_change = (if known then ChangeNone else ChangeAdded), re_account = i, re_pending = n, re_reason = None\<rparr>, r1)
        else let (removed, r1) = remove_request i r
          in if removed then (\<lparr>re_change = ChangeCleared, re_account = i, re_pending = length (rl_requests r1), re_reason = ends\<rparr>, r1)
          else (no_request_event, r))"

definition parse_friend_removal :: "u64 \<Rightarrow> bytes \<Rightarrow> u64 option" where
  "parse_friend_removal symbol p =
     (if symbol \<noteq> sym_remove_notify \<and> symbol \<noteq> sym_remove_response then None
      else if length p < 16 then None else let i = le_join p 8 8 in if i = 0 then None else Some i)"

definition is_friend_change :: "string option \<Rightarrow> bool" where
  "is_friend_change name = (case name of None \<Rightarrow> False
     | Some n \<Rightarrow> (let m = (if take 3 n = ''SNS'' then drop 3 n else n)
         in m \<in> {''FriendAcceptNotify'', ''FriendAcceptSuccess'', ''FriendRemoveNotify'', ''FriendRemoveResponse'',
              ''FriendWithdrawnNotify'', ''FriendRejectNotify'', ''FriendInviteNotify'', ''FriendInviteSuccess''}))"

subsection \<open>Runs\<close>

datatype recent_call = BeginRefresh u64 | EndRefresh | Refreshing u64 | SetList "friend_entry list" | AddRequest u64 | RemoveRequest u64
  | SetRequestName u64 bytes | ClearRequests | FriendMessage u64 bytes

fun recent_step :: "recent_call \<Rightarrow> recent_list \<Rightarrow> recent_list" where
  "recent_step (BeginRefresh now) r = snd (begin_refresh now r)"
| "recent_step EndRefresh r = end_refresh r"
| "recent_step (Refreshing now) r = snd (snd (refreshing now r))"
| "recent_step (SetList es) r = set_list es r"
| "recent_step (AddRequest i) r = snd (add_request i r)"
| "recent_step (RemoveRequest i) r = snd (remove_request i r)"
| "recent_step (SetRequestName i name) r = snd (set_request_name i name r)"
| "recent_step ClearRequests r = snd (clear_requests r)"
| "recent_step (FriendMessage symbol p) r = snd (apply_friend_message symbol p r)"

text \<open>The requests are people of their own, online, with the text of a request; what is published is up to date.\<close>

definition requests_ok :: "friend_entry list \<Rightarrow> bool" where
  "requests_ok es \<longleftrightarrow> distinct (ids es) \<and> (\<forall>e\<in>set es. fe_online e \<and> pr_text (fe_presence e) = request_text)"

definition recent_ok :: "recent_list \<Rightarrow> bool" where
  "recent_ok r \<longleftrightarrow> requests_ok (rl_requests r)
     \<and> snap r = \<lparr>sn_entries = recent_entries r, sn_online = word_of_nat (length (filter fe_online (recent_entries r)))\<rparr>"

lemma recent_entries_update [simp]:
  "recent_entries (r\<lparr>rl_refreshing := b\<rparr>) = recent_entries r" "recent_entries (r\<lparr>rl_started := t\<rparr>) = recent_entries r"
  "recent_entries (put_up s r) = recent_entries r"
  by (simp_all add: recent_entries_def put_up_def retire_def split: option.split)

lemma recent_fields [simp]: "rl_requests (put_up s r) = rl_requests r"
  by (simp add: put_up_def retire_def split: option.split)

lemma snap_refreshing [simp]: "snap (r\<lparr>rl_refreshing := b\<rparr>) = snap r" "snap (r\<lparr>rl_started := t\<rparr>) = snap r"
  by (simp_all add: snap_def)

lemma publish_recent_ok: "requests_ok (rl_requests r) \<Longrightarrow> recent_ok (publish_recent r)"
  by (simp add: recent_ok_def publish_recent_def Let_def)

lemma erase_first_ok: "erase_first i es = Some fs \<Longrightarrow> requests_ok es \<Longrightarrow> requests_ok fs \<and> set (ids fs) = set (ids es) - {i}"
  by (induction es arbitrary: fs) (auto simp: requests_ok_def split: if_splits)

lemma rename_first_ok: "rename_first i name es = Some fs \<Longrightarrow> requests_ok es \<Longrightarrow> requests_ok fs \<and> ids fs = ids es"
  by (induction es arbitrary: fs) (auto simp: requests_ok_def split: if_splits)

lemma is_request_ids: "is_pending_request r i \<longleftrightarrow> i \<in> set (ids (rl_requests r))"
  by (auto simp: is_pending_request_def list_ex_iff ids_def)

lemma add_request_ok: "recent_ok r \<Longrightarrow> recent_ok (snd (add_request i r))"
  by (auto simp: add_request_def Let_def is_request_ids intro!: publish_recent_ok)
    (auto simp: recent_ok_def requests_ok_def request_entry_def no_presence_def)

lemma remove_request_ok: "recent_ok r \<Longrightarrow> recent_ok (snd (remove_request i r))"
  by (auto simp: remove_request_def recent_ok_def dest: erase_first_ok intro!: publish_recent_ok [unfolded recent_ok_def] split: option.split)

lemma set_request_name_ok: "recent_ok r \<Longrightarrow> recent_ok (snd (set_request_name i name r))"
  by (auto simp: set_request_name_def recent_ok_def dest: rename_first_ok intro!: publish_recent_ok [unfolded recent_ok_def] split: option.split)

lemma clear_requests_ok: "recent_ok r \<Longrightarrow> recent_ok (snd (clear_requests r))"
  by (auto simp: clear_requests_def Let_def requests_ok_def intro!: publish_recent_ok)

lemma friend_message_ok: "recent_ok r \<Longrightarrow> recent_ok (snd (apply_friend_message symbol p r))"
  using add_request_ok [of r "le_join p 8 8"] remove_request_ok [of r "le_join p 8 8"]
  by (auto simp: apply_friend_message_def Let_def split: prod.split)

interpretation recent: fold_system recent_step recent_ok
proof
  fix r c assume r: "recent_ok r"
  then have "recent_ok (r\<lparr>rl_refreshing := b\<rparr>)" "recent_ok (r\<lparr>rl_refreshing := b, rl_started := t\<rparr>)" for b t
    by (simp_all add: recent_ok_def)
  moreover have "recent_ok (set_list es r)" for es
    unfolding set_list_def by (rule publish_recent_ok) (use r in \<open>simp add: recent_ok_def\<close>)
  ultimately show "recent_ok (recent_step c r)"
    using r by (cases c) (auto simp: begin_refresh_def end_refresh_def refreshing_def add_request_ok remove_request_ok
        set_request_name_ok clear_requests_ok friend_message_ok)
qed

lemma new_recent_ok: "recent_ok new_recent"
  by (simp add: recent_ok_def requests_ok_def new_recent_def snap_def empty_snapshot_def recent_entries_def)

text \<open>C40: After any calls the people the game reads are the pending requests, each once, online and with the text of a request, then the server's other people, the online ones first and otherwise in the order of the server.\<close>

theorem requests_come_first:
  "let r = fold recent_step calls new_recent; others = filter (\<lambda>e. fe_id e \<notin> set (ids (rl_requests r))) (rl_server r)
   in sn_entries (snap r) = rl_requests r @ filter fe_online others @ filter (\<lambda>e. \<not> fe_online e) others
     \<and> requests_ok (rl_requests r)"
proof -
  have ok: "recent_ok (fold recent_step calls new_recent)" by (rule recent.fold_inv [OF new_recent_ok])
  have other: "\<not> list_ex (\<lambda>q. fe_id q = fe_id e) es \<longleftrightarrow> fe_id e \<notin> set (ids es)" for e es by (auto simp: list_ex_iff ids_def image_iff)
  have "filter fe_online es = es \<and> filter (\<lambda>e. \<not> fe_online e) es = []" if "requests_ok es" for es
    using that by (auto simp: requests_ok_def filter_id_conv filter_empty_conv)
  with ok show ?thesis by (auto simp: Let_def recent_ok_def recent_entries_def other)
qed

text \<open>A refresh that gets no answer ends by itself: after any calls, five seconds or more after it began (or with a clock that ran back) the list is not busy, and the next refresh may start.\<close>

lemma refresh_ends:
  assumes "r = fold recent_step calls new_recent" and "now - rl_started r \<ge> refresh_seconds"
  shows "fst (refreshing now r) = False" and "fst (begin_refresh now r) = True"
  using assms(2) by (auto simp: refreshing_def begin_refresh_def busy_def)

end
