(* ===== verification/Spec2Isabelle.thy ===== *)
theory Spec2Isabelle
  imports Nevr_Prelude Obb_Source Obb_Footer Fat16_Volume Fat16_Chains Fat16_Files Fat16_Directory
    Block_Hash Ws_Accept Ws_Handshake Ws_Frames Ws_Stream Ws_Wire Reader_Gate Call_Ring Rate_Limiter
    Lobby_Hold Auth_Token Device_Login Device_Flow Party_Wire Party_State Party_Log Party_Runs Party_Invites Party_Joins
    Sha256 Zip_Listing Zip_Extract Zip_Archive Evr_Codec Evr_Config Evr_Utf8 Lobby_Frame
    Data_Files Data_Disk Data_Staging Data_Swap Data_Sweep Data_Fetch Fetch_Safety Fetch_Keeps Fetch_Ends Fetch_Resume
    Pack_Json Pack_Step Pack_Safety Pack_Order Pack_Run Pack_Disk Data_Step Data_Looks Data_Release
    Social_Roster Social_Recent
begin

text \<open>
  NEVR Runtime (\<^verbatim>\<open>src/src\<close>) keeps Echo VR playable: a DLL on the PC and a repacked library on the Quest log the player
  in, translate the game's messages for the community service, keep its friends and its party, and bring
  the game's data onto the device. This development models the parts whose result does not depend on the memory of the
  running game: parsers of bytes that come from files and peers, codecs, the login loop, the
  party state, the lock-free structures of the hooks, the log limiter. Definitions follow the C++ functions
  statement by statement and compute; integers keep their width wherever the code can wrap (8 to 64 bits), offsets
  the code has proved to be in range are natural numbers; every refusal and early return is a value.
\<close>

subsection \<open>Prelude\<close>

text \<open>
  \<^verbatim>\<open>Nevr_Prelude\<close>: byte strings, little-endian readers, searches of string views, the result of a fallible step, and the
  three interfaces of state machines: a step relation with an invariant (\<^verbatim>\<open>step_system\<close>), a step function folded
  over events (\<^verbatim>\<open>fold_system\<close>), and calls with a precondition and a property (\<^verbatim>\<open>contract_system\<close>). Each is
  interpreted on the model that provides it (the ring, the gate, the hold, the party).
\<close>

subsection \<open>Game data in the store archive (src/src/quest/obb)\<close>

text \<open>
  In \<^verbatim>\<open>src/src/quest/obb\<close>: \<^verbatim>\<open>Obb_Source\<close> has the exact reads of \<^verbatim>\<open>ByteSource\<close>, the in-memory source and \<^verbatim>\<open>DecryptingSource\<close> (sectors of 512 bytes, chunks of 256
  sectors); the cipher is a parameter, a function of the initial vector and the sector. \<^verbatim>\<open>Obb_Footer\<close> is \<^verbatim>\<open>ParseObbFooter\<close>.
  \<^verbatim>\<open>Fat16_Volume\<close> is \<^verbatim>\<open>Fat16Volume::Open\<close> and \<^verbatim>\<open>ChainRuns\<close>, \<^verbatim>\<open>Fat16_Chains\<close> its specification without runs and marks,
  \<^verbatim>\<open>Fat16_Files\<close> is \<^verbatim>\<open>ReadFile\<close> and \<^verbatim>\<open>ReadDirectoryBytes\<close>, \<^verbatim>\<open>Fat16_Directory\<close> is \<^verbatim>\<open>ReadDirectory\<close> and \<^verbatim>\<open>WalkDirectory\<close>. Shown: random access equals access
  to the decrypted image; a volume that opens lies inside its image; the runs of a chain are its clusters, loops and
  bad marks refused; a file is its clusters cut at its size; no path of a walk leaves the target. The chain loop ends because
  a cluster is followed once; the walk has the depth limit of the code.
\<close>

subsection \<open>Game data from the network (src/src/quest/data)\<close>

text \<open>
  In \<^verbatim>\<open>src/src/quest/data\<close>: \<^verbatim>\<open>Block_Hash\<close> is the interface of a streaming block digest, interpreted for \<^verbatim>\<open>Sha256\<close> (\<^verbatim>\<open>sha256.cpp\<close>) and for the SHA-1 of \<^verbatim>\<open>Ws_Accept\<close>: how
  the input is cut does not show. \<^verbatim>\<open>Zip_Listing\<close> is \<^verbatim>\<open>SafeEntryName\<close> and the reader of the central directory, \<^verbatim>\<open>Zip_Extract\<close> is
  \<^verbatim>\<open>ExtractData\<close>, \<^verbatim>\<open>LocateData\<close> and \<^verbatim>\<open>ReadZipEntry\<close>, \<^verbatim>\<open>Zip_Archive\<close> is \<^verbatim>\<open>MakeDirsBelow\<close> and \<^verbatim>\<open>ExtractZip\<close> over a file system that is a parameter (a state and the
  five calls the code makes). zlib is a parameter: a state, \<^verbatim>\<open>inflate\<close> and the checksum. The loop around \<^verbatim>\<open>inflate\<close> is a
  \<^verbatim>\<open>partial_function\<close>, so not returning is a value: with the documented progress of zlib (\<^verbatim>\<open>inflate_progress\<close>: a successful call reads or
  writes something) \<^verbatim>\<open>extraction_ends\<close> gives its result. What an accepted listing guarantees, that an extracted entry has the
  recorded size and checksum, and that no created path leaves the directory, are proved without that hypothesis.

  The install of the data: \<^verbatim>\<open>Data_Files\<close> has the file calls of \<^verbatim>\<open>staging.cpp\<close> as a parameter (a record of functions on a world of any type); a call may
  fail, and a call that fails from some point on is the process killed there. What a POSIX file system promises of them is \<^verbatim>\<open>posix_laws\<close> over a view of
  the world (the item at a path); \<^verbatim>\<open>Data_Disk\<close> is a disk on which they hold and the witnesses run. \<^verbatim>\<open>Data_Staging\<close> is \<^verbatim>\<open>staging.cpp\<close> (marker files, \<^verbatim>\<open>RemoveTree\<close>,
  \<^verbatim>\<open>InstallStaged\<close>, \<^verbatim>\<open>RecoverReplaced\<close>, \<^verbatim>\<open>CleanLeftovers\<close>), \<^verbatim>\<open>Data_Swap\<close> that the swap never loses the old tree, \<^verbatim>\<open>Data_Sweep\<close> that the sweep deletes only marked
  items. \<^verbatim>\<open>Data_Fetch\<close> is \<^verbatim>\<open>RunFetch\<close> of \<^verbatim>\<open>fetch.cpp\<close> over a transport of any behaviour; the attempts are counted down by \<^verbatim>\<open>fc_attempts\<close>, which is the bound of its loop. \<^verbatim>\<open>Fetch_Safety\<close>,
  \<^verbatim>\<open>Fetch_Keeps\<close> and \<^verbatim>\<open>Fetch_Ends\<close> refine it to one sentence: a run that says it is done put in place what a file with the pinned digest unpacks to, any
  other run leaves what was there. \<^verbatim>\<open>Fetch_Resume\<close> is the order of the bytes of a resumed download.

  The pack in the package of the game: \<^verbatim>\<open>Pack_Json\<close> is \<^verbatim>\<open>pack_rules.h\<close> and \<^verbatim>\<open>ParsePackJson\<close> (the calls on a JSON document are a parameter), \<^verbatim>\<open>Pack_Step\<close> is
  \<^verbatim>\<open>RunPackStep\<close>, \<^verbatim>\<open>Pack_Safety\<close> what each of its calls can touch, \<^verbatim>\<open>Pack_Order\<close> and \<^verbatim>\<open>Pack_Run\<close> that the manifest comes last and the stock manifest is kept,
  \<^verbatim>\<open>Pack_Disk\<close> that the step returns, with a small package placed on a disk.

  The step that runs first: \<^verbatim>\<open>Data_Step\<close> is \<^verbatim>\<open>Resolve\<close> of \<^verbatim>\<open>data_root.h\<close>, \<^verbatim>\<open>Decide\<close> of \<^verbatim>\<open>plan.h\<close>, the pinned packages and \<^verbatim>\<open>RunDataStep\<close>; it calls the sweep, the recovery and the
  fetch above. \<^verbatim>\<open>Data_Looks\<close> is what a run that only looks leaves as it was and what a verified package check says of the disk, \<^verbatim>\<open>Data_Release\<close> which
  decision leads to which result.
\<close>

subsection \<open>The loopback WebSocket (src/src/quest/net/ws_wire.cpp)\<close>

text \<open>
  In \<^verbatim>\<open>src/src/quest/net/ws_wire.cpp\<close>: \<^verbatim>\<open>Ws_Accept\<close> (SHA-1, Base64, the accept key), \<^verbatim>\<open>Ws_Handshake\<close> (\<^verbatim>\<open>ParseUpgradeRequest\<close> and the access token in the request target), \<^verbatim>\<open>Ws_Frames\<close> (\<^verbatim>\<open>FrameDecoder\<close> and the
  frame builders), \<^verbatim>\<open>Ws_Stream\<close> (how reads are cut does not show; the buffer is bounded) and \<^verbatim>\<open>Ws_Wire\<close> (the decoder fed the bytes of any frames computes the assembly
  of RFC 6455, stated as a specification on whole frames).
\<close>

subsection \<open>Messages of the game service (src/src/runtime/compat)\<close>

text \<open>
  In \<^verbatim>\<open>src/src/runtime/compat\<close>: \<^verbatim>\<open>Evr_Codec\<close> is the framing and the login messages of \<^verbatim>\<open>evr_codec.cpp\<close>, \<^verbatim>\<open>Evr_Config\<close> its resource symbols, its JSON scanner and the key of config requests and
  replies, \<^verbatim>\<open>Evr_Utf8\<close> that the strings the scanner decodes are well-formed UTF-8 whatever it is given. The scanner skips values by mutual recursion; it ends because each
  call leaves less text, which is shown on its domain before the termination proof. \<^verbatim>\<open>Lobby_Frame\<close> is \<^verbatim>\<open>lobby_frame.h\<close>: the decode of the lobby messages, the text of their records and the
  limit on their number.
\<close>

subsection \<open>The party (src/src/runtime/compat/social_party.h)\<close>

text \<open>
  In \<^verbatim>\<open>src/src/runtime/compat/social_party.h\<close>: \<^verbatim>\<open>Party_Wire\<close> has the messages, \<^verbatim>\<open>Party_State\<close> the class \<^verbatim>\<open>State\<close>: one function per method, its mutex making each call a step. \<^verbatim>\<open>Party_Log\<close> is what the facade
  knows from the events alone, \<^verbatim>\<open>Party_Runs\<close> any sequence of calls, \<^verbatim>\<open>Party_Invites\<close> and \<^verbatim>\<open>Party_Joins\<close> the promises on invites, on joins that are abandoned and on the
  pace of requests. The frames of \<^verbatim>\<open>Party_Wire\<close> go through \<^verbatim>\<open>Evr_Codec\<close> in the bridge; member identifiers are SHA-1 of \<^verbatim>\<open>Ws_Accept\<close>.
\<close>

subsection \<open>Friends and recently met players (src/src/runtime/compat/social_roster.h)\<close>

text \<open>
  \<^verbatim>\<open>Social_Roster\<close> is the class \<^verbatim>\<open>Roster\<close> with the messages that feed it, \<^verbatim>\<open>Social_Recent\<close> the classes of \<^verbatim>\<open>RecentList\<close>, the answer of the server (with the builder of
  \<^verbatim>\<open>scenario_protocol.h\<close> that shows its layout) and the messages on friend requests. Each public method is one function, its mutex making the call a step. The
  shelf is what both keep: the published snapshot and a ring of the eight before it, so that a text the game holds a pointer to is not freed under it. The
  roster is shown to be the map of friends the messages leave, sorted and counted; the reader of recently met players to invert the builder, with the one
  answer it refuses.
\<close>

subsection \<open>Login (src/src/core)\<close>

text \<open>
  In \<^verbatim>\<open>src/src/core\<close>: \<^verbatim>\<open>Auth_Token\<close> is \<^verbatim>\<open>auth_token_model.h\<close> (claims, expiry, the credentials file; the JSON library is a parameter with the named hypothesis that it reads back what it wrote),
  \<^verbatim>\<open>Device_Login\<close> is \<^verbatim>\<open>device_poll_response.cpp\<close> and \<^verbatim>\<open>auth_refresh.cpp\<close>, \<^verbatim>\<open>Device_Flow\<close> both loops of \<^verbatim>\<open>device_auth_flow.cpp\<close> over a world of any type (server, clock, sleep, cancellation).
  Both loops are \<^verbatim>\<open>partial_function\<close>s, so that not returning is a value: the poll loop is shown to return, after at most 99 polls, when the clock does not
  run back; the outer loop of a server returns at the first attempt that neither ran out nor failed to reach the service.
\<close>

subsection \<open>Concurrency and logging\<close>

text \<open>
  \<^verbatim>\<open>Reader_Gate\<close> (\<^verbatim>\<open>src/src/core/reader_gate.h\<close>) and \<^verbatim>\<open>Call_Ring\<close> (\<^verbatim>\<open>call_ring.h\<close>) are step relations, one event per atomic access, any number of threads;
  the code uses sequentially consistent accesses, so interleavings are its behaviours. \<^verbatim>\<open>Rate_Limiter\<close> is \<^verbatim>\<open>src/src/runtime/log/rate_limiter.h\<close> with
  \<^verbatim>\<open>collapse_format_rules.h\<close>. \<^verbatim>\<open>Lobby_Hold\<close> is \<^verbatim>\<open>src/src/runtime/lifecycle/return_to_lobby_hold.h\<close>.
\<close>

section \<open>What is not modelled\<close>

text \<open>
  Hooks, patches and the combat gear (\<^verbatim>\<open>src/src/runtime/hook\<close>, \<^verbatim>\<open>patch\<close>, \<^verbatim>\<open>combat\<close>, \<^verbatim>\<open>src/src/quest/sentinel\<close>, \<^verbatim>\<open>quest/combat\<close>) act on the memory of a game that is not in
  the repository; \<^verbatim>\<open>src/src/reconstruction\<close> is decompiled reference code; the symbol cache is a generated table. Sockets, curl, threads, files, the loader of
  plug-ins and the crash handlers are calls of an operating system around what is modelled here: \<^verbatim>\<open>FileSource\<close> is a descriptor, the
  credentials file is read and written elsewhere. Third-party code (zlib, nettle, the JSON and YAML libraries, Luau) is a parameter or left
  out.

  Of the data step, the events, the texts for the player, the probes of the tests, \<^verbatim>\<open>ApkPathForLibrary\<close> and the transport that drives libcurl are left out.

  Next, in this order: the session router and the legacy codec of \<^verbatim>\<open>src/src/runtime/compat\<close>; the configuration options
  (\<^verbatim>\<open>src/src/core/nevr_config.cpp\<close>); the update swap as a state machine over a file system.
\<close>

end
